(* ===== verification/GoPrelude.thy ===== *)
theory GoPrelude
  imports Main "HOL-Library.Word" "HOL-Library.Code_Target_Numeral"
begin

section \<open>Shared vocabulary of the development\<close>

text \<open>
  What every component theory uses: the machine integer types of the Go sources, results
  with an error value, the big-endian codecs of Go's \<^verbatim>\<open>encoding/binary\<close>, slicing with the
  run-time bounds check, the part of Go's \<^verbatim>\<open>strings\<close> and \<^verbatim>\<open>bytes\<close> packages that the sources
  call, and the interface of a wire codec as a locale.  Go byte slices that hold protocol
  headers are lists of 8-bit words; Go strings and text buffers are lists of \<open>char\<close>, one
  \<open>char\<close> per byte, as in Go.
\<close>

type_synonym byte = "8 word"
type_synonym u16 = "16 word"
type_synonym u32 = "32 word"
type_synonym u64 = "64 word"

named_theorems wire_simps \<open>lengths and values of encoded fields\<close>
named_theorems res_simps \<open>how results with an error value combine\<close>

subsection \<open>Results with an error value\<close>

text \<open>A Go function that returns \<^verbatim>\<open>(T, error)\<close> yields \<open>Inl e\<close> or \<open>Inr v\<close>;
  \<open>res_bind\<close> is the \<^verbatim>\<open>if err != nil { return ..., err }\<close> that follows such a call.\<close>

definition res_bind :: "'e + 'a \<Rightarrow> ('a \<Rightarrow> 'e + 'b) \<Rightarrow> 'e + 'b" where
  "res_bind r f = (case r of Inl e \<Rightarrow> Inl e | Inr v \<Rightarrow> f v)"

lemma res_bind_Inl [simp, res_simps]: "res_bind (Inl e) f = Inl e"
  by (simp add: res_bind_def)

lemma res_bind_Inr [simp, res_simps]: "res_bind (Inr v) f = f v"
  by (simp add: res_bind_def)

lemma res_bind_eq_Inr [res_simps]: "res_bind r f = Inr w \<longleftrightarrow> (\<exists>v. r = Inr v \<and> f v = Inr w)"
  by (cases r) auto

lemma res_bind_eq_Inl: "res_bind r f = Inl e \<longleftrightarrow> r = Inl e \<or> (\<exists>v. r = Inr v \<and> f v = Inl e)"
  by (cases r) auto

subsection \<open>Words as naturals\<close>

lemma unat_byte_less [simp]: "unat (b :: byte) < 256"
  using unsigned_less [of b] by simp

lemma unat_byte_le [simp]: "unat (b :: byte) \<le> 255"
  using unat_byte_less [of b] by linarith

lemma unat_u16_less [simp]: "unat (w :: u16) < 65536"
  using unsigned_less [of w] by simp

lemma unat_u32_less [simp]: "unat (w :: u32) < 4294967296"
  using unsigned_less [of w] by simp

lemma unat_u64_less [simp]: "unat (w :: u64) < 18446744073709551616"
  using unsigned_less [of w] by simp

lemma unat_of_nat_byte [simp]: "unat (of_nat n :: byte) = n mod 256"
  by (simp add: unat_of_nat)

lemma unat_of_nat_u16 [simp]: "unat (of_nat n :: u16) = n mod 65536"
  by (simp add: unat_of_nat)

lemma unat_of_nat_u32 [simp]: "unat (of_nat n :: u32) = n mod 4294967296"
  by (simp add: unat_of_nat)

lemma unat_of_nat_u64 [simp]: "unat (of_nat n :: u64) = n mod 18446744073709551616"
  by (simp add: unat_of_nat)

subsection \<open>Big-endian fields: encoding/binary\<close>

text \<open>\<open>be_bytes n x\<close> is what \<^verbatim>\<open>binary.BigEndian.PutUint\<close> writes for the low \<open>n\<close> bytes of
  \<open>x\<close>; \<open>be_nat\<close> is what \<^verbatim>\<open>binary.BigEndian.Uint\<close> reads from a subslice of that length.\<close>

primrec be_bytes :: "nat \<Rightarrow> nat \<Rightarrow> byte list" where
  "be_bytes 0 x = []"
| "be_bytes (Suc n) x = be_bytes n (x div 256) @ [of_nat x]"

definition be_nat :: "byte list \<Rightarrow> nat" where
  "be_nat bs = foldl (\<lambda>a b. a * 256 + unat b) 0 bs"

lemma be_nat_Nil [simp]: "be_nat [] = 0"
  by (simp add: be_nat_def)

lemma be_nat_snoc [simp]: "be_nat (bs @ [b]) = be_nat bs * 256 + unat b"
  by (simp add: be_nat_def)

lemma be_nat_two: "be_nat [a, b] = unat a * 256 + unat b"
  by (simp add: be_nat_def)

lemma be_nat_four: "be_nat [a, b, c, d] = ((unat a * 256 + unat b) * 256 + unat c) * 256 + unat d"
  by (simp add: be_nat_def)

lemma length_be_bytes [simp, wire_simps]: "length (be_bytes n x) = n"
  by (induction n arbitrary: x) auto

lemma be_nat_be_bytes [wire_simps]: "be_nat (be_bytes n x) = x mod 256 ^ n"
proof (induction n arbitrary: x)
  case (Suc n)
  then show ?case using mod_mult2_eq [of x 256 "256 ^ n"] by (simp add: ac_simps)
qed simp

lemma be_nat_bound: "be_nat bs < 256 ^ length bs"
proof (induction bs rule: rev_induct)
  case (snoc b bs)
  have "be_nat bs * 256 + unat b < (be_nat bs + 1) * 256"
    using unat_byte_less [of b] by (simp add: algebra_simps)
  also have "\<dots> \<le> 256 ^ length bs * 256"
    using snoc by (intro mult_right_mono) auto
  finally show ?case by simp
qed simp

lemma byte_times_256 [simp]: "x * 256 = (0 :: byte)"
proof -
  have "(256 :: byte) = 0" by simp
  then show ?thesis by (simp only: mult_zero_right)
qed

lemma be_bytes_be_nat [simp]: "be_bytes (length bs) (be_nat bs) = bs"
  by (induction bs rule: rev_induct) auto

lemma be_bytes_be_nat_eq: "length bs = n \<Longrightarrow> be_bytes n (be_nat bs) = bs"
  using be_bytes_be_nat [of bs] by simp

lemma be_bytes_2: "be_bytes 2 x = [of_nat (x div 256), of_nat x]"
  by (simp add: numeral_2_eq_2)

lemma be_bytes_4:
  "be_bytes 4 x = [of_nat (x div 256 div 256 div 256), of_nat (x div 256 div 256),
     of_nat (x div 256), of_nat x]"
proof -
  have "be_bytes (Suc (Suc (Suc (Suc 0)))) x =
    [of_nat (x div 256 div 256 div 256), of_nat (x div 256 div 256), of_nat (x div 256), of_nat x]"
    by (simp only: be_bytes.simps append.simps)
  moreover have "Suc (Suc (Suc (Suc 0))) = 4" by simp
  ultimately show ?thesis by (simp only:)
qed

abbreviation put16 :: "u16 \<Rightarrow> byte list" where "put16 w \<equiv> be_bytes 2 (unat w)"
abbreviation put32 :: "u32 \<Rightarrow> byte list" where "put32 w \<equiv> be_bytes 4 (unat w)"
abbreviation put64 :: "u64 \<Rightarrow> byte list" where "put64 w \<equiv> be_bytes 8 (unat w)"

definition get16 :: "byte list \<Rightarrow> u16" where "get16 bs = of_nat (be_nat bs)"
definition get32 :: "byte list \<Rightarrow> u32" where "get32 bs = of_nat (be_nat bs)"
definition get64 :: "byte list \<Rightarrow> u64" where "get64 bs = of_nat (be_nat bs)"

lemma get16_put16 [simp, wire_simps]: "get16 (put16 w) = w"
  by (simp add: get16_def be_nat_be_bytes)

lemma get32_put32 [simp, wire_simps]: "get32 (put32 w) = w"
  by (simp add: get32_def be_nat_be_bytes)

lemma get64_put64 [simp, wire_simps]: "get64 (put64 w) = w"
  by (simp add: get64_def be_nat_be_bytes)

lemma unat_get16: "length bs = 2 \<Longrightarrow> unat (get16 bs) = be_nat bs"
  using be_nat_bound [of bs] by (simp add: get16_def)

lemma unat_get32: "length bs = 4 \<Longrightarrow> unat (get32 bs) = be_nat bs"
  using be_nat_bound [of bs] by (simp add: get32_def)

lemma unat_get64: "length bs = 8 \<Longrightarrow> unat (get64 bs) = be_nat bs"
  using be_nat_bound [of bs] by (simp add: get64_def)

lemma put16_get16: "length bs = 2 \<Longrightarrow> put16 (get16 bs) = bs"
  by (simp add: unat_get16 be_bytes_be_nat_eq)

lemma put32_get32: "length bs = 4 \<Longrightarrow> put32 (get32 bs) = bs"
  by (simp add: unat_get32 be_bytes_be_nat_eq)

lemma put64_get64: "length bs = 8 \<Longrightarrow> put64 (get64 bs) = bs"
  by (simp add: unat_get64 be_bytes_be_nat_eq)

subsection \<open>Slices\<close>

text \<open>\<open>subslice xs i j\<close> is Go's \<^verbatim>\<open>xs[i:j]\<close> for bounds the code has checked; \<open>subslice_at\<close> is the
  same expression where it has not: \<open>None\<close> is the run-time panic.\<close>

definition subslice :: "'a list \<Rightarrow> nat \<Rightarrow> nat \<Rightarrow> 'a list" where
  "subslice xs i j = take (j - i) (drop i xs)"

definition subslice_at :: "'a list \<Rightarrow> nat \<Rightarrow> nat \<Rightarrow> 'a list option" where
  "subslice_at xs i j = (if i \<le> j \<and> j \<le> length xs then Some (subslice xs i j) else None)"

lemma length_subslice [simp, wire_simps]: "j \<le> length xs \<Longrightarrow> length (subslice xs i j) = j - i"
  by (simp add: subslice_def)

lemma subslice_append_left: "j \<le> length xs \<Longrightarrow> subslice (xs @ ys) i j = subslice xs i j"
  by (simp add: subslice_def)

lemma subslice_append_right:
  "length xs \<le> i \<Longrightarrow> subslice (xs @ ys) i j = subslice ys (i - length xs) (j - length xs)"
  by (simp add: subslice_def)

lemma subslice_full [simp]: "subslice xs 0 (length xs) = xs"
  by (simp add: subslice_def)

lemma subslice_empty [simp]: "subslice xs i i = []"
  by (simp add: subslice_def)

lemma take_drop_subslice: "i \<le> j \<Longrightarrow> take i xs @ subslice xs i j @ drop j xs = xs"
  by (simp add: subslice_def) (metis append_take_drop_id drop_drop le_add_diff_inverse2)

lemma subslice_split: "i \<le> j \<Longrightarrow> j \<le> k \<Longrightarrow> subslice xs i j @ subslice xs j k = subslice xs i k"
proof -
  assume "i \<le> j" and "j \<le> k"
  then have "k - i = (j - i) + (k - j)" and "drop j xs = drop (j - i) (drop i xs)" by simp_all
  then show ?thesis by (simp add: subslice_def take_add)
qed

lemma nth_subslice [simp]: "i + k < j \<Longrightarrow> j \<le> length xs \<Longrightarrow> subslice xs i j ! k = xs ! (i + k)"
  by (simp add: subslice_def)

lemma drop_shrinks: "0 < n \<Longrightarrow> xs \<noteq> [] \<Longrightarrow> length (drop n xs) < length xs"
  by (cases xs) auto

subsection \<open>Fields written and read in place\<close>

text \<open>\<open>u16_at xs i\<close> is \<^verbatim>\<open>binary.BigEndian.Uint16(xs[i:i+2])\<close> and \<open>put16_at\<close> the
  \<^verbatim>\<open>PutUint16\<close> at the same place.\<close>

definition u16_at :: "byte list \<Rightarrow> nat \<Rightarrow> u16" where
  "u16_at xs i = get16 (subslice xs i (i + 2))"

definition put16_at :: "byte list \<Rightarrow> nat \<Rightarrow> u16 \<Rightarrow> byte list" where
  "put16_at xs i w = xs[i := of_nat (unat w div 256), i + 1 := of_nat (unat w)]"

lemma subslice_two: "i + 1 < length xs \<Longrightarrow> subslice xs i (i + 2) = [xs ! i, xs ! (i + 1)]"
proof -
  assume "i + 1 < length xs"
  then have "drop i xs = xs ! i # xs ! (i + 1) # drop (i + 2) xs"
    by (simp add: Cons_nth_drop_Suc)
  then show ?thesis by (simp add: subslice_def)
qed

lemma u16_at_nth: "i + 1 < length xs \<Longrightarrow> u16_at xs i = get16 [xs ! i, xs ! (i + 1)]"
  unfolding u16_at_def by (simp only: subslice_two)

lemma length_put16_at [simp, wire_simps]: "length (put16_at xs i w) = length xs"
  by (simp add: put16_at_def)

lemma nth_put16_at [simp]:
  "k \<noteq> i \<Longrightarrow> k \<noteq> i + 1 \<Longrightarrow> put16_at xs i w ! k = xs ! k"
  by (simp add: put16_at_def)

lemma u16_at_put16_at [simp]: "i + 1 < length xs \<Longrightarrow> u16_at (put16_at xs i w) i = w"
  using get16_put16 [of w] by (simp add: u16_at_nth put16_at_def be_bytes_2)

lemma u16_at_put16_at_other:
  "k + 1 < i \<or> i + 1 < k \<Longrightarrow> k + 1 < length xs \<Longrightarrow> u16_at (put16_at xs i w) k = u16_at xs k"
  by (auto simp: u16_at_nth put16_at_def)

lemma put16_at_self: "i + 1 < length xs \<Longrightarrow> put16_at xs i (u16_at xs i) = xs"
proof -
  assume i: "i + 1 < length xs"
  have "[of_nat (unat (u16_at xs i) div 256), of_nat (unat (u16_at xs i))] = [xs ! i, xs ! (i + 1)]"
    using put16_get16 [of "[xs ! i, xs ! (i + 1)]"] i by (simp only: u16_at_nth be_bytes_2) simp
  then show ?thesis by (simp add: put16_at_def)
qed

lemma take_put16_at_before: "n \<le> i \<Longrightarrow> take n (put16_at xs i w) = take n xs"
  by (simp add: put16_at_def)

lemma drop_put16_at_after: "i + 2 \<le> n \<Longrightarrow> drop n (put16_at xs i w) = drop n xs"
  by (simp add: put16_at_def)

lemma take_put16_at: "i + 2 \<le> n \<Longrightarrow> take n (put16_at xs i w) = put16_at (take n xs) i w"
  by (simp add: put16_at_def take_update_swap)

lemma subslice_put16_at:
  "j \<le> i \<or> i + 2 \<le> k \<Longrightarrow> subslice (put16_at xs i w) k j = subslice xs k j"
  by (rule nth_equalityI) (auto simp: subslice_def)

lemma put16_at_append: "i + 1 < length xs \<Longrightarrow> put16_at (xs @ ys) i w = put16_at xs i w @ ys"
  by (simp add: put16_at_def list_update_append)

subsection \<open>A wire codec\<close>

text \<open>The interface every message format of the sources has: an encoder, a decoder that may
  refuse, and the values that fit the format's field widths.\<close>

locale wire_codec =
  fixes enc :: "'a \<Rightarrow> 'w"
    and dec :: "'w \<Rightarrow> 'e + 'a"
    and fits :: "'a \<Rightarrow> bool"
  assumes dec_enc: "fits x \<Longrightarrow> dec (enc x) = Inr x"
begin

lemma enc_inj_on: "inj_on enc {x. fits x}"
  by (rule inj_onI) (metis Inr_inject dec_enc mem_Collect_eq)

lemma enc_eq_iff: "fits x \<Longrightarrow> fits y \<Longrightarrow> enc x = enc y \<longleftrightarrow> x = y"
  using enc_inj_on by (auto dest: inj_onD)

lemma dec_unambiguous: "fits x \<Longrightarrow> fits y \<Longrightarrow> x \<noteq> y \<Longrightarrow> dec (enc x) \<noteq> dec (enc y)"
  by (simp add: dec_enc)

end

end
