(* ===== verification/GoText.thy ===== *)
theory GoText
  imports GoPrelude "HOL-Library.Sublist"
begin

section \<open>Go strings\<close>

text \<open>
  The functions of Go's \<^verbatim>\<open>strings\<close> and \<^verbatim>\<open>bytes\<close> packages that the components call, on
  strings as lists of bytes (\<open>char\<close>).  \<open>TrimSpace\<close> is exact: besides the ASCII spaces it knows the
  UTF-8 encodings of the other code points of \<^verbatim>\<open>unicode.IsSpace\<close>.  \<open>ToLower\<close> maps the ASCII
  letters and keeps every other byte, which is what Go does on ASCII strings; the sources apply
  it to protocol tokens only.
\<close>

definition byte_char :: "nat \<Rightarrow> char" where
  "byte_char n = char_of n"

abbreviation char_code :: "char \<Rightarrow> nat" where
  "char_code c \<equiv> of_char c"

lemma char_code_less [simp]: "char_code c < 256"
  using of_char_mod_256 [of c, where 'a = nat] by (metis mod_less_divisor zero_less_numeral)

definition CRLF :: string where "CRLF = [byte_char 13, byte_char 10]"

definition ascii_spaces :: "string list" where
  "ascii_spaces = map (\<lambda>n. [byte_char n]) [9, 10, 11, 12, 13, 32]"

definition utf8_spaces :: "string list" where
  "utf8_spaces =
     map (map byte_char)
       ([[0xc2, 0x85], [0xc2, 0xa0], [0xe1, 0x9a, 0x80], [0xe2, 0x80, 0xa8], [0xe2, 0x80, 0xa9],
         [0xe2, 0x80, 0xaf], [0xe2, 0x81, 0x9f], [0xe3, 0x80, 0x80]] @
        map (\<lambda>n. [0xe2, 0x80, n]) [0x80 ..< 0x8b])"

definition go_spaces :: "string list" where
  "go_spaces = ascii_spaces @ utf8_spaces"

lemma go_spaces_nonempty: "sp \<in> set go_spaces \<Longrightarrow> sp \<noteq> []"
  by (auto simp: go_spaces_def ascii_spaces_def utf8_spaces_def)

text \<open>Drop one of the given prefixes as long as one is there.\<close>

function trim_prefixes :: "string list \<Rightarrow> string \<Rightarrow> string" where
  "trim_prefixes ps s =
     (case find (\<lambda>p. p \<noteq> [] \<and> prefix p s) ps of
        None \<Rightarrow> s
      | Some p \<Rightarrow> trim_prefixes ps (drop (length p) s))"
  by auto
termination
proof (relation "measure (\<lambda>(ps, s). length s)")
  fix ps s p
  assume "find (\<lambda>p. p \<noteq> [] \<and> prefix p s) ps = Some p"
  then have "p \<noteq> []" and "prefix p s" by (auto simp: find_Some_iff)
  then have "0 < length p" and "length p \<le> length s" by (auto dest: prefix_length_le)
  then have "length s - length p < length s" by linarith
  then show "((ps, drop (length p) s), (ps, s)) \<in> measure (\<lambda>(ps, s). length s)" by simp
qed simp

declare trim_prefixes.simps [simp del]

definition TrimSpace :: "string \<Rightarrow> string" where
  "TrimSpace s =
     rev (trim_prefixes (map rev go_spaces) (rev (trim_prefixes go_spaces s)))"

text \<open>A string of printable ASCII characters has nothing to trim.\<close>

definition printable :: "char \<Rightarrow> bool" where
  "printable c \<longleftrightarrow> 32 < char_code c \<and> char_code c < 127"

lemma go_spaces_ends: "p \<in> set go_spaces \<Longrightarrow> \<not> printable (hd p) \<and> \<not> printable (last p)"
  by (auto simp: go_spaces_def ascii_spaces_def utf8_spaces_def printable_def byte_char_def hd_map last_map
      split: if_splits)

lemma trim_prefixes_none: "\<forall>p \<in> set ps. p = [] \<or> \<not> prefix p s \<Longrightarrow> trim_prefixes ps s = s"
  by (subst trim_prefixes.simps) (auto split: option.split simp: find_Some_iff)

lemma TrimSpace_printable:
  assumes "\<forall>c \<in> set s. printable c"
  shows "TrimSpace s = s"
proof -
  have l: "trim_prefixes go_spaces s = s"
  proof (rule trim_prefixes_none, intro ballI)
    fix p assume p: "p \<in> set go_spaces"
    show "p = [] \<or> \<not> prefix p s"
    proof (cases p)
      case (Cons c cs)
      then show ?thesis using go_spaces_ends [OF p] assms by (cases s) auto
    qed simp
  qed
  have r: "trim_prefixes (map rev go_spaces) (rev s) = rev s"
  proof (rule trim_prefixes_none, intro ballI)
    fix p assume "p \<in> set (map rev go_spaces)"
    then obtain q where q: "p = rev q" "q \<in> set go_spaces" by auto
    show "p = [] \<or> \<not> prefix p (rev s)"
    proof (cases q rule: rev_cases)
      case (snoc cs c)
      then show ?thesis using go_spaces_ends [OF q(2)] assms q(1)
        by (cases s rule: rev_cases) auto
    qed (simp add: q)
  qed
  show ?thesis by (simp add: TrimSpace_def l r)
qed

definition TrimQuotes :: "string \<Rightarrow> string" where
  "TrimQuotes s =
     rev (dropWhile (\<lambda>c. c = CHR 0x22) (rev (dropWhile (\<lambda>c. c = CHR 0x22) s)))"

definition lower_char :: "char \<Rightarrow> char" where
  "lower_char c = (if 65 \<le> char_code c \<and> char_code c \<le> 90 then byte_char (char_code c + 32) else c)"

definition ToLower :: "string \<Rightarrow> string" where
  "ToLower = map lower_char"

lemma char_code_byte_char: "n < 256 \<Longrightarrow> char_code (byte_char n) = n"
  by (simp add: byte_char_def)

lemma lower_char_idem [simp]: "lower_char (lower_char c) = lower_char c"
  by (simp add: lower_char_def char_code_byte_char)

lemma ToLower_idem [simp]: "ToLower (ToLower s) = ToLower s"
  by (simp add: ToLower_def)

lemma length_ToLower [simp]: "length (ToLower s) = length s"
  by (simp add: ToLower_def)

text \<open>\<^verbatim>\<open>strings.ToUpper\<close> on ASCII.\<close>

definition upper_char :: "char \<Rightarrow> char" where
  "upper_char c = (if 97 \<le> char_code c \<and> char_code c \<le> 122 then byte_char (char_code c - 32) else c)"

definition ToUpper :: "string \<Rightarrow> string" where
  "ToUpper = map upper_char"

lemma upper_char_idem [simp]: "upper_char (upper_char c) = upper_char c"
  by (auto simp: upper_char_def char_code_byte_char less_imp_diff_less)

lemma ToUpper_idem [simp]: "ToUpper (ToUpper s) = ToUpper s"
  by (simp add: ToUpper_def)

definition EqualFold :: "string \<Rightarrow> string \<Rightarrow> bool" where
  "EqualFold a b \<longleftrightarrow> ToLower a = ToLower b"

subsection \<open>Searching\<close>

text \<open>\<open>index_of pat s\<close> is \<^verbatim>\<open>bytes.Index(s, pat)\<close>; \<open>None\<close> stands for -1.\<close>

fun index_of :: "'a list \<Rightarrow> 'a list \<Rightarrow> nat option" where
  "index_of pat [] = (if pat = [] then Some 0 else None)"
| "index_of pat (c # s) =
     (if prefix pat (c # s) then Some 0 else map_option Suc (index_of pat s))"

lemma index_of_Some:
  "index_of pat s = Some i \<Longrightarrow>
     i + length pat \<le> length s \<and> prefix pat (drop i s) \<and> (\<forall>j < i. \<not> prefix pat (drop j s))"
proof (induction s arbitrary: i)
  case (Cons c s)
  show ?case
  proof (cases "prefix pat (c # s)")
    case True
    then have "i = 0" using Cons.prems by simp
    then show ?thesis using prefix_length_le [OF True] True by simp
  next
    case False
    then obtain k where k: "index_of pat s = Some k" "i = Suc k" using Cons.prems by auto
    note ih = Cons.IH [OF k(1)]
    have "\<not> prefix pat (drop j (c # s))" if "j < i" for j
      using that False ih k(2) by (cases j) auto
    then show ?thesis using ih k(2) by simp
  qed
qed (auto split: if_splits)

lemma index_of_None: "index_of pat s = None \<longleftrightarrow> (\<forall>j \<le> length s. \<not> prefix pat (drop j s))"
proof (induction s)
  case (Cons c s)
  have "(\<forall>j \<le> length (c # s). \<not> prefix pat (drop j (c # s))) \<longleftrightarrow>
      \<not> prefix pat (c # s) \<and> (\<forall>j \<le> length s. \<not> prefix pat (drop j s))"
    by (auto simp: drop_Cons')
  then show ?case using Cons by simp
qed simp

lemma index_of_first:
  assumes "prefix pat (drop i s)" and "i \<le> length s" and "\<forall>j < i. \<not> prefix pat (drop j s)"
  shows "index_of pat s = Some i"
proof -
  obtain k where k: "index_of pat s = Some k" using assms(1,2) index_of_None [of pat s] by (cases "index_of pat s") auto
  note K = index_of_Some [OF k]
  have "k = i" using K assms by (meson nat_neq_iff)
  then show ?thesis using k by simp
qed

definition contains_sub :: "'a list \<Rightarrow> 'a list \<Rightarrow> bool" where
  "contains_sub s pat \<longleftrightarrow> index_of pat s \<noteq> None"

subsection \<open>Splitting\<close>

text \<open>\<^verbatim>\<open>bytes.Split(s, sep)\<close> and \<^verbatim>\<open>strings.Split\<close> for a separator that is not empty.\<close>

function split_on :: "'a list \<Rightarrow> 'a list \<Rightarrow> 'a list list" where
  "split_on sep s =
     (case index_of sep s of
        None \<Rightarrow> [s]
      | Some i \<Rightarrow>
          if sep = [] then [s] else take i s # split_on sep (drop (i + length sep) s))"
  by auto
termination
proof (relation "measure (\<lambda>(sep, s). length s)")
  fix sep s :: "'a list" and i
  assume "index_of sep s = Some i" and "sep \<noteq> []"
  then have "i + length sep \<le> length s" and "0 < length sep" by (auto dest: index_of_Some)
  then have "length s - (i + length sep) < length s" by linarith
  then show "((sep, drop (i + length sep) s), sep, s) \<in> measure (\<lambda>(sep, s). length s)" by simp
qed simp

declare split_on.simps [simp del]

text \<open>\<^verbatim>\<open>strings.Cut(s, sep)\<close>: what is before and after the first separator, if there is one.\<close>

definition cut_at :: "'a list \<Rightarrow> 'a list \<Rightarrow> ('a list \<times> 'a list) option" where
  "cut_at sep s = map_option (\<lambda>i. (take i s, drop (i + length sep) s)) (index_of sep s)"

lemma index_of_append:
  assumes "index_of pat s = Some i"
  shows "index_of pat (s @ t) = Some i"
proof (rule index_of_first)
  note I = index_of_Some [OF assms]
  show "prefix pat (drop i (s @ t))" using I by (auto simp: prefix_def)
  show "i \<le> length (s @ t)" using I by simp
  show "\<forall>j < i. \<not> prefix pat (drop j (s @ t))"
  proof (intro allI impI notI)
    fix j assume j: "j < i" and p: "prefix pat (drop j (s @ t))"
    have "length pat \<le> length s - j" using I j by linarith
    then have "length pat \<le> length (drop j s)" by simp
    moreover have "prefix pat (drop j s @ t)" using p j I by simp
    ultimately have "prefix pat (drop j s)" by (metis prefix_length_prefix prefixI)
    then show False using I j by simp
  qed
qed

lemma index_of_append_late:
  assumes "index_of pat s = None" and "index_of pat (s @ t) = Some i" and "pat \<noteq> []"
  shows "length s < i + length pat"
proof (rule ccontr)
  assume *: "\<not> length s < i + length pat"
  note I = index_of_Some [OF assms(2)]
  have "prefix pat (drop i s @ t)" using I * by simp
  moreover have "length pat \<le> length (drop i s)" using * by simp
  ultimately have "prefix pat (drop i s)" by (metis prefix_length_prefix prefixI)
  moreover have "i \<le> length s" using * by simp
  ultimately show False using assms(1) index_of_None by blast
qed

end
