(* ===== verification/IpPacket.thy ===== *)
theory IpPacket
  imports GoPrelude
begin

unbundle bit_operations_syntax

section \<open>IPv4 and IPv6 packets under ESP transport mode\<close>

text \<open>
  The packet half of \<^verbatim>\<open>vowifi-go/internal/vowifi/ipsec3gpp/transport.go\<close>: splitting an IP
  packet into its header (for IPv6 with its extension headers) and its payload, putting a new
  payload behind such a header, the IPv4 header checksum.  \<open>ext_chain\<close> is the abstract chain
  of extension headers that the two loops over it (the parser's and the one that finds the
  field naming the payload's protocol) both walk.
\<close>

datatype ip_error =
    IpTooShort | UnsupportedIpVersion byte
  | Ipv4TooShort | Ipv4BadHeaderLength | Ipv4BadTotalLength
  | Ipv6TooShort | Ipv6BadPayloadLength
  | TruncatedExtension | TruncatedExtensionLength
  | MissingIpHeader | Ipv4HeaderTooShort | Ipv4PacketTooLarge
  | Ipv6HeaderTooShort | Ipv6PayloadTooLarge
  | MissingExtension | TruncatedExtensionChain | TrailingHeaderBytes
  | EspTooShort

record parsed_ip =
  pkt_header :: "byte list"
  transportPayload :: "byte list"
  pkt_src :: "byte list"
  pkt_dst :: "byte list"
  srcPort :: nat
  dstPort :: nat
  nextHeader :: byte
  fragmented :: bool

definition ipProtoTCP :: byte where "ipProtoTCP = 6"
definition ipProtoUDP :: byte where "ipProtoUDP = 17"
definition ipProtoESP :: byte where "ipProtoESP = 50"

lemmas ip_protos = ipProtoTCP_def ipProtoUDP_def ipProtoESP_def

definition ihl_of :: "byte \<Rightarrow> nat" where
  "ihl_of b = unat (b AND 15) * 4"

text \<open>The packet as both parsers build it: ports are read when \<open>ports\<close> allows it and the
  payload holds them.\<close>

definition parsed_packet ::
    "byte list \<Rightarrow> byte list \<Rightarrow> byte list \<Rightarrow> byte list \<Rightarrow> byte \<Rightarrow> bool \<Rightarrow> bool \<Rightarrow> parsed_ip" where
  "parsed_packet header payload src dst nh frag ports =
     (let has = (ports \<and> (nh = ipProtoTCP \<or> nh = ipProtoUDP) \<and> length payload \<ge> 4)
      in \<lparr>pkt_header = header, transportPayload = payload, pkt_src = src, pkt_dst = dst,
          srcPort = (if has then unat (u16_at payload 0) else 0),
          dstPort = (if has then unat (u16_at payload 2) else 0),
          nextHeader = nh, fragmented = frag\<rparr>)"

definition parseIPv4Packet :: "byte list \<Rightarrow> ip_error + parsed_ip" where
  "parseIPv4Packet packet0 =
     (if length packet0 < 20 then Inl Ipv4TooShort
      else let ihl = ihl_of (packet0 ! 0) in
      if ihl < 20 \<or> length packet0 < ihl then Inl Ipv4BadHeaderLength
      else let totalLen = unat (u16_at packet0 2) in
      if totalLen < ihl \<or> totalLen > length packet0 then Inl Ipv4BadTotalLength
      else
        let packet = take totalLen packet0;
            fragmentField = u16_at packet 6;
            frag = (fragmentField AND 0x2000 \<noteq> 0 \<or> fragmentField AND 0x1fff \<noteq> 0)
        in Inr (parsed_packet (take ihl packet) (drop ihl packet) (subslice packet 12 16)
             (subslice packet 16 20) (packet ! 9) frag (\<not> frag)))"

definition isIPv6ExtensionHeader :: "byte \<Rightarrow> bool" where
  "isIPv6ExtensionHeader proto \<longleftrightarrow> proto \<in> {0, 43, 44, 51, 60, 135}"

definition ipv6ExtensionHeaderLength :: "byte \<Rightarrow> byte list \<Rightarrow> ip_error + nat" where
  "ipv6ExtensionHeaderLength proto payload =
     (if length payload < 2 then Inl TruncatedExtension
      else let hdrLen =
        (if proto = 44 then 8
         else if proto = 51 then (unat (payload ! 1) + 2) * 4
         else (unat (payload ! 1) + 1) * 8)
      in if hdrLen < 8 \<or> length payload < hdrLen then Inl TruncatedExtensionLength
         else Inr hdrLen)"

lemma extension_length_bounds:
  "ipv6ExtensionHeaderLength proto payload = Inr n \<Longrightarrow> 8 \<le> n \<and> n \<le> length payload"
  by (auto simp: ipv6ExtensionHeaderLength_def Let_def split: if_splits)

text \<open>The parser's loop; its state is the next header, the rest of the payload, the number of
  bytes consumed and whether a fragment header was seen.\<close>

function parse_extensions ::
    "byte list \<Rightarrow> byte \<Rightarrow> nat \<Rightarrow> bool \<Rightarrow> ip_error + (byte \<times> byte list \<times> nat \<times> bool)" where
  "parse_extensions payload nh consumed frag =
     (if isIPv6ExtensionHeader nh then
        (case ipv6ExtensionHeaderLength nh payload of
           Inl e \<Rightarrow> Inl e
         | Inr hdrLen \<Rightarrow>
             parse_extensions (drop hdrLen payload) (payload ! 0) (consumed + hdrLen)
               (frag \<or> nh = 44))
      else Inr (nh, payload, consumed, frag))"
  by auto
termination
  by (relation "measure (\<lambda>(payload, _). length payload)") (auto dest!: extension_length_bounds)

declare parse_extensions.simps [simp del]

definition parseIPv6ExtensionHeaders ::
    "byte list \<Rightarrow> byte \<Rightarrow> ip_error + (byte \<times> byte list \<times> nat \<times> bool)" where
  "parseIPv6ExtensionHeaders payload nh = parse_extensions payload nh 0 False"

definition parseIPv6Packet :: "byte list \<Rightarrow> ip_error + parsed_ip" where
  "parseIPv6Packet packet0 =
     (if length packet0 < 40 then Inl Ipv6TooShort
      else let payloadLen = unat (u16_at packet0 4) in
      if 40 + payloadLen > length packet0 then Inl Ipv6BadPayloadLength
      else
        let packet = take (40 + payloadLen) packet0 in
        res_bind (parseIPv6ExtensionHeaders (drop 40 packet) (packet ! 6))
          (\<lambda>(nh, payload, extensionLength, frag).
             Inr (parsed_packet (take (40 + extensionLength) packet) payload (subslice packet 8 24)
               (subslice packet 24 40) nh frag True)))"

definition parseIPPacket :: "byte list \<Rightarrow> ip_error + parsed_ip" where
  "parseIPPacket packet =
     (if length packet < 1 then Inl IpTooShort
      else let v = drop_bit 4 (packet ! 0) in
      if v = 4 then parseIPv4Packet packet
      else if v = 6 then parseIPv6Packet packet
      else Inl (UnsupportedIpVersion v))"

subsection \<open>The IPv4 header checksum\<close>

fun checksum_sum :: "byte list \<Rightarrow> u32 \<Rightarrow> u32" where
  "checksum_sum (a # b # rest) acc = checksum_sum rest (acc + ucast (get16 [a, b]))"
| "checksum_sum _ acc = acc"

lemma unat_high_half: "unat (drop_bit 16 acc) = unat (acc :: u32) div 65536"
  by (simp add: drop_bit_eq_div unat_div)

lemma unat_low_half: "unat (acc AND 0xffff) = unat (acc :: u32) mod 65536"
proof -
  have "acc AND 0xffff = take_bit 16 acc" by (simp add: take_bit_eq_mask mask_eq_exp_minus_1)
  then show ?thesis by (simp add: take_bit_eq_mod unat_mod)
qed

lemma fold_step_less:
  fixes acc :: u32
  assumes "drop_bit 16 acc \<noteq> 0"
  shows "unat ((acc AND 0xffff) + drop_bit 16 acc) < unat acc"
proof -
  note d = unat_high_half [of acc] and m = unat_low_half [of acc]
  have "unat acc div 65536 \<noteq> 0" using assms d by (metis unat_eq_zero)
  moreover have "unat ((acc AND 0xffff) + drop_bit 16 acc) \<le> unat acc mod 65536 + unat acc div 65536"
    by (simp add: unat_word_ariths m d)
  moreover have "unat acc = unat acc div 65536 * 65536 + unat acc mod 65536" by simp
  ultimately show ?thesis by linarith
qed

function checksum_fold :: "u32 \<Rightarrow> u32" where
  "checksum_fold acc =
     (if drop_bit 16 acc \<noteq> 0 then checksum_fold ((acc AND 0xffff) + drop_bit 16 acc) else acc)"
  by auto
termination
  by (relation "measure unat") (auto intro: fold_step_less)

declare checksum_fold.simps [simp del]

definition ipv4HeaderChecksum :: "byte list \<Rightarrow> u16" where
  "ipv4HeaderChecksum header = NOT (ucast (checksum_fold (checksum_sum header 0)))"

definition updateIPv4HeaderChecksum :: "byte list \<Rightarrow> byte list" where
  "updateIPv4HeaderChecksum hdr0 =
     (if length hdr0 < 20 then hdr0
      else let ihl = ihl_of (hdr0 ! 0) in
      if ihl < 20 \<or> length hdr0 < ihl then hdr0
      else let hdr = hdr0[10 := 0, 11 := 0] in
           put16_at hdr 10 (ipv4HeaderChecksum (take ihl hdr)))"

subsection \<open>A new payload behind a parsed header\<close>

function final_next_header ::
    "byte list \<Rightarrow> byte \<Rightarrow> nat \<Rightarrow> nat \<Rightarrow> ip_error + nat" where
  "final_next_header header nh nextHeaderOffset offset =
     (if isIPv6ExtensionHeader nh then
        (if offset \<ge> length header then Inl MissingExtension
         else case ipv6ExtensionHeaderLength nh (drop offset header) of
            Inl e \<Rightarrow> Inl e
          | Inr hdrLen \<Rightarrow>
              if offset + hdrLen > length header then Inl TruncatedExtensionChain
              else final_next_header header (header ! offset) offset (offset + hdrLen))
      else if offset \<noteq> length header then Inl TrailingHeaderBytes
      else Inr nextHeaderOffset)"
  by auto
termination
  by (relation "measure (\<lambda>(header, _, _, offset). length header - offset)")
    (auto dest!: extension_length_bounds)

declare final_next_header.simps [simp del]

definition ipv6FinalNextHeaderOffset :: "byte list \<Rightarrow> ip_error + nat" where
  "ipv6FinalNextHeaderOffset header =
     (if length header < 40 then Inl Ipv6HeaderTooShort
      else final_next_header header (header ! 6) 6 40)"

definition replaceIPPayload :: "byte list \<Rightarrow> byte list \<Rightarrow> byte \<Rightarrow> ip_error + byte list" where
  "replaceIPPayload header payload nextProto =
     (if length header < 1 then Inl MissingIpHeader
      else let v = drop_bit 4 (header ! 0) in
      if v = 4 then
        (if length header < 20 then Inl Ipv4HeaderTooShort
         else let ihl = ihl_of (header ! 0) in
         if ihl < 20 \<or> length header < ihl then Inl Ipv4BadHeaderLength
         else let out = header @ payload; total = length out in
         if total > 0xffff then Inl Ipv4PacketTooLarge
         else Inr (updateIPv4HeaderChecksum ((put16_at out 2 (of_nat total))[9 := nextProto])))
      else if v = 6 then
        (if length header < 40 then Inl Ipv6HeaderTooShort
         else res_bind (ipv6FinalNextHeaderOffset header) (\<lambda>nextHeaderOffset.
           let out = header @ payload in
           if length out - 40 > 0xffff then Inl Ipv6PayloadTooLarge
           else Inr ((put16_at out 4 (of_nat (length out - 40)))[nextHeaderOffset := nextProto])))
      else Inl (UnsupportedIpVersion v))"

definition parseESPSPISeq :: "byte list \<Rightarrow> ip_error + (u32 \<times> u32)" where
  "parseESPSPISeq esp =
     (if length esp < 8 then Inl EspTooShort
      else Inr (get32 (subslice esp 0 4), get32 (subslice esp 4 8)))"

section \<open>The checksum\<close>

fun word_sum :: "byte list \<Rightarrow> nat" where
  "word_sum (a # b # rest) = be_nat [a, b] + word_sum rest"
| "word_sum _ = 0"

definition ones_fold :: "nat \<Rightarrow> nat" where
  "ones_fold n = (if n = 0 then 0 else if n mod 65535 = 0 then 65535 else n mod 65535)"

lemma word_sum_bound: "word_sum bs \<le> 65535 * (length bs div 2)"
proof (induction bs rule: word_sum.induct)
  case (1 a b rest)
  then show ?case using be_nat_bound [of "[a, b]"] by simp
qed auto

lemma word_sum_put16_at:
  "2 * k + 1 < length bs \<Longrightarrow>
     word_sum (put16_at bs (2 * k) w) + unat (u16_at bs (2 * k)) = word_sum bs + unat w"
proof (induction bs arbitrary: k rule: word_sum.induct)
  case (1 a b rest)
  show ?case
  proof (cases k)
    case 0
    have "be_nat [of_nat (unat w div 256), of_nat (unat w)] = unat w"
      using be_nat_be_bytes [of 2 "unat w"] by (simp add: be_bytes_2)
    moreover have "unat (u16_at (a # b # rest) 0) = be_nat [a, b]"
      by (simp add: u16_at_nth unat_get16)
    ultimately show ?thesis using 0 by (simp add: put16_at_def)
  next
    case (Suc j)
    have "put16_at (a # b # rest) (2 * k) w = a # b # put16_at rest (2 * j) w"
      and "u16_at (a # b # rest) (2 * k) = u16_at rest (2 * j)"
      using Suc by (simp_all add: put16_at_def u16_at_def subslice_def)
    then show ?thesis using 1(1) [of j] 1(2) Suc by simp
  qed
qed auto

lemma unat_checksum_sum:
  "unat acc + 65535 * (length bs div 2) < 4294967296 \<Longrightarrow>
     unat (checksum_sum bs acc) = unat acc + word_sum bs"
proof (induction bs acc rule: checksum_sum.induct)
  case (1 a b rest acc)
  have le: "be_nat [a, b] \<le> 65535" using be_nat_bound [of "[a, b]"] by simp
  have u: "unat (ucast (get16 [a, b]) :: u32) = be_nat [a, b]"
    using le by (simp add: unsigned_ucast_eq take_bit_eq_mod unat_get16)
  have "unat (acc + ucast (get16 [a, b])) = unat acc + be_nat [a, b]"
    using 1(2) le by (simp add: unat_word_ariths u)
  then show ?case using 1 le by simp
qed auto

lemma ones_fold_step:
  assumes "n div 65536 \<noteq> 0"
  shows "ones_fold (n mod 65536 + n div 65536) = ones_fold n"
proof -
  have n: "n = (n mod 65536 + n div 65536) + n div 65536 * 65535" by simp
  have "(n mod 65536 + n div 65536) mod 65535 = n mod 65535"
    by (subst (2) n, subst mod_mult_self1, rule refl)
  moreover have "n \<noteq> 0" using assms by auto
  ultimately show ?thesis using assms by (simp add: ones_fold_def)
qed

lemma unat_checksum_fold: "unat (checksum_fold acc) = ones_fold (unat acc)"
proof (induction acc rule: checksum_fold.induct)
  case (1 acc)
  note d = unat_high_half [of acc] and m = unat_low_half [of acc]
  show ?case
  proof (cases "drop_bit 16 acc = 0")
    case True
    then have "unat acc < 65536" using d by (simp add: div_eq_0_iff)
    then show ?thesis using True
      by (cases "unat acc = 65535") (auto simp: checksum_fold.simps [of acc] ones_fold_def)
  next
    case False
    then have nz: "unat acc div 65536 \<noteq> 0" using d by (metis unat_eq_zero)
    have "unat acc mod 65536 + unat acc div 65536 < 4294967296"
      using unat_u32_less [of acc] nz by linarith
    then have "unat ((acc AND 0xffff) + drop_bit 16 acc) = unat acc mod 65536 + unat acc div 65536"
      by (simp add: unat_word_ariths m d)
    then show ?thesis
      using 1 [OF False] False ones_fold_step [OF nz] by (simp add: checksum_fold.simps [of acc])
  qed
qed

lemma unat_complement: "unat (NOT w) = 65535 - unat (w :: u16)"
proof -
  have "NOT w = - 1 - w" by (simp add: not_eq_complement)
  moreover have "unat (- 1 :: u16) = 65535" unfolding unsigned_minus_1_eq_mask by (simp add: mask_eq_exp_minus_1)
  moreover have "unat (- 1 - w) = unat (- 1 :: u16) - unat w"
    by (rule unat_sub) (rule word_order.extremum)
  ultimately show ?thesis by simp
qed

lemma unat_ipv4HeaderChecksum:
  assumes "length bs \<le> 100000"
  shows "unat (ipv4HeaderChecksum bs) = 65535 - ones_fold (word_sum bs)"
proof -
  have "unat (checksum_sum bs 0) = word_sum bs" using assms by (simp add: unat_checksum_sum)
  then have "unat (checksum_fold (checksum_sum bs 0)) = ones_fold (word_sum bs)"
    by (simp add: unat_checksum_fold)
  moreover have "ones_fold (word_sum bs) \<le> 65535" by (auto simp: ones_fold_def)
  ultimately have "unat (ucast (checksum_fold (checksum_sum bs 0)) :: u16) = ones_fold (word_sum bs)"
    by (simp add: unsigned_ucast_eq take_bit_eq_mod)
  then show ?thesis unfolding ipv4HeaderChecksum_def by (simp add: unat_complement)
qed

lemma ones_fold_complement: "ones_fold (n + (65535 - ones_fold n)) = 65535"
proof -
  consider (zero) "n = 0" | (full) "n \<noteq> 0" "n mod 65535 = 0" | (rest) "n mod 65535 \<noteq> 0" by blast
  then show ?thesis
  proof cases
    case rest
    define q r where "q = n div 65535" and "r = n mod 65535"
    have less: "r < 65535" and n: "n = 65535 * q + r" by (simp_all add: q_def r_def)
    have "n + (65535 - r) = 65535 * (q + 1)" using n less by simp
    then have "n + (65535 - n mod 65535) = 65535 * (q + 1)" by (simp only: r_def)
    then have "(n + (65535 - n mod 65535)) mod 65535 = 0" by (metis mod_mult_self1_is_0)
    moreover have "n + (65535 - n mod 65535) \<noteq> 0"
      using less by (simp add: r_def)
    moreover have "ones_fold n = n mod 65535" using rest by (auto simp: ones_fold_def)
    ultimately show ?thesis by (simp add: ones_fold_def)
  qed (auto simp: ones_fold_def)
qed

lemma ihl_bound: "ihl_of b \<le> 60"
proof -
  have "b AND 15 = take_bit 4 b" by (simp add: take_bit_eq_mask mask_eq_exp_minus_1)
  then have "unat (b AND 15) = unat b mod 16" by (simp add: take_bit_eq_mod unat_mod)
  then show ?thesis by (simp add: ihl_of_def)
qed

lemma update_checksum_eq:
  assumes "20 \<le> ihl_of (hdr ! 0)" and "ihl_of (hdr ! 0) \<le> length hdr"
  shows "updateIPv4HeaderChecksum hdr =
    put16_at (hdr[10 := 0, 11 := 0]) 10
      (ipv4HeaderChecksum (take (ihl_of (hdr ! 0)) (hdr[10 := 0, 11 := 0])))"
  using assms by (simp add: updateIPv4HeaderChecksum_def Let_def)

lemma length_update_checksum [simp]: "length (updateIPv4HeaderChecksum hdr) = length hdr"
  by (simp add: updateIPv4HeaderChecksum_def Let_def)

lemma nth_update_checksum [simp]:
  "k \<noteq> 10 \<Longrightarrow> k \<noteq> 11 \<Longrightarrow> updateIPv4HeaderChecksum hdr ! k = hdr ! k"
  by (simp add: updateIPv4HeaderChecksum_def Let_def)

lemma drop_update_checksum: "12 \<le> n \<Longrightarrow> drop n (updateIPv4HeaderChecksum hdr) = drop n hdr"
  by (simp add: updateIPv4HeaderChecksum_def Let_def drop_put16_at_after)

lemma checksum_after_update:
  assumes "20 \<le> ihl_of (hdr ! 0)" and "ihl_of (hdr ! 0) \<le> length hdr"
  shows "ipv4HeaderChecksum (take (ihl_of (hdr ! 0)) (updateIPv4HeaderChecksum hdr)) = 0"
proof -
  define ihl where "ihl = ihl_of (hdr ! 0)"
  define h where "h = take ihl (hdr[10 := 0, 11 := 0])"
  have len: "20 \<le> length h" "length h \<le> 60"
    using assms ihl_bound [of "hdr ! 0"] by (simp_all add: h_def ihl_def)
  have zero: "u16_at h 10 = 0"
    using assms by (simp add: u16_at_nth h_def ihl_def get16_def be_nat_two)
  have "take ihl (updateIPv4HeaderChecksum hdr) = put16_at h 10 (ipv4HeaderChecksum h)"
    using assms by (simp add: update_checksum_eq take_put16_at h_def ihl_def)
  moreover have "word_sum (put16_at h 10 (ipv4HeaderChecksum h)) =
      word_sum h + (65535 - ones_fold (word_sum h))"
    using word_sum_put16_at [of 5 h "ipv4HeaderChecksum h"] len zero
    by (simp add: unat_ipv4HeaderChecksum)
  ultimately have "unat (ipv4HeaderChecksum (take ihl (updateIPv4HeaderChecksum hdr))) = 0"
    using len by (simp add: unat_ipv4HeaderChecksum ones_fold_complement)
  then show ?thesis by (simp add: unat_eq_zero ihl_def)
qed

section \<open>Extension header chains\<close>

text \<open>A chain is the list of its headers: each one has the length its own second byte declares,
  and its first byte names the next header's protocol.\<close>

primrec ext_chain :: "byte \<Rightarrow> byte list list \<Rightarrow> byte \<Rightarrow> bool" where
  "ext_chain nh [] final \<longleftrightarrow> nh = final \<and> \<not> isIPv6ExtensionHeader nh"
| "ext_chain nh (h # hs) final \<longleftrightarrow>
     isIPv6ExtensionHeader nh \<and> ipv6ExtensionHeaderLength nh h = Inr (length h) \<and>
     ext_chain (h ! 0) hs final"

primrec chain_fragmented :: "byte \<Rightarrow> byte list list \<Rightarrow> bool" where
  "chain_fragmented nh [] \<longleftrightarrow> False"
| "chain_fragmented nh (h # hs) \<longleftrightarrow> nh = 44 \<or> chain_fragmented (h ! 0) hs"

lemma extension_length_append:
  assumes "ipv6ExtensionHeaderLength nh h = Inr (length h)"
  shows "ipv6ExtensionHeaderLength nh (h @ rest) = Inr (length h)"
  using assms extension_length_bounds [OF assms]
  by (auto simp: ipv6ExtensionHeaderLength_def Let_def nth_append split: if_splits)

lemma extension_length_take:
  assumes "ipv6ExtensionHeaderLength nh p = Inr n"
  shows "ipv6ExtensionHeaderLength nh (take n p) = Inr (length (take n p))"
  using assms extension_length_bounds [OF assms]
  by (auto simp: ipv6ExtensionHeaderLength_def Let_def split: if_splits)

lemma chain_header_length: "ext_chain nh (h # hs) final \<Longrightarrow> 8 \<le> length h"
  using extension_length_bounds [of nh h] by auto

lemma parse_chain:
  "ext_chain nh hs final \<Longrightarrow>
     parse_extensions (concat hs @ rest) nh consumed frag =
       Inr (final, rest, consumed + length (concat hs), frag \<or> chain_fragmented nh hs)"
proof (induction hs arbitrary: nh consumed frag)
  case Nil
  then show ?case by (auto simp: parse_extensions.simps [of rest])
next
  case (Cons h hs)
  have "h \<noteq> []" using chain_header_length [OF Cons.prems] by auto
  then have "(concat (h # hs) @ rest) ! 0 = h ! 0" by (simp add: nth_append)
  then show ?case
    using Cons extension_length_append [of nh h "concat hs @ rest"]
    by (subst parse_extensions.simps) (auto simp: add.assoc)
qed

lemma parsed_is_chain:
  "parse_extensions payload nh consumed frag = Inr (final, rest, consumed', frag') \<Longrightarrow>
     \<exists>hs. payload = concat hs @ rest \<and> ext_chain nh hs final \<and>
       consumed' = consumed + length (concat hs) \<and> frag' = (frag \<or> chain_fragmented nh hs)"
proof (induction payload nh consumed frag rule: parse_extensions.induct)
  case (1 payload nh consumed frag)
  show ?case
  proof (cases "isIPv6ExtensionHeader nh")
    case False
    then have "payload = concat [] @ rest \<and> ext_chain nh [] final \<and>
        consumed' = consumed + length (concat ([] :: byte list list)) \<and>
        frag' = (frag \<or> chain_fragmented nh [])"
      using "1.prems" by (auto simp: parse_extensions.simps [of payload])
    then show ?thesis by blast
  next
    case True
    then obtain n where n: "ipv6ExtensionHeaderLength nh payload = Inr n"
      using "1.prems" by (auto simp: parse_extensions.simps [of payload] split: sum.splits)
    let ?h = "take n payload"
    note b = extension_length_bounds [OF n]
    have "parse_extensions (drop n payload) (payload ! 0) (consumed + n) (frag \<or> nh = 44) =
        Inr (final, rest, consumed', frag')"
      using "1.prems" True n by (simp add: parse_extensions.simps [of payload])
    from "1.IH" [OF True n this] obtain hs where hs: "drop n payload = concat hs @ rest"
      "ext_chain (payload ! 0) hs final" "consumed' = consumed + n + length (concat hs)"
      "frag' = ((frag \<or> nh = 44) \<or> chain_fragmented (payload ! 0) hs)" by blast
    have "payload = ?h @ drop n payload" by simp
    then have "payload = concat (?h # hs) @ rest" using hs(1) by simp
    moreover have "ext_chain nh (?h # hs) final"
      using True extension_length_take [OF n] hs(2) b by simp
    moreover have "consumed' = consumed + length (concat (?h # hs))" using hs(3) b by simp
    moreover have "frag' = (frag \<or> chain_fragmented nh (?h # hs))" using hs(4) b by auto
    ultimately show ?thesis by blast
  qed
qed

text \<open>The offset of the field that names the final protocol, as the chain sees it.\<close>

primrec final_offset :: "nat \<Rightarrow> nat \<Rightarrow> byte list list \<Rightarrow> nat" where
  "final_offset nho off [] = nho"
| "final_offset nho off (h # hs) = final_offset off (off + length h) hs"

lemma walk_chain:
  "ext_chain nh hs final \<Longrightarrow> length fixed = off \<Longrightarrow>
     final_next_header (fixed @ concat hs) nh nho off = Inr (final_offset nho off hs)"
proof (induction hs arbitrary: nh fixed nho off)
  case Nil
  then show ?case by (auto simp: final_next_header.simps [of fixed])
next
  case (Cons h hs)
  have h: "8 \<le> length h" using chain_header_length [OF Cons.prems(1)] .
  have len: "ipv6ExtensionHeaderLength nh (h @ concat hs) = Inr (length h)"
    using Cons.prems extension_length_append by simp
  have fst: "(fixed @ concat (h # hs)) ! off = h ! 0" using Cons.prems(2) h by (auto simp: nth_append)
  have "final_next_header ((fixed @ h) @ concat hs) (h ! 0) off (off + length h) =
      Inr (final_offset off (off + length h) hs)"
    using Cons by (intro Cons.IH) auto
  then show ?case
    using Cons.prems h len fst by (subst final_next_header.simps) auto
qed

lemma extension_length_update0 [simp]:
  "ipv6ExtensionHeaderLength nh (h[0 := b]) = ipv6ExtensionHeaderLength nh h"
  by (simp add: ipv6ExtensionHeaderLength_def)

lemma retarget_chain:
  "ext_chain nh (h # hs) final \<Longrightarrow> \<not> isIPv6ExtensionHeader proto \<Longrightarrow>
     \<exists>hs'. (fixed @ concat (h # hs))[final_offset nho (length fixed) (h # hs) := proto] =
         fixed @ concat hs' \<and>
       ext_chain nh hs' proto \<and> length (concat hs') = length (concat (h # hs)) \<and>
       (chain_fragmented nh hs' \<longleftrightarrow> chain_fragmented nh (h # hs))"
proof (induction hs arbitrary: nh h fixed nho)
  case Nil
  have h: "8 \<le> length h" using chain_header_length [OF Nil.prems(1)] .
  then have "(fixed @ concat [h])[final_offset nho (length fixed) [h] := proto] =
      fixed @ concat [h[0 := proto]]" by (simp add: list_update_append)
  moreover have "h[0 := proto] ! 0 = proto" using h by (intro nth_list_update_eq) auto
  then have "ext_chain nh [h[0 := proto]] proto" using Nil h by auto
  ultimately show ?case by (intro exI [of _ "[h[0 := proto]]"]) auto
next
  case (Cons h2 hs2)
  have chain: "ext_chain (h ! 0) (h2 # hs2) final" using Cons.prems(1) by simp
  from Cons.IH [OF chain Cons.prems(2), of "fixed @ h" "length fixed"] obtain hs'
    where hs': "((fixed @ h) @ concat (h2 # hs2))
          [final_offset (length fixed) (length (fixed @ h)) (h2 # hs2) := proto] =
        (fixed @ h) @ concat hs'"
      "ext_chain (h ! 0) hs' proto" "length (concat hs') = length (concat (h2 # hs2))"
      "chain_fragmented (h ! 0) hs' \<longleftrightarrow> chain_fragmented (h ! 0) (h2 # hs2)" by blast
  have "(fixed @ concat (h # h2 # hs2))[final_offset nho (length fixed) (h # h2 # hs2) := proto] =
      fixed @ concat (h # hs')" using hs'(1) by simp
  moreover have "ext_chain nh (h # hs') proto" using Cons.prems(1) hs'(2) by simp
  ultimately show ?case using hs'(3,4) by (intro exI [of _ "h # hs'"]) simp
qed

lemma final_offset_range:
  "ext_chain nh hs final \<Longrightarrow>
     final_offset nho off hs = nho \<and> hs = [] \<or>
     off \<le> final_offset nho off hs \<and> final_offset nho off hs < off + length (concat hs)"
proof (induction hs arbitrary: nh nho off)
  case (Cons h hs)
  have "8 \<le> length h" using chain_header_length [OF Cons.prems] .
  then show ?case using Cons.IH [of "h ! 0" off "off + length h"] Cons.prems by auto
qed simp

lemma chain_final: "ext_chain nh hs final \<Longrightarrow> \<not> isIPv6ExtensionHeader final"
  by (induction hs arbitrary: nh) auto

lemma final_byte_chain:
  "ext_chain nh (h # hs) final \<Longrightarrow>
     (fixed @ concat (h # hs) @ rest) ! final_offset nho (length fixed) (h # hs) = final"
proof (induction hs arbitrary: nh h fixed nho)
  case Nil
  then have "h \<noteq> []" using chain_header_length [OF Nil] by auto
  then show ?case using Nil by (simp add: nth_append)
next
  case (Cons h2 hs2)
  then show ?case using Cons.IH [of "h ! 0" h2 "fixed @ h" "length fixed"] by simp
qed

lemma final_byte:
  "ext_chain (fixed ! 6) hs final \<Longrightarrow> length fixed = 40 \<Longrightarrow>
     (fixed @ concat hs @ rest) ! final_offset 6 40 hs = final"
  using final_byte_chain [of "fixed ! 6" "hd hs" "tl hs" final fixed rest 6]
  by (cases hs) (auto simp: nth_append)

section \<open>A new payload, parsed again\<close>

lemma drop_bit_4_put [simp]:
  "put16_at xs (Suc k) w ! 0 = xs ! 0"
  by (simp add: put16_at_def)

definition ip_fits :: "byte list \<Rightarrow> byte list \<Rightarrow> bool" where
  "ip_fits header payload \<longleftrightarrow>
     (if drop_bit 4 (header ! 0) = 4 then length header + length payload \<le> 65535
      else length header + length payload \<le> 40 + 65535)"

lemma parsed_packet_simps [simp]:
  "pkt_header (parsed_packet h pl src dst nh frag ports) = h"
  "transportPayload (parsed_packet h pl src dst nh frag ports) = pl"
  "pkt_src (parsed_packet h pl src dst nh frag ports) = src"
  "pkt_dst (parsed_packet h pl src dst nh frag ports) = dst"
  "nextHeader (parsed_packet h pl src dst nh frag ports) = nh"
  "fragmented (parsed_packet h pl src dst nh frag ports) = frag"
  by (simp_all add: parsed_packet_def Let_def)

definition ipv4_fragmented :: "byte list \<Rightarrow> bool" where
  "ipv4_fragmented packet \<longleftrightarrow>
     u16_at packet 6 AND 0x2000 \<noteq> 0 \<or> u16_at packet 6 AND 0x1fff \<noteq> 0"

lemma parse_ipv4_split:
  assumes "20 \<le> ihl_of (hdr ! 0)" and "length hdr = ihl_of (hdr ! 0)"
    and "unat (u16_at hdr 2) = length hdr + length payload"
  shows "parseIPv4Packet (hdr @ payload @ rest) =
    Inr (parsed_packet hdr payload (subslice hdr 12 16) (subslice hdr 16 20) (hdr ! 9)
      (ipv4_fragmented hdr) (\<not> ipv4_fragmented hdr))"
proof -
  have "hdr \<noteq> []" using assms by auto
  then have fst: "(hdr @ payload @ rest) ! 0 = hdr ! 0" by (simp add: nth_append)
  have u: "u16_at (hdr @ payload @ rest) 2 = u16_at hdr 2" "u16_at (hdr @ payload) 6 = u16_at hdr 6"
    and sub: "subslice (hdr @ payload) 12 16 = subslice hdr 12 16"
      "subslice (hdr @ payload) 16 20 = subslice hdr 16 20"
    using assms by (simp_all add: u16_at_def subslice_append_left)
  have "(hdr @ payload) ! 9 = hdr ! 9" using assms by (simp add: nth_append)
  then show ?thesis
    using assms by (simp add: parseIPv4Packet_def fst u sub Let_def ipv4_fragmented_def)
qed

lemma parse_ipv4_inv:
  assumes "parseIPv4Packet p = Inr x"
  obtains hdr payload rest where "p = hdr @ payload @ rest" and "20 \<le> ihl_of (hdr ! 0)"
    and "length hdr = ihl_of (hdr ! 0)" and "unat (u16_at hdr 2) = length hdr + length payload"
proof -
  define ihl where "ihl = ihl_of (p ! 0)"
  define total where "total = unat (u16_at p 2)"
  have b: "20 \<le> ihl" "ihl \<le> total" "total \<le> length p"
    using assms by (auto simp: parseIPv4Packet_def Let_def ihl_def total_def split: if_splits)
  show ?thesis
  proof (rule that [of "take ihl p" "subslice p ihl total" "drop total p"])
    show "p = take ihl p @ subslice p ihl total @ drop total p"
      using b by (simp add: take_drop_subslice)
    have "take ihl p ! 0 = p ! 0" using b by simp
    then show "20 \<le> ihl_of (take ihl p ! 0)" "length (take ihl p) = ihl_of (take ihl p ! 0)"
      using b by (simp_all add: ihl_def)
    have "u16_at (take ihl p) 2 = u16_at p 2" using b by (simp add: u16_at_nth)
    then show "unat (u16_at (take ihl p) 2) = length (take ihl p) + length (subslice p ihl total)"
      using b by (simp add: total_def)
  qed
qed

lemma update_checksum_append:
  assumes "20 \<le> ihl_of (h ! 0)" and "ihl_of (h ! 0) \<le> length h"
  shows "updateIPv4HeaderChecksum (h @ r) = updateIPv4HeaderChecksum h @ r"
proof -
  have fst: "(h @ r) ! 0 = h ! 0" using assms by (cases h) auto
  have "(h @ r)[10 := 0, 11 := 0] = h[10 := 0, 11 := 0] @ r"
    using assms by (simp add: list_update_append)
  then show ?thesis
    using assms by (simp add: update_checksum_eq fst put16_at_append)
qed

text \<open>The header that \<open>replaceIPPayload\<close> writes for IPv4.\<close>

definition ipv4_rewritten :: "byte list \<Rightarrow> nat \<Rightarrow> byte \<Rightarrow> byte list" where
  "ipv4_rewritten hdr n proto =
     updateIPv4HeaderChecksum ((put16_at hdr 2 (of_nat n))[9 := proto])"

lemma ipv4_rewritten_fields:
  assumes ihl: "20 \<le> ihl_of (hdr ! 0)" and len: "length hdr = ihl_of (hdr ! 0)"
  shows "length (ipv4_rewritten hdr n proto) = length hdr"
    and "ipv4_rewritten hdr n proto ! 0 = hdr ! 0"
    and "u16_at (ipv4_rewritten hdr n proto) 2 = of_nat n"
    and "ipv4_rewritten hdr n proto ! 9 = proto"
    and "ipv4_fragmented (ipv4_rewritten hdr n proto) \<longleftrightarrow> ipv4_fragmented hdr"
    and "12 \<le> i \<Longrightarrow> subslice (ipv4_rewritten hdr n proto) i j = subslice hdr i j"
    and "ipv4HeaderChecksum (ipv4_rewritten hdr n proto) = 0"
proof -
  let ?h = "(put16_at hdr 2 (of_nat n))[9 := proto]"
  have len20: "20 \<le> length hdr" using ihl len by simp
  have h0: "?h ! 0 = hdr ! 0" by simp
  have upd: "updateIPv4HeaderChecksum ?h ! k = ?h ! k" if "k \<noteq> 10" "k \<noteq> 11" for k
    using that by simp
  show "length (ipv4_rewritten hdr n proto) = length hdr"
    and "ipv4_rewritten hdr n proto ! 0 = hdr ! 0"
    using h0 by (simp_all add: ipv4_rewritten_def)
  show "ipv4_rewritten hdr n proto ! 9 = proto" using len20 by (simp add: ipv4_rewritten_def)
  have "u16_at (put16_at hdr 2 (of_nat n)) 2 = of_nat n" using len20 by (intro u16_at_put16_at) simp
  then show "u16_at (ipv4_rewritten hdr n proto) 2 = of_nat n"
    using len20 upd [of 2] upd [of 3] by (simp add: ipv4_rewritten_def u16_at_nth)
  have "u16_at (ipv4_rewritten hdr n proto) 6 = u16_at hdr 6"
    using len20 upd [of 6] upd [of 7] by (simp add: ipv4_rewritten_def u16_at_nth)
  then show "ipv4_fragmented (ipv4_rewritten hdr n proto) \<longleftrightarrow> ipv4_fragmented hdr"
    by (simp add: ipv4_fragmented_def)
  show "subslice (ipv4_rewritten hdr n proto) i j = subslice hdr i j" if "12 \<le> i"
    using that by (simp add: subslice_def ipv4_rewritten_def drop_update_checksum drop_put16_at_after)
  show "ipv4HeaderChecksum (ipv4_rewritten hdr n proto) = 0"
    using checksum_after_update [of ?h] h0 ihl len by (simp add: ipv4_rewritten_def)
qed

lemma replace_ipv4:
  assumes ver: "drop_bit 4 (hdr ! 0) = 4" and ihl: "20 \<le> ihl_of (hdr ! 0)"
    and len: "length hdr = ihl_of (hdr ! 0)" and fits: "length hdr + length payload \<le> 65535"
  shows "replaceIPPayload hdr payload proto =
    Inr (ipv4_rewritten hdr (length hdr + length payload) proto @ payload)"
proof -
  let ?n = "length hdr + length payload"
  have "(put16_at (hdr @ payload) 2 (of_nat ?n))[9 := proto] =
      (put16_at hdr 2 (of_nat ?n))[9 := proto] @ payload"
    using ihl len by (simp add: put16_at_append list_update_append)
  moreover have "updateIPv4HeaderChecksum ((put16_at hdr 2 (of_nat ?n))[9 := proto] @ payload) =
      ipv4_rewritten hdr ?n proto @ payload"
    unfolding ipv4_rewritten_def using ihl len by (intro update_checksum_append) auto
  moreover have "hdr \<noteq> []" using ihl len by auto
  ultimately show ?thesis
    using assms by (simp add: replaceIPPayload_def Let_def Suc_le_eq)
qed

lemma replace_parse_ipv4:
  assumes ver: "drop_bit 4 (hdr ! 0) = 4" and ihl: "20 \<le> ihl_of (hdr ! 0)"
    and len: "length hdr = ihl_of (hdr ! 0)" and fits: "length hdr + length payload \<le> 65535"
    and hdr'_def: "hdr' = ipv4_rewritten hdr (length hdr + length payload) proto"
  shows "parseIPPacket (hdr' @ payload) =
    Inr (parsed_packet hdr' payload (subslice hdr 12 16) (subslice hdr 16 20) proto
      (ipv4_fragmented hdr) (\<not> ipv4_fragmented hdr))"
proof -
  note f = ipv4_rewritten_fields
    [OF ihl len, where n = "length hdr + length payload" and proto = proto]
  have "unat (u16_at hdr' 2) = length hdr' + length payload"
    using fits by (simp only: hdr'_def f(1,3) unat_of_nat_u16) simp
  then have "parseIPv4Packet (hdr' @ payload @ []) =
      Inr (parsed_packet hdr' payload (subslice hdr' 12 16) (subslice hdr' 16 20) (hdr' ! 9)
        (ipv4_fragmented hdr') (\<not> ipv4_fragmented hdr'))"
    using f ihl len by (intro parse_ipv4_split) (auto simp: hdr'_def)
  moreover have "hdr' \<noteq> []" using f(1) ihl len by (auto simp: hdr'_def)
  moreover from this have "(hdr' @ payload) ! 0 = hdr ! 0" using f(2) by (simp add: nth_append hdr'_def)
  moreover have "hdr \<noteq> []" using ihl len by auto
  ultimately show ?thesis using f ver by (simp add: parseIPPacket_def Suc_le_eq hdr'_def)
qed

subsection \<open>IPv6\<close>

lemma parse_ipv6_split:
  assumes fixed: "length fixed = 40" and chain: "ext_chain (fixed ! 6) hs final"
    and len: "unat (u16_at fixed 4) = length (concat hs) + length payload"
  shows "parseIPv6Packet (fixed @ concat hs @ payload @ rest) =
    Inr (parsed_packet (fixed @ concat hs) payload (subslice fixed 8 24) (subslice fixed 24 40)
      final (chain_fragmented (fixed ! 6) hs) True)"
proof -
  let ?p = "fixed @ concat hs @ payload @ rest"
  have u: "u16_at ?p 4 = u16_at fixed 4"
    and sub: "subslice (fixed @ concat hs @ payload) 8 24 = subslice fixed 8 24"
      "subslice (fixed @ concat hs @ payload) 24 40 = subslice fixed 24 40"
    using fixed by (simp_all add: u16_at_def subslice_append_left)
  have fst: "(fixed @ concat hs @ payload) ! 6 = fixed ! 6" using fixed by (simp add: nth_append)
  have ext: "parseIPv6ExtensionHeaders (concat hs @ payload) (fixed ! 6) =
      Inr (final, payload, length (concat hs), chain_fragmented (fixed ! 6) hs)"
    using parse_chain [OF chain, of payload 0 False] by (simp add: parseIPv6ExtensionHeaders_def)
  have tk: "take (40 + unat (u16_at ?p 4)) ?p = fixed @ concat hs @ payload"
    using fixed len u by simp
  show ?thesis
    unfolding parseIPv6Packet_def Let_def tk using fixed len u ext sub fst by simp
qed

lemma parse_ipv6_inv:
  assumes "parseIPv6Packet p = Inr x"
  obtains fixed hs payload rest final where "p = fixed @ concat hs @ payload @ rest"
    and "length fixed = 40" and "ext_chain (fixed ! 6) hs final"
    and "unat (u16_at fixed 4) = length (concat hs) + length payload"
proof -
  define n where "n = unat (u16_at p 4)"
  have b: "40 + n \<le> length p"
    using assms by (auto simp: parseIPv6Packet_def Let_def n_def split: if_splits)
  let ?pk = "take (40 + n) p"
  obtain nh payload ext frag where
    "parseIPv6ExtensionHeaders (drop 40 ?pk) (?pk ! 6) = Inr (nh, payload, ext, frag)"
    using assms b by (auto simp: parseIPv6Packet_def Let_def n_def res_simps split: if_splits)
  then obtain hs where hs: "drop 40 ?pk = concat hs @ payload" "ext_chain (?pk ! 6) hs nh"
    unfolding parseIPv6ExtensionHeaders_def by (auto dest: parsed_is_chain)
  show ?thesis
  proof (rule that [of "take 40 p" hs payload "drop (40 + n) p" nh])
    have "take 40 p @ drop 40 ?pk = ?pk" using b by (metis append_take_drop_id take_take min.absorb1 le_add1)
    then show "p = take 40 p @ concat hs @ payload @ drop (40 + n) p"
      using hs(1) by (metis append.assoc append_take_drop_id)
    show "length (take 40 p) = 40" using b by simp
    show "ext_chain (take 40 p ! 6) hs nh" using hs(2) by simp
    have "length (concat hs @ payload) = n" using b hs(1) [symmetric] by simp
    moreover have "u16_at (take 40 p) 4 = u16_at p 4" using b by (simp add: u16_at_nth)
    ultimately show "unat (u16_at (take 40 p) 4) = length (concat hs) + length payload"
      by (simp add: n_def)
  qed
qed

lemma replace_ipv6:
  assumes ver: "drop_bit 4 (fixed ! 0) = 6" and fixed: "length fixed = 40"
    and chain: "ext_chain (fixed ! 6) hs final"
    and fits: "length (concat hs) + length payload \<le> 65535"
  shows "replaceIPPayload (fixed @ concat hs) payload proto =
    Inr ((put16_at fixed 4 (of_nat (length (concat hs) + length payload)) @ concat hs @ payload)
      [final_offset 6 40 hs := proto])"
proof -
  have off: "ipv6FinalNextHeaderOffset (fixed @ concat hs) = Inr (final_offset 6 40 hs)"
    using walk_chain [OF chain fixed] fixed by (simp add: ipv6FinalNextHeaderOffset_def nth_append)
  have "fixed \<noteq> []" using fixed by auto
  moreover have "put16_at ((fixed @ concat hs) @ payload) 4 w =
      put16_at fixed 4 w @ concat hs @ payload" for w
    using fixed by (simp add: put16_at_append)
  moreover have "(fixed @ concat hs) ! 0 = fixed ! 0" using fixed by (simp add: nth_append)
  ultimately show ?thesis
    using assms off by (simp add: replaceIPPayload_def Let_def Suc_le_eq)
qed

lemma replace_parse_ipv6:
  assumes ver: "drop_bit 4 (fixed ! 0) = 6" and fixed: "length fixed = 40"
    and chain: "ext_chain (fixed ! 6) hs final" and proto: "\<not> isIPv6ExtensionHeader proto"
    and fits: "length (concat hs) + length payload \<le> 65535"
    and out: "replaceIPPayload (fixed @ concat hs) payload proto = Inr out"
  obtains hdr where "parseIPPacket out =
      Inr (parsed_packet hdr payload (subslice fixed 8 24) (subslice fixed 24 40) proto
        (chain_fragmented (fixed ! 6) hs) True)"
    and "out = hdr @ payload" and "length hdr = length (fixed @ concat hs)"
proof -
  let ?n = "length (concat hs) + length payload"
  let ?f = "put16_at fixed 4 (of_nat ?n)"
  have out': "out = (?f @ concat hs @ payload)[final_offset 6 40 hs := proto]"
    using replace_ipv6 [OF ver fixed chain fits, of proto] out by simp
  have flen: "length ?f = 40" and f6: "?f ! 6 = fixed ! 6" using fixed by simp_all
  have "u16_at ?f 4 = of_nat ?n" using fixed by (intro u16_at_put16_at) simp
  then have u4: "unat (u16_at ?f 4) = ?n" using fits by (simp only: unat_of_nat_u16) simp
  obtain g gs where g: "out = g @ concat gs @ payload" "length g = 40" "ext_chain (g ! 6) gs proto"
      "length (concat gs) = length (concat hs)"
      "chain_fragmented (g ! 6) gs \<longleftrightarrow> chain_fragmented (fixed ! 6) hs"
      "u16_at g 4 = u16_at ?f 4" "g ! 0 = fixed ! 0"
      "\<And>i j. 8 \<le> i \<Longrightarrow> subslice g i j = subslice fixed i j"
  proof (cases hs)
    case Nil
    let ?g = "?f[6 := proto]"
    have "out = ?g @ concat [] @ payload" using out' Nil flen by (simp add: list_update_append)
    moreover have "u16_at ?g 4 = u16_at ?f 4" using fixed by (simp add: u16_at_nth)
    moreover have "subslice ?g i j = subslice fixed i j" if "8 \<le> i" for i j
      using that by (simp add: subslice_def drop_put16_at_after)
    moreover have "?g ! 0 = fixed ! 0" by (simp add: put16_at_def)
    ultimately show ?thesis using that [of ?g "[]"] Nil proto fixed by auto
  next
    case (Cons h t)
    have "ext_chain (fixed ! 6) (h # t) final" using chain Cons by simp
    from retarget_chain [OF this proto, of ?f 6] obtain gs where gs:
      "(?f @ concat hs)[final_offset 6 40 hs := proto] = ?f @ concat gs"
      "ext_chain (fixed ! 6) gs proto" "length (concat gs) = length (concat hs)"
      "chain_fragmented (fixed ! 6) gs \<longleftrightarrow> chain_fragmented (fixed ! 6) hs"
      using Cons flen by auto
    have "final_offset 6 40 hs < length (?f @ concat hs)"
      using final_offset_range [OF chain, of 6 40] flen Cons by auto
    then have "out = ?f @ concat gs @ payload"
      using out' gs(1) by (metis append.assoc list_update_append1)
    moreover have "subslice ?f i j = subslice fixed i j" if "8 \<le> i" for i j
      using that by (simp add: subslice_def drop_put16_at_after)
    moreover have "?f ! 0 = fixed ! 0" by (simp add: put16_at_def)
    ultimately show ?thesis using that [of ?f gs] gs flen f6 by auto
  qed
  have "parseIPv6Packet (g @ concat gs @ payload @ []) =
      Inr (parsed_packet (g @ concat gs) payload (subslice g 8 24) (subslice g 24 40) proto
        (chain_fragmented (g ! 6) gs) True)"
    using g u4 by (intro parse_ipv6_split) auto
  moreover have "g \<noteq> []" using g(2) by auto
  moreover have "out ! 0 = fixed ! 0" using g(1,2,7) by (simp add: nth_append)
  ultimately have "parseIPPacket out = Inr (parsed_packet (g @ concat gs) payload (subslice fixed 8 24)
      (subslice fixed 24 40) proto (chain_fragmented (fixed ! 6) hs) True)"
    using g ver by (simp add: parseIPPacket_def Suc_le_eq)
  then show ?thesis using that [of "g @ concat gs"] g fixed by simp
qed

lemma parse_version:
  assumes "parseIPPacket p = Inr x"
  shows "drop_bit 4 (p ! 0) = 4 \<and> parseIPv4Packet p = Inr x \<or>
    drop_bit 4 (p ! 0) = 6 \<and> parseIPv6Packet p = Inr x"
  using assms by (auto simp: parseIPPacket_def Let_def split: if_splits)

lemma parse_ipv4_shape:
  assumes "parseIPPacket p = Inr x" and "drop_bit 4 (p ! 0) = 4"
  obtains hdr payload rest where "p = hdr @ payload @ rest" and "drop_bit 4 (hdr ! 0) = 4"
    and "20 \<le> ihl_of (hdr ! 0)" and "length hdr = ihl_of (hdr ! 0)"
    and "x = parsed_packet hdr payload (subslice hdr 12 16) (subslice hdr 16 20) (hdr ! 9)
      (ipv4_fragmented hdr) (\<not> ipv4_fragmented hdr)"
proof -
  have v4: "parseIPv4Packet p = Inr x" using parse_version [OF assms(1)] assms(2) by auto
  then obtain hdr payload rest where h: "p = hdr @ payload @ rest" "20 \<le> ihl_of (hdr ! 0)"
      "length hdr = ihl_of (hdr ! 0)" "unat (u16_at hdr 2) = length hdr + length payload"
    by (rule parse_ipv4_inv)
  have "hdr \<noteq> []" using h by auto
  then have "hdr ! 0 = p ! 0" using h(1) by (simp add: nth_append)
  then show ?thesis using that [of hdr payload rest] h v4 parse_ipv4_split [OF h(2,3,4), of rest] assms
    by simp
qed

lemma parse_ipv6_shape:
  assumes "parseIPPacket p = Inr x" and "drop_bit 4 (p ! 0) = 6"
  obtains fixed hs payload rest final where "p = fixed @ concat hs @ payload @ rest"
    and "drop_bit 4 (fixed ! 0) = 6" and "length fixed = 40" and "ext_chain (fixed ! 6) hs final"
    and "unat (u16_at fixed 4) = length (concat hs) + length payload"
    and "x = parsed_packet (fixed @ concat hs) payload (subslice fixed 8 24) (subslice fixed 24 40)
      final (chain_fragmented (fixed ! 6) hs) True"
proof -
  have v6: "parseIPv6Packet p = Inr x" using parse_version [OF assms(1)] assms(2) by auto
  then obtain fixed hs payload rest final where h: "p = fixed @ concat hs @ payload @ rest"
      "length fixed = 40" "ext_chain (fixed ! 6) hs final"
      "unat (u16_at fixed 4) = length (concat hs) + length payload"
    by (rule parse_ipv6_inv)
  have "fixed \<noteq> []" using h by auto
  then have "fixed ! 0 = p ! 0" using h(1) by (simp add: nth_append)
  then show ?thesis
    using that [of fixed hs payload rest final] h v6 parse_ipv6_split [OF h(2,3,4), of rest] assms
    by simp
qed

text \<open>What both versions share: the new packet parses to the same packet with the new payload.\<close>

definition same_but_payload :: "parsed_ip \<Rightarrow> parsed_ip \<Rightarrow> byte list \<Rightarrow> byte \<Rightarrow> bool" where
  "same_but_payload x y payload proto \<longleftrightarrow>
     transportPayload y = payload \<and> nextHeader y = proto \<and> pkt_src y = pkt_src x \<and>
     pkt_dst y = pkt_dst x \<and> fragmented y = fragmented x \<and>
     length (pkt_header y) = length (pkt_header x)"

lemma replace_parse:
  assumes parse: "parseIPPacket p = Inr x" and proto: "\<not> isIPv6ExtensionHeader proto"
    and fits: "ip_fits (pkt_header x) payload"
  obtains hdr y where "replaceIPPayload (pkt_header x) payload proto = Inr (hdr @ payload)"
    and "parseIPPacket (hdr @ payload) = Inr y" and "pkt_header y = hdr"
    and "same_but_payload x y payload proto" and "length hdr = length (pkt_header x)"
    and "y = parsed_packet hdr payload (pkt_src x) (pkt_dst x) proto (fragmented x)
      (drop_bit 4 (p ! 0) = 6 \<or> \<not> fragmented x)"
proof (cases "drop_bit 4 (p ! 0) = 4")
  case True
  from parse_ipv4_shape [OF parse True] obtain hdr pl rest where h: "drop_bit 4 (hdr ! 0) = 4"
      "20 \<le> ihl_of (hdr ! 0)" "length hdr = ihl_of (hdr ! 0)"
      "x = parsed_packet hdr pl (subslice hdr 12 16) (subslice hdr 16 20) (hdr ! 9)
        (ipv4_fragmented hdr) (\<not> ipv4_fragmented hdr)" by metis
  then have len: "length hdr + length payload \<le> 65535" using fits by (simp add: ip_fits_def)
  let ?h = "ipv4_rewritten hdr (length hdr + length payload) proto"
  show ?thesis
    using that [of ?h] replace_ipv4 [OF h(1,2,3) len, of proto] h(4) True
      replace_parse_ipv4 [OF h(1,2,3) len refl, of proto] ipv4_rewritten_fields(1) [OF h(2,3)]
    by (simp add: same_but_payload_def)
next
  case False
  then have v6: "drop_bit 4 (p ! 0) = 6" using parse_version [OF parse] by auto
  from parse_ipv6_shape [OF parse v6] obtain fixed hs pl rest final where
    h: "drop_bit 4 (fixed ! 0) = 6" "length fixed = 40" "ext_chain (fixed ! 6) hs final"
      "x = parsed_packet (fixed @ concat hs) pl (subslice fixed 8 24) (subslice fixed 24 40)
        final (chain_fragmented (fixed ! 6) hs) True" by metis
  have "fixed \<noteq> []" using h(2) by auto
  then have "(fixed @ concat hs) ! 0 = fixed ! 0" by (simp add: nth_append)
  then have len: "length (concat hs) + length payload \<le> 65535"
    using fits h by (simp add: ip_fits_def)
  obtain out where out: "replaceIPPayload (fixed @ concat hs) payload proto = Inr out"
    using replace_ipv6 [OF h(1,2,3) len] by blast
  from replace_parse_ipv6 [OF h(1,2,3) proto len out] obtain hdr where
    "parseIPPacket out = Inr (parsed_packet hdr payload (subslice fixed 8 24) (subslice fixed 24 40)
      proto (chain_fragmented (fixed ! 6) hs) True)" "out = hdr @ payload"
    "length hdr = length (fixed @ concat hs)" by metis
  then show ?thesis using that [of hdr] out h(4) v6 by (simp add: same_but_payload_def)
qed

text \<open>Property C23: a packet that parses can carry any payload that fits: replacing its payload
  succeeds, and parsing the result gives back that payload and protocol, the same addresses,
  the same fragmentation state and a header of the same length, extension headers included.\<close>

theorem replace_payload_parses:
  assumes "parseIPPacket p = Inr x" and "\<not> isIPv6ExtensionHeader proto"
    and "ip_fits (pkt_header x) payload"
  shows "\<exists>out y. replaceIPPayload (pkt_header x) payload proto = Inr out \<and>
    parseIPPacket out = Inr y \<and> same_but_payload x y payload proto"
  using replace_parse [OF assms] by metis

text \<open>A UDP datagram in IPv4, and the same behind a destination-options header in IPv6.\<close>

definition sample_ipv4 :: "byte list" where
  "sample_ipv4 =
     [0x45, 0, 0, 28, 0, 0, 0, 0, 64, 17, 0, 0, 10, 0, 0, 1, 10, 0, 0, 2] @
     [0x13, 0xc4, 0x13, 0xc4, 0, 8, 0, 0]"

definition sample_ipv6 :: "byte list" where
  "sample_ipv6 =
     [0x60, 0, 0, 0, 0, 16, 60, 64] @ replicate 15 0 @ [1] @ replicate 15 0 @ [2] @
     [17, 0, 1, 4, 0, 0, 0, 0] @ [0x13, 0xc4, 0x13, 0xc4, 0, 8, 0, 0]"

theorem replace_payload_parses_witness:
  "\<exists>out y. replaceIPPayload (pkt_header (projr (parseIPPacket sample_ipv6))) [1, 2, 3] ipProtoESP = Inr out \<and>
    parseIPPacket out = Inr y \<and> same_but_payload (projr (parseIPPacket sample_ipv6)) y [1, 2, 3] ipProtoESP"
proof (rule replace_payload_parses)
  show "parseIPPacket sample_ipv6 = Inr (projr (parseIPPacket sample_ipv6))" by code_simp
  show "\<not> isIPv6ExtensionHeader ipProtoESP" by code_simp
  show "ip_fits (pkt_header (projr (parseIPPacket sample_ipv6))) [1, 2, 3]" by code_simp
qed

text \<open>Every IPv4 packet the code emits has a header whose checksum verifies, as
  the receiver computes it over the header with the checksum field in it.\<close>

theorem replace_payload_checksum:
  assumes "replaceIPPayload header payload proto = Inr out" and "drop_bit 4 (header ! 0) = 4"
  shows "ipv4HeaderChecksum (take (ihl_of (header ! 0)) out) = 0"
proof -
  define h where "h = (put16_at (header @ payload) 2 (of_nat (length (header @ payload))))[9 := proto]"
  have ihl: "20 \<le> ihl_of (header ! 0)" "ihl_of (header ! 0) \<le> length header" "header \<noteq> []"
    and out: "out = updateIPv4HeaderChecksum h"
    using assms by (auto simp: replaceIPPayload_def Let_def h_def split: if_splits)
  have "h ! 0 = header ! 0" using ihl by (simp add: h_def nth_append)
  moreover have "length header \<le> length h" by (simp add: h_def)
  ultimately show ?thesis using checksum_after_update [of h] ihl out by simp
qed

theorem replace_payload_checksum_witness:
  "ipv4HeaderChecksum (take (ihl_of (take 20 sample_ipv4 ! 0))
     (projr (replaceIPPayload (take 20 sample_ipv4) [1, 2, 3] ipProtoESP))) = 0"
proof (rule replace_payload_checksum)
  show "replaceIPPayload (take 20 sample_ipv4) [1, 2, 3] ipProtoESP =
    Inr (projr (replaceIPPayload (take 20 sample_ipv4) [1, 2, 3] ipProtoESP))" by code_simp
  show "drop_bit 4 (take 20 sample_ipv4 ! 0) = 4" by code_simp
qed

text \<open>Parsing an IPv6 packet only splits it: header and payload are consecutive
  parts of it, the payload's protocol is never an extension header's, and putting the same
  payload behind the same header restores the packet, byte for byte.\<close>

theorem ipv6_split_restores:
  assumes "parseIPPacket p = Inr x" and "drop_bit 4 (p ! 0) = 6"
  shows "take (length (pkt_header x @ transportPayload x)) p = pkt_header x @ transportPayload x \<and>
    \<not> isIPv6ExtensionHeader (nextHeader x) \<and>
    replaceIPPayload (pkt_header x) (transportPayload x) (nextHeader x) =
      Inr (pkt_header x @ transportPayload x)"
proof -
  from parse_ipv6_shape [OF assms] obtain fixed hs pl rest final where
    h: "p = fixed @ concat hs @ pl @ rest" "drop_bit 4 (fixed ! 0) = 6" "length fixed = 40"
      "ext_chain (fixed ! 6) hs final" "unat (u16_at fixed 4) = length (concat hs) + length pl"
      "x = parsed_packet (fixed @ concat hs) pl (subslice fixed 8 24) (subslice fixed 24 40)
        final (chain_fragmented (fixed ! 6) hs) True" by metis
  have fits: "length (concat hs) + length pl \<le> 65535"
    using h(5) unat_u16_less [of "u16_at fixed 4"] by linarith
  have "of_nat (length (concat hs) + length pl) = u16_at fixed 4"
    using h(5) [symmetric] by (simp only: of_nat_unat ucast_id)
  then have "put16_at fixed 4 (of_nat (length (concat hs) + length pl)) = fixed"
    using put16_at_self [of 4 fixed] h(3) by simp
  moreover have "(fixed @ concat hs @ pl)[final_offset 6 40 hs := final] = fixed @ concat hs @ pl"
    using final_byte [OF h(4,3), of pl] by (metis list_update_id)
  ultimately show ?thesis
    using h replace_ipv6 [OF h(2,3,4) fits, where proto = final] chain_final [OF h(4)] by simp
qed

theorem ipv6_split_restores_witness:
  "take (length (pkt_header (projr (parseIPPacket sample_ipv6)) @
       transportPayload (projr (parseIPPacket sample_ipv6)))) sample_ipv6 =
     pkt_header (projr (parseIPPacket sample_ipv6)) @ transportPayload (projr (parseIPPacket sample_ipv6))"
proof -
  have p: "parseIPPacket sample_ipv6 = Inr (projr (parseIPPacket sample_ipv6))" by code_simp
  have v: "drop_bit 4 (sample_ipv6 ! 0) = 6" by code_simp
  show ?thesis using ipv6_split_restores [OF p v] by simp
qed

end
