(* ===== verification/EspCrypto.thy ===== *)
theory EspCrypto
  imports GoText IpPacket
begin

unbundle bit_operations_syntax

section \<open>Keys, ciphers and the ESP trailer\<close>

text \<open>
  \<^verbatim>\<open>ipsec3gpp/algorithms.go\<close>, \<^verbatim>\<open>ipsec3gpp/keys.go\<close>, the algorithm names of
  \<^verbatim>\<open>ipsec3gpp/mechanism.go\<close>, \<open>encapsulateTransport\<close> and \<open>decapsulateTransport\<close> of
  \<^verbatim>\<open>ipsec3gpp/transport.go\<close>, and what they use of \<^verbatim>\<open>third_party/swu-go\<close> (AES-CBC,
  HMAC-SHA1-96 and the security association).  The block ciphers and hash functions of Go's
  \<^verbatim>\<open>crypto\<close> packages are the parameter \<open>crypto_prims\<close>; an HMAC digest has the width its Go
  array type has, and \<open>blocks_invert\<close> is the documented law of a block cipher.
\<close>

subsection \<open>Algorithm names\<close>

definition trimToken :: "string \<Rightarrow> string" where
  "trimToken s = TrimQuotes (TrimSpace s)"

definition canonicalAuthAlg :: "string \<Rightarrow> string" where
  "canonicalAuthAlg alg =
     (let t = ToLower (trimToken alg) in
      if t = ''hmac-md5-96'' \<or> t = ''hmac_md5_96'' then ''hmac-md5-96''
      else if t = ''hmac-sha-1-96'' \<or> t = ''hmac_sha_1_96'' \<or> t = ''hmac-sha1-96''
        then ''hmac-sha-1-96''
      else t)"

definition canonicalEncAlg :: "string \<Rightarrow> string" where
  "canonicalEncAlg ealg =
     (let t = ToLower (trimToken ealg) in
      if t = ''des-ede3-cbc'' \<or> t = ''3des'' \<or> t = ''des_ede3_cbc'' then ''des-ede3-cbc''
      else if t = ''aes-cbc'' \<or> t = ''aes_cbc'' then ''aes-cbc''
      else if t = ''null'' then ''null''
      else t)"

subsection \<open>Key derivation\<close>

datatype esp_error =
    UnsupportedEncryption string | UnsupportedAuthentication string
  | CKTooShortAes | CKTooShort3Des | IKTooShortSha1 | IKTooShortMd5
  | BadCipherKey | NotBlockAligned | IvPanic
  | MissingEncryptionAlg | NilEncryptionAlgPanic | RandomFailed
  | PacketTooShort | TooShortForIv | TooShortForIcv | IntegrityCheckFailed
  | DecryptedTooShort | InvalidPadding

record flow_keys =
  EncKey :: "byte list"
  AuthKey :: "byte list"

definition akaCKLen :: nat where "akaCKLen = 16"
definition akaIKLen :: nat where "akaIKLen = 16"

fun parity_loop :: "nat \<Rightarrow> byte \<Rightarrow> byte \<Rightarrow> byte" where
  "parity_loop 0 b parity = parity"
| "parity_loop (Suc n) b parity =
     (let i = 6 - n in
      parity_loop n b (if b AND push_bit i 1 \<noteq> 0 then parity XOR 1 else parity))"

definition setDESOddParityByte :: "byte \<Rightarrow> byte" where
  "setDESOddParityByte b =
     (if parity_loop 7 b 0 = 0 then b OR push_bit 7 1 else b AND NOT (push_bit 7 1))"

definition DeriveAESCBCKeyFromCK :: "byte list \<Rightarrow> esp_error + byte list" where
  "DeriveAESCBCKeyFromCK ck =
     (if length ck < akaCKLen then Inl CKTooShortAes else Inr (take akaCKLen ck))"

definition Derive3DESKeyFromCK :: "byte list \<Rightarrow> esp_error + byte list" where
  "Derive3DESKeyFromCK ck =
     (if length ck < akaCKLen then Inl CKTooShort3Des
      else Inr (map setDESOddParityByte (subslice ck 0 8 @ subslice ck 8 16 @ subslice ck 0 8)))"

definition DeriveHMACSHA1KeyFromIK :: "byte list \<Rightarrow> esp_error + byte list" where
  "DeriveHMACSHA1KeyFromIK ik =
     (if length ik < akaIKLen then Inl IKTooShortSha1 else Inr (take akaIKLen ik @ replicate 4 0))"

definition DeriveHMACMD5KeyFromIK :: "byte list \<Rightarrow> esp_error + byte list" where
  "DeriveHMACMD5KeyFromIK ik =
     (if length ik < akaIKLen then Inl IKTooShortMd5 else Inr (take akaIKLen ik))"

definition deriveEncKey :: "string \<Rightarrow> byte list \<Rightarrow> esp_error + byte list" where
  "deriveEncKey encAlg ck =
     (let c = canonicalEncAlg encAlg in
      if c = ''aes-cbc'' then DeriveAESCBCKeyFromCK ck
      else if c = ''des-ede3-cbc'' then Derive3DESKeyFromCK ck
      else if c = ''null'' then Inr []
      else Inl (UnsupportedEncryption encAlg))"

definition deriveAuthKey :: "string \<Rightarrow> byte list \<Rightarrow> esp_error + byte list" where
  "deriveAuthKey authAlg ik =
     (let c = canonicalAuthAlg authAlg in
      if c = ''hmac-sha-1-96'' then DeriveHMACSHA1KeyFromIK ik
      else if c = ''hmac-md5-96'' then DeriveHMACMD5KeyFromIK ik
      else Inl (UnsupportedAuthentication authAlg))"

definition DeriveSecureChannelKeys ::
    "string \<Rightarrow> string \<Rightarrow> byte list \<Rightarrow> byte list \<Rightarrow> esp_error + flow_keys" where
  "DeriveSecureChannelKeys encAlg authAlg ck ik =
     res_bind (deriveEncKey encAlg ck) (\<lambda>encKey.
     res_bind (deriveAuthKey authAlg ik) (\<lambda>authKey.
       Inr \<lparr>EncKey = encKey, AuthKey = authKey\<rparr>))"

subsection \<open>Ciphers and authenticators\<close>

record block_cipher =
  blk_enc :: "byte list \<Rightarrow> byte list"
  blk_dec :: "byte list \<Rightarrow> byte list"

text \<open>\<open>aes_cipher\<close> and \<open>des3_cipher\<close> are \<^verbatim>\<open>aes.NewCipher\<close> and
  \<^verbatim>\<open>des.NewTripleDESCipher\<close> (\<open>None\<close> for a key they refuse), \<open>hmac_md5\<close> and
  \<open>hmac_sha1\<close> the digests of \<^verbatim>\<open>crypto/hmac\<close>.\<close>

record crypto_prims =
  aes_cipher :: "byte list \<Rightarrow> block_cipher option"
  des3_cipher :: "byte list \<Rightarrow> block_cipher option"
  hmac_md5 :: "byte list \<Rightarrow> byte list \<Rightarrow> 128 word"
  hmac_sha1 :: "byte list \<Rightarrow> byte list \<Rightarrow> 160 word"

text \<open>The CBC mode of \<^verbatim>\<open>crypto/cipher\<close>, over blocks of \<open>n\<close> bytes.\<close>

function cbc_encrypt :: "(byte list \<Rightarrow> byte list) \<Rightarrow> nat \<Rightarrow> byte list \<Rightarrow> byte list \<Rightarrow> byte list" where
  "cbc_encrypt E n prev xs =
     (if n = 0 \<or> xs = [] then []
      else let c = E (map2 (XOR) (take n xs) prev) in c @ cbc_encrypt E n c (drop n xs))"
  by auto
termination
  by (relation "measure (\<lambda>(E, n, prev, xs). length xs)") (auto dest: drop_shrinks [rotated])

function cbc_decrypt :: "(byte list \<Rightarrow> byte list) \<Rightarrow> nat \<Rightarrow> byte list \<Rightarrow> byte list \<Rightarrow> byte list" where
  "cbc_decrypt D n prev xs =
     (if n = 0 \<or> xs = [] then []
      else map2 (XOR) (D (take n xs)) prev @ cbc_decrypt D n (take n xs) (drop n xs))"
  by auto
termination
  by (relation "measure (\<lambda>(D, n, prev, xs). length xs)") (auto dest: drop_shrinks [rotated])

declare cbc_encrypt.simps [simp del] cbc_decrypt.simps [simp del]

datatype encrypter = AesCBC | TripleDesCBC | NullEncrypter

fun IVSize :: "encrypter \<Rightarrow> nat" where
  "IVSize AesCBC = 16" | "IVSize TripleDesCBC = 8" | "IVSize NullEncrypter = 0"

fun BlockSize :: "encrypter \<Rightarrow> nat" where
  "BlockSize AesCBC = 16" | "BlockSize TripleDesCBC = 8" | "BlockSize NullEncrypter = 1"

definition cbc_with ::
    "nat \<Rightarrow> (block_cipher \<Rightarrow> byte list \<Rightarrow> byte list \<Rightarrow> byte list) \<Rightarrow> block_cipher option \<Rightarrow>
     byte list \<Rightarrow> byte list \<Rightarrow> esp_error + byte list" where
  "cbc_with n mode cipher iv input =
     (if length input mod n \<noteq> 0 then Inl NotBlockAligned
      else case cipher of
          None \<Rightarrow> Inl BadCipherKey
        | Some c \<Rightarrow> if length iv \<noteq> n then Inl IvPanic else Inr (mode c iv input))"

fun Encrypt ::
    "crypto_prims \<Rightarrow> encrypter \<Rightarrow> byte list \<Rightarrow> byte list \<Rightarrow> byte list \<Rightarrow> esp_error + byte list" where
  "Encrypt prims NullEncrypter plaintext key iv = Inr plaintext"
| "Encrypt prims TripleDesCBC plaintext key iv =
     cbc_with 8 (\<lambda>c. cbc_encrypt (blk_enc c) 8) (des3_cipher prims key) iv plaintext"
| "Encrypt prims AesCBC plaintext key iv =
     (case aes_cipher prims key of
        None \<Rightarrow> Inl BadCipherKey
      | Some c \<Rightarrow> cbc_with 16 (\<lambda>c. cbc_encrypt (blk_enc c) 16) (Some c) iv plaintext)"

fun Decrypt ::
    "crypto_prims \<Rightarrow> encrypter \<Rightarrow> byte list \<Rightarrow> byte list \<Rightarrow> byte list \<Rightarrow> esp_error + byte list" where
  "Decrypt prims NullEncrypter ciphertext key iv = Inr ciphertext"
| "Decrypt prims TripleDesCBC ciphertext key iv =
     cbc_with 8 (\<lambda>c. cbc_decrypt (blk_dec c) 8) (des3_cipher prims key) iv ciphertext"
| "Decrypt prims AesCBC ciphertext key iv =
     (case aes_cipher prims key of
        None \<Rightarrow> Inl BadCipherKey
      | Some c \<Rightarrow> cbc_with 16 (\<lambda>c. cbc_decrypt (blk_dec c) 16) (Some c) iv ciphertext)"

datatype integrity_alg = HmacSHA1_96 | HmacMD5_96

fun Compute :: "crypto_prims \<Rightarrow> integrity_alg \<Rightarrow> byte list \<Rightarrow> byte list \<Rightarrow> byte list" where
  "Compute prims HmacMD5_96 key msg = take 12 (be_bytes 16 (unat (hmac_md5 prims key msg)))"
| "Compute prims HmacSHA1_96 key msg = take 12 (be_bytes 20 (unat (hmac_sha1 prims key msg)))"

definition Verify ::
    "crypto_prims \<Rightarrow> integrity_alg \<Rightarrow> byte list \<Rightarrow> byte list \<Rightarrow> byte list \<Rightarrow> bool" where
  "Verify prims alg key msg expectedMAC \<longleftrightarrow> Compute prims alg key msg = expectedMAC"

definition OutputSize :: "integrity_alg \<Rightarrow> nat" where
  "OutputSize alg = 12"

definition encrypterForFlow :: "string \<Rightarrow> esp_error + encrypter" where
  "encrypterForFlow encAlg =
     (let c = canonicalEncAlg encAlg in
      if c = ''aes-cbc'' then Inr AesCBC
      else if c = ''des-ede3-cbc'' then Inr TripleDesCBC
      else if c = ''null'' then Inr NullEncrypter
      else Inl (UnsupportedEncryption encAlg))"

definition integrityForFlow :: "string \<Rightarrow> esp_error + integrity_alg" where
  "integrityForFlow authAlg =
     (let c = canonicalAuthAlg authAlg in
      if c = ''hmac-sha-1-96'' then Inr HmacSHA1_96
      else if c = ''hmac-md5-96'' then Inr HmacMD5_96
      else Inl (UnsupportedAuthentication authAlg))"

subsection \<open>Security associations and the ESP payload\<close>

record security_association =
  sa_SPI :: u32
  EncryptionAlg :: "encrypter option"
  EncryptionKey :: "byte list"
  IntegrityAlg2 :: "integrity_alg option"
  IntegrityKey :: "byte list"
  IsAEAD :: bool
  SequenceNumber :: u64

definition NewSecurityAssociationCBC ::
    "u32 \<Rightarrow> encrypter \<Rightarrow> byte list \<Rightarrow> integrity_alg \<Rightarrow> byte list \<Rightarrow> security_association" where
  "NewSecurityAssociationCBC spi enc encKey integ integKey =
     \<lparr>sa_SPI = spi, EncryptionAlg = Some enc, EncryptionKey = encKey, IntegrityAlg2 = Some integ,
      IntegrityKey = integKey, IsAEAD = False, SequenceNumber = 0\<rparr>"

definition NextSequenceNumber :: "security_association \<Rightarrow> u32 \<times> security_association" where
  "NextSequenceNumber sa =
     (let n = SequenceNumber sa + 1 in (ucast n, sa\<lparr>SequenceNumber := n\<rparr>))"

definition esp_padding :: "nat \<Rightarrow> nat \<Rightarrow> nat" where
  "esp_padding blockSize neededLen =
     (if neededLen mod blockSize \<noteq> 0 then blockSize - neededLen mod blockSize else 0)"

definition esp_plaintext :: "nat \<Rightarrow> byte list \<Rightarrow> byte \<Rightarrow> byte list" where
  "esp_plaintext blockSize plaintext nh =
     (let padLen = esp_padding blockSize (length plaintext + 2) in
      plaintext @ map (\<lambda>i. of_nat (i + 1)) [0 ..< padLen] @ [of_nat padLen, nh])"

text \<open>\<open>rand n\<close> is \<^verbatim>\<open>crypto.RandomBytes(n)\<close>: \<open>None\<close> when the system's random source fails.\<close>

definition encapsulateTransport ::
    "crypto_prims \<Rightarrow> (nat \<Rightarrow> byte list option) \<Rightarrow> byte list \<Rightarrow> security_association \<Rightarrow> byte \<Rightarrow>
     (esp_error + byte list) \<times> security_association" where
  "encapsulateTransport prims rand plaintext sa nh =
     (case EncryptionAlg sa of
        None \<Rightarrow> (Inl MissingEncryptionAlg, sa)
      | Some alg \<Rightarrow>
          let (seq, sa') = NextSequenceNumber sa;
              header = put32 (sa_SPI sa) @ put32 seq
          in case rand (IVSize alg) of
              None \<Rightarrow> (Inl RandomFailed, sa')
            | Some iv \<Rightarrow>
                (res_bind (Encrypt prims alg (esp_plaintext (BlockSize alg) plaintext nh)
                    (EncryptionKey sa) iv) (\<lambda>ciphertext.
                   let out = header @ iv @ ciphertext in
                   case IntegrityAlg2 sa of
                     Some mac \<Rightarrow>
                       if \<not> IsAEAD sa then Inr (out @ Compute prims mac (IntegrityKey sa) out)
                       else Inr out
                   | None \<Rightarrow> Inr out), sa'))"

definition esp_unpad :: "byte list \<Rightarrow> esp_error + (byte list \<times> byte)" where
  "esp_unpad plaintext =
     (if length plaintext < 2 then Inl DecryptedTooShort
      else let padLen = unat (plaintext ! (length plaintext - 2)) in
      if length plaintext < 2 + padLen then Inl InvalidPadding
      else Inr (take (length plaintext - 2 - padLen) plaintext, plaintext ! (length plaintext - 1)))"

definition decapsulateTransport ::
    "crypto_prims \<Rightarrow> byte list \<Rightarrow> security_association \<Rightarrow> esp_error + (byte list \<times> byte)" where
  "decapsulateTransport prims packet sa =
     (if length packet < 8 then Inl PacketTooShort
      else case EncryptionAlg sa of
        None \<Rightarrow> Inl NilEncryptionAlgPanic
      | Some alg \<Rightarrow>
          let ivSize = IVSize alg in
          if length packet < 8 + ivSize then Inl TooShortForIv
          else res_bind
            (case IntegrityAlg2 sa of
               Some mac \<Rightarrow>
                 if \<not> IsAEAD sa then
                   let icvSize = OutputSize mac in
                   if length packet < 8 + ivSize + icvSize then Inl TooShortForIcv
                   else
                     let receivedICV = drop (length packet - icvSize) packet;
                         signed = take (length packet - icvSize) packet
                     in if \<not> Verify prims mac (IntegrityKey sa) signed receivedICV
                        then Inl IntegrityCheckFailed
                        else Inr (subslice packet (8 + ivSize) (length packet - icvSize))
                 else Inr (drop (8 + ivSize) packet)
             | None \<Rightarrow> Inr (drop (8 + ivSize) packet))
            (\<lambda>ciphertext.
               res_bind (Decrypt prims alg ciphertext (EncryptionKey sa) (subslice packet 8 (8 + ivSize)))
                 esp_unpad))"

section \<open>The interface of a cipher\<close>

text \<open>What the ESP code relies on: an aligned plaintext encrypts under any IV of the right size to
  as many bytes, which decrypt to it.\<close>

locale esp_cipher =
  fixes ivSize blockSize :: nat
    and encf decf :: "byte list \<Rightarrow> byte list \<Rightarrow> esp_error + byte list"
  assumes block_pos: "0 < blockSize" and block_max: "blockSize \<le> 256"
    and dec_enc: "length iv = ivSize \<Longrightarrow> length pt mod blockSize = 0 \<Longrightarrow>
      \<exists>ct. encf pt iv = Inr ct \<and> length ct = length pt \<and> decf ct iv = Inr pt"
begin

lemma padding_less: "esp_padding blockSize n < blockSize"
  using block_pos by (simp add: esp_padding_def)

lemma padding_aligns: "(n + esp_padding blockSize n) mod blockSize = 0"
proof (cases "n mod blockSize = 0")
  case False
  define r where "r = n mod blockSize"
  have "r < blockSize" and "n = blockSize * (n div blockSize) + r" using block_pos by (simp_all add: r_def)
  then have "n + (blockSize - r) = blockSize * (n div blockSize + 1)" by simp
  then show ?thesis using False by (simp add: esp_padding_def r_def)
qed (simp add: esp_padding_def)

lemma length_plaintext:
  "length (esp_plaintext blockSize pl nh) = length pl + 2 + esp_padding blockSize (length pl + 2)"
  by (simp add: esp_plaintext_def Let_def)

lemma plaintext_aligned: "length (esp_plaintext blockSize pl nh) mod blockSize = 0"
  unfolding length_plaintext by (rule padding_aligns)

lemma unpad_plaintext: "esp_unpad (esp_plaintext blockSize pl nh) = Inr (pl, nh)"
proof -
  define n where "n = esp_padding blockSize (length pl + 2)"
  have "n < 256" using padding_less [of "length pl + 2"] block_max by (simp add: n_def)
  then have "unat (of_nat n :: byte) = n" by simp
  moreover have "esp_plaintext blockSize pl nh =
      (pl @ map (\<lambda>i. of_nat (i + 1)) [0 ..< n]) @ [of_nat n, nh]"
    by (simp add: esp_plaintext_def Let_def n_def)
  ultimately show ?thesis by (simp add: esp_unpad_def Let_def nth_append)
qed

lemma sealed:
  assumes "length iv = ivSize"
  obtains ct where "encf (esp_plaintext blockSize pl nh) iv = Inr ct"
    and "length ct = length (esp_plaintext blockSize pl nh)"
    and "res_bind (decf ct iv) esp_unpad = Inr (pl, nh)"
  using dec_enc [OF assms plaintext_aligned, of pl nh] unpad_plaintext by auto

end

interpretation null_cipher: esp_cipher "IVSize NullEncrypter" "BlockSize NullEncrypter"
    "\<lambda>pt iv. Encrypt prims NullEncrypter pt key iv" "\<lambda>ct iv. Decrypt prims NullEncrypter ct key iv"
  for prims key
  by unfold_locales auto

subsection \<open>The CBC ciphers\<close>

text \<open>The documented behaviour of a block cipher, and of the two constructors on keys of the
  size they ask for.\<close>

definition blocks_invert :: "nat \<Rightarrow> block_cipher \<Rightarrow> bool" where
  "blocks_invert n c \<longleftrightarrow>
     (\<forall>b. length b = n \<longrightarrow> length (blk_enc c b) = n \<and> blk_dec c (blk_enc c b) = b)"

definition prims_ok :: "crypto_prims \<Rightarrow> bool" where
  "prims_ok prims \<longleftrightarrow>
     (\<forall>key. length key = 16 \<longrightarrow> (\<exists>c. aes_cipher prims key = Some c \<and> blocks_invert 16 c)) \<and>
     (\<forall>key. length key = 24 \<longrightarrow> (\<exists>c. des3_cipher prims key = Some c \<and> blocks_invert 8 c))"

fun key_fits :: "encrypter \<Rightarrow> byte list \<Rightarrow> bool" where
  "key_fits AesCBC key \<longleftrightarrow> length key = 16"
| "key_fits TripleDesCBC key \<longleftrightarrow> length key = 24"
| "key_fits NullEncrypter key \<longleftrightarrow> True"

lemma xor_twice: "length xs = length ys \<Longrightarrow> map2 (XOR) (map2 (XOR) xs ys) ys = (xs :: byte list)"
  by (induction xs ys rule: list_induct2) (auto simp: ac_simps bit.xor_self)

lemma cbc_round_trip:
  assumes "blocks_invert n c" and "0 < n"
  shows "length prev = n \<Longrightarrow> length xs mod n = 0 \<Longrightarrow>
    length (cbc_encrypt (blk_enc c) n prev xs) = length xs \<and>
    cbc_decrypt (blk_dec c) n prev (cbc_encrypt (blk_enc c) n prev xs) = xs"
proof (induction "length xs" arbitrary: prev xs rule: less_induct)
  case less
  show ?case
  proof (cases "xs = []")
    case True
    then show ?thesis by (simp add: cbc_encrypt.simps [of _ _ _ "[]"] cbc_decrypt.simps [of _ _ _ "[]"])
  next
    case False
    have len: "n \<le> length xs" using less.prems(2) False by (metis length_0_conv mod_less not_le)
    let ?x = "map2 (XOR) (take n xs) prev"
    let ?c = "blk_enc c ?x"
    have x: "length ?x = n" using len less.prems(1) by simp
    then have c: "length ?c = n" "blk_dec c ?c = ?x" using assms(1) by (auto simp: blocks_invert_def)
    have "length (drop n xs) mod n = 0" using less.prems(2) len by (simp add: le_mod_geq)
    with less.hyps [of "drop n xs" ?c] have ih:
      "length (cbc_encrypt (blk_enc c) n ?c (drop n xs)) = length xs - n"
      "cbc_decrypt (blk_dec c) n ?c (cbc_encrypt (blk_enc c) n ?c (drop n xs)) = drop n xs"
      using c assms(2) False by auto
    have enc: "cbc_encrypt (blk_enc c) n prev xs = ?c @ cbc_encrypt (blk_enc c) n ?c (drop n xs)"
      using assms(2) False by (subst cbc_encrypt.simps) (simp add: Let_def)
    have "?c \<noteq> []" using c(1) assms(2) by (metis length_0_conv less_numeral_extra(3))
    then have "cbc_decrypt (blk_dec c) n prev (cbc_encrypt (blk_enc c) n prev xs) =
        map2 (XOR) ?x prev @ drop n xs"
      unfolding enc using c ih assms(2) by (subst cbc_decrypt.simps) simp
    moreover have "map2 (XOR) ?x prev = take n xs" using len less.prems(1) by (intro xor_twice) simp
    moreover have "length (cbc_encrypt (blk_enc c) n prev xs) = length xs"
      unfolding enc using c(1) ih(1) len by simp
    ultimately show ?thesis by simp
  qed
qed

lemma esp_cipher_of:
  assumes "prims_ok prims" and "key_fits alg key"
  shows "esp_cipher (IVSize alg) (BlockSize alg) (\<lambda>pt iv. Encrypt prims alg pt key iv)
    (\<lambda>ct iv. Decrypt prims alg ct key iv)"
proof (cases alg)
  case AesCBC
  then obtain c where c: "aes_cipher prims key = Some c" "blocks_invert 16 c"
    using assms by (auto simp: prims_ok_def)
  show ?thesis
    by unfold_locales (use cbc_round_trip [OF c(2)] in \<open>auto simp: AesCBC c(1) cbc_with_def\<close>)
next
  case TripleDesCBC
  then obtain c where c: "des3_cipher prims key = Some c" "blocks_invert 8 c"
    using assms by (auto simp: prims_ok_def)
  show ?thesis
    by unfold_locales (use cbc_round_trip [OF c(2)] in \<open>auto simp: TripleDesCBC c(1) cbc_with_def\<close>)
next
  case NullEncrypter
  then show ?thesis using null_cipher.esp_cipher_axioms by simp
qed

section \<open>The interface of an authenticator\<close>

locale esp_mac =
  fixes compute :: "byte list \<Rightarrow> byte list \<Rightarrow> byte list"
    and verify :: "byte list \<Rightarrow> byte list \<Rightarrow> byte list \<Rightarrow> bool"
    and outSize :: nat
  assumes length_compute: "length (compute key msg) = outSize"
    and verify_iff: "verify key msg tag \<longleftrightarrow> compute key msg = tag"
begin

lemma signed_verifies:
  "take (length (m @ compute key m) - outSize) (m @ compute key m) = m"
  "drop (length (m @ compute key m) - outSize) (m @ compute key m) = compute key m"
  by (simp_all add: length_compute)

lemma verified_is_signed:
  assumes "verify key (take (length p - outSize) p) (drop (length p - outSize) p)"
  shows "\<exists>m. p = m @ compute key m \<and> m = take (length p - outSize) p"
  using assms by (metis append_take_drop_id verify_iff)

end

interpretation flow_mac: esp_mac "Compute prims alg" "Verify prims alg" "OutputSize alg"
  for prims alg
proof
  show "length (Compute prims alg key msg) = OutputSize alg" for key msg
    by (cases alg) (simp_all add: OutputSize_def)
qed (simp add: Verify_def)

section \<open>The ESP payload\<close>

text \<open>The random source returns as many bytes as it is asked for.\<close>

definition rand_ok :: "(nat \<Rightarrow> byte list option) \<Rightarrow> bool" where
  "rand_ok rand \<longleftrightarrow> (\<forall>n. \<exists>b. rand n = Some b \<and> length b = n)"

text \<open>Two associations that use the same algorithms and keys.\<close>

definition paired :: "security_association \<Rightarrow> security_association \<Rightarrow> bool" where
  "paired a b \<longleftrightarrow>
     EncryptionAlg a = EncryptionAlg b \<and> EncryptionKey a = EncryptionKey b \<and>
     IntegrityAlg2 a = IntegrityAlg2 b \<and> IntegrityKey a = IntegrityKey b \<and> IsAEAD a = IsAEAD b"

definition esp_ready :: "security_association \<Rightarrow> bool" where
  "esp_ready sa \<longleftrightarrow>
     (\<exists>alg. EncryptionAlg sa = Some alg \<and> key_fits alg (EncryptionKey sa)) \<and>
     IntegrityAlg2 sa \<noteq> None \<and> \<not> IsAEAD sa"

lemma esp_readyE:
  assumes "esp_ready sa"
  obtains alg mac where "EncryptionAlg sa = Some alg" and "key_fits alg (EncryptionKey sa)"
    and "IntegrityAlg2 sa = Some mac" and "\<not> IsAEAD sa"
  using assms by (auto simp: esp_ready_def)

lemma encapsulate_shape:
  assumes "prims_ok prims" and "rand_ok rand" and alg: "EncryptionAlg sa = Some alg"
    and key: "key_fits alg (EncryptionKey sa)" and mac: "IntegrityAlg2 sa = Some mac" "\<not> IsAEAD sa"
  obtains iv ct where
    "encapsulateTransport prims rand pl sa nh =
       (Inr ((put32 (sa_SPI sa) @ put32 (ucast (SequenceNumber sa + 1)) @ iv @ ct) @
          Compute prims mac (IntegrityKey sa)
            (put32 (sa_SPI sa) @ put32 (ucast (SequenceNumber sa + 1)) @ iv @ ct)),
        sa\<lparr>SequenceNumber := SequenceNumber sa + 1\<rparr>)"
    and "length iv = IVSize alg"
    and "length ct = length (esp_plaintext (BlockSize alg) pl nh)"
    and "res_bind (Decrypt prims alg ct (EncryptionKey sa) iv) esp_unpad = Inr (pl, nh)"
proof -
  obtain iv where iv: "rand (IVSize alg) = Some iv" "length iv = IVSize alg"
    using assms(2) by (meson rand_ok_def)
  from esp_cipher.sealed [OF esp_cipher_of [OF assms(1) key] iv(2), of pl nh] obtain ct where ct:
    "Encrypt prims alg (esp_plaintext (BlockSize alg) pl nh) (EncryptionKey sa) iv = Inr ct"
    "length ct = length (esp_plaintext (BlockSize alg) pl nh)"
    "res_bind (Decrypt prims alg ct (EncryptionKey sa) iv) esp_unpad = Inr (pl, nh)" by auto
  show ?thesis
    using that [of iv ct] iv ct alg mac
    by (simp add: encapsulateTransport_def NextSequenceNumber_def Let_def)
qed

lemma decapsulate_signed:
  assumes alg: "EncryptionAlg sa = Some alg" and mac: "IntegrityAlg2 sa = Some mac" "\<not> IsAEAD sa"
    and "length header = 8" and "length iv = IVSize alg"
  shows "decapsulateTransport prims
      ((header @ iv @ ct) @ Compute prims mac (IntegrityKey sa) (header @ iv @ ct)) sa =
    res_bind (Decrypt prims alg ct (EncryptionKey sa) iv) esp_unpad"
proof -
  let ?m = "header @ iv @ ct"
  let ?p = "?m @ Compute prims mac (IntegrityKey sa) ?m"
  have size: "length (Compute prims mac k m) = OutputSize mac" for k m by (rule flow_mac.length_compute)
  have "subslice ?p (8 + IVSize alg) (length ?p - OutputSize mac) = ct"
    using assms size by (simp add: subslice_def)
  moreover have "subslice ?p 8 (8 + IVSize alg) = iv" using assms by (simp add: subslice_def)
  moreover have "Verify prims mac (IntegrityKey sa) (take (length ?p - OutputSize mac) ?p)
      (drop (length ?p - OutputSize mac) ?p)"
    unfolding flow_mac.signed_verifies by (simp add: Verify_def)
  ultimately show ?thesis
    unfolding decapsulateTransport_def alg mac(1) Let_def option.case
    using assms size by simp
qed

lemma encapsulate_opens:
  assumes "prims_ok prims" and "rand_ok rand" and "esp_ready out_sa" and "paired out_sa in_sa"
  obtains esp where "fst (encapsulateTransport prims rand pl out_sa nh) = Inr esp"
    and "decapsulateTransport prims esp in_sa = Inr (pl, nh)"
    and "parseESPSPISeq esp = Inr (sa_SPI out_sa, ucast (SequenceNumber out_sa + 1))"
    and "length esp = 20 + (case EncryptionAlg out_sa of None \<Rightarrow> 0 | Some alg \<Rightarrow>
      IVSize alg + length (esp_plaintext (BlockSize alg) pl nh))"
proof -
  from esp_readyE [OF assms(3)] obtain alg mac where a: "EncryptionAlg out_sa = Some alg"
    "key_fits alg (EncryptionKey out_sa)" "IntegrityAlg2 out_sa = Some mac" "\<not> IsAEAD out_sa" by blast
  let ?hd = "put32 (sa_SPI out_sa) @ put32 (ucast (SequenceNumber out_sa + 1))"
  from encapsulate_shape [OF assms(1,2) a, of pl nh] obtain iv ct where e:
    "encapsulateTransport prims rand pl out_sa nh =
       (Inr ((?hd @ iv @ ct) @ Compute prims mac (IntegrityKey out_sa) (?hd @ iv @ ct)),
        out_sa\<lparr>SequenceNumber := SequenceNumber out_sa + 1\<rparr>)"
    "length iv = IVSize alg" "length ct = length (esp_plaintext (BlockSize alg) pl nh)"
    "res_bind (Decrypt prims alg ct (EncryptionKey out_sa) iv) esp_unpad = Inr (pl, nh)"
    by (metis append.assoc)
  let ?esp = "(?hd @ iv @ ct) @ Compute prims mac (IntegrityKey out_sa) (?hd @ iv @ ct)"
  have "decapsulateTransport prims ?esp in_sa = Inr (pl, nh)"
    using decapsulate_signed [of in_sa alg mac ?hd iv prims ct] a e assms(4) by (simp add: paired_def)
  moreover have "parseESPSPISeq ?esp = Inr (sa_SPI out_sa, ucast (SequenceNumber out_sa + 1))"
    by (simp add: parseESPSPISeq_def subslice_def)
  moreover have "length ?esp = 20 + (IVSize alg + length (esp_plaintext (BlockSize alg) pl nh))"
    using e flow_mac.length_compute [of prims mac] by (simp add: OutputSize_def)
  ultimately show ?thesis using that [of ?esp] e(1) a(1) by simp
qed

lemma encapsulate_next:
  "esp_ready sa \<Longrightarrow>
     snd (encapsulateTransport prims rand pl sa nh) = sa\<lparr>SequenceNumber := SequenceNumber sa + 1\<rparr>"
  by (auto simp: esp_ready_def encapsulateTransport_def NextSequenceNumber_def Let_def split: option.split)

text \<open>Property C9: what one end encapsulates, the other end's association opens to the same
  payload and protocol; the packet carries the association's SPI and the next sequence
  number, and every call takes a number of its own.\<close>

theorem encapsulate_decapsulate:
  assumes "prims_ok prims" and "rand_ok rand" and "esp_ready out_sa" and "paired out_sa in_sa"
  shows "\<exists>esp. encapsulateTransport prims rand pl out_sa nh =
      (Inr esp, out_sa\<lparr>SequenceNumber := SequenceNumber out_sa + 1\<rparr>) \<and>
    decapsulateTransport prims esp in_sa = Inr (pl, nh) \<and>
    parseESPSPISeq esp = Inr (sa_SPI out_sa, ucast (SequenceNumber out_sa + 1))"
proof -
  from encapsulate_opens [OF assms] obtain esp where
    "fst (encapsulateTransport prims rand pl out_sa nh) = Inr esp"
    "decapsulateTransport prims esp in_sa = Inr (pl, nh)"
    "parseESPSPISeq esp = Inr (sa_SPI out_sa, ucast (SequenceNumber out_sa + 1))" by blast
  then show ?thesis
    using encapsulate_next [OF assms(3)] by (intro exI [of _ esp]) (simp add: prod_eq_iff)
qed

text \<open>A concrete instance of the parameters: block ciphers that exclusive-or the key, and
  digests of the length only.\<close>

definition xor_cipher :: "nat \<Rightarrow> byte list \<Rightarrow> block_cipher" where
  "xor_cipher n key =
     \<lparr>blk_enc = (\<lambda>b. map2 (XOR) b (take n key)), blk_dec = (\<lambda>b. map2 (XOR) b (take n key))\<rparr>"

definition demo_prims :: crypto_prims where
  "demo_prims =
     \<lparr>aes_cipher = (\<lambda>key. if length key = 16 then Some (xor_cipher 16 key) else None),
      des3_cipher = (\<lambda>key. if length key = 24 then Some (xor_cipher 8 key) else None),
      hmac_md5 = (\<lambda>key m. of_nat (length key + length m)),
      hmac_sha1 = (\<lambda>key m. of_nat (length key + length m))\<rparr>"

definition demo_rand :: "nat \<Rightarrow> byte list option" where
  "demo_rand n = Some (map of_nat [0 ..< n])"

lemma xor_cipher_inverts: "length key \<ge> n \<Longrightarrow> blocks_invert n (xor_cipher n key)"
  by (auto simp: blocks_invert_def xor_cipher_def intro!: xor_twice)

lemma demo_prims_ok: "prims_ok demo_prims"
  by (simp add: prims_ok_def demo_prims_def xor_cipher_inverts)

lemma demo_rand_ok: "rand_ok demo_rand"
  by (simp add: rand_ok_def demo_rand_def)

definition demo_sa :: security_association where
  "demo_sa = NewSecurityAssociationCBC 0x1234 AesCBC (replicate 16 7) HmacSHA1_96 (replicate 20 9)"

lemma demo_sa_ready: "esp_ready demo_sa"
  by (simp add: esp_ready_def demo_sa_def NewSecurityAssociationCBC_def)

theorem encapsulate_decapsulate_witness:
  "\<exists>esp. encapsulateTransport demo_prims demo_rand [1, 2, 3] demo_sa 6 =
      (Inr esp, demo_sa\<lparr>SequenceNumber := SequenceNumber demo_sa + 1\<rparr>) \<and>
    decapsulateTransport demo_prims esp demo_sa = Inr ([1, 2, 3], 6) \<and>
    parseESPSPISeq esp = Inr (sa_SPI demo_sa, ucast (SequenceNumber demo_sa + 1))"
  by (rule encapsulate_decapsulate [OF demo_prims_ok demo_rand_ok demo_sa_ready])
    (simp add: paired_def)

lemma decapsulate_signed_only:
  assumes "decapsulateTransport prims packet sa = Inr x"
    and "IntegrityAlg2 sa = Some mac" and "\<not> IsAEAD sa"
  shows "\<exists>m. packet = m @ Compute prims mac (IntegrityKey sa) m \<and> 8 \<le> length m"
proof -
  obtain alg where alg: "EncryptionAlg sa = Some alg"
    using assms by (auto simp: decapsulateTransport_def split: if_splits option.splits)
  then have len: "8 + IVSize alg + OutputSize mac \<le> length packet"
    and ok: "Verify prims mac (IntegrityKey sa) (take (length packet - OutputSize mac) packet)
      (drop (length packet - OutputSize mac) packet)"
    using assms by (auto simp: decapsulateTransport_def Let_def split: if_splits)
  from flow_mac.verified_is_signed [OF ok] obtain m where
    "packet = m @ Compute prims mac (IntegrityKey sa) m"
    and m: "m = take (length packet - OutputSize mac) packet" by blast
  moreover have "8 \<le> length m" unfolding m length_take using len by simp
  ultimately show ?thesis by blast
qed

text \<open>A packet is decapsulated only when its last bytes are the code's own digest,
  under the association's key, of everything before them: SPI, sequence number, IV and
  ciphertext are all authenticated.\<close>

theorem decapsulate_only_authentic:
  assumes "decapsulateTransport prims packet sa = Inr x"
    and "IntegrityAlg2 sa = Some mac" and "\<not> IsAEAD sa"
  shows "\<exists>m. packet = m @ Compute prims mac (IntegrityKey sa) m \<and> 8 \<le> length m"
  using decapsulate_signed_only [OF assms] .

theorem decapsulate_only_authentic_witness:
  "\<exists>m. projr (fst (encapsulateTransport demo_prims demo_rand [1] demo_sa 6)) =
     m @ Compute demo_prims HmacSHA1_96 (IntegrityKey demo_sa) m \<and> 8 \<le> length m"
proof -
  let ?esp = "projr (fst (encapsulateTransport demo_prims demo_rand [1] demo_sa 6))"
  have "paired demo_sa demo_sa" by (simp add: paired_def)
  from encapsulate_opens [OF demo_prims_ok demo_rand_ok demo_sa_ready this] obtain esp where
    "fst (encapsulateTransport demo_prims demo_rand [1] demo_sa 6) = Inr esp"
    "decapsulateTransport demo_prims esp demo_sa = Inr ([1], 6)" by blast
  then have "decapsulateTransport demo_prims ?esp demo_sa = Inr ([1], 6)" by simp
  from decapsulate_only_authentic [OF this] show ?thesis
    by (simp add: demo_sa_def NewSecurityAssociationCBC_def)
qed

section \<open>The derived keys\<close>

lemma derived_enc_fits:
  "deriveEncKey encAlg ck = Inr k \<Longrightarrow> encrypterForFlow encAlg = Inr alg \<Longrightarrow> key_fits alg k"
  by (auto simp: deriveEncKey_def encrypterForFlow_def Let_def DeriveAESCBCKeyFromCK_def
      Derive3DESKeyFromCK_def akaCKLen_def split: if_splits)

lemma derived_auth_length:
  "deriveAuthKey authAlg ik = Inr k \<Longrightarrow> integrityForFlow authAlg = Inr mac \<Longrightarrow>
     length k = (case mac of HmacSHA1_96 \<Rightarrow> 20 | HmacMD5_96 \<Rightarrow> 16)"
  by (auto simp: deriveAuthKey_def integrityForFlow_def Let_def DeriveHMACSHA1KeyFromIK_def
      DeriveHMACMD5KeyFromIK_def akaIKLen_def split: if_splits)

text \<open>For algorithms the transport supports, key derivation succeeds on every CK
  and IK of the AKA's 16 bytes, and the keys have the sizes the ciphers and digests ask for.\<close>

theorem derived_keys_fit:
  assumes "encrypterForFlow encAlg = Inr alg" and "integrityForFlow authAlg = Inr mac"
    and "length ck = akaCKLen" and "length ik = akaIKLen"
  shows "\<exists>ks. DeriveSecureChannelKeys encAlg authAlg ck ik = Inr ks \<and> key_fits alg (EncKey ks) \<and>
    length (AuthKey ks) = (case mac of HmacSHA1_96 \<Rightarrow> 20 | HmacMD5_96 \<Rightarrow> 16)"
proof -
  obtain k where k: "deriveEncKey encAlg ck = Inr k"
    using assms(1,3) by (auto simp: deriveEncKey_def encrypterForFlow_def Let_def
        DeriveAESCBCKeyFromCK_def Derive3DESKeyFromCK_def split: if_splits)
  obtain a where a: "deriveAuthKey authAlg ik = Inr a"
    using assms(2,4) by (auto simp: deriveAuthKey_def integrityForFlow_def Let_def
        DeriveHMACSHA1KeyFromIK_def DeriveHMACMD5KeyFromIK_def split: if_splits)
  show ?thesis
    using k a derived_enc_fits [OF k assms(1)] derived_auth_length [OF a assms(2)]
    by (simp add: DeriveSecureChannelKeys_def)
qed

theorem derived_keys_fit_witness:
  "\<exists>ks. DeriveSecureChannelKeys ''AES-CBC'' ''hmac-sha-1-96'' (replicate 16 0x11) (replicate 16 0x22) = Inr ks \<and>
    key_fits AesCBC (EncKey ks) \<and> length (AuthKey ks) = (case HmacSHA1_96 of HmacSHA1_96 \<Rightarrow> 20 | HmacMD5_96 \<Rightarrow> 16)"
proof (rule derived_keys_fit)
  show "encrypterForFlow ''AES-CBC'' = Inr AesCBC" by code_simp
  show "integrityForFlow ''hmac-sha-1-96'' = Inr HmacSHA1_96" by code_simp
qed (simp_all add: akaCKLen_def akaIKLen_def)

definition ones_in :: "byte \<Rightarrow> nat" where
  "ones_in b = length (filter (bit b) [0 ..< 8])"

lemma parity_loop_eq:
  "n \<le> 7 \<Longrightarrow>
     parity_loop n b p = p XOR of_bool (odd (length (filter (bit b) [7 - n ..< 7])))"
proof (induction n arbitrary: p)
  case (Suc n)
  have "[7 - Suc n ..< 7] = (6 - n) # [7 - n ..< 7]"
    using Suc.prems upt_conv_Cons [of "6 - n" 7] by (simp add: Suc_diff_le [symmetric])
  moreover have "b AND push_bit (6 - n) 1 \<noteq> 0 \<longleftrightarrow> bit b (6 - n)"
    by (simp add: bit_iff_and_push_bit_not_eq_0)
  ultimately show ?case
    using Suc by (auto simp: Let_def ac_simps simp del: push_bit_of_1)
qed simp

lemma des_parity_odd: "odd (ones_in (setDESOddParityByte b))"
proof -
  let ?k = "length (filter (bit b) [0 ..< 7])"
  have split: "ones_in c = length (filter (bit c) [0 ..< 7]) + of_bool (bit c 7)" for c :: byte
  proof -
    have "[0 ..< 8] = [0 ..< 7] @ [7 :: nat]" by (simp add: upt_rec)
    then show ?thesis by (simp add: ones_in_def)
  qed
  have m: "bit (push_bit 7 (1 :: byte)) x \<longleftrightarrow> x = 7" for x
    by (simp only: bit_push_bit_iff bit_1_iff) auto
  have low: "length (filter (bit (b OR push_bit 7 1)) [0 ..< 7]) = ?k"
    "length (filter (bit (b AND NOT (push_bit 7 1))) [0 ..< 7]) = ?k"
    by (intro arg_cong [of _ _ length] filter_cong; simp only: bit_or_iff bit_and_iff bit_not_iff m; simp)+
  have high: "bit (b OR push_bit 7 1) 7" "\<not> bit (b AND NOT (push_bit 7 1)) 7"
    by (simp_all only: bit_or_iff bit_and_iff bit_not_iff m simp_thms)
  have "parity_loop 7 b 0 = of_bool (odd ?k)" by (simp add: parity_loop_eq)
  then show ?thesis
    unfolding setDESOddParityByte_def using low high by (auto simp: split)
qed

lemma derived_3des_parity:
  assumes "Derive3DESKeyFromCK ck = Inr key"
  shows "length key = 24" and "b \<in> set key \<Longrightarrow> odd (ones_in b)"
  using assms des_parity_odd by (auto simp: Derive3DESKeyFromCK_def akaCKLen_def split: if_splits)

text \<open>Every byte of a derived 3DES key has odd parity, and the code reaches it by
  setting the most significant bit; but that bit is key material (DES takes its parity from the
  least significant bit of each byte), so there are CKs whose derived key differs from them in a
  bit that DES uses.\<close>

theorem des_parity_in_wrong_bit:
  "(\<forall>ck key. Derive3DESKeyFromCK ck = Inr key \<longrightarrow>
      length key = 24 \<and> (\<forall>i < 24. odd (ones_in (key ! i)))) \<and>
   (\<exists>ck key. length ck = akaCKLen \<and> Derive3DESKeyFromCK ck = Inr key \<and>
      map (drop_bit 1) (take 16 key) \<noteq> map (drop_bit 1) ck)"
proof
  show "\<forall>ck key. Derive3DESKeyFromCK ck = Inr key \<longrightarrow>
      length key = 24 \<and> (\<forall>i < 24. odd (ones_in (key ! i)))"
    using derived_3des_parity by auto
  have "length (replicate 16 (0 :: byte)) = akaCKLen" by (simp add: akaCKLen_def)
  moreover have "Derive3DESKeyFromCK (replicate 16 0) = Inr (replicate 24 0x80)" by code_simp
  moreover have "map (drop_bit 1) (take 16 (replicate 24 0x80)) \<noteq> map (drop_bit 1) (replicate 16 (0 :: byte))"
    by code_simp
  ultimately show "\<exists>ck key. length ck = akaCKLen \<and> Derive3DESKeyFromCK ck = Inr key \<and>
      map (drop_bit 1) (take 16 key) \<noteq> map (drop_bit 1) ck" by blast
qed

theorem des_parity_in_wrong_bit_witness:
  "length (replicate 24 (0x80 :: byte)) = 24 \<and> odd (ones_in (replicate 24 0x80 ! 5))"
proof -
  have key: "Derive3DESKeyFromCK (replicate 16 0) = Inr (replicate 24 0x80)" by code_simp
  note t = des_parity_in_wrong_bit [THEN conjunct1, rule_format, OF key]
  show ?thesis by (rule conjI [OF t [THEN conjunct1] t [THEN conjunct2, rule_format]]) simp
qed

end
