(* ===== verification/ReplayWindow.thy ===== *)
theory ReplayWindow
  imports GoPrelude
begin

unbundle bit_operations_syntax

section \<open>The anti-replay window of ESP\<close>

text \<open>
  \<^verbatim>\<open>vowifi-go/internal/vowifi/ipsec3gpp/replay.go\<close>: a window of at most 64 sequence numbers
  behind the highest one accepted, kept as a bitmap.  The counters and the bitmap keep their
  widths; the mutex makes each call one step.  \<open>replay_spec\<close> is the abstract window: the list
  of the sequence numbers accepted so far.
\<close>

record replay_stats =
  Accepted :: u64
  Duplicate :: u64
  TooOld :: u64

record replay_window =
  win_size :: u32
  initialized :: bool
  highest :: u32
  bitmap :: u64
  stats :: replay_stats

definition zero_replay_stats :: replay_stats where
  "zero_replay_stats = \<lparr>Accepted = 0, Duplicate = 0, TooOld = 0\<rparr>"

definition defaultReplayWindowSize :: u32 where
  "defaultReplayWindowSize = 64"

definition NewReplayWindow :: "u32 \<Rightarrow> replay_window" where
  "NewReplayWindow size0 =
     (let size1 = (if size0 = 0 then defaultReplayWindowSize else size0);
          size2 = (if size1 > 64 then 64 else size1)
      in \<lparr>win_size = size2, initialized = False, highest = 0, bitmap = 0, stats = zero_replay_stats\<rparr>)"

abbreviation bump_accepted :: "replay_stats \<Rightarrow> replay_stats" where
  "bump_accepted s \<equiv> s\<lparr>Accepted := Accepted s + 1\<rparr>"

abbreviation bump_duplicate :: "replay_stats \<Rightarrow> replay_stats" where
  "bump_duplicate s \<equiv> s\<lparr>Duplicate := Duplicate s + 1\<rparr>"

abbreviation bump_too_old :: "replay_stats \<Rightarrow> replay_stats" where
  "bump_too_old s \<equiv> s\<lparr>TooOld := TooOld s + 1\<rparr>"

definition Accept :: "replay_window \<Rightarrow> u32 \<Rightarrow> bool \<times> replay_window" where
  "Accept w seq =
     (if seq = 0 then (False, w\<lparr>stats := bump_too_old (stats w)\<rparr>)
      else if \<not> initialized w then
        (True, w\<lparr>initialized := True, highest := seq, bitmap := 1, stats := bump_accepted (stats w)\<rparr>)
      else if seq > highest w then
        (let shift = seq - highest w;
             b = (if shift \<ge> win_size w then 1 else push_bit (unat shift) (bitmap w) OR 1)
         in (True, w\<lparr>bitmap := b, highest := seq, stats := bump_accepted (stats w)\<rparr>))
      else
        (let delta = highest w - seq in
         if delta \<ge> win_size w then (False, w\<lparr>stats := bump_too_old (stats w)\<rparr>)
         else
           (let m = push_bit (unat delta) (1 :: u64) in
            if bitmap w AND m \<noteq> 0 then (False, w\<lparr>stats := bump_duplicate (stats w)\<rparr>)
            else (True, w\<lparr>bitmap := bitmap w OR m, stats := bump_accepted (stats w)\<rparr>))))"

definition Snapshot :: "replay_window \<Rightarrow> replay_stats" where
  "Snapshot w = stats w"

text \<open>A run of packets: the decisions in order, and the window afterwards.\<close>

primrec accept_run :: "replay_window \<Rightarrow> u32 list \<Rightarrow> bool list \<times> replay_window" where
  "accept_run w [] = ([], w)"
| "accept_run w (s # ss) =
     (let (ok, w') = Accept w s; (oks, w'') = accept_run w' ss in (ok # oks, w''))"

definition accepted_seqs :: "replay_window \<Rightarrow> u32 list \<Rightarrow> u32 list" where
  "accepted_seqs w ss = map snd (filter fst (zip (fst (accept_run w ss)) ss))"

subsection \<open>The abstract window\<close>

text \<open>A packet is accepted when its number is not zero, was not accepted before, and is not
  \<open>n\<close> (the window's size) or more behind the greatest number accepted.\<close>

definition replay_fresh :: "nat \<Rightarrow> u32 list \<Rightarrow> u32 \<Rightarrow> bool" where
  "replay_fresh n acc seq \<longleftrightarrow>
     seq \<noteq> 0 \<and> seq \<notin> set acc \<and> (\<forall>s \<in> set acc. unat s < unat seq + n)"

primrec replay_spec :: "nat \<Rightarrow> u32 list \<Rightarrow> u32 list \<Rightarrow> bool list \<times> u32 list" where
  "replay_spec n acc [] = ([], acc)"
| "replay_spec n acc (s # ss) =
     (let ok = replay_fresh n acc s;
          (oks, acc') = replay_spec n (if ok then s # acc else acc) ss
      in (ok # oks, acc'))"

subsection \<open>The window represents the list\<close>

definition seq_behind :: "u32 \<Rightarrow> nat \<Rightarrow> u32" where
  "seq_behind h d = of_nat (unat h - d)"

lemma unat_seq_behind [simp]: "unat (seq_behind h d) = unat h - d"
proof -
  have "unat h - d < 4294967296" using unat_u32_less [of h] by linarith
  then show ?thesis unfolding seq_behind_def unat_of_nat_u32 by (rule mod_less)
qed

lemma seq_behind_eq_iff: "seq_behind h d = s \<longleftrightarrow> unat h - d = unat s"
  by (simp add: word_unat_eq_iff)

definition window_bits :: "u32 \<Rightarrow> u32 \<Rightarrow> u64 \<Rightarrow> u32 list \<Rightarrow> bool" where
  "window_bits n h b acc \<longleftrightarrow>
     (\<forall>d < unat n. d \<le> unat h \<longrightarrow> (bit b d \<longleftrightarrow> seq_behind h d \<in> set acc))"

definition replay_rep :: "replay_window \<Rightarrow> u32 list \<Rightarrow> bool" where
  "replay_rep w acc \<longleftrightarrow>
     0 < unat (win_size w) \<and> unat (win_size w) \<le> 64 \<and> 0 \<notin> set acc \<and>
     (if initialized w
      then highest w \<in> set acc \<and> (\<forall>s \<in> set acc. s \<le> highest w) \<and>
        window_bits (win_size w) (highest w) (bitmap w) acc
      else acc = [])"

lemma replay_rep_new: "replay_rep (NewReplayWindow n) []"
proof -
  have "unat n \<noteq> 0" if "n \<noteq> 0" using that by (simp add: unat_eq_zero)
  moreover have "unat n \<le> 64" if "\<not> 64 < n" using that by (simp add: word_less_nat_alt)
  ultimately show ?thesis
    by (auto simp: replay_rep_def NewReplayWindow_def Let_def defaultReplayWindowSize_def)
qed

lemma fresh_iff_window:
  assumes "replay_rep w acc" and "initialized w" and "s \<noteq> 0"
  shows "replay_fresh (unat (win_size w)) acc s \<longleftrightarrow>
    s \<notin> set acc \<and> unat (highest w) < unat s + unat (win_size w)"
  using assms unfolding replay_fresh_def replay_rep_def
  by (auto simp: word_le_nat_alt intro: le_less_trans)

lemma window_bits_first: "s \<noteq> 0 \<Longrightarrow> window_bits n s 1 [s]"
  by (auto simp: window_bits_def bit_1_iff seq_behind_eq_iff word_unat_eq_iff)

lemma window_bits_ahead:
  assumes rep: "window_bits n h b acc" and top: "\<forall>x \<in> set acc. x \<le> h" and ahead: "h < s"
    and n: "unat n \<le> 64"
  shows "window_bits n s (if n \<le> s - h then 1 else push_bit (unat (s - h)) b OR 1) (s # acc)"
proof -
  have sh: "unat (s - h) = unat s - unat h" and hs: "unat h < unat s"
    using ahead by (simp_all add: unat_sub word_less_nat_alt word_le_nat_alt)
  have inside: "seq_behind s d \<in> set (s # acc) \<longleftrightarrow> d = 0 \<or> seq_behind s d \<in> set acc" if "d \<le> unat s" for d
    using that hs by (auto simp: seq_behind_eq_iff)
  have above: "seq_behind s d \<notin> set acc" if "d < unat s - unat h" for d
  proof
    assume "seq_behind s d \<in> set acc"
    then have "unat (seq_behind s d) \<le> unat h" using top word_le_nat_alt by blast
    then show False using that by simp
  qed
  have below: "bit b (d - (unat s - unat h)) \<longleftrightarrow> seq_behind s d \<in> set acc"
    if "unat s - unat h \<le> d" "d < unat n" "d \<le> unat s" for d
  proof -
    have "unat h - (d - (unat s - unat h)) = unat s - d" using that hs by linarith
    moreover have "d - (unat s - unat h) < unat n" and "d - (unat s - unat h) \<le> unat h"
      using that hs by linarith+
    ultimately show ?thesis using rep by (metis seq_behind_def window_bits_def)
  qed
  have "bit (if n \<le> s - h then 1 else push_bit (unat (s - h)) b OR 1) d \<longleftrightarrow>
      seq_behind s d \<in> set (s # acc)" if d: "d < unat n" "d \<le> unat s" for d
  proof (cases "d < unat s - unat h")
    case True
    then show ?thesis using inside [OF d(2)] above [OF True] d n
      by (auto simp: bit_1_iff bit_or_iff bit_push_bit_iff sh)
  next
    case False
    then have "\<not> n \<le> s - h" using d by (auto simp: word_le_nat_alt sh)
    then show ?thesis using False inside [OF d(2)] below d n hs
      by (auto simp: bit_1_iff bit_or_iff bit_push_bit_iff sh)
  qed
  then show ?thesis by (simp add: window_bits_def)
qed

lemma window_bits_behind:
  assumes rep: "window_bits n h b acc" and le: "s \<le> h" and inside: "unat h - unat s < unat n"
    and n: "unat n \<le> 64"
  shows "window_bits n h (b OR push_bit (unat h - unat s) 1) (s # acc)"
proof -
  have eq: "seq_behind h d = s \<longleftrightarrow> d = unat h - unat s" if "d \<le> unat h" for d
    using that le by (auto simp: seq_behind_eq_iff word_le_nat_alt)
  show ?thesis
    using rep inside n by (auto simp: window_bits_def bit_or_iff bit_exp_iff eq)
qed

lemma Accept_refines:
  assumes rep: "replay_rep w acc" and step: "Accept w s = (ok, w')"
  shows "ok = replay_fresh (unat (win_size w)) acc s"
    and "replay_rep w' (if ok then s # acc else acc)"
    and "win_size w' = win_size w"
proof -
  let ?fresh = "replay_fresh (unat (win_size w)) acc s"
  have n: "0 < unat (win_size w)" "unat (win_size w) \<le> 64" using rep by (auto simp: replay_rep_def)
  consider (zero) "s = 0" | (first) "s \<noteq> 0" "\<not> initialized w"
    | (ahead) "s \<noteq> 0" "initialized w" "highest w < s"
    | (old) "s \<noteq> 0" "initialized w" "s \<le> highest w" "win_size w \<le> highest w - s"
    | (inside) "s \<noteq> 0" "initialized w" "s \<le> highest w" "highest w - s < win_size w"
    by (metis not_le)
  then have "ok = ?fresh \<and> replay_rep w' (if ok then s # acc else acc) \<and> win_size w' = win_size w"
  proof cases
    case zero
    then show ?thesis using rep step by (auto simp: Accept_def replay_fresh_def replay_rep_def)
  next
    case first
    then show ?thesis using rep step window_bits_first [of s]
      by (auto simp: Accept_def replay_fresh_def replay_rep_def)
  next
    case ahead
    have "s \<notin> set acc" and le: "\<forall>x \<in> set acc. x \<le> s"
      using rep ahead by (auto simp: replay_rep_def dest: le_less_trans)
    then have fresh: ?fresh
      using fresh_iff_window [OF rep ahead(2,1)] ahead(3) by (simp add: word_less_nat_alt)
    have "window_bits (win_size w) s (bitmap w') (s # acc) \<and> highest w' = s \<and> ok \<and> initialized w'
        \<and> win_size w' = win_size w"
      using step rep ahead window_bits_ahead [of "win_size w" "highest w" "bitmap w" acc s] n
      by (auto simp: Accept_def Let_def replay_rep_def)
    then show ?thesis using fresh rep ahead le by (auto simp: replay_rep_def)
  next
    case old
    then have "unat (win_size w) \<le> unat (highest w) - unat s"
      by (simp add: word_le_nat_alt unat_sub)
    then have "\<not> ?fresh" using fresh_iff_window [OF rep old(2,1)] n(1) by auto
    moreover have "\<not> highest w < s" using old(3) by (simp add: not_less)
    ultimately show ?thesis using old step rep by (auto simp: Accept_def Let_def replay_rep_def)
  next
    case inside
    define d where "d = unat (highest w) - unat s"
    have d: "unat (highest w - s) = d" "d < unat (win_size w)" "d \<le> unat (highest w)"
      using inside by (auto simp: d_def unat_sub word_less_nat_alt)
    have s: "seq_behind (highest w) d = s"
      using inside by (simp add: seq_behind_eq_iff d_def word_le_nat_alt)
    then have mem: "bit (bitmap w) d \<longleftrightarrow> s \<in> set acc"
      using rep inside d by (simp add: replay_rep_def window_bits_def)
    have fresh: "?fresh \<longleftrightarrow> s \<notin> set acc"
      using fresh_iff_window [OF rep inside(2,1)] d by (simp add: d_def) linarith
    have behind: "\<not> highest w < s" "\<not> win_size w \<le> highest w - s" using inside by (simp_all add: not_less not_le)
    show ?thesis
    proof (cases "s \<in> set acc")
      case True
      then have "bitmap w AND push_bit d 1 \<noteq> 0" using mem by (simp add: bit_iff_and_push_bit_not_eq_0)
      then show ?thesis using step rep inside d True fresh behind
        by (auto simp: Accept_def Let_def replay_rep_def)
    next
      case False
      then have "bitmap w AND push_bit d 1 = 0" using mem by (simp add: bit_iff_and_push_bit_not_eq_0)
      then show ?thesis
        using step rep inside d False fresh n behind window_bits_behind [of "win_size w" "highest w" "bitmap w" acc s]
        by (auto simp: Accept_def Let_def replay_rep_def d_def)
    qed
  qed
  then show "ok = ?fresh" "replay_rep w' (if ok then s # acc else acc)" "win_size w' = win_size w"
    by auto
qed

lemma accept_run_refines:
  "replay_rep w acc \<Longrightarrow>
     fst (accept_run w ss) = fst (replay_spec (unat (win_size w)) acc ss) \<and>
     replay_rep (snd (accept_run w ss)) (snd (replay_spec (unat (win_size w)) acc ss)) \<and>
     win_size (snd (accept_run w ss)) = win_size w"
proof (induction ss arbitrary: w acc)
  case (Cons s ss)
  obtain ok w' where step: "Accept w s = (ok, w')" by fastforce
  note ref = Accept_refines [OF Cons.prems step]
  show ?case using Cons.IH [OF ref(2)] step ref by (auto simp: Let_def split: prod.splits)
qed simp

lemma spec_accepted_distinct:
  "distinct acc \<Longrightarrow>
     let (oks, acc') = replay_spec n acc ss
     in distinct acc' \<and> acc' = rev (map snd (filter fst (zip oks ss))) @ acc"
proof (induction ss arbitrary: acc)
  case (Cons s ss)
  have "distinct (if replay_fresh n acc s then s # acc else acc)"
    using Cons.prems by (simp add: replay_fresh_def)
  from Cons.IH [OF this] show ?case by (auto simp: Let_def split: prod.splits if_splits)
qed simp

text \<open>Property C1: the bitmap window makes, for every packet sequence, exactly the decisions
  of the abstract window that remembers every sequence number it accepted.\<close>

theorem replay_window_refines_spec:
  "fst (accept_run (NewReplayWindow n) ss) =
     fst (replay_spec (unat (win_size (NewReplayWindow n))) [] ss)"
  using accept_run_refines [OF replay_rep_new] by simp

text \<open>No sequence number is accepted twice, whatever packets arrive in whatever
  order, and zero is never accepted.\<close>

theorem no_replay_accepted:
  "distinct (accepted_seqs (NewReplayWindow n) ss) \<and> 0 \<notin> set (accepted_seqs (NewReplayWindow n) ss)"
proof -
  let ?w = "NewReplayWindow n"
  let ?sp = "replay_spec (unat (win_size ?w)) [] ss"
  have run: "fst (accept_run ?w ss) = fst ?sp" and rep: "replay_rep (snd (accept_run ?w ss)) (snd ?sp)"
    using accept_run_refines [OF replay_rep_new] by auto
  have "distinct (snd ?sp)" and "snd ?sp = rev (accepted_seqs ?w ss)"
    using spec_accepted_distinct [of "[]" "unat (win_size ?w)" ss] run
    by (auto simp: accepted_seqs_def split: prod.splits)
  moreover have "0 \<notin> set (snd ?sp)" using rep by (simp add: replay_rep_def)
  ultimately show ?thesis by simp
qed

end
