(* ===== verification/EspTransport.thy ===== *)
theory EspTransport
  imports EspCrypto ReplayWindow "HOL-Library.AList"
begin

section \<open>Policies and the ESP transport\<close>

text \<open>
  \<^verbatim>\<open>ipsec3gpp/policy.go\<close> and the \<open>Transport\<close> of \<^verbatim>\<open>ipsec3gpp/transport.go\<close>: the policy
  negotiated with the P-CSCF, the two flows built from it, and the two transforms.  The map of
  inbound flows holds pointers into the slice of outbound flows; here it holds their indices.
  A \<open>nil\<close> transport is not modelled.  The atomic counters are fields of the state.
\<close>

subsection \<open>Policies\<close>

record flow =
  OutboundSPI :: u32
  InboundSPI :: u32
  LocalPort :: int
  RemotePort :: int
  AuthAlg :: string
  EncAlg :: string
  CK :: "byte list"
  IK :: "byte list"

record policy =
  LocalIP :: "byte list"
  RemoteIP :: "byte list"
  LocalPortC :: int
  LocalPortS :: int
  RemotePortC :: int
  RemotePortS :: int
  FlowC :: flow
  FlowS :: flow

record security_mechanism =
  Alg :: string
  EAlg :: string
  Prot :: string
  Mode :: string
  SPIc :: u32
  SPIs :: u32
  PortC :: int
  PortS :: int
  Raw :: string

text \<open>A \<^verbatim>\<open>net.IP\<close> is a byte slice that may be \<open>nil\<close>.\<close>

record policy_input =
  in_LocalIP :: "byte list option"
  in_RemoteIP :: "byte list option"
  Mech :: security_mechanism
  in_CK :: "byte list"
  in_IK :: "byte list"
  in_AuthAlg :: string
  in_EncAlg :: string
  UEPortC :: int
  UEPortS :: int
  UESPIc :: u32
  UESPIs :: u32

datatype policy_error =
    LocalIpError | RemoteIpError | KeysRequired | AlgorithmsRequired | SpisRequired
  | NilIpPair | IpFamilyMismatch

definition To4 :: "byte list \<Rightarrow> byte list option" where
  "To4 ip =
     (if length ip = 4 then Some ip
      else if length ip = 16 \<and> take 10 ip = replicate 10 0 \<and> ip ! 10 = 0xff \<and> ip ! 11 = 0xff
        then Some (drop 12 ip)
      else None)"

definition To16 :: "byte list \<Rightarrow> byte list option" where
  "To16 ip =
     (if length ip = 4 then Some (replicate 10 0 @ [0xff, 0xff] @ ip)
      else if length ip = 16 then Some ip
      else None)"

definition normalizeIP :: "byte list option \<Rightarrow> byte list option" where
  "normalizeIP ip =
     (case ip of
        None \<Rightarrow> None
      | Some b \<Rightarrow> (case To4 b of Some v4 \<Rightarrow> Some v4 | None \<Rightarrow> To16 b))"

definition normalizeIPPair ::
    "byte list \<Rightarrow> byte list \<Rightarrow> policy_error + (byte list \<times> byte list)" where
  "normalizeIPPair a b =
     (if length a = 0 \<or> length b = 0 then Inl NilIpPair
      else if (length a = 4) \<noteq> (length b = 4) then Inl IpFamilyMismatch
      else Inr (a, b))"

primrec coalesce :: "string list \<Rightarrow> string" where
  "coalesce [] = []"
| "coalesce (v # vs) = (if trimToken v \<noteq> [] then trimToken v else coalesce vs)"

definition ipEqual :: "byte list \<Rightarrow> byte list \<Rightarrow> bool" where
  "ipEqual a b \<longleftrightarrow> length a = length b \<and> list_all (\<lambda>i. a ! i = b ! i) [0 ..< length a]"

lemma ipEqual_iff [simp]: "ipEqual a b \<longleftrightarrow> a = b"
  by (auto simp: ipEqual_def list_all_iff intro: nth_equalityI)

record port_pair =
  localC :: int
  localS :: int
  remoteC :: int
  remoteS :: int

definition or_default :: "int \<Rightarrow> int \<Rightarrow> int" where
  "or_default p d = (if p = 0 then d else p)"

definition fillPorts :: "security_mechanism \<Rightarrow> port_pair" where
  "fillPorts mech =
     (let lc = or_default (PortC mech) 5060
      in \<lparr>localC = lc, localS = or_default (PortS mech) lc, remoteC = 5060, remoteS = 5060\<rparr>)"

definition fillPortsFromInput :: "policy_input \<Rightarrow> port_pair" where
  "fillPortsFromInput i =
     \<lparr>localC = or_default (UEPortC i) 5062, localS = or_default (UEPortS i) 5063,
      remoteC = or_default (PortC (Mech i)) 5060, remoteS = or_default (PortS (Mech i)) 5060\<rparr>"

definition policy_of ::
    "policy_input \<Rightarrow> byte list \<Rightarrow> byte list \<Rightarrow> string \<Rightarrow> string \<Rightarrow> policy" where
  "policy_of i localIP remoteIP authAlg encAlg =
     (let ports = fillPortsFromInput i;
          ueSPIc = (if UESPIc i = 0 then SPIc (Mech i) else UESPIc i);
          ueSPIs = (if UESPIs i = 0 then SPIs (Mech i) else UESPIs i);
          flowC = \<lparr>OutboundSPI = SPIs (Mech i), InboundSPI = ueSPIc,
            LocalPort = localC ports, RemotePort = remoteS ports,
            AuthAlg = authAlg, EncAlg = encAlg, CK = in_CK i, IK = in_IK i\<rparr>;
          flowS = \<lparr>OutboundSPI = SPIc (Mech i), InboundSPI = ueSPIs,
            LocalPort = localS ports, RemotePort = remoteC ports,
            AuthAlg = authAlg, EncAlg = encAlg, CK = in_CK i, IK = in_IK i\<rparr>
      in \<lparr>LocalIP = localIP, RemoteIP = remoteIP,
          LocalPortC = localC ports, LocalPortS = localS ports,
          RemotePortC = remoteC ports, RemotePortS = remoteS ports,
          FlowC = flowC, FlowS = flowS\<rparr>)"

definition NewPolicy :: "policy_input \<Rightarrow> policy_error + policy" where
  "NewPolicy i =
     (case normalizeIP (in_LocalIP i) of
        None \<Rightarrow> Inl LocalIpError
      | Some localIP \<Rightarrow>
     (case normalizeIP (in_RemoteIP i) of
        None \<Rightarrow> Inl RemoteIpError
      | Some remoteIP \<Rightarrow>
        if in_CK i = [] \<or> in_IK i = [] then Inl KeysRequired
        else let
          authAlg = canonicalAuthAlg (coalesce [in_AuthAlg i, Alg (Mech i)]);
          encAlg = canonicalEncAlg (coalesce [in_EncAlg i, EAlg (Mech i)])
        in if authAlg = [] \<or> encAlg = [] then Inl AlgorithmsRequired
        else if SPIc (Mech i) = 0 \<or> SPIs (Mech i) = 0 then Inl SpisRequired
        else Inr (policy_of i localIP remoteIP authAlg encAlg)))"

lemma NewPolicy_cases:
  assumes "NewPolicy i = Inr p"
  obtains localIP remoteIP authAlg encAlg where "normalizeIP (in_LocalIP i) = Some localIP"
    and "normalizeIP (in_RemoteIP i) = Some remoteIP"
    and "authAlg = canonicalAuthAlg (coalesce [in_AuthAlg i, Alg (Mech i)])"
    and "encAlg = canonicalEncAlg (coalesce [in_EncAlg i, EAlg (Mech i)])"
    and "p = policy_of i localIP remoteIP authAlg encAlg"
  using assms by (auto simp: NewPolicy_def Let_def simp del: coalesce.simps split: option.splits if_splits)

subsection \<open>The transport\<close>

datatype transport_error =
    IpFailed ip_error | EspFailed esp_error | PolicyFailed policy_error
  | EmptyPacket | FragmentedOutbound | FragmentedInbound
  | UnsupportedOutboundProtocol byte | UnsupportedInboundProtocol byte
  | UnknownSPI u32 | ReplayRejected

record transport_flow =
  tf_flow :: flow
  outboundSA :: security_association
  inboundSA :: security_association
  replay :: replay_window

record transport =
  t_policy :: policy
  outbound :: "transport_flow list"
  inbound :: "(u32 \<times> nat) list"
  peerInboundPackets :: u64
  outboundPackets :: u64
  inboundPackets :: u64
  passthroughPackets :: u64
  transformErrors :: u64

record transport_stats =
  PeerInboundPackets :: u64
  OutboundPackets :: u64
  InboundPackets :: u64
  PassthroughPackets :: u64
  TransformErrors :: u64
  Replay :: replay_stats

definition newSAForFlow :: "flow \<Rightarrow> u32 \<Rightarrow> esp_error + security_association" where
  "newSAForFlow f spi =
     res_bind (DeriveSecureChannelKeys (EncAlg f) (AuthAlg f) (CK f) (IK f)) (\<lambda>keys.
     res_bind (encrypterForFlow (EncAlg f)) (\<lambda>enc.
     res_bind (integrityForFlow (AuthAlg f)) (\<lambda>integ.
       Inr (NewSecurityAssociationCBC spi enc (EncKey keys) integ (AuthKey keys)))))"

definition newTransportFlow :: "flow \<Rightarrow> esp_error + transport_flow" where
  "newTransportFlow f =
     res_bind (newSAForFlow f (OutboundSPI f)) (\<lambda>outSA.
     res_bind (newSAForFlow f (InboundSPI f)) (\<lambda>inSA.
       Inr \<lparr>tf_flow = f, outboundSA = outSA, inboundSA = inSA,
            replay = NewReplayWindow defaultReplayWindowSize\<rparr>))"

definition NewTransport :: "policy \<Rightarrow> transport_error + transport" where
  "NewTransport p =
     (case normalizeIPPair (LocalIP p) (RemoteIP p) of
        Inl e \<Rightarrow> Inl (PolicyFailed e)
      | Inr _ \<Rightarrow>
     (case newTransportFlow (FlowC p) of
        Inl e \<Rightarrow> Inl (EspFailed e)
      | Inr outC \<Rightarrow>
     (case newTransportFlow (FlowS p) of
        Inl e \<Rightarrow> Inl (EspFailed e)
      | Inr outS \<Rightarrow>
        Inr \<lparr>t_policy = p, outbound = [outC, outS],
             inbound = AList.update (InboundSPI (FlowS p)) 1 [(InboundSPI (FlowC p), 0)],
             peerInboundPackets = 0, outboundPackets = 0, inboundPackets = 0,
             passthroughPackets = 0, transformErrors = 0\<rparr>)))"

definition matchesOutboundEndpoints :: "transport \<Rightarrow> parsed_ip \<Rightarrow> bool" where
  "matchesOutboundEndpoints t x \<longleftrightarrow>
     ipEqual (pkt_src x) (LocalIP (t_policy t)) \<and> ipEqual (pkt_dst x) (RemoteIP (t_policy t))"

definition matchesInboundEndpoints :: "transport \<Rightarrow> parsed_ip \<Rightarrow> bool" where
  "matchesInboundEndpoints t x \<longleftrightarrow>
     ipEqual (pkt_src x) (RemoteIP (t_policy t)) \<and> ipEqual (pkt_dst x) (LocalIP (t_policy t))"

definition flow_matches :: "transport \<Rightarrow> parsed_ip \<Rightarrow> transport_flow \<Rightarrow> bool" where
  "flow_matches t x fl \<longleftrightarrow>
     matchesOutboundEndpoints t x \<and>
     int (srcPort x) = LocalPort (tf_flow fl) \<and> int (dstPort x) = RemotePort (tf_flow fl)"

definition matchOutbound :: "transport \<Rightarrow> parsed_ip \<Rightarrow> nat option" where
  "matchOutbound t x = find (\<lambda>i. flow_matches t x (outbound t ! i)) [0 ..< length (outbound t)]"

abbreviation count_error :: "transport \<Rightarrow> transport" where
  "count_error t \<equiv> t\<lparr>transformErrors := transformErrors t + 1\<rparr>"

abbreviation count_passthrough :: "transport \<Rightarrow> transport" where
  "count_passthrough t \<equiv> t\<lparr>passthroughPackets := passthroughPackets t + 1\<rparr>"

definition set_flow :: "transport \<Rightarrow> nat \<Rightarrow> transport_flow \<Rightarrow> transport" where
  "set_flow t i fl = t\<lparr>outbound := (outbound t)[i := fl]\<rparr>"

definition TransformOutbound ::
    "crypto_prims \<Rightarrow> (nat \<Rightarrow> byte list option) \<Rightarrow> transport \<Rightarrow> byte list \<Rightarrow>
     (transport_error + byte list) \<times> transport" where
  "TransformOutbound prims rand t packet =
     (if packet = [] then (Inl EmptyPacket, t)
      else case parseIPPacket packet of
        Inl e \<Rightarrow> (Inl (IpFailed e), count_error t)
      | Inr parsed \<Rightarrow>
        if fragmented parsed \<and> matchesOutboundEndpoints t parsed then
          (Inl FragmentedOutbound, count_error t)
        else (case matchOutbound t parsed of
          None \<Rightarrow> (Inr packet, count_passthrough t)
        | Some i \<Rightarrow>
          if nextHeader parsed \<noteq> ipProtoTCP \<and> nextHeader parsed \<noteq> ipProtoUDP then
            (Inl (UnsupportedOutboundProtocol (nextHeader parsed)), count_error t)
          else let
            fl = outbound t ! i;
            (r, sa) = encapsulateTransport prims rand (transportPayload parsed) (outboundSA fl)
              (nextHeader parsed);
            t' = set_flow t i (fl\<lparr>outboundSA := sa\<rparr>)
          in (case r of
            Inl e \<Rightarrow> (Inl (EspFailed e), count_error t')
          | Inr esp \<Rightarrow>
            (case replaceIPPayload (pkt_header parsed) esp ipProtoESP of
              Inl e \<Rightarrow> (Inl (IpFailed e), count_error t')
            | Inr out \<Rightarrow> (Inr out, t'\<lparr>outboundPackets := outboundPackets t' + 1\<rparr>)))))"

definition TransformInbound ::
    "crypto_prims \<Rightarrow> transport \<Rightarrow> byte list \<Rightarrow> (transport_error + byte list) \<times> transport" where
  "TransformInbound prims t packet =
     (if packet = [] then (Inl EmptyPacket, t)
      else case parseIPPacket packet of
        Inl e \<Rightarrow> (Inl (IpFailed e), count_error t)
      | Inr parsed \<Rightarrow>
        let t1 = (if matchesInboundEndpoints t parsed
                  then t\<lparr>peerInboundPackets := peerInboundPackets t + 1\<rparr> else t) in
        if fragmented parsed \<and> matchesInboundEndpoints t parsed then
          (Inl FragmentedInbound, count_error t1)
        else if nextHeader parsed \<noteq> ipProtoESP then (Inr packet, count_passthrough t1)
        else (case parseESPSPISeq (transportPayload parsed) of
          Inl e \<Rightarrow> (Inl (IpFailed e), count_error t1)
        | Inr (spi, seq) \<Rightarrow>
          (case map_of (inbound t) spi of
            None \<Rightarrow> (Inl (UnknownSPI spi), count_error t1)
          | Some i \<Rightarrow>
            let fl = outbound t ! i in
            (case decapsulateTransport prims (transportPayload parsed) (inboundSA fl) of
              Inl e \<Rightarrow> (Inl (EspFailed e), count_error t1)
            | Inr (plain, nh) \<Rightarrow>
              let (ok, rw) = Accept (replay fl) seq;
                  t2 = set_flow t1 i (fl\<lparr>replay := rw\<rparr>) in
              if \<not> ok then (Inl ReplayRejected, count_error t2)
              else if nh \<noteq> ipProtoTCP \<and> nh \<noteq> ipProtoUDP then
                (Inl (UnsupportedInboundProtocol nh), count_error t2)
              else (case replaceIPPayload (pkt_header parsed) plain nh of
                Inl e \<Rightarrow> (Inl (IpFailed e), count_error t2)
              | Inr out \<Rightarrow> (Inr out, t2\<lparr>inboundPackets := inboundPackets t2 + 1\<rparr>))))))"

definition add_replay :: "replay_stats \<Rightarrow> replay_stats \<Rightarrow> replay_stats" where
  "add_replay a b =
     \<lparr>Accepted = Accepted a + Accepted b, Duplicate = Duplicate a + Duplicate b,
      TooOld = TooOld a + TooOld b\<rparr>"

definition Stats :: "transport \<Rightarrow> transport_stats" where
  "Stats t =
     \<lparr>PeerInboundPackets = peerInboundPackets t, OutboundPackets = outboundPackets t,
      InboundPackets = inboundPackets t, PassthroughPackets = passthroughPackets t,
      TransformErrors = transformErrors t,
      Replay = foldl add_replay zero_replay_stats
        (map (\<lambda>(_, i). Snapshot (replay (outbound t ! i))) (inbound t))\<rparr>"

subsection \<open>A concrete policy\<close>

definition demo_input :: policy_input where
  "demo_input =
     \<lparr>in_LocalIP = Some [10, 0, 0, 1], in_RemoteIP = Some [10, 0, 0, 2],
      Mech = \<lparr>Alg = ''hmac-sha-1-96'', EAlg = ''aes-cbc'', Prot = ''esp'', Mode = ''trans'',
        SPIc = 0x1001, SPIs = 0x1002, PortC = 5064, PortS = 5060, Raw = []\<rparr>,
      in_CK = replicate 16 0x11, in_IK = replicate 16 0x22, in_AuthAlg = [], in_EncAlg = [],
      UEPortC = 5060, UEPortS = 5063, UESPIc = 0x2001, UESPIs = 0x2002\<rparr>"

definition demo_policy :: policy where
  "demo_policy = projr (NewPolicy demo_input)"

definition demo_transport :: transport where
  "demo_transport = projr (NewTransport demo_policy)"

lemma demo_policy_new: "NewPolicy demo_input = Inr demo_policy"
  by code_simp

lemma demo_transport_new: "NewTransport demo_policy = Inr demo_transport"
  by code_simp

definition demo_wire :: "byte list" where
  "demo_wire = projr (fst (TransformOutbound demo_prims demo_rand demo_transport sample_ipv4))"

section \<open>What each step does to the state\<close>

lemma set_flow_simps [simp]:
  "outbound (set_flow t i fl) = (outbound t)[i := fl]" "inbound (set_flow t i fl) = inbound t"
  "t_policy (set_flow t i fl) = t_policy t"
  "outboundPackets (set_flow t i fl) = outboundPackets t"
  "inboundPackets (set_flow t i fl) = inboundPackets t"
  "passthroughPackets (set_flow t i fl) = passthroughPackets t"
  "transformErrors (set_flow t i fl) = transformErrors t"
  "peerInboundPackets (set_flow t i fl) = peerInboundPackets t"
  by (simp_all add: set_flow_def)

lemma matchOutbound_Some:
  assumes "matchOutbound t x = Some i"
  shows "i < length (outbound t)" and "flow_matches t x (outbound t ! i)"
  using assms by (auto simp: matchOutbound_def find_Some_iff)

text \<open>The packets counted by the transforms: every packet that is not empty lands in exactly one
  of three counters.\<close>

definition outbound_total :: "transport \<Rightarrow> u64" where
  "outbound_total t = outboundPackets t + passthroughPackets t + transformErrors t"

definition inbound_total :: "transport \<Rightarrow> u64" where
  "inbound_total t = inboundPackets t + passthroughPackets t + transformErrors t"

lemma outbound_counts:
  "packet \<noteq> [] \<Longrightarrow> outbound_total (snd (TransformOutbound prims rand t packet)) = outbound_total t + 1"
  by (auto simp: TransformOutbound_def outbound_total_def Let_def ac_simps split: sum.splits option.splits prod.splits)

lemma inbound_counts:
  "packet \<noteq> [] \<Longrightarrow> inbound_total (snd (TransformInbound prims t packet)) = inbound_total t + 1"
  by (auto simp: TransformInbound_def inbound_total_def Let_def ac_simps split: sum.splits option.splits prod.splits)

text \<open>Each transform counts every non-empty packet exactly once: as
  transformed, as passed through, or as an error.\<close>

theorem transforms_count_once:
  assumes "packet \<noteq> []"
  shows "outbound_total (snd (TransformOutbound prims rand t packet)) = outbound_total t + 1 \<and>
    inbound_total (snd (TransformInbound prims t packet)) = inbound_total t + 1"
  using outbound_counts [OF assms] inbound_counts [OF assms] by simp

theorem transforms_count_once_witness:
  "outbound_total (snd (TransformOutbound demo_prims demo_rand demo_transport sample_ipv4)) =
      outbound_total demo_transport + 1 \<and>
    inbound_total (snd (TransformInbound demo_prims demo_transport sample_ipv4)) =
      inbound_total demo_transport + 1"
  by (rule transforms_count_once) (simp add: sample_ipv4_def)

text \<open>An inbound packet that is delivered from ESP, taken apart.\<close>

definition inbound_id :: "byte list \<Rightarrow> (u32 \<times> u32) option" where
  "inbound_id packet =
     (case parseIPPacket packet of
        Inl _ \<Rightarrow> None
      | Inr x \<Rightarrow>
        if nextHeader x \<noteq> ipProtoESP then None
        else case parseESPSPISeq (transportPayload x) of Inl _ \<Rightarrow> None | Inr sp \<Rightarrow> Some sp)"

lemma inbound_delivered:
  assumes "TransformInbound prims t packet = (Inr out, t')" and "inbound_id packet = Some (spi, seq)"
  obtains x i plain nh where "parseIPPacket packet = Inr x"
    and "parseESPSPISeq (transportPayload x) = Inr (spi, seq)" and "map_of (inbound t) spi = Some i"
    and "decapsulateTransport prims (transportPayload x) (inboundSA (outbound t ! i)) = Inr (plain, nh)"
    and "fst (Accept (replay (outbound t ! i)) seq)"
    and "outbound t' = (outbound t)[i := (outbound t ! i)
        \<lparr>replay := snd (Accept (replay (outbound t ! i)) seq)\<rparr>]"
    and "inbound t' = inbound t"
    and "replaceIPPayload (pkt_header x) plain nh = Inr out"
proof -
  obtain x where x: "parseIPPacket packet = Inr x" "nextHeader x = ipProtoESP"
      "parseESPSPISeq (transportPayload x) = Inr (spi, seq)"
    using assms(2) by (auto simp: inbound_id_def split: sum.splits if_splits)
  obtain i where i: "map_of (inbound t) spi = Some i"
    using assms(1) x by (cases "map_of (inbound t) spi")
      (auto simp: TransformInbound_def Let_def split: if_splits)
  obtain plain nh where d:
    "decapsulateTransport prims (transportPayload x) (inboundSA (outbound t ! i)) = Inr (plain, nh)"
    using assms(1) x i
    by (cases "decapsulateTransport prims (transportPayload x) (inboundSA (outbound t ! i))")
      (auto simp: TransformInbound_def Let_def split: if_splits)
  show ?thesis
    by (rule that [OF x(1,3) i d])
      (use assms(1) x i d in \<open>auto simp: TransformInbound_def Let_def split: if_splits sum.splits prod.splits\<close>)
qed

lemma inbound_rejected:
  assumes "TransformInbound prims t packet = (r, t')"
  shows "outbound t' = outbound t \<and> inbound t' = inbound t \<or>
    (\<exists>i seq. i \<in> ran (map_of (inbound t)) \<and> outbound t' = (outbound t)[i := (outbound t ! i)
        \<lparr>replay := snd (Accept (replay (outbound t ! i)) seq)\<rparr>] \<and> inbound t' = inbound t)"
  using assms
  by (auto simp: TransformInbound_def Let_def ran_def
      split: if_splits sum.splits prod.splits option.splits) (metis snd_conv)+

section \<open>No packet is delivered twice\<close>

primrec delivered_ids :: "crypto_prims \<Rightarrow> transport \<Rightarrow> byte list list \<Rightarrow> (u32 \<times> u32) list" where
  "delivered_ids prims t [] = []"
| "delivered_ids prims t (p # ps) =
     (let (r, t') = TransformInbound prims t p in
      (case (r, inbound_id p) of (Inr _, Some sp) \<Rightarrow> [sp] | _ \<Rightarrow> []) @ delivered_ids prims t' ps)"

text \<open>Every flow's window represents the list \<open>acc i\<close> of the numbers it accepted.\<close>

definition windows_ok :: "transport \<Rightarrow> (nat \<Rightarrow> u32 list) \<Rightarrow> bool" where
  "windows_ok t acc \<longleftrightarrow>
     (\<forall>i < length (outbound t). replay_rep (replay (outbound t ! i)) (acc i)) \<and>
     (\<forall>i \<in> ran (map_of (inbound t)). i < length (outbound t))"

lemma windows_ok_new: "NewTransport p = Inr t \<Longrightarrow> windows_ok t (\<lambda>_. [])"
  by (auto simp: NewTransport_def newTransportFlow_def windows_ok_def res_simps less_Suc_eq
      replay_rep_new ran_def split: sum.splits if_splits)

lemma windows_ok_accept:
  assumes ok: "windows_ok t acc" and i: "i \<in> ran (map_of (inbound t))"
    and t': "outbound t' = (outbound t)[i := (outbound t ! i)
        \<lparr>replay := snd (Accept (replay (outbound t ! i)) seq)\<rparr>]" "inbound t' = inbound t"
  shows "windows_ok t' (if fst (Accept (replay (outbound t ! i)) seq) then acc(i := seq # acc i) else acc)"
    and "fst (Accept (replay (outbound t ! i)) seq) \<Longrightarrow> seq \<notin> set (acc i)"
proof -
  have len: "i < length (outbound t)" using ok i by (auto simp: windows_ok_def)
  then have rep: "replay_rep (replay (outbound t ! i)) (acc i)" using ok by (auto simp: windows_ok_def)
  obtain b w where step: "Accept (replay (outbound t ! i)) seq = (b, w)" by fastforce
  note ref = Accept_refines [OF rep step]
  show "windows_ok t' (if fst (Accept (replay (outbound t ! i)) seq) then acc(i := seq # acc i) else acc)"
    using ok ref(2) len by (auto simp: windows_ok_def t' step nth_list_update)
  show "seq \<notin> set (acc i)" if "fst (Accept (replay (outbound t ! i)) seq)"
    using that ref(1) by (simp add: step replay_fresh_def)
qed

lemma delivered_distinct:
  "windows_ok t acc \<Longrightarrow>
     distinct (delivered_ids prims t ps) \<and>
     (\<forall>(spi, seq) \<in> set (delivered_ids prims t ps). \<forall>i. map_of (inbound t) spi = Some i \<longrightarrow> seq \<notin> set (acc i)) \<and>
     (\<forall>(spi, seq) \<in> set (delivered_ids prims t ps). map_of (inbound t) spi \<noteq> None)"
proof (induction ps arbitrary: t acc)
  case (Cons p ps)
  obtain r t' where step: "TransformInbound prims t p = (r, t')" by fastforce
  show ?case
  proof (cases "\<exists>out sp. r = Inr out \<and> inbound_id p = Some sp")
    case True
    then obtain out spi seq where d: "r = Inr out" "inbound_id p = Some (spi, seq)" by auto
    from inbound_delivered [OF step [unfolded d(1)] d(2)] obtain i where i:
      "map_of (inbound t) spi = Some i" "fst (Accept (replay (outbound t ! i)) seq)"
      "outbound t' = (outbound t)[i := (outbound t ! i)
        \<lparr>replay := snd (Accept (replay (outbound t ! i)) seq)\<rparr>]" "inbound t' = inbound t" by metis
    from i(1) have ran: "i \<in> ran (map_of (inbound t))" by (auto simp: ran_def)
    have ok: "windows_ok t' (acc(i := seq # acc i))" and new: "seq \<notin> set (acc i)"
      using windows_ok_accept [OF Cons.prems ran i(3,4)] i(2) by auto
    have ids: "delivered_ids prims t (p # ps) = (spi, seq) # delivered_ids prims t' ps"
      using step d by simp
    show ?thesis unfolding ids using Cons.IH [OF ok] new i(1,4) by (fastforce split: if_splits)
  next
    case False
    then have ids: "delivered_ids prims t (p # ps) = delivered_ids prims t' ps"
      using step by (auto split: sum.splits option.splits)
    from inbound_rejected [OF step] consider (same) "outbound t' = outbound t" "inbound t' = inbound t"
      | (accept) i seq where "i \<in> ran (map_of (inbound t))" "outbound t' = (outbound t)[i := (outbound t ! i)
        \<lparr>replay := snd (Accept (replay (outbound t ! i)) seq)\<rparr>]" "inbound t' = inbound t" by blast
    then show ?thesis
    proof cases
      case same
      then have "windows_ok t' acc" using Cons.prems by (simp add: windows_ok_def)
      from Cons.IH [OF this] show ?thesis unfolding ids using same by simp
    next
      case accept
      from Cons.IH [OF windows_ok_accept(1) [OF Cons.prems accept]] show ?thesis
        unfolding ids using accept(3) by (fastforce split: if_splits)
    qed
  qed
qed simp

text \<open>Property C2: whatever packets arrive, in whatever order and however often, a transport
  delivers at most one packet for each pair of SPI and sequence number.\<close>

theorem inbound_never_replays:
  assumes "NewTransport p = Inr t"
  shows "distinct (delivered_ids prims t packets)"
  using delivered_distinct [OF windows_ok_new [OF assms]] by blast

section \<open>The invariant of a transport\<close>

definition transport_ok :: "transport \<Rightarrow> bool" where
  "transport_ok t \<longleftrightarrow>
     length (outbound t) = 2 \<and> (\<forall>(_, i) \<in> set (inbound t). i < 2) \<and>
     (\<forall>fl \<in> set (outbound t). esp_ready (outboundSA fl) \<and> esp_ready (inboundSA fl))"

lemma transport_ok_flow:
  assumes "transport_ok t" and "map_of (inbound t) spi = Some i"
  shows "i < length (outbound t)" and "esp_ready (inboundSA (outbound t ! i))"
proof -
  show i: "i < length (outbound t)"
    using assms map_of_SomeD [OF assms(2)] by (fastforce simp: transport_ok_def)
  then show "esp_ready (inboundSA (outbound t ! i))" using assms by (simp add: transport_ok_def)
qed

lemma newSA_ready: "newSAForFlow f spi = Inr sa \<Longrightarrow> esp_ready sa \<and> sa_SPI sa = spi \<and> SequenceNumber sa = 0"
  by (auto simp: newSAForFlow_def res_simps DeriveSecureChannelKeys_def esp_ready_def
      NewSecurityAssociationCBC_def dest: derived_enc_fits)

lemma newTransportFlow_ready:
  "newTransportFlow f = Inr fl \<Longrightarrow>
     esp_ready (outboundSA fl) \<and> esp_ready (inboundSA fl) \<and> tf_flow fl = f \<and>
     sa_SPI (outboundSA fl) = OutboundSPI f \<and> SequenceNumber (outboundSA fl) = 0"
  by (auto simp: newTransportFlow_def res_simps dest: newSA_ready)

lemma NewTransport_Inr:
  assumes "NewTransport p = Inr t"
  obtains outC outS where "newTransportFlow (FlowC p) = Inr outC" and "newTransportFlow (FlowS p) = Inr outS"
    and "outbound t = [outC, outS]" and "t_policy t = p"
    and "inbound t = AList.update (InboundSPI (FlowS p)) 1 [(InboundSPI (FlowC p), 0)]"
  using assms by (auto simp: NewTransport_def split: sum.splits)

lemma transport_ok_new: "NewTransport p = Inr t \<Longrightarrow> transport_ok t"
  by (erule NewTransport_Inr) (auto simp: transport_ok_def dest: newTransportFlow_ready split: if_splits)

lemma transport_ok_inbound:
  assumes "transport_ok t"
  shows "transport_ok (snd (TransformInbound prims t packet))"
proof -
  obtain r t' where step: "TransformInbound prims t packet = (r, t')" by fastforce
  have "esp_ready (outboundSA fl) \<and> esp_ready (inboundSA fl)" if "fl \<in> set (outbound t')" for fl
    using inbound_rejected [OF step]
  proof (elim disjE exE conjE)
    assume "outbound t' = outbound t"
    then show ?thesis using that assms by (simp add: transport_ok_def)
  next
    fix i seq
    assume i: "i \<in> ran (map_of (inbound t))" and out: "outbound t' = (outbound t)[i := (outbound t ! i)
        \<lparr>replay := snd (Accept (replay (outbound t ! i)) seq)\<rparr>]"
    from i obtain spi where "map_of (inbound t) spi = Some i" by (auto simp: ran_def)
    then have "i < length (outbound t)" using transport_ok_flow [OF assms] by blast
    then show ?thesis using that assms set_update_subset_insert [of "outbound t" i]
      by (fastforce simp: transport_ok_def out)
  qed
  then show ?thesis
    using inbound_rejected [OF step] assms by (auto simp: transport_ok_def step)
qed

lemma encapsulate_keeps_ready:
  "esp_ready sa \<Longrightarrow> esp_ready (snd (encapsulateTransport prims rand pl sa nh))"
  by (auto simp: encapsulateTransport_def NextSequenceNumber_def esp_ready_def Let_def split: option.splits)

lemma outbound_flows:
  assumes "TransformOutbound prims rand t packet = (r, t')"
  shows "inbound t' = inbound t \<and> (outbound t' = outbound t \<or>
    (\<exists>i pl nh. i < length (outbound t) \<and> outbound t' = (outbound t)[i := (outbound t ! i)
      \<lparr>outboundSA := snd (encapsulateTransport prims rand pl (outboundSA (outbound t ! i)) nh)\<rparr>]))"
proof (cases "parseIPPacket packet")
  case (Inl e)
  then show ?thesis using assms by (auto simp: TransformOutbound_def split: if_splits)
next
  case (Inr x)
  show ?thesis
  proof (cases "matchOutbound t x")
    case None
    then show ?thesis using assms Inr by (auto simp: TransformOutbound_def split: if_splits)
  next
    case (Some i)
    let ?fl' = "(outbound t ! i)\<lparr>outboundSA := snd (encapsulateTransport prims rand
      (transportPayload x) (outboundSA (outbound t ! i)) (nextHeader x))\<rparr>"
    have "inbound t' = inbound t \<and> (outbound t' = outbound t \<or> outbound t' = (outbound t)[i := ?fl'])"
      using assms Inr Some
      by (auto simp: TransformOutbound_def Let_def case_prod_beta split: if_splits sum.splits)
    then show ?thesis using matchOutbound_Some(1) [OF Some] by blast
  qed
qed

lemma transport_ok_outbound:
  assumes "transport_ok t"
  shows "transport_ok (snd (TransformOutbound prims rand t packet))"
proof -
  obtain r t' where step: "TransformOutbound prims rand t packet = (r, t')" by fastforce
  from outbound_flows [OF step] show ?thesis
  proof (elim conjE disjE exE)
    fix i pl nh
    assume i: "i < length (outbound t)" "inbound t' = inbound t" and out: "outbound t' = (outbound t)[i := (outbound t ! i)
      \<lparr>outboundSA := snd (encapsulateTransport prims rand pl (outboundSA (outbound t ! i)) nh)\<rparr>]"
    have "esp_ready (outboundSA fl) \<and> esp_ready (inboundSA fl)" if "fl \<in> set (outbound t')" for fl
      using that assms i encapsulate_keeps_ready set_update_subset_insert [of "outbound t" i]
      by (fastforce simp: transport_ok_def out)
    then show ?thesis using assms i out by (simp add: transport_ok_def step)
  qed (use assms step in \<open>simp add: transport_ok_def\<close>)
qed

text \<open>a new transport has two flows whose associations hold usable keys for their
  algorithms and authenticate, and a table of inbound SPIs that names only those flows; both
  transforms keep it so, on every packet.\<close>

theorem transport_invariant:
  assumes "NewTransport p = Inr t0"
  shows "transport_ok t0 \<and>
    (\<forall>t packet prims rand. transport_ok t \<longrightarrow>
       transport_ok (snd (TransformOutbound prims rand t packet)) \<and>
       transport_ok (snd (TransformInbound prims t packet)))"
  using assms transport_ok_new transport_ok_outbound transport_ok_inbound by blast

theorem inbound_never_replays_witness:
  "distinct (delivered_ids demo_prims demo_transport [demo_wire, demo_wire])"
  by (rule inbound_never_replays [OF demo_transport_new])

theorem transport_invariant_witness:
  "transport_ok demo_transport \<and>
    transport_ok (snd (TransformInbound demo_prims demo_transport sample_ipv4))"
  using transport_invariant [OF demo_transport_new] by blast

text \<open>A packet delivered out of ESP was addressed by its SPI to a flow of the
  policy, ends in that flow's digest over the rest of its ESP payload, and had a sequence
  number that the flow's window accepts; when decapsulation fails, authentication included, no window
  moves.\<close>

theorem inbound_authenticated_first:
  assumes "TransformInbound prims t packet = (r, t')"
    and "transport_ok t"
  shows "case r of
      Inl (EspFailed e) \<Rightarrow> outbound t' = outbound t
    | Inr out \<Rightarrow> (case inbound_id packet of
        None \<Rightarrow> outbound t' = outbound t
      | Some (spi, seq) \<Rightarrow> \<exists>i x mac m. map_of (inbound t) spi = Some i \<and>
          parseIPPacket packet = Inr x \<and>
          IntegrityAlg2 (inboundSA (outbound t ! i)) = Some mac \<and>
          transportPayload x = m @ Compute prims mac (IntegrityKey (inboundSA (outbound t ! i))) m \<and>
          fst (Accept (replay (outbound t ! i)) seq))
    | _ \<Rightarrow> True"
proof (cases r)
  case (Inl e)
  have "outbound t' = outbound t" if "e = EspFailed e'" for e'
    using assms(1) Inl that
    by (auto simp: TransformInbound_def Let_def split: if_splits sum.splits prod.splits option.splits)
  then show ?thesis using Inl by (auto split: transport_error.split)
next
  case (Inr out)
  show ?thesis
  proof (cases "inbound_id packet")
    case None
    have "outbound t' = outbound t"
      using assms(1) Inr None
      by (auto simp: TransformInbound_def inbound_id_def Let_def
          split: if_splits sum.splits prod.splits option.splits)
    then show ?thesis using None Inr by simp
  next
    case (Some id')
    then obtain spi seq where sp: "inbound_id packet = Some (spi, seq)" by (cases id') auto
    from inbound_delivered [OF assms(1) [unfolded Inr] sp] obtain x i plain nh where d:
      "parseIPPacket packet = Inr x" "map_of (inbound t) spi = Some i"
      "decapsulateTransport prims (transportPayload x) (inboundSA (outbound t ! i)) = Inr (plain, nh)"
      "fst (Accept (replay (outbound t ! i)) seq)" by metis
    from transport_ok_flow [OF assms(2) d(2)] obtain mac where
      mac: "IntegrityAlg2 (inboundSA (outbound t ! i)) = Some mac"
        "\<not> IsAEAD (inboundSA (outbound t ! i))" by (auto simp: esp_ready_def)
    from decapsulate_signed_only [OF d(3) mac] show ?thesis using sp d mac Inr by auto
  qed
qed

end
