(* ===== verification/EspLink.thy ===== *)
theory EspLink
  imports EspTransport
begin

section \<open>Two ends of a protected link\<close>

text \<open>
  What the parts of \<^verbatim>\<open>ipsec3gpp\<close> give together: the policies of two ends that exchanged
  their SPIs and ports, the transports built from them, and packets carried from one to the
  other.
\<close>

text \<open>Flow \<open>i\<close> of the sender and flow \<open>j\<close> of the receiver are the two ends of one security
  association, and the receiver has seen nothing the sender has yet to send.\<close>

definition link_ready :: "transport \<Rightarrow> nat \<Rightarrow> transport \<Rightarrow> nat \<Rightarrow> bool" where
  "link_ready a i b j \<longleftrightarrow>
     i < length (outbound a) \<and> j < length (outbound b) \<and>
     map_of (inbound b) (sa_SPI (outboundSA (outbound a ! i))) = Some j \<and>
     esp_ready (outboundSA (outbound a ! i)) \<and>
     paired (outboundSA (outbound a ! i)) (inboundSA (outbound b ! j)) \<and>
     (initialized (replay (outbound b ! j)) \<longrightarrow>
        unat (highest (replay (outbound b ! j))) \<le> unat (SequenceNumber (outboundSA (outbound a ! i))))"

definition esp_size :: "security_association \<Rightarrow> byte list \<Rightarrow> byte \<Rightarrow> nat" where
  "esp_size sa pl nh =
     20 + (case EncryptionAlg sa of None \<Rightarrow> 0 | Some alg \<Rightarrow>
       IVSize alg + length (esp_plaintext (BlockSize alg) pl nh))"

text \<open>A packet that flow \<open>i\<close> protects and whose protected form is not too large.\<close>

definition sends_on :: "transport \<Rightarrow> nat \<Rightarrow> byte list \<Rightarrow> parsed_ip \<Rightarrow> bool" where
  "sends_on a i packet x \<longleftrightarrow>
     packet \<noteq> [] \<and> parseIPPacket packet = Inr x \<and> \<not> fragmented x \<and> matchOutbound a x = Some i \<and>
     (nextHeader x = ipProtoTCP \<or> nextHeader x = ipProtoUDP) \<and>
     length (pkt_header x) +
       esp_size (outboundSA (outbound a ! i)) (transportPayload x) (nextHeader x) \<le> 65535"

definition carries :: "byte list \<Rightarrow> byte list \<Rightarrow> bool" where
  "carries packet received \<longleftrightarrow>
     (\<exists>x y. parseIPPacket packet = Inr x \<and> parseIPPacket received = Inr y \<and>
        same_but_payload x y (transportPayload x) (nextHeader x))"

lemma fits_of_length: "length h + length pl \<le> 65535 \<Longrightarrow> ip_fits h pl"
  by (simp add: ip_fits_def)

lemma tcp_udp_no_extension:
  "nh = ipProtoTCP \<or> nh = ipProtoUDP \<Longrightarrow> \<not> isIPv6ExtensionHeader nh"
  "\<not> isIPv6ExtensionHeader ipProtoESP" "ipProtoESP \<noteq> ipProtoTCP" "ipProtoESP \<noteq> ipProtoUDP"
  by (auto simp: isIPv6ExtensionHeader_def ip_protos)

lemma accept_ahead:
  assumes "s \<noteq> 0" and "initialized w \<longrightarrow> highest w < s"
  shows "fst (Accept w s)" and "initialized (snd (Accept w s))" and "highest (snd (Accept w s)) = s"
  using assms by (auto simp: Accept_def Let_def)

lemma next_sequence:
  assumes "unat n < 4294967295"
  shows "unat (ucast (n + 1 :: u64) :: u32) = unat n + 1" and "unat (n + 1 :: u64) = unat n + 1"
proof -
  show n: "unat (n + 1) = unat n + 1" using assms by (simp add: unat_word_ariths)
  show "unat (ucast (n + 1) :: u32) = unat n + 1"
    using assms by (simp add: unsigned_ucast_eq take_bit_eq_mod n)
qed

lemma esp_plaintext_longer: "length pl \<le> length (esp_plaintext n pl nh)"
  by (simp add: esp_plaintext_def Let_def)

text \<open>One packet over the link.\<close>

lemma link_step:
  assumes prims: "prims_ok prims" "rand_ok rand" and link: "link_ready a i b j"
    and seq: "unat (SequenceNumber (outboundSA (outbound a ! i))) < 4294967295"
    and send: "sends_on a i packet x"
  obtains wire bk a' b' where "TransformOutbound prims rand a packet = (Inr wire, a')"
    and "TransformInbound prims b wire = (Inr bk, b')" and "carries packet bk"
    and "link_ready a' i b' j" and "t_policy a' = t_policy a"
    and "map tf_flow (outbound a') = map tf_flow (outbound a)"
    and "outboundSA (outbound a' ! i) = (outboundSA (outbound a ! i))
      \<lparr>SequenceNumber := SequenceNumber (outboundSA (outbound a ! i)) + 1\<rparr>"
proof -
  let ?fa = "outbound a ! i" and ?fb = "outbound b ! j"
  let ?sa = "outboundSA ?fa" and ?pl = "transportPayload x" and ?nh = "nextHeader x"
  let ?seq = "ucast (SequenceNumber ?sa + 1) :: u32"
  from link have L: "i < length (outbound a)" "j < length (outbound b)"
      "map_of (inbound b) (sa_SPI ?sa) = Some j" "esp_ready ?sa" "paired ?sa (inboundSA ?fb)"
      "initialized (replay ?fb) \<longrightarrow> unat (highest (replay ?fb)) \<le> unat (SequenceNumber ?sa)"
    by (auto simp: link_ready_def)
  from send have S: "packet \<noteq> []" "parseIPPacket packet = Inr x" "\<not> fragmented x"
      "matchOutbound a x = Some i" "?nh = ipProtoTCP \<or> ?nh = ipProtoUDP"
      "length (pkt_header x) + esp_size ?sa ?pl ?nh \<le> 65535" by (auto simp: sends_on_def)
  from encapsulate_opens [OF prims L(4,5), of ?pl ?nh] obtain esp where esp:
    "fst (encapsulateTransport prims rand ?pl ?sa ?nh) = Inr esp"
    "decapsulateTransport prims esp (inboundSA ?fb) = Inr (?pl, ?nh)"
    "parseESPSPISeq esp = Inr (sa_SPI ?sa, ?seq)" "length esp = esp_size ?sa ?pl ?nh"
    unfolding esp_size_def by blast
  have sa': "snd (encapsulateTransport prims rand ?pl ?sa ?nh) =
      ?sa\<lparr>SequenceNumber := SequenceNumber ?sa + 1\<rparr>"
    using encapsulate_next [OF L(4)] .
  have enc: "encapsulateTransport prims rand ?pl ?sa ?nh =
      (Inr esp, ?sa\<lparr>SequenceNumber := SequenceNumber ?sa + 1\<rparr>)"
    using esp(1) sa' by (simp add: prod_eq_iff)
  have fits: "ip_fits (pkt_header x) esp" using S(6) esp(4) by (intro fits_of_length) simp
  from replace_parse [OF S(2) tcp_udp_no_extension(2) fits] obtain hdr y where y:
    "replaceIPPayload (pkt_header x) esp ipProtoESP = Inr (hdr @ esp)"
    "parseIPPacket (hdr @ esp) = Inr y" "pkt_header y = hdr"
    "same_but_payload x y esp ipProtoESP" "length hdr = length (pkt_header x)" by metis
  let ?a' = "(set_flow a i (?fa\<lparr>outboundSA := ?sa\<lparr>SequenceNumber := SequenceNumber ?sa + 1\<rparr>\<rparr>))
    \<lparr>outboundPackets := outboundPackets a + 1\<rparr>"
  have out: "TransformOutbound prims rand a packet = (Inr (hdr @ esp), ?a')"
    using S enc y(1) by (simp add: TransformOutbound_def Let_def)
  have pl_le: "length ?pl \<le> length esp"
  proof -
    obtain alg where "EncryptionAlg ?sa = Some alg" using L(4) by (auto simp: esp_ready_def)
    then show ?thesis using esp_plaintext_longer [of ?pl "BlockSize alg" ?nh] esp(4) by (simp add: esp_size_def)
  qed
  have fits2: "ip_fits (pkt_header y) ?pl"
    using S(6) esp(4) pl_le y(3,5) by (intro fits_of_length) simp
  from replace_parse [OF y(2) tcp_udp_no_extension(1) [OF S(5)] fits2] obtain hdr2 z where z:
    "replaceIPPayload hdr ?pl ?nh = Inr (hdr2 @ ?pl)" "parseIPPacket (hdr2 @ ?pl) = Inr z"
    "same_but_payload y z ?pl ?nh" "length hdr2 = length hdr" unfolding y(3) by metis
  have sq: "unat ?seq = unat (SequenceNumber ?sa) + 1" using next_sequence(1) [OF seq] .
  then have "?seq \<noteq> 0" by (metis Suc_eq_plus1 nat.distinct(1) unat_0)
  moreover have "initialized (replay ?fb) \<longrightarrow> highest (replay ?fb) < ?seq"
    using L(6) sq by (auto simp: word_less_nat_alt)
  ultimately have acc: "fst (Accept (replay ?fb) ?seq)"
      "initialized (snd (Accept (replay ?fb) ?seq))" "highest (snd (Accept (replay ?fb) ?seq)) = ?seq"
    using accept_ahead by blast+
  have yy: "nextHeader y = ipProtoESP" "transportPayload y = esp" "\<not> fragmented y"
    using y(4) S(3) by (auto simp: same_but_payload_def)
  have ne: "hdr @ esp \<noteq> []" using esp(4) by (auto simp: esp_size_def)
  define b1 where "b1 = (if matchesInboundEndpoints b y
    then b\<lparr>peerInboundPackets := peerInboundPackets b + 1\<rparr> else b)"
  have b1: "outbound b1 = outbound b" "inbound b1 = inbound b" by (simp_all add: b1_def)
  let ?t2 = "set_flow b1 j (?fb\<lparr>replay := snd (Accept (replay ?fb) ?seq)\<rparr>)"
  let ?b' = "?t2\<lparr>inboundPackets := inboundPackets ?t2 + 1\<rparr>"
  have inb: "TransformInbound prims b (hdr @ esp) = (Inr (hdr2 @ ?pl), ?b')"
    using ne y(2,3) yy esp(2,3) L(3) acc(1) S(5) z(1)
    by (auto simp: TransformInbound_def Let_def b1_def [symmetric] case_prod_beta)
  have same: "same_but_payload x z ?pl ?nh" using y(4) z(3) by (simp add: same_but_payload_def)
  then have carry: "carries packet (hdr2 @ ?pl)" using S(2) z(2) by (auto simp: carries_def)
  have link': "link_ready ?a' i ?b' j"
    using L acc sq next_sequence(2) [OF seq] b1
    by (auto simp: link_ready_def esp_ready_def paired_def)
  show ?thesis
    by (rule that [OF out inb carry link'])
      (use L(1) in \<open>auto simp: map_update list_update_same_conv intro!: list_update_same_conv [THEN iffD2]\<close>)
qed

text \<open>Packets sent one after the other, each with the random bytes the system gives it, and
  delivered in order.\<close>

fun relay :: "crypto_prims \<Rightarrow> transport \<Rightarrow> transport \<Rightarrow> ((nat \<Rightarrow> byte list option) \<times> byte list) list \<Rightarrow>
    (transport_error + byte list) list" where
  "relay prims a b [] = []"
| "relay prims a b ((rand, p) # ps) =
     (case TransformOutbound prims rand a p of
        (Inl e, a') \<Rightarrow> Inl e # relay prims a' b ps
      | (Inr wire, a') \<Rightarrow>
          let (r, b') = TransformInbound prims b wire in r # relay prims a' b' ps)"

definition delivers :: "(nat \<Rightarrow> byte list option) \<times> byte list \<Rightarrow> transport_error + byte list \<Rightarrow> bool" where
  "delivers rp r \<longleftrightarrow> (\<exists>received. r = Inr received \<and> carries (snd rp) received)"

lemma matchOutbound_cong:
  assumes "t_policy a' = t_policy a" and "map tf_flow (outbound a') = map tf_flow (outbound a)"
  shows "matchOutbound a' x = matchOutbound a x"
proof -
  have len: "length (outbound a') = length (outbound a)" using assms(2) by (metis length_map)
  have "flow_matches a' x (outbound a' ! i) = flow_matches a x (outbound a ! i)"
    if "i < length (outbound a)" for i
  proof -
    have "tf_flow (outbound a' ! i) = tf_flow (outbound a ! i)"
      using arg_cong [OF assms(2), of "\<lambda>l. l ! i"] that len by simp
    then show ?thesis using assms(1) by (simp add: flow_matches_def matchesOutboundEndpoints_def)
  qed
  then show ?thesis unfolding matchOutbound_def len by (intro find_cong) auto
qed

lemma sends_on_cong:
  assumes "t_policy a' = t_policy a" and "map tf_flow (outbound a') = map tf_flow (outbound a)"
    and "outboundSA (outbound a' ! i) = (outboundSA (outbound a ! i))\<lparr>SequenceNumber := n\<rparr>"
  shows "sends_on a' i p x \<longleftrightarrow> sends_on a i p x"
  using matchOutbound_cong [OF assms(1,2)] assms(3) by (simp add: sends_on_def esp_size_def)

lemma relay_delivers:
  "prims_ok prims \<Longrightarrow> link_ready a i b j \<Longrightarrow>
     unat (SequenceNumber (outboundSA (outbound a ! i))) + length ps \<le> 4294967295 \<Longrightarrow>
     \<forall>(rand, p) \<in> set ps. rand_ok rand \<and> (\<exists>x. sends_on a i p x) \<Longrightarrow>
     list_all2 delivers ps (relay prims a b ps)"
proof (induction ps arbitrary: a b)
  case (Cons rp ps)
  obtain rand p where rp: "rp = (rand, p)" by (cases rp)
  then obtain x where rx: "rand_ok rand" "sends_on a i p x" using Cons.prems(4) by auto
  have less: "unat (SequenceNumber (outboundSA (outbound a ! i))) < 4294967295" using Cons.prems(3) by simp
  from link_step [OF Cons.prems(1) rx(1) Cons.prems(2) less rx(2)] obtain wire bk a' b' where
    st: "TransformOutbound prims rand a p = (Inr wire, a')" "TransformInbound prims b wire = (Inr bk, b')"
      "carries p bk" "link_ready a' i b' j" "t_policy a' = t_policy a"
      "map tf_flow (outbound a') = map tf_flow (outbound a)"
      "outboundSA (outbound a' ! i) = (outboundSA (outbound a ! i))
        \<lparr>SequenceNumber := SequenceNumber (outboundSA (outbound a ! i)) + 1\<rparr>" .
  have "list_all2 delivers ps (relay prims a' b' ps)"
  proof (rule Cons.IH [OF Cons.prems(1) st(4)])
    show "unat (SequenceNumber (outboundSA (outbound a' ! i))) + length ps \<le> 4294967295"
      using Cons.prems(3) next_sequence(2) [OF less] st(7) by simp
    show "\<forall>(rand, p) \<in> set ps. rand_ok rand \<and> (\<exists>x. sends_on a' i p x)"
      using Cons.prems(4) sends_on_cong [OF st(5,6,7)] by auto
  qed
  moreover have "delivers (rand, p) (Inr bk)" using st(3) by (simp add: delivers_def)
  ultimately show ?case using st(1,2) rp by simp
qed simp

section \<open>The two ends agree\<close>

text \<open>The same negotiation as the other end sees it: addresses, ports and SPIs change sides.\<close>

definition mirror_input :: "policy_input \<Rightarrow> policy_input" where
  "mirror_input i = i
     \<lparr>in_LocalIP := in_RemoteIP i, in_RemoteIP := in_LocalIP i,
      Mech := (Mech i)\<lparr>SPIc := UESPIc i, SPIs := UESPIs i, PortC := UEPortC i, PortS := UEPortS i\<rparr>,
      UEPortC := PortC (Mech i), UEPortS := PortS (Mech i),
      UESPIc := SPIc (Mech i), UESPIs := SPIs (Mech i)\<rparr>"

text \<open>Every port and SPI was given, and each end's two SPIs differ.\<close>

definition negotiated :: "policy_input \<Rightarrow> bool" where
  "negotiated i \<longleftrightarrow>
     SPIc (Mech i) \<noteq> 0 \<and> SPIs (Mech i) \<noteq> 0 \<and> UESPIc i \<noteq> 0 \<and> UESPIs i \<noteq> 0 \<and>
     PortC (Mech i) \<noteq> 0 \<and> PortS (Mech i) \<noteq> 0 \<and> UEPortC i \<noteq> 0 \<and> UEPortS i \<noteq> 0 \<and>
     SPIc (Mech i) \<noteq> SPIs (Mech i) \<and> UESPIc i \<noteq> UESPIs i"

definition opposite :: "flow \<Rightarrow> flow \<Rightarrow> bool" where
  "opposite f g \<longleftrightarrow>
     OutboundSPI f = InboundSPI g \<and> InboundSPI f = OutboundSPI g \<and>
     LocalPort f = RemotePort g \<and> RemotePort f = LocalPort g \<and>
     AuthAlg f = AuthAlg g \<and> EncAlg f = EncAlg g \<and> CK f = CK g \<and> IK f = IK g"

lemma NewPolicy_Inr:
  assumes "NewPolicy i = Inr p"
  shows "normalizeIP (in_LocalIP i) = Some (LocalIP p)" and "normalizeIP (in_RemoteIP i) = Some (RemoteIP p)"
    and "FlowC p = \<lparr>OutboundSPI = SPIs (Mech i),
        InboundSPI = (if UESPIc i = 0 then SPIc (Mech i) else UESPIc i),
        LocalPort = or_default (UEPortC i) 5062, RemotePort = or_default (PortS (Mech i)) 5060,
        AuthAlg = canonicalAuthAlg (coalesce [in_AuthAlg i, Alg (Mech i)]),
        EncAlg = canonicalEncAlg (coalesce [in_EncAlg i, EAlg (Mech i)]), CK = in_CK i, IK = in_IK i\<rparr>"
    and "FlowS p = \<lparr>OutboundSPI = SPIc (Mech i),
        InboundSPI = (if UESPIs i = 0 then SPIs (Mech i) else UESPIs i),
        LocalPort = or_default (UEPortS i) 5063, RemotePort = or_default (PortC (Mech i)) 5060,
        AuthAlg = canonicalAuthAlg (coalesce [in_AuthAlg i, Alg (Mech i)]),
        EncAlg = canonicalEncAlg (coalesce [in_EncAlg i, EAlg (Mech i)]), CK = in_CK i, IK = in_IK i\<rparr>"
proof -
  from NewPolicy_cases [OF assms] obtain localIP remoteIP authAlg encAlg where
    ip: "normalizeIP (in_LocalIP i) = Some localIP" "normalizeIP (in_RemoteIP i) = Some remoteIP"
    and alg: "authAlg = canonicalAuthAlg (coalesce [in_AuthAlg i, Alg (Mech i)])"
      "encAlg = canonicalEncAlg (coalesce [in_EncAlg i, EAlg (Mech i)])"
    and p: "p = policy_of i localIP remoteIP authAlg encAlg" .
  show "normalizeIP (in_LocalIP i) = Some (LocalIP p)" "normalizeIP (in_RemoteIP i) = Some (RemoteIP p)"
    unfolding p ip by (simp_all add: policy_of_def Let_def)
  show "FlowC p = \<lparr>OutboundSPI = SPIs (Mech i),
        InboundSPI = (if UESPIc i = 0 then SPIc (Mech i) else UESPIc i),
        LocalPort = or_default (UEPortC i) 5062, RemotePort = or_default (PortS (Mech i)) 5060,
        AuthAlg = canonicalAuthAlg (coalesce [in_AuthAlg i, Alg (Mech i)]),
        EncAlg = canonicalEncAlg (coalesce [in_EncAlg i, EAlg (Mech i)]), CK = in_CK i, IK = in_IK i\<rparr>"
    unfolding alg [symmetric] p by (simp add: policy_of_def fillPortsFromInput_def Let_def)
  show "FlowS p = \<lparr>OutboundSPI = SPIc (Mech i),
        InboundSPI = (if UESPIs i = 0 then SPIs (Mech i) else UESPIs i),
        LocalPort = or_default (UEPortS i) 5063, RemotePort = or_default (PortC (Mech i)) 5060,
        AuthAlg = canonicalAuthAlg (coalesce [in_AuthAlg i, Alg (Mech i)]),
        EncAlg = canonicalEncAlg (coalesce [in_EncAlg i, EAlg (Mech i)]), CK = in_CK i, IK = in_IK i\<rparr>"
    unfolding alg [symmetric] p by (simp add: policy_of_def fillPortsFromInput_def Let_def)
qed

lemma mirror_flows:
  assumes "negotiated i" and "NewPolicy i = Inr p" and "NewPolicy (mirror_input i) = Inr q"
  shows "opposite (FlowC p) (FlowS q)" and "opposite (FlowS p) (FlowC q)"
    and "LocalIP p = RemoteIP q" and "RemoteIP p = LocalIP q"
    and "InboundSPI (FlowC q) \<noteq> InboundSPI (FlowS q)"
  using assms(1) NewPolicy_Inr [OF assms(2)] NewPolicy_Inr [OF assms(3)]
  by (auto simp: opposite_def negotiated_def mirror_input_def or_default_def)

lemma mirror_succeeds:
  assumes "negotiated i" and "NewPolicy i = Inr p"
  shows "\<exists>q. NewPolicy (mirror_input i) = Inr q"
  using assms
  by (auto simp: NewPolicy_def mirror_input_def negotiated_def Let_def
      simp del: coalesce.simps split: option.splits if_splits)

text \<open>When each end builds its policy from the SPIs and ports the two exchanged,
  the policies are opposite: what one end's client flow sends by SPI and port is what the
  other end's server flow expects, with the same algorithms and keys, and conversely.\<close>

theorem policies_of_both_ends_agree:
  assumes "negotiated i" and "NewPolicy i = Inr p"
  shows "\<exists>q. NewPolicy (mirror_input i) = Inr q \<and>
    opposite (FlowC p) (FlowS q) \<and> opposite (FlowS p) (FlowC q) \<and>
    LocalIP p = RemoteIP q \<and> RemoteIP p = LocalIP q"
  using mirror_succeeds [OF assms] mirror_flows [OF assms] by blast

section \<open>End to end\<close>

lemma newSA_paired:
  assumes "newSAForFlow f spi = Inr a" and "newSAForFlow g spi' = Inr b" and "opposite f g"
  shows "paired a b"
  using assms by (auto simp: newSAForFlow_def res_simps opposite_def paired_def NewSecurityAssociationCBC_def)

lemma opposite_flows_link:
  assumes "newTransportFlow f = Inr a" and "newTransportFlow g = Inr b" and "opposite f g"
  shows "paired (outboundSA a) (inboundSA b)" and "sa_SPI (outboundSA a) = InboundSPI g"
    and "\<not> initialized (replay b)" and "esp_ready (outboundSA a)" and "SequenceNumber (outboundSA a) = 0"
proof -
  show "paired (outboundSA a) (inboundSA b)"
    using assms newSA_paired by (auto simp: newTransportFlow_def res_simps)
  show "sa_SPI (outboundSA a) = InboundSPI g" "esp_ready (outboundSA a)" "SequenceNumber (outboundSA a) = 0"
    using newTransportFlow_ready [OF assms(1)] assms(3) by (auto simp: opposite_def)
  show "\<not> initialized (replay b)"
    using assms(2) by (auto simp: newTransportFlow_def res_simps NewReplayWindow_def Let_def)
qed

lemma fresh_link:
  assumes p: "NewTransport p = Inr a" and q: "NewTransport q = Inr b"
    and opp: "opposite (FlowC p) (FlowS q)" "opposite (FlowS p) (FlowC q)"
    and spi: "InboundSPI (FlowC q) \<noteq> InboundSPI (FlowS q)" and i: "i < 2"
  shows "link_ready a i b (1 - i)" and "SequenceNumber (outboundSA (outbound a ! i)) = 0"
proof -
  from NewTransport_Inr [OF p] obtain ac as where a: "newTransportFlow (FlowC p) = Inr ac"
    "newTransportFlow (FlowS p) = Inr as" "outbound a = [ac, as]" by blast
  from NewTransport_Inr [OF q] obtain bc bs where b: "newTransportFlow (FlowC q) = Inr bc"
    "newTransportFlow (FlowS q) = Inr bs" "outbound b = [bc, bs]"
    "inbound b = AList.update (InboundSPI (FlowS q)) 1 [(InboundSPI (FlowC q), 0)]" by blast
  note cs = opposite_flows_link [OF a(1) b(2) opp(1)] and sc = opposite_flows_link [OF a(2) b(1) opp(2)]
  have "i = 0 \<or> i = 1" using i by auto
  then show "link_ready a i b (1 - i)" "SequenceNumber (outboundSA (outbound a ! i)) = 0"
    using cs sc spi a(3) b(3,4) by (auto simp: link_ready_def)
qed

text \<open>Property C8: two ends that built their transports from one negotiation exchange packets:
  every TCP or UDP packet of a protected flow, of up to 2^32 - 1 of them sent one after
  the other and delivered in order, is protected, accepted and opened to a packet with the
  same payload, protocol, addresses and ports' payload bytes.\<close>

theorem protected_link_delivers:
  assumes "prims_ok prims" and "negotiated inp" and "NewPolicy inp = Inr p"
    and "NewPolicy (mirror_input inp) = Inr q"
    and "NewTransport p = Inr a" and "NewTransport q = Inr b" and "i < 2"
    and "length ps \<le> 4294967295"
    and "\<forall>(rand, pkt) \<in> set ps. rand_ok rand \<and> (\<exists>x. sends_on a i pkt x)"
  shows "list_all2 delivers ps (relay prims a b ps)"
proof -
  note m = mirror_flows [OF assms(2,3,4)]
  note l = fresh_link [OF assms(5,6) m(1,2,5) assms(7)]
  show ?thesis using relay_delivers [OF assms(1) l(1)] l(2) assms(8,9) by simp
qed

definition demo_peer_policy :: policy where
  "demo_peer_policy = projr (NewPolicy (mirror_input demo_input))"

definition demo_peer :: transport where
  "demo_peer = projr (NewTransport demo_peer_policy)"

lemma demo_negotiated: "negotiated demo_input"
  by code_simp

lemma demo_peer_policy_new: "NewPolicy (mirror_input demo_input) = Inr demo_peer_policy"
  by code_simp

lemma demo_peer_new: "NewTransport demo_peer_policy = Inr demo_peer"
  by code_simp

theorem policies_of_both_ends_agree_witness:
  "\<exists>q. NewPolicy (mirror_input demo_input) = Inr q \<and>
    opposite (FlowC demo_policy) (FlowS q) \<and> opposite (FlowS demo_policy) (FlowC q) \<and>
    LocalIP demo_policy = RemoteIP q \<and> RemoteIP demo_policy = LocalIP q"
  by (rule policies_of_both_ends_agree [OF demo_negotiated demo_policy_new])

lemma demo_sends: "sends_on demo_transport 0 sample_ipv4 (projr (parseIPPacket sample_ipv4))"
  by code_simp

theorem protected_link_delivers_witness:
  "list_all2 delivers [(demo_rand, sample_ipv4), (demo_rand, sample_ipv4)]
     (relay demo_prims demo_transport demo_peer [(demo_rand, sample_ipv4), (demo_rand, sample_ipv4)])"
proof (rule protected_link_delivers [OF demo_prims_ok demo_negotiated demo_policy_new
      demo_peer_policy_new demo_transport_new demo_peer_new])
  show "\<forall>(rand, pkt) \<in> set [(demo_rand, sample_ipv4), (demo_rand, sample_ipv4)].
      rand_ok rand \<and> (\<exists>x. sends_on demo_transport 0 pkt x)"
    using demo_rand_ok demo_sends by auto
qed simp_all

lemma demo_wire_bytes:
  "demo_wire =
     [69, 0, 0, 72, 0, 0, 0, 0, 64, 50, 102, 130, 10, 0, 0, 1, 10, 0, 0, 2, 0,
      0, 16, 2, 0, 0, 0, 1, 0, 1, 2, 3, 4, 5, 6, 7, 8, 9, 10, 11, 12, 13, 14,
      15, 2, 212, 0, 214, 21, 28, 23, 22, 24, 26, 24, 30, 24, 26, 25, 15, 0, 0,
      0, 0, 0, 0, 0, 0, 0, 0, 0, 0]"
  by code_simp

theorem inbound_authenticated_first_witness:
  "\<exists>mac m. transportPayload (projr (parseIPPacket demo_wire)) =
      m @ Compute demo_prims mac (IntegrityKey (inboundSA (outbound demo_peer ! 1))) m \<and>
    fst (Accept (replay (outbound demo_peer ! 1)) 1)"
proof -
  note m = mirror_flows [OF demo_negotiated demo_policy_new demo_peer_policy_new]
  note l = fresh_link [OF demo_transport_new demo_peer_new m(1,2,5), of 0]
  have seq: "unat (SequenceNumber (outboundSA (outbound demo_transport ! 0))) < 4294967295"
    using l(2) by simp
  have link: "link_ready demo_transport 0 demo_peer 1" using l(1) by simp
  obtain wire bk b' where "fst (TransformOutbound demo_prims demo_rand demo_transport sample_ipv4) = Inr wire"
      and r: "TransformInbound demo_prims demo_peer wire = (Inr bk, b')"
    by (rule link_step [OF demo_prims_ok demo_rand_ok link seq demo_sends]) simp
  then have r: "TransformInbound demo_prims demo_peer demo_wire = (Inr bk, b')" by (simp add: demo_wire_def)
  have sp: "inbound_id demo_wire = Some (0x1002, 1)" unfolding demo_wire_bytes by code_simp
  have fl: "map_of (inbound demo_peer) 0x1002 = Some 1" by code_simp
  show ?thesis
    using inbound_authenticated_first [OF r transport_ok_new [OF demo_peer_new]] sp fl by auto blast
qed

end
