(* ===== verification/ProtectedMss.thy ===== *)
theory ProtectedMss
  imports EspLink
begin

unbundle bit_operations_syntax

section \<open>The TCP segment budget of a protected flow\<close>

text \<open>
  \<^verbatim>\<open>ipsec3gpp/protected_mss.go\<close>: the largest TCP segment whose ESP packet fits the tunnel, the
  predicted ESP length, and the clamp of the MSS option in handshake segments.  Lengths are
  Go's \<^verbatim>\<open>int\<close>, modelled by \<open>int\<close>; offsets into a packet are naturals.
\<close>

definition ProtectedTunnelMTU :: int where "ProtectedTunnelMTU = 1280"
definition protectedIPv6HeaderLen :: nat where "protectedIPv6HeaderLen = 40"
definition protectedESPHeaderLen :: nat where "protectedESPHeaderLen = 8"
definition protectedESPTrailerLen :: nat where "protectedESPTrailerLen = 2"
definition protectedMinTCPHeaderLen :: nat where "protectedMinTCPHeaderLen = 20"

lemmas protected_lens = protectedIPv6HeaderLen_def protectedESPHeaderLen_def
  protectedESPTrailerLen_def protectedMinTCPHeaderLen_def

datatype mss_error =
    UnsupportedEncForMss | UnsupportedAuthForMss | NoRoom | DegenerateBudget
  | ShorterThanIPv6Header | SafeMssNotPositive | ShortIPv6 | ShortTcp | BadDataOffset
  | TruncatedOption | BadOptionLength | BadMssLength | NoMssOption | MultipleMss | ZeroMss
  | TooShortForChecksum | FlowsDisagree

record esp_budget =
  ivLen :: int
  icvLen :: int
  blockLen :: int
  trailerLen :: int

definition espBudgetForFlow :: "flow \<Rightarrow> mss_error + esp_budget" where
  "espBudgetForFlow f =
     (let enc = canonicalEncAlg (EncAlg f); auth = canonicalAuthAlg (AuthAlg f) in
      res_bind
        (if enc = ''aes-cbc'' then Inr (16, 16)
         else if enc = ''des-ede3-cbc'' then Inr (8, 8)
         else if enc = ''null'' then Inr (0, 4)
         else Inl UnsupportedEncForMss)
        (\<lambda>(iv, block).
           if auth = ''hmac-sha-1-96'' \<or> auth = ''hmac-md5-96''
           then Inr \<lparr>ivLen = iv, icvLen = 12, blockLen = block, trailerLen = int protectedESPTrailerLen\<rparr>
           else Inl UnsupportedAuthForMss))"

definition DeriveMaxTCPSegmentLen :: "flow \<Rightarrow> int \<Rightarrow> mss_error + int" where
  "DeriveMaxTCPSegmentLen f innerMTU =
     res_bind (espBudgetForFlow f) (\<lambda>budget.
       let usable = innerMTU - int protectedIPv6HeaderLen - int protectedESPHeaderLen
             - ivLen budget - icvLen budget in
       if usable \<le> 0 then Inl NoRoom
       else
         let usable' = usable - usable mod blockLen budget;
             segLen = usable' - trailerLen budget in
         if segLen \<le> int protectedMinTCPHeaderLen then Inl DegenerateBudget else Inr segLen)"

definition DeriveSafeMSS :: "flow \<Rightarrow> int \<Rightarrow> mss_error + int" where
  "DeriveSafeMSS f innerMTU =
     res_bind (DeriveMaxTCPSegmentLen f innerMTU) (\<lambda>segLen.
       Inr (segLen - int protectedMinTCPHeaderLen))"

definition PredictProtectedESPLen :: "flow \<Rightarrow> int \<Rightarrow> mss_error + int" where
  "PredictProtectedESPLen f cleartextLen =
     (if cleartextLen < int protectedIPv6HeaderLen then Inl ShorterThanIPv6Header
      else res_bind (espBudgetForFlow f) (\<lambda>budget.
        let plain = cleartextLen - int protectedIPv6HeaderLen + trailerLen budget;
            blocks = (plain + blockLen budget - 1) div blockLen budget
        in Inr (int protectedIPv6HeaderLen + int protectedESPHeaderLen + ivLen budget +
             blocks * blockLen budget + icvLen budget)))"

record mss_plan =
  SafeMSS :: int
  MaxSegmentLen :: int

definition PlanProtectedMSS :: "policy \<Rightarrow> int \<Rightarrow> mss_error + mss_plan" where
  "PlanProtectedMSS p innerMTU =
     res_bind (DeriveMaxTCPSegmentLen (FlowC p) innerMTU) (\<lambda>segC.
     res_bind (DeriveMaxTCPSegmentLen (FlowS p) innerMTU) (\<lambda>segS.
       if segC \<noteq> segS then Inl FlowsDisagree
       else Inr \<lparr>SafeMSS = segC - int protectedMinTCPHeaderLen, MaxSegmentLen = segC\<rparr>))"

subsection \<open>Clamping the MSS option of a handshake segment\<close>

datatype mss_bucket =
    NoBucket | BelowSafe | EqualSafe | AboveSafe | MissingMss | MalformedMss | NotApplicable

record clamp_result =
  Bucket :: mss_bucket
  EffectiveMSS :: int
  Applied :: bool

definition clamp_result_of :: "mss_bucket \<Rightarrow> clamp_result" where
  "clamp_result_of b = \<lparr>Bucket = b, EffectiveMSS = 0, Applied = False\<rparr>"

definition tcpFlagSYN :: byte where "tcpFlagSYN = 0x02"

text \<open>The loop over the options: the offset of the last MSS option in the segment and how many
  there were.\<close>

function mss_scan :: "byte list \<Rightarrow> nat \<Rightarrow> nat option \<Rightarrow> nat \<Rightarrow> mss_error + (nat option \<times> nat)" where
  "mss_scan options i mssOffset seen =
     (if \<not> i < length options then Inr (mssOffset, seen)
      else if options ! i = 0 then Inr (mssOffset, seen)
      else if options ! i = 1 then mss_scan options (i + 1) mssOffset seen
      else if length options \<le> i + 1 then Inl TruncatedOption
      else let optLen = unat (options ! (i + 1)) in
      if optLen < 2 \<or> length options < i + optLen then Inl BadOptionLength
      else if options ! i = 2 then
        (if optLen \<noteq> 4 then Inl BadMssLength
         else mss_scan options (i + optLen) (Some (protectedMinTCPHeaderLen + i)) (seen + 1))
      else mss_scan options (i + optLen) mssOffset seen)"
  by pat_completeness auto
termination
  by (relation "measure (\<lambda>(options, i, _, _). length options - i)") auto

declare mss_scan.simps [simp del]

fun checksum_add :: "byte list \<Rightarrow> u32 \<Rightarrow> u32" where
  "checksum_add (a # b # rest) acc = checksum_add rest (acc + ucast (get16 [a, b]))"
| "checksum_add [a] acc = acc + push_bit 8 (ucast a)"
| "checksum_add [] acc = acc"

definition tcpPseudoHeaderChecksum :: "byte list \<Rightarrow> byte list \<Rightarrow> byte list \<Rightarrow> u16" where
  "tcpPseudoHeaderChecksum src dst segment =
     (let s1 = checksum_add src 0;
          s2 = checksum_add dst s1;
          s3 = checksum_add (put32 (of_nat (length segment))) s2;
          s4 = checksum_add [0, 0, 0, ipProtoTCP] s3;
          s5 = checksum_add segment s4;
          out = NOT (ucast (checksum_fold s5)) :: u16
      in if out \<noteq> 0 then out else 0xffff)"

definition rewriteTCPChecksum :: "byte list \<Rightarrow> mss_error + byte list" where
  "rewriteTCPChecksum packet0 =
     (if length packet0 < protectedIPv6HeaderLen + protectedMinTCPHeaderLen then Inl TooShortForChecksum
      else
        let packet = packet0[protectedIPv6HeaderLen + 16 := 0, protectedIPv6HeaderLen + 17 := 0];
            checksum = tcpPseudoHeaderChecksum (subslice packet 8 24) (subslice packet 24 40)
              (drop protectedIPv6HeaderLen packet)
        in Inr (put16_at packet (protectedIPv6HeaderLen + 16) checksum))"

text \<open>The result carries the packet that is returned, or \<open>Inl\<close> the error and the bucket that
  comes with it.\<close>

definition ClampHandshakeMSS ::
    "byte list \<Rightarrow> int \<Rightarrow> (mss_error \<times> clamp_result) + (byte list \<times> clamp_result)" where
  "ClampHandshakeMSS packet safeMSS =
     (if safeMSS \<le> 0 then Inl (SafeMssNotPositive, clamp_result_of NoBucket)
      else if length packet < protectedIPv6HeaderLen then Inl (ShortIPv6, clamp_result_of NoBucket)
      else if drop_bit 4 (packet ! 0) \<noteq> 6 \<or> packet ! 6 \<noteq> ipProtoTCP then
        Inr (packet, clamp_result_of NotApplicable)
      else let seg = drop protectedIPv6HeaderLen packet in
      if length seg < protectedMinTCPHeaderLen then Inl (ShortTcp, clamp_result_of MalformedMss)
      else if seg ! 13 AND tcpFlagSYN = 0 then Inr (packet, clamp_result_of NotApplicable)
      else let headerLen = unat (drop_bit 4 (seg ! 12)) * 4 in
      if headerLen < protectedMinTCPHeaderLen \<or> headerLen > length seg then
        Inl (BadDataOffset, clamp_result_of MalformedMss)
      else (case mss_scan (subslice seg protectedMinTCPHeaderLen headerLen) 0 None 0 of
        Inl e \<Rightarrow> Inl (e, clamp_result_of MalformedMss)
      | Inr (None, seen) \<Rightarrow> Inl (NoMssOption, clamp_result_of MissingMss)
      | Inr (Some mssOffset, seen) \<Rightarrow>
          if seen = 0 then Inl (NoMssOption, clamp_result_of MissingMss)
          else if seen > 1 then Inl (MultipleMss, clamp_result_of MalformedMss)
          else let peerMSS = int (unat (u16_at seg (mssOffset + 2))) in
          if peerMSS = 0 then Inl (ZeroMss, clamp_result_of MalformedMss)
          else if peerMSS < safeMSS then
            Inr (packet, \<lparr>Bucket = BelowSafe, EffectiveMSS = peerMSS, Applied = False\<rparr>)
          else if peerMSS = safeMSS then
            Inr (packet, \<lparr>Bucket = EqualSafe, EffectiveMSS = peerMSS, Applied = False\<rparr>)
          else (case rewriteTCPChecksum
              (put16_at packet (protectedIPv6HeaderLen + mssOffset + 2) (of_int safeMSS)) of
            Inl e \<Rightarrow> Inl (e, clamp_result_of MalformedMss)
          | Inr out \<Rightarrow>
              Inr (out, \<lparr>Bucket = AboveSafe, EffectiveMSS = safeMSS, Applied = True\<rparr>))))"

section \<open>Segment lengths\<close>

lemma budget_cases:
  assumes "espBudgetForFlow f = Inr b"
  shows "(blockLen b, ivLen b) \<in> {(16, 16), (8, 8), (4, 0)}" and "icvLen b = 12" and "trailerLen b = 2"
  using assms by (auto simp: espBudgetForFlow_def Let_def res_simps protectedESPTrailerLen_def split: if_splits)

lemma div_block: "0 \<le> s \<Longrightarrow> s < b \<Longrightarrow> (b * q + s) div b = (q :: int)"
  by (simp add: div_pos_pos_trivial)

lemma ceil_floor:
  fixes x u b :: int
  assumes b: "0 < b"
  shows "(x + b - 1) div b * b \<le> u \<longleftrightarrow> x \<le> u - u mod b"
proof -
  define q c where "q = u div b" and "c = (x + b - 1) div b"
  have u: "u = b * q + u mod b" and mu: "0 \<le> u mod b" using b by (simp_all add: q_def)
  have x: "x + b - 1 = b * c + (x + b - 1) mod b" by (simp add: c_def)
  have mx: "0 \<le> (x + b - 1) mod b" "(x + b - 1) mod b < b" using b by simp_all
  show ?thesis
  proof
    assume "(x + b - 1) div b * b \<le> u"
    then have "(c * b) div b \<le> u div b" using b by (intro zdiv_mono1) (simp_all add: c_def)
    then have "b * c \<le> b * q" using b by (simp add: q_def)
    moreover have "x \<le> b * c" using x mx by linarith
    ultimately show "x \<le> u - u mod b" using u by linarith
  next
    assume "x \<le> u - u mod b"
    then have "x + b - 1 \<le> b * q + (b - 1)" using u by linarith
    then have "c \<le> (b * q + (b - 1)) div b" unfolding c_def using b by (rule zdiv_mono1)
    then have "c \<le> q" using div_block [of "b - 1" b q] b by simp
    then have "b * c \<le> b * q" using b by simp
    then show "(x + b - 1) div b * b \<le> u" using u mu by (simp add: c_def mult.commute)
  qed
qed

lemma predicted_fits_iff:
  assumes "DeriveMaxTCPSegmentLen f mtu = Inr maxseg" and "0 \<le> len"
  shows "\<exists>n. PredictProtectedESPLen f (40 + len) = Inr n \<and> (n \<le> mtu \<longleftrightarrow> len \<le> maxseg)"
proof -
  obtain b where b: "espBudgetForFlow f = Inr b"
    using assms(1) by (auto simp: DeriveMaxTCPSegmentLen_def res_simps)
  note c = budget_cases [OF b]
  have pos: "0 < blockLen b" using c(1) by auto
  let ?u = "mtu - 48 - ivLen b - 12"
  have m: "maxseg = ?u - ?u mod blockLen b - 2"
    using assms(1) b c(2,3) by (auto simp: DeriveMaxTCPSegmentLen_def Let_def protected_lens split: if_splits)
  have "PredictProtectedESPLen f (40 + len) =
      Inr (48 + ivLen b + (len + 2 + blockLen b - 1) div blockLen b * blockLen b + 12)"
    using assms(2) b c(2,3) by (simp add: PredictProtectedESPLen_def Let_def protected_lens)
  then show ?thesis using ceil_floor [OF pos, of "len + 2" ?u] by (simp add: m) linarith
qed

text \<open>The derived segment length is exactly the largest one that fits: a TCP
  segment is predicted to fit the tunnel's MTU if and only if it is no longer than that.\<close>

theorem derived_segment_is_maximal:
  assumes "DeriveMaxTCPSegmentLen f mtu = Inr maxseg" and "0 \<le> len"
  shows "\<exists>n. PredictProtectedESPLen f (int protectedIPv6HeaderLen + len) = Inr n \<and>
    (n \<le> mtu \<longleftrightarrow> len \<le> maxseg)"
  using predicted_fits_iff [OF assms] by (simp add: protectedIPv6HeaderLen_def)

theorem derived_segment_is_maximal_witness:
  "\<exists>n. PredictProtectedESPLen (FlowC demo_policy) (int protectedIPv6HeaderLen + 1190) = Inr n \<and>
    (n \<le> 1280 \<longleftrightarrow> 1190 \<le> (1198 :: int))"
proof (rule derived_segment_is_maximal)
  show "DeriveMaxTCPSegmentLen (FlowC demo_policy) 1280 = Inr 1198" by code_simp
qed simp

section \<open>The prediction and the ESP packet\<close>

lemma esp_padding_ceil:
  "0 < b \<Longrightarrow> int (n + esp_padding b n) = (int n + int b - 1) div int b * int b"
proof -
  assume b: "0 < b"
  define q r where "q = n div b" and "r = n mod b"
  have n: "int n = int b * int q + int r" and r: "r < b"
    using b by (simp_all add: q_def r_def flip: of_nat_mult of_nat_add)
  show ?thesis
  proof (cases "r = 0")
    case True
    have "int n + int b - 1 = int b * int q + (int b - 1)" using True n by simp
    then have "(int n + int b - 1) div int b = int q"
      by (simp only:) (rule div_block, use b in simp_all)
    then show ?thesis using True n by (simp add: esp_padding_def r_def)
  next
    case False
    have "int n + int b - 1 = int b * (int q + 1) + (int r - 1)" using n by (simp add: algebra_simps)
    then have d: "(int n + int b - 1) div int b = int q + 1"
      by (simp only:) (rule div_block, use False r in simp_all)
    have "int (n + esp_padding b n) = int b * (int q + 1)"
      using False n r by (simp add: esp_padding_def r_def [symmetric] algebra_simps of_nat_diff)
    then show ?thesis unfolding d by simp
  qed
qed

lemma sa_of_flow:
  assumes "newSAForFlow f spi = Inr sa" and "espBudgetForFlow f = Inr b"
  obtains alg where "EncryptionAlg sa = Some alg" and "ivLen b = int (IVSize alg)"
    and "alg \<noteq> NullEncrypter \<Longrightarrow> blockLen b = int (BlockSize alg)"
    and "alg = NullEncrypter \<longleftrightarrow> canonicalEncAlg (EncAlg f) = ''null''"
    and "alg = NullEncrypter \<Longrightarrow> blockLen b = 4"
  using assms
  by (auto simp: newSAForFlow_def espBudgetForFlow_def encrypterForFlow_def res_simps Let_def
      NewSecurityAssociationCBC_def split: if_splits)

lemma predicted_esp_size:
  assumes sa: "newSAForFlow f spi = Inr sa" and b: "espBudgetForFlow f = Inr b"
  shows "\<exists>n. PredictProtectedESPLen f (int (40 + length pl)) = Inr n \<and>
    (if canonicalEncAlg (EncAlg f) = ''null''
     then n = int (40 + esp_size sa pl nh + esp_padding 4 (length pl + 2))
     else n = int (40 + esp_size sa pl nh))"
proof -
  from sa_of_flow [OF sa b] obtain alg where alg: "EncryptionAlg sa = Some alg" "ivLen b = int (IVSize alg)"
    "alg \<noteq> NullEncrypter \<Longrightarrow> blockLen b = int (BlockSize alg)"
    "alg = NullEncrypter \<longleftrightarrow> canonicalEncAlg (EncAlg f) = ''null''"
    "alg = NullEncrypter \<Longrightarrow> blockLen b = 4" by blast
  have pred: "PredictProtectedESPLen f (int (40 + length pl)) =
      Inr (48 + ivLen b + (int (length pl + 2) + blockLen b - 1) div blockLen b * blockLen b + 12)"
    using b budget_cases [OF b] by (simp add: PredictProtectedESPLen_def protected_lens Let_def algebra_simps)
  have size: "esp_size sa pl nh = 20 + (IVSize alg + (length pl + 2 + esp_padding (BlockSize alg) (length pl + 2)))"
    using alg(1) by (simp add: esp_size_def esp_plaintext_def Let_def)
  show ?thesis
  proof (cases "alg = NullEncrypter")
    case True
    then show ?thesis
      using pred size alg(2,4,5) esp_padding_ceil [of 4 "length pl + 2"]
      by (simp add: esp_padding_def)
  next
    case False
    then have "0 < BlockSize alg" by (cases alg) auto
    then show ?thesis
      using False pred size alg(2,3,4) esp_padding_ceil [of "BlockSize alg" "length pl + 2"] by simp
  qed
qed

text \<open>For AES-CBC and 3DES the predicted length is the length of the ESP packet that
  the transform builds; for the null cipher the prediction counts the four-byte alignment that
  the transform does not do, so the packet is shorter by that padding (up to three bytes).\<close>

theorem predicted_length_is_real:
  assumes "newSAForFlow f spi = Inr sa" and "espBudgetForFlow f = Inr b"
    and "prims_ok prims" and "rand_ok rand"
  shows "\<exists>esp n. fst (encapsulateTransport prims rand pl sa nh) = Inr esp \<and>
    PredictProtectedESPLen f (int (protectedIPv6HeaderLen + length pl)) = Inr n \<and>
    n = int (protectedIPv6HeaderLen + length esp) +
      (if canonicalEncAlg (EncAlg f) = ''null'' then int (esp_padding 4 (length pl + 2)) else 0)"
proof -
  have "esp_ready sa" using newSA_ready [OF assms(1)] by simp
  moreover have "paired sa sa" by (simp add: paired_def)
  ultimately obtain esp where "fst (encapsulateTransport prims rand pl sa nh) = Inr esp"
      "length esp = esp_size sa pl nh"
    unfolding esp_size_def by (rule encapsulate_opens [OF assms(3,4)])
  then show ?thesis
    using predicted_esp_size [OF assms(1,2), of pl nh] by (auto simp: protectedIPv6HeaderLen_def)
qed

theorem predicted_length_is_real_witness:
  "\<exists>esp n. fst (encapsulateTransport demo_prims demo_rand [1, 2, 3]
      (projr (newSAForFlow (FlowC demo_policy) 7)) 6) = Inr esp \<and>
    PredictProtectedESPLen (FlowC demo_policy) (int (protectedIPv6HeaderLen + length [1, 2, 3 :: byte])) = Inr n \<and>
    n = int (protectedIPv6HeaderLen + length esp) +
      (if canonicalEncAlg (EncAlg (FlowC demo_policy)) = ''null''
       then int (esp_padding 4 (length [1, 2, 3 :: byte] + 2)) else 0)"
proof (rule predicted_length_is_real [OF _ _ demo_prims_ok demo_rand_ok])
  show "newSAForFlow (FlowC demo_policy) 7 = Inr (projr (newSAForFlow (FlowC demo_policy) 7))" by code_simp
  show "espBudgetForFlow (FlowC demo_policy) = Inr (projr (espBudgetForFlow (FlowC demo_policy)))" by code_simp
qed

section \<open>The clamp\<close>

lemma mss_scan_end:
  "\<not> i < length opts \<or> opts ! i = 0 \<Longrightarrow> mss_scan opts i off seen = Inr (off, seen)"
  by (subst mss_scan.simps) auto

lemma mss_scan_nop:
  "i < length opts \<Longrightarrow> opts ! i = 1 \<Longrightarrow> mss_scan opts i off seen = mss_scan opts (i + 1) off seen"
  by (subst mss_scan.simps) auto

definition option_at :: "byte list \<Rightarrow> nat \<Rightarrow> nat \<Rightarrow> bool" where
  "option_at opts i n \<longleftrightarrow>
     i + 1 < length opts \<and> opts ! i \<noteq> 0 \<and> opts ! i \<noteq> 1 \<and> n = unat (opts ! (i + 1)) \<and>
     2 \<le> n \<and> i + n \<le> length opts"

lemma mss_scan_mss:
  "option_at opts i 4 \<Longrightarrow> opts ! i = 2 \<Longrightarrow>
     mss_scan opts i off seen = mss_scan opts (i + 4) (Some (protectedMinTCPHeaderLen + i)) (seen + 1)"
  by (subst mss_scan.simps) (auto simp: option_at_def Let_def)

lemma mss_scan_other:
  "option_at opts i n \<Longrightarrow> opts ! i \<noteq> 2 \<Longrightarrow>
     mss_scan opts i off seen = mss_scan opts (i + n) off seen"
  by (subst mss_scan.simps) (auto simp: option_at_def Let_def)

lemma mss_scan_Inr:
  assumes "mss_scan opts i off seen = Inr r"
  obtains (stop) "\<not> i < length opts \<or> opts ! i = 0" and "r = (off, seen)"
  | (nop) "i < length opts" and "opts ! i = 1" and "mss_scan opts (i + 1) off seen = Inr r"
  | (mss) "option_at opts i 4" and "opts ! i = 2"
      and "mss_scan opts (i + 4) (Some (protectedMinTCPHeaderLen + i)) (seen + 1) = Inr r"
  | (other) n where "option_at opts i n" and "opts ! i \<noteq> 2" and "mss_scan opts (i + n) off seen = Inr r"
  using assms
  by (subst (asm) mss_scan.simps) (auto simp: option_at_def Let_def split: if_splits)

lemma mss_scan_seen:
  "mss_scan opts i off seen = Inr (off', seen') \<Longrightarrow> seen \<le> seen' \<and> (seen' = seen \<longrightarrow> off' = off)"
proof (induction "length opts - i" arbitrary: i off seen rule: less_induct)
  case less
  from less.prems show ?case
  proof (cases rule: mss_scan_Inr)
    case nop
    then show ?thesis using less.hyps [of "i + 1"] by auto
  next
    case mss
    then show ?thesis using less.hyps [of "i + 4"] by (fastforce simp: option_at_def)
  next
    case (other n)
    then show ?thesis using less.hyps [of "i + n"] by (fastforce simp: option_at_def)
  qed auto
qed

lemma option_at_write:
  "i + 2 \<le> p \<or> p + 2 \<le> i \<Longrightarrow> option_at opts i n \<Longrightarrow> option_at (put16_at opts p w) i n"
  by (auto simp: option_at_def)

lemma mss_scan_write_before:
  "p + 2 \<le> i \<Longrightarrow> mss_scan opts i off seen = Inr r \<Longrightarrow> mss_scan (put16_at opts p w) i off seen = Inr r"
proof (induction "length opts - i" arbitrary: i off seen rule: less_induct)
  case less
  have nth: "put16_at opts p w ! i = opts ! i" using less.prems(1) by (intro nth_put16_at) auto
  from less.prems(2) show ?case
  proof (cases rule: mss_scan_Inr)
    case stop
    then show ?thesis by (simp add: mss_scan_end nth)
  next
    case nop
    then show ?thesis using less.hyps [of "i + 1"] less.prems(1) by (simp add: mss_scan_nop nth)
  next
    case mss
    then have "length opts - (i + 4) < length opts - i" by (auto simp: option_at_def)
    with mss show ?thesis
      using less.hyps [of "i + 4"] less.prems(1) option_at_write [of i p opts 4 w]
      by (simp add: mss_scan_mss nth option_at_def)
  next
    case (other n)
    then have "length opts - (i + n) < length opts - i" by (auto simp: option_at_def)
    with other show ?thesis
      using less.hyps [of "i + n"] less.prems(1) option_at_write [of i p opts n w]
        mss_scan_other [of "put16_at opts p w" i n] by (simp add: nth option_at_def)
  qed
qed

text \<open>A scan that finds one option finds the same one after the option's value is rewritten.\<close>

lemma mss_scan_rewrite:
  "mss_scan opts i off 0 = Inr (Some off', Suc 0) \<Longrightarrow>
     \<exists>p. off' = protectedMinTCPHeaderLen + p \<and> i \<le> p \<and> p + 4 \<le> length opts \<and>
       mss_scan (put16_at opts (p + 2) w) i off 0 = Inr (Some off', Suc 0)"
proof (induction "length opts - i" arbitrary: i off rule: less_induct)
  case less
  from less.prems show ?case
  proof (cases rule: mss_scan_Inr)
    case nop
    have "length opts - (i + 1) < length opts - i" using nop by linarith
    then obtain p where p: "off' = protectedMinTCPHeaderLen + p" "i + 1 \<le> p" "p + 4 \<le> length opts"
      "mss_scan (put16_at opts (p + 2) w) (i + 1) off 0 = Inr (Some off', Suc 0)"
      using less.hyps [of "i + 1" off] nop by auto
    have "put16_at opts (p + 2) w ! i = opts ! i" using p(2) by (intro nth_put16_at) auto
    then have "mss_scan (put16_at opts (p + 2) w) i off 0 = Inr (Some off', Suc 0)"
      using p(4) nop by (simp add: mss_scan_nop)
    then show ?thesis using p by auto
  next
    case mss
    have off: "off' = protectedMinTCPHeaderLen + i" using mss_scan_seen [OF mss(3)] by simp
    have nth: "put16_at opts (i + 2) w ! i = opts ! i" by (intro nth_put16_at) auto
    have "option_at (put16_at opts (i + 2) w) i 4" using mss(1) by (intro option_at_write) auto
    then have "mss_scan (put16_at opts (i + 2) w) i off 0 =
        mss_scan (put16_at opts (i + 2) w) (i + 4) (Some (protectedMinTCPHeaderLen + i)) 1"
      using mss(2) nth mss_scan_mss [of "put16_at opts (i + 2) w" i off 0] by simp
    also have "\<dots> = Inr (Some off', Suc 0)"
      using mss_scan_write_before [OF _ mss(3), of "i + 2"] by simp
    finally show ?thesis using off mss(1) by (auto simp: option_at_def)
  next
    case (other n)
    have n: "length opts - (i + n) < length opts - i" using other(1) by (auto simp: option_at_def)
    then obtain p where p: "off' = protectedMinTCPHeaderLen + p" "i + n \<le> p" "p + 4 \<le> length opts"
      "mss_scan (put16_at opts (p + 2) w) (i + n) off 0 = Inr (Some off', Suc 0)"
      using less.hyps [of "i + n" off] other n by auto
    have "i + 2 \<le> p + 2" using p(2) by simp
    then have "option_at (put16_at opts (p + 2) w) i n" using other(1) by (intro option_at_write) auto
    moreover have "put16_at opts (p + 2) w ! i = opts ! i" using p(2) by (intro nth_put16_at) auto
    ultimately have "mss_scan (put16_at opts (p + 2) w) i off 0 = Inr (Some off', Suc 0)"
      using p(4) other(2) mss_scan_other [of "put16_at opts (p + 2) w" i n off 0] by simp
    then show ?thesis using p n by (intro exI [of _ p]) simp
  qed auto
qed

subsection \<open>The TCP checksum\<close>

text \<open>The sum of the 16-bit words, an odd last byte being the high half of a word, as RFC 1071
  defines it.\<close>

fun odd_sum :: "byte list \<Rightarrow> nat" where
  "odd_sum (a # b # rest) = be_nat [a, b] + odd_sum rest"
| "odd_sum [a] = unat a * 256"
| "odd_sum [] = 0"

lemma odd_sum_put16_at:
  "2 * k + 1 < length bs \<Longrightarrow>
     odd_sum (put16_at bs (2 * k) w) + unat (u16_at bs (2 * k)) = odd_sum bs + unat w"
proof (induction bs arbitrary: k rule: odd_sum.induct)
  case (1 a b rest)
  show ?case
  proof (cases k)
    case 0
    have "be_nat [of_nat (unat w div 256), of_nat (unat w)] = unat w"
      using be_nat_be_bytes [of 2 "unat w"] by (simp add: be_bytes_2)
    moreover have "unat (u16_at (a # b # rest) 0) = be_nat [a, b]"
      by (simp add: u16_at_nth unat_get16)
    ultimately show ?thesis using 0 by (simp add: put16_at_def)
  next
    case (Suc j)
    have "put16_at (a # b # rest) (2 * k) w = a # b # put16_at rest (2 * j) w"
      and "u16_at (a # b # rest) (2 * k) = u16_at rest (2 * j)"
      using Suc by (simp_all add: put16_at_def u16_at_def subslice_def)
    then show ?thesis using 1(1) [of j] 1(2) Suc by simp
  qed
qed auto

lemma odd_sum_bound: "odd_sum bs \<le> 65535 * ((length bs + 1) div 2)"
proof (induction bs rule: odd_sum.induct)
  case (1 a b rest)
  then show ?case using be_nat_bound [of "[a, b]"] by simp
next
  case (2 a)
  have "unat a * 256 \<le> 65535" using unat_byte_le [of a] by linarith
  then show ?case by simp
qed simp

lemma unat_checksum_add:
  "unat acc + 65535 * ((length bs + 1) div 2) < 4294967296 \<Longrightarrow>
     unat (checksum_add bs acc) = unat acc + odd_sum bs"
proof (induction bs acc rule: checksum_add.induct)
  case (1 a b rest acc)
  have le: "be_nat [a, b] \<le> 65535" using be_nat_bound [of "[a, b]"] by simp
  have u: "unat (ucast (get16 [a, b]) :: u32) = be_nat [a, b]"
    using le by (simp add: unsigned_ucast_eq take_bit_eq_mod unat_get16)
  have "unat (acc + ucast (get16 [a, b])) = unat acc + be_nat [a, b]"
    using 1(2) le by (simp add: unat_word_ariths u)
  then show ?case using 1 le by simp
next
  case (2 a acc)
  have a: "unat a < 4294967296" "unat a * 256 < 4294967296" "unat a * 256 \<le> 65535"
    using unat_byte_le [of a] by linarith+
  have "unat (ucast a :: u32) = unat a"
    unfolding unsigned_ucast_eq take_bit_eq_mod using a(1) by simp
  then have "unat (push_bit 8 (ucast a) :: u32) = unat a * 256"
    using a(2) by (simp add: push_bit_eq_mult unat_word_ariths)
  then show ?case using 2 a(3) by (simp add: unat_word_ariths)
qed auto

definition pseudo_sum :: "byte list \<Rightarrow> byte list \<Rightarrow> byte list \<Rightarrow> nat" where
  "pseudo_sum src dst segment =
     odd_sum src + odd_sum dst + odd_sum (put32 (of_nat (length segment))) +
     odd_sum [0, 0, 0, ipProtoTCP] + odd_sum segment"

lemma unat_tcp_checksum:
  assumes "length src = 16" and "length dst = 16" and "length segment \<le> 100000"
  shows "unat (tcpPseudoHeaderChecksum src dst segment) =
    (let c = 65535 - ones_fold (pseudo_sum src dst segment) in if c = 0 then 65535 else c)"
proof -
  define s1 where "s1 = checksum_add src 0"
  define s2 where "s2 = checksum_add dst s1"
  define s3 where "s3 = checksum_add (put32 (of_nat (length segment))) s2"
  define s4 where "s4 = checksum_add [0, 0, 0, ipProtoTCP] s3"
  define s5 where "s5 = checksum_add segment s4"
  have u1: "unat s1 = odd_sum src" unfolding s1_def using assms(1) by (simp add: unat_checksum_add)
  have b1: "odd_sum src \<le> 524280" using odd_sum_bound [of src] assms(1) by simp
  have u2: "unat s2 = unat s1 + odd_sum dst"
    unfolding s2_def by (rule unat_checksum_add) (use u1 b1 assms(2) in simp)
  have b2: "odd_sum dst \<le> 524280" using odd_sum_bound [of dst] assms(2) by simp
  have u3: "unat s3 = unat s2 + odd_sum (put32 (of_nat (length segment)))"
    unfolding s3_def by (rule unat_checksum_add) (use u1 u2 b1 b2 in simp)
  have b3: "odd_sum (put32 (of_nat (length segment))) \<le> 131070"
    using odd_sum_bound [of "put32 (of_nat (length segment))"] by simp
  have u4: "unat s4 = unat s3 + odd_sum [0, 0, 0, ipProtoTCP]"
    unfolding s4_def by (rule unat_checksum_add) (use u1 u2 u3 b1 b2 b3 in simp)
  have b4: "odd_sum [0, 0, 0, ipProtoTCP] \<le> 131070"
    using odd_sum_bound [of "[0, 0, 0, ipProtoTCP]"] by simp
  have "65535 * ((length segment + 1) div 2) \<le> 65535 * 50000" using assms(3) by simp
  then have u5: "unat s5 = unat s4 + odd_sum segment"
    unfolding s5_def by (intro unat_checksum_add) (use u1 u2 u3 u4 b1 b2 b3 b4 in linarith)
  have total5: "unat s5 = pseudo_sum src dst segment"
    using u1 u2 u3 u4 u5 by (simp add: pseudo_sum_def)
  let ?f = "checksum_fold s5"
  have f: "unat ?f = ones_fold (pseudo_sum src dst segment)" by (simp add: unat_checksum_fold total5)
  have "ones_fold n < 65536" for n by (auto simp: ones_fold_def less_Suc_eq_le)
  from this [of "pseudo_sum src dst segment"]
  have c: "unat (ucast ?f :: u16) = ones_fold (pseudo_sum src dst segment)"
    using f by (simp add: unsigned_ucast_eq take_bit_eq_mod)
  have out: "unat (NOT (ucast ?f) :: u16) = 65535 - ones_fold (pseudo_sum src dst segment)"
    by (simp add: unat_complement c)
  have "tcpPseudoHeaderChecksum src dst segment =
      (if NOT (ucast ?f) \<noteq> (0 :: u16) then NOT (ucast ?f) else 0xffff)"
    by (simp add: tcpPseudoHeaderChecksum_def Let_def s1_def s2_def s3_def s4_def s5_def)
  moreover have "NOT (ucast ?f) = (0 :: u16) \<longleftrightarrow> 65535 - ones_fold (pseudo_sum src dst segment) = 0"
    using out by (metis unat_eq_zero)
  ultimately show ?thesis using out by (simp add: Let_def)
qed

definition tcp_checksum_valid :: "byte list \<Rightarrow> bool" where
  "tcp_checksum_valid packet \<longleftrightarrow>
     ones_fold (pseudo_sum (subslice packet 8 24) (subslice packet 24 40) (drop 40 packet)) = 65535"

lemma ones_fold_fill:
  assumes "c = (if 65535 - ones_fold n = 0 then 65535 else 65535 - ones_fold n)"
  shows "ones_fold (n + c) = 65535"
proof (cases "65535 - ones_fold n = 0")
  case False
  then show ?thesis using ones_fold_complement [of n] assms by simp
next
  case True
  have "n \<noteq> 0 \<and> n mod 65535 = 0"
  proof (rule ccontr)
    assume *: "\<not> ?thesis"
    have "n mod 65535 < 65535" by simp
    then show False using True * by (auto simp: ones_fold_def split: if_splits)
  qed
  then show ?thesis using assms True by (simp add: ones_fold_def mod_add_eq)
qed

lemma rewrite_checksum_valid:
  assumes "rewriteTCPChecksum packet = Inr out" and "length packet \<le> 65575"
  shows "tcp_checksum_valid out"
proof -
  let ?q = "packet[56 := 0, 57 := 0]"
  let ?s = "subslice ?q 8 24" and ?d = "subslice ?q 24 40" and ?g = "drop 40 ?q"
  let ?c = "tcpPseudoHeaderChecksum ?s ?d ?g"
  have len: "60 \<le> length packet" and out: "out = put16_at ?q 56 ?c"
    using assms(1) by (auto simp: rewriteTCPChecksum_def Let_def protected_lens split: if_splits)
  have seg: "drop 40 out = put16_at ?g 16 ?c"
    by (simp add: out put16_at_def drop_update_swap)
  have "subslice out 8 24 = ?s" "subslice out 24 40 = ?d"
    unfolding out by (rule subslice_put16_at, simp)+
  moreover have "odd_sum (put16_at ?g 16 ?c) = odd_sum ?g + unat ?c"
  proof -
    have "u16_at ?g 16 = 0" using len by (simp add: u16_at_nth get16_def be_nat_two)
    then show ?thesis using odd_sum_put16_at [of 8 ?g ?c] len by simp
  qed
  ultimately have "pseudo_sum (subslice out 8 24) (subslice out 24 40) (drop 40 out) =
      pseudo_sum ?s ?d ?g + unat ?c"
    by (simp add: pseudo_sum_def seg)
  moreover have "unat ?c = (let c = 65535 - ones_fold (pseudo_sum ?s ?d ?g) in if c = 0 then 65535 else c)"
    using len assms(2) by (intro unat_tcp_checksum) simp_all
  ultimately show ?thesis
    unfolding tcp_checksum_valid_def by (simp only:) (rule ones_fold_fill, simp only: Let_def)
qed

subsection \<open>The clamped packet\<close>

text \<open>The options of the TCP header, and the guards in front of the scan.\<close>

definition tcp_options :: "byte list \<Rightarrow> byte list" where
  "tcp_options packet = subslice (drop 40 packet) 20 (unat (drop_bit 4 (packet ! 52)) * 4)"

definition handshake :: "byte list \<Rightarrow> bool" where
  "handshake packet \<longleftrightarrow>
     60 \<le> length packet \<and> drop_bit 4 (packet ! 0) = 6 \<and> packet ! 6 = ipProtoTCP \<and>
     packet ! 53 AND tcpFlagSYN \<noteq> 0 \<and> 20 \<le> unat (drop_bit 4 (packet ! 52)) * 4 \<and>
     unat (drop_bit 4 (packet ! 52)) * 4 + 40 \<le> length packet"

lemma clamp_handshake:
  assumes "handshake packet" and "0 < safe"
    and "mss_scan (tcp_options packet) 0 None 0 = Inr (Some (20 + p), 1)"
  shows "ClampHandshakeMSS packet safe =
    (let peer = int (unat (u16_at packet (62 + p))) in
     if peer = 0 then Inl (ZeroMss, clamp_result_of MalformedMss)
     else if peer < safe then Inr (packet, \<lparr>Bucket = BelowSafe, EffectiveMSS = peer, Applied = False\<rparr>)
     else if peer = safe then Inr (packet, \<lparr>Bucket = EqualSafe, EffectiveMSS = peer, Applied = False\<rparr>)
     else case rewriteTCPChecksum (put16_at packet (62 + p) (of_int safe)) of
         Inl e \<Rightarrow> Inl (e, clamp_result_of MalformedMss)
       | Inr out \<Rightarrow> Inr (out, \<lparr>Bucket = AboveSafe, EffectiveMSS = safe, Applied = True\<rparr>))"
proof -
  have "u16_at (drop 40 packet) (20 + p + 2) = u16_at packet (62 + p)"
    by (simp add: u16_at_def subslice_def add.commute)
  moreover have "\<not> length packet - 40 < unat (drop_bit 4 (packet ! 52)) * 4" "\<not> length packet - 40 < 20"
    using assms(1) by (auto simp: handshake_def)
  ultimately show ?thesis
    using assms
    by (simp add: ClampHandshakeMSS_def handshake_def tcp_options_def protected_lens Let_def
        add.commute [of _ p] add.left_commute)
qed

lemma clamp_Inr_cases:
  assumes "ClampHandshakeMSS packet safe = Inr (out, r)"
  obtains (plain) "out = packet" and "r = clamp_result_of NotApplicable" and "0 < safe"
  | (scanned) p where "0 < safe" and "handshake packet"
      and "mss_scan (tcp_options packet) 0 None 0 = Inr (Some (20 + p), 1)"
      and "p + 4 \<le> length (tcp_options packet)"
proof -
  have safe: "0 < safe" using assms by (auto simp: ClampHandshakeMSS_def split: if_splits)
  show ?thesis
  proof (cases "handshake packet")
    case False
    then have "out = packet \<and> r = clamp_result_of NotApplicable"
      using assms
      by (auto simp: ClampHandshakeMSS_def handshake_def protected_lens Let_def not_less not_le
          split: if_splits)
    then show ?thesis using plain safe by simp
  next
    case True
    then obtain off where scan: "mss_scan (tcp_options packet) 0 None 0 = Inr (Some off, 1)"
      using assms
      by (auto simp: ClampHandshakeMSS_def handshake_def tcp_options_def protected_lens Let_def
          split: if_splits sum.splits option.splits)
    then obtain p where "off = 20 + p" "p + 4 \<le> length (tcp_options packet)"
      using mss_scan_rewrite [of "tcp_options packet" 0 None off] by (auto simp: protected_lens)
    then show ?thesis using scanned [OF safe True] scan by simp
  qed
qed

text \<open>The packet after the rewrite: only the option's value and the checksum change.\<close>

lemma rewritten_packet:
  assumes "rewriteTCPChecksum (put16_at packet (62 + p) w) = Inr out" and "64 + p \<le> length packet"
    and "unat (drop_bit 4 (packet ! 52)) * 4 = hl" and "p + 4 \<le> hl - 20" and "hl + 40 \<le> length packet"
  shows "length out = length packet" and "k \<notin> {56, 57, 62 + p, 63 + p} \<Longrightarrow> out ! k = packet ! k"
    and "u16_at out (62 + p) = w" and "tcp_options out = put16_at (tcp_options packet) (p + 2) w"
proof -
  obtain c where out: "out = put16_at ((put16_at packet (62 + p) w)[56 := 0, 57 := 0]) 56 c"
    using assms(1) by (auto simp: rewriteTCPChecksum_def Let_def protected_lens split: if_splits)
  show len: "length out = length packet" by (simp add: out)
  show other: "k \<notin> {56, 57, 62 + p, 63 + p} \<Longrightarrow> out ! k = packet ! k" for k
    by (simp add: out)
  have "u16_at out (62 + p) = u16_at (put16_at packet (62 + p) w) (62 + p)"
    using assms(2) by (simp add: out u16_at_nth)
  also have "\<dots> = w" using assms(2) by (intro u16_at_put16_at) simp
  finally show "u16_at out (62 + p) = w" .
  have "drop 60 out = drop 60 (put16_at packet (62 + p) w)"
    unfolding out by (simp add: drop_put16_at_after)
  also have "\<dots> = put16_at (drop 60 packet) (p + 2) w"
    by (simp add: put16_at_def drop_update_swap numeral_3_eq_3)
  finally have "take (hl - 20) (drop 60 out) = put16_at (take (hl - 20) (drop 60 packet)) (p + 2) w"
    using assms(4) by (simp add: take_put16_at)
  moreover have "out ! 52 = packet ! 52" by (rule other) simp
  ultimately show "tcp_options out = put16_at (tcp_options packet) (p + 2) w"
    using assms(3) by (simp add: tcp_options_def subslice_def)
qed

lemma clamp_applied:
  assumes "ClampHandshakeMSS packet safe = Inr (out, r)" and "Applied r" and "length packet \<le> 65575"
  obtains p where "62 \<le> p" and "p + 2 \<le> length packet" and "length out = length packet"
    and "\<And>k. k \<notin> {56, 57, p, p + 1} \<Longrightarrow> out ! k = packet ! k"
    and "int (unat (u16_at out p)) = safe" and "safe < int (unat (u16_at packet p))"
    and "tcp_checksum_valid out"
    and "ClampHandshakeMSS out safe = Inr (out, \<lparr>Bucket = EqualSafe, EffectiveMSS = safe, Applied = False\<rparr>)"
    and "EffectiveMSS r = safe"
  using assms(1)
proof (cases rule: clamp_Inr_cases)
  case plain
  then show ?thesis using assms(2) by (simp add: clamp_result_of_def)
next
  case (scanned p)
  define hl where "hl = unat (drop_bit 4 (packet ! 52)) * 4"
  have hs: "60 \<le> length packet" "20 \<le> hl" "hl + 40 \<le> length packet" "length (tcp_options packet) = hl - 20"
    using scanned(2) by (auto simp: handshake_def hl_def tcp_options_def)
  have p: "p + 4 \<le> hl - 20" "64 + p \<le> length packet" using scanned(4) hs by auto
  let ?w = "of_int safe :: u16"
  note cl = clamp_handshake [OF scanned(2,1,3)]
  have peer: "safe < int (unat (u16_at packet (62 + p)))"
      and rw: "rewriteTCPChecksum (put16_at packet (62 + p) ?w) = Inr out"
      and eff: "EffectiveMSS r = safe"
    using assms(1,2) unfolding cl by (auto simp: Let_def split: if_splits sum.splits)
  have "safe < 65536" using peer unat_u16_less [of "u16_at packet (62 + p)"] by linarith
  then have w: "int (unat ?w) = safe" using scanned(1) by (simp add: word_of_int_inverse unsigned_of_int take_bit_eq_mod)
  note r = rewritten_packet [OF rw p(2) hl_def [symmetric] p(1) hs(3)]
  have scan: "mss_scan (tcp_options out) 0 None 0 = Inr (Some (20 + p), 1)"
    using mss_scan_rewrite [of "tcp_options packet" 0 None "20 + p" ?w] scanned(3) r(4)
    by (auto simp: protected_lens)
  have "handshake out" using scanned(2) r(1) r(2) by (simp add: handshake_def)
  from clamp_handshake [OF this scanned(1) scan]
  have again: "ClampHandshakeMSS out safe = Inr (out, \<lparr>Bucket = EqualSafe, EffectiveMSS = safe, Applied = False\<rparr>)"
    using w scanned(1) r(3) by simp
  have "tcp_checksum_valid out"
    using rewrite_checksum_valid [OF rw] assms(3) by simp
  then show ?thesis
    using that [of "62 + p"] p(2) r w peer again eff by simp
qed

text \<open>A clamp that rewrites a handshake packet changes only the two bytes of its MSS
  option and the TCP checksum, lowers the option to the safe value, leaves a checksum that
  verifies over pseudo-header and segment, and clamping the result again does nothing; every
  other success returns the packet unchanged.\<close>

theorem clamp_rewrites_only_mss:
  assumes "ClampHandshakeMSS packet safe = Inr (out, r)" and "length packet \<le> 65575"
  shows "if Applied r
    then (\<exists>p \<ge> 62. p + 2 \<le> length packet \<and> length out = length packet \<and>
        {k. k < length packet \<and> out ! k \<noteq> packet ! k} \<subseteq> {56, 57, p, p + 1} \<and>
        int (unat (u16_at out p)) = safe \<and> safe < int (unat (u16_at packet p)) \<and>
        tcp_checksum_valid out \<and>
        ClampHandshakeMSS out safe =
          Inr (out, \<lparr>Bucket = EqualSafe, EffectiveMSS = safe, Applied = False\<rparr>))
    else out = packet"
proof (cases "Applied r")
  case True
  show ?thesis
  proof (rule clamp_applied [OF assms(1) True assms(2)], goal_cases)
    case (1 p)
    then have "{k. k < length packet \<and> out ! k \<noteq> packet ! k} \<subseteq> {56, 57, p, p + 1}" by blast
    then show ?case using 1 True by auto
  qed
next
  case False
  from assms(1) have "out = packet"
  proof (cases rule: clamp_Inr_cases)
    case (scanned p)
    then show ?thesis
      using assms(1) False unfolding clamp_handshake [OF scanned(2,1,3)]
      by (auto simp: Let_def split: if_splits sum.splits)
  qed simp
  then show ?thesis using False by simp
qed

text \<open>A SYN with an MSS option of 1460.\<close>

definition demo_syn :: "byte list" where
  "demo_syn =
     [0x60, 0, 0, 0, 0, 24, 6, 64] @ replicate 15 0 @ [1] @ replicate 15 0 @ [2] @
     [0x13, 0xc4, 0x13, 0xc4, 0, 0, 0, 1, 0, 0, 0, 0, 0x60, 2, 0xff, 0xff, 0, 0, 0, 0] @
     [2, 4, 0x05, 0xb4]"

definition demo_syn_clamped :: "byte list" where
  "demo_syn_clamped =
     [0x60, 0, 0, 0, 0, 24, 6, 64] @ replicate 15 0 @ [1] @ replicate 15 0 @ [2] @
     [0x13, 0xc4, 0x13, 0xc4, 0, 0, 0, 1, 0, 0, 0, 0, 0x60, 2, 0xff, 0xff, 113, 181, 0, 0] @
     [2, 4, 4, 154]"

theorem clamp_rewrites_only_mss_witness:
  "length demo_syn_clamped = length demo_syn \<and> tcp_checksum_valid demo_syn_clamped \<and>
   ClampHandshakeMSS demo_syn_clamped 1178 =
     Inr (demo_syn_clamped, \<lparr>Bucket = EqualSafe, EffectiveMSS = 1178, Applied = False\<rparr>)"
proof -
  have c: "ClampHandshakeMSS demo_syn 1178 =
      Inr (demo_syn_clamped, \<lparr>Bucket = AboveSafe, EffectiveMSS = 1178, Applied = True\<rparr>)"
    by code_simp
  have "length demo_syn \<le> 65575" by (simp add: demo_syn_def)
  from clamp_rewrites_only_mss [OF c this] show ?thesis by auto
qed

end
