(* ===== verification/GoNumbers.thy ===== *)
theory GoNumbers
  imports GoText
begin

section \<open>Numbers and fields in text\<close>

text \<open>
  The part of Go's \<^verbatim>\<open>strconv\<close> that the components call, \<^verbatim>\<open>ParseUint\<close>, \<^verbatim>\<open>Atoi\<close> and the
  decimal of \<^verbatim>\<open>%d\<close>, and what \<^verbatim>\<open>strings.Cut\<close> and \<^verbatim>\<open>strings.Split\<close> do at a separator of one
  character.  \<^verbatim>\<open>ParseUint\<close> accepts underscores only with base 0, which no component uses.  An
  error of any kind is \<open>None\<close>.
\<close>

definition digit_value :: "char \<Rightarrow> nat option" where
  "digit_value c =
     (let n = char_code c in
      if 48 \<le> n \<and> n \<le> 57 then Some (n - 48)
      else if 97 \<le> n \<and> n \<le> 122 then Some (n - 87)
      else if 65 \<le> n \<and> n \<le> 90 then Some (n - 55)
      else None)"

fun parse_digits :: "nat \<Rightarrow> string \<Rightarrow> nat \<Rightarrow> nat option" where
  "parse_digits base [] n = Some n"
| "parse_digits base (c # s) n =
     (case digit_value c of
        None \<Rightarrow> None
      | Some d \<Rightarrow> if d < base then parse_digits base s (n * base + d) else None)"

definition ParseUint :: "string \<Rightarrow> nat \<Rightarrow> nat \<Rightarrow> nat option" where
  "ParseUint s base bits =
     (if s = [] then None
      else case parse_digits base s 0 of
        None \<Rightarrow> None
      | Some n \<Rightarrow> if n < 2 ^ bits then Some n else None)"

definition Atoi :: "string \<Rightarrow> int option" where
  "Atoi s =
     (let neg = (s \<noteq> [] \<and> hd s = CHR 0x2D);
          t = (if s \<noteq> [] \<and> (hd s = CHR 0x2D \<or> hd s = CHR 0x2B) then tl s else s)
      in case ParseUint t 10 64 of
           None \<Rightarrow> None
         | Some n \<Rightarrow>
             if neg then (if n \<le> 2 ^ 63 then Some (- int n) else None)
             else (if n < 2 ^ 63 then Some (int n) else None))"

fun decimal :: "nat \<Rightarrow> string" where
  "decimal n = (if n < 10 then [byte_char (48 + n)] else decimal (n div 10) @ [byte_char (48 + n mod 10)])"

declare decimal.simps [simp del]

definition show_int :: "int \<Rightarrow> string" where
  "show_int i = (if i < 0 then CHR 0x2D # decimal (nat (- i)) else decimal (nat i))"

lemma digit_value_digit [simp]: "d < 10 \<Longrightarrow> digit_value (byte_char (48 + d)) = Some d"
  by (simp add: digit_value_def char_code_byte_char)

lemma parse_digits_append:
  "parse_digits base (xs @ ys) n =
     (case parse_digits base xs n of None \<Rightarrow> None | Some m \<Rightarrow> parse_digits base ys m)"
  by (induction base xs n rule: parse_digits.induct) (auto split: option.split)

lemma parse_decimal: "parse_digits 10 (decimal n) 0 = Some n"
proof (induction n rule: decimal.induct)
  case (1 n)
  show ?case
  proof (cases "n < 10")
    case True
    then show ?thesis by (subst decimal.simps) simp
  next
    case False
    then show ?thesis using 1 by (subst decimal.simps) (simp add: parse_digits_append)
  qed
qed

lemma decimal_nonempty [simp]: "decimal n \<noteq> []"
  by (subst decimal.simps) simp

lemma decimal_chars: "c \<in> set (decimal n) \<Longrightarrow> 48 \<le> char_code c \<and> char_code c \<le> 57"
proof (induction n rule: decimal.induct)
  case (1 n)
  show ?case
  proof (cases "n < 10")
    case True
    then show ?thesis using 1(2) by (subst (asm) decimal.simps) (simp add: char_code_byte_char)
  next
    case False
    have "n mod 10 < 10" by simp
    then have "48 + n mod 10 \<le> 57" by linarith
    then show ?thesis using 1 False by (subst (asm) (2) decimal.simps) (auto simp: char_code_byte_char)
  qed
qed

lemma ParseUint_decimal: "n < 2 ^ bits \<Longrightarrow> ParseUint (decimal n) 10 bits = Some n"
  by (simp add: ParseUint_def parse_decimal)

lemma hd_decimal: "hd (decimal n) \<noteq> CHR 0x2D" "hd (decimal n) \<noteq> CHR 0x2B"
  using decimal_chars [of "hd (decimal n)" n] by auto

lemma Atoi_show_int:
  assumes "- (2 ^ 63) \<le> i" and "i < 2 ^ 63"
  shows "Atoi (show_int i) = Some i"
proof (cases "i < 0")
  case True
  have "nat (- i) < 2 ^ 64" "nat (- i) \<le> 2 ^ 63" using assms by simp_all
  then show ?thesis using True ParseUint_decimal [of "nat (- i)" 64] by (simp add: Atoi_def show_int_def)
next
  case False
  have "nat i < 2 ^ 64" "nat i < 2 ^ 63" using assms by simp_all
  then show ?thesis
    using False ParseUint_decimal [of "nat i" 64] hd_decimal by (simp add: Atoi_def show_int_def)
qed

lemma show_int_chars: "c \<in> set (show_int i) \<Longrightarrow> char_code c = 45 \<or> 48 \<le> char_code c \<and> char_code c \<le> 57"
  using decimal_chars by (auto simp: show_int_def split: if_splits)

subsection \<open>Separators of one character\<close>

lemma index_of_char: "c \<notin> set xs \<Longrightarrow> index_of [c] (xs @ c # ys) = Some (length xs)"
  by (induction xs) auto

lemma index_of_no_char: "c \<notin> set xs \<Longrightarrow> index_of [c] xs = None"
  by (induction xs) auto

lemma cut_at_char: "c \<notin> set xs \<Longrightarrow> cut_at [c] (xs @ c # ys) = Some (xs, ys)"
  by (simp add: cut_at_def index_of_char)

lemma split_on_no_char: "c \<notin> set xs \<Longrightarrow> split_on [c] xs = [xs]"
  by (subst split_on.simps) (simp add: index_of_no_char)

lemma split_on_char: "c \<notin> set xs \<Longrightarrow> split_on [c] (xs @ c # ys) = xs # split_on [c] ys"
  by (subst split_on.simps) (simp add: index_of_char)

text \<open>\<^verbatim>\<open>strings.Join\<close> of what a split would give.\<close>

fun join :: "string \<Rightarrow> string list \<Rightarrow> string" where
  "join sep [] = []"
| "join sep [x] = x"
| "join sep (x # y # xs) = x @ sep @ join sep (y # xs)"

lemma split_join: "xs \<noteq> [] \<Longrightarrow> \<forall>x \<in> set xs. c \<notin> set x \<Longrightarrow> split_on [c] (join [c] xs) = xs"
  by (induction "[c]" xs rule: join.induct) (simp_all add: split_on_no_char split_on_char)

end
