(* ===== verification/GoRunes.thy ===== *)
theory GoRunes
  imports GoText
begin

section \<open>Runes, UTF-8 and UTF-16\<close>

text \<open>
  The conversions of the Go language and of \<^verbatim>\<open>unicode/utf16\<close> that the modem codecs rest on:
  \<^verbatim>\<open>[]rune(s)\<close>, \<^verbatim>\<open>string(runes)\<close>, \<^verbatim>\<open>utf16.Encode\<close> and \<^verbatim>\<open>utf16.Decode\<close>, with what they do on
  malformed input (the replacement character U+FFFD).  A rune is a natural number.
\<close>

abbreviation replacement_rune :: nat where "replacement_rune \<equiv> 0xFFFD"

text \<open>A Unicode scalar value: what a conversion can yield.\<close>

definition valid_rune :: "nat \<Rightarrow> bool" where
  "valid_rune r \<longleftrightarrow> r < 0xD800 \<or> (0xE000 \<le> r \<and> r \<le> 0x10FFFF)"

subsection \<open>UTF-8\<close>

definition is_cont :: "nat \<Rightarrow> nat \<Rightarrow> char \<Rightarrow> bool" where
  "is_cont lo hi c \<longleftrightarrow> lo \<le> char_code c \<and> char_code c \<le> hi"

text \<open>\<^verbatim>\<open>utf8.DecodeRune\<close>: the rune at the head of a non-empty string and how many bytes it takes.  The
  bounds of the second byte exclude overlong forms, surrogates and values above U+10FFFF.\<close>

definition second_bounds :: "nat \<Rightarrow> nat \<times> nat" where
  "second_bounds b =
     (if b = 0xE0 then (0xA0, 0xBF)
      else if b = 0xED then (0x80, 0x9F)
      else if b = 0xF0 then (0x90, 0xBF)
      else if b = 0xF4 then (0x80, 0x8F)
      else (0x80, 0xBF))"

definition decode_rune :: "string \<Rightarrow> nat \<times> nat" where
  "decode_rune s =
     (let b = char_code (hd s); (lo, hi) = second_bounds b;
          second = (1 < length s \<and> is_cont lo hi (s ! 1));
          third = (2 < length s \<and> is_cont 0x80 0xBF (s ! 2));
          fourth = (3 < length s \<and> is_cont 0x80 0xBF (s ! 3));
          low = (\<lambda>i. char_code (s ! i) mod 64)
      in if b < 0x80 then (b, 1)
         else if 0xC2 \<le> b \<and> b \<le> 0xDF \<and> second then ((b mod 32) * 64 + low 1, 2)
         else if 0xE0 \<le> b \<and> b \<le> 0xEF \<and> second \<and> third then
           ((b mod 16) * 4096 + low 1 * 64 + low 2, 3)
         else if 0xF0 \<le> b \<and> b \<le> 0xF4 \<and> second \<and> third \<and> fourth then
           ((b mod 8) * 262144 + low 1 * 4096 + low 2 * 64 + low 3, 4)
         else (replacement_rune, 1))"

lemma decode_rune_width: "1 \<le> snd (decode_rune s)"
  by (simp add: decode_rune_def Let_def split: prod.split)

lemma decode_rune_shrinks:
  assumes "(r, w) = decode_rune (c # s)"
  shows "length (drop w (c # s)) < length (c # s)"
proof -
  have "1 \<le> w" using decode_rune_width [of "c # s"] assms [symmetric] by simp
  then show ?thesis by simp
qed

function runes :: "string \<Rightarrow> nat list" where
  "runes [] = []"
| "runes (c # s) =
     (case decode_rune (c # s) of (r, w) \<Rightarrow> r # runes (drop w (c # s)))"
  by pat_completeness auto
termination
  by (relation "measure length") (simp, simp only: measure_def inv_image_def, auto dest: decode_rune_shrinks simp del: length_drop)

definition encode_rune :: "nat \<Rightarrow> string" where
  "encode_rune r0 =
     (let r = (if valid_rune r0 then r0 else replacement_rune);
          tail = (\<lambda>k. byte_char (0x80 + (r div 64 ^ k) mod 64))
      in if r < 0x80 then [byte_char r]
         else if r < 0x800 then [byte_char (0xC0 + r div 64), tail 0]
         else if r < 0x10000 then [byte_char (0xE0 + r div 4096), tail 1, tail 0]
         else [byte_char (0xF0 + r div 262144), tail 2, tail 1, tail 0])"

definition string_of_runes :: "nat list \<Rightarrow> string" where
  "string_of_runes rs = concat (map encode_rune rs)"

subsection \<open>UTF-16\<close>

definition utf16_units :: "nat \<Rightarrow> nat list" where
  "utf16_units r =
     (if r < 0xD800 \<or> (0xE000 \<le> r \<and> r < 0x10000) then [r]
      else if 0x10000 \<le> r \<and> r \<le> 0x10FFFF then
        [0xD800 + (r - 0x10000) div 1024, 0xDC00 + (r - 0x10000) mod 1024]
      else [replacement_rune])"

definition utf16_encode :: "nat list \<Rightarrow> nat list" where
  "utf16_encode rs = concat (map utf16_units rs)"

definition high_surrogate :: "nat \<Rightarrow> bool" where
  "high_surrogate u \<longleftrightarrow> 0xD800 \<le> u \<and> u < 0xDC00"

definition low_surrogate :: "nat \<Rightarrow> bool" where
  "low_surrogate u \<longleftrightarrow> 0xDC00 \<le> u \<and> u < 0xE000"

fun utf16_decode :: "nat list \<Rightarrow> nat list" where
  "utf16_decode [] = []"
| "utf16_decode [u] =
     [if high_surrogate u \<or> low_surrogate u then replacement_rune else u]"
| "utf16_decode (u # v # us) =
     (if high_surrogate u \<and> low_surrogate v then
        ((u - 0xD800) * 1024 + (v - 0xDC00) + 0x10000) # utf16_decode us
      else (if high_surrogate u \<or> low_surrogate u then replacement_rune else u) # utf16_decode (v # us))"

subsection \<open>Facts\<close>

lemma utf16_units_small: "u \<in> set (utf16_units r) \<Longrightarrow> u < 65536"
  by (auto simp: utf16_units_def split: if_splits)

lemma utf16_encode_small: "u \<in> set (utf16_encode rs) \<Longrightarrow> u < 65536"
  using utf16_units_small by (auto simp: utf16_encode_def)

lemma utf16_encode_Cons [simp]: "utf16_encode (r # rs) = utf16_units r @ utf16_encode rs"
  by (simp add: utf16_encode_def)

lemma utf16_decode_plain:
  "\<not> high_surrogate u \<Longrightarrow> \<not> low_surrogate u \<Longrightarrow> utf16_decode (u # us) = u # utf16_decode us"
  by (cases us) auto

lemma utf16_decode_units:
  assumes "valid_rune r"
  shows "utf16_decode (utf16_units r @ us) = r # utf16_decode us"
proof (cases "r < 0x10000")
  case True
  then have "\<not> high_surrogate r" "\<not> low_surrogate r" and u: "utf16_units r = [r]"
    using assms by (auto simp: valid_rune_def high_surrogate_def low_surrogate_def utf16_units_def)
  then show ?thesis by (simp add: utf16_decode_plain)
next
  case False
  then have r: "0x10000 \<le> r" "r \<le> 0x10FFFF" using assms by (auto simp: valid_rune_def)
  define d where "d = r - 0x10000"
  have d: "d < 1048576" "r = d + 0x10000" using r by (simp_all add: d_def)
  have "d div 1024 < 1024" using d(1) by (intro div_less_iff_less_mult [THEN iffD2]) auto
  moreover have "d div 1024 * 1024 + d mod 1024 = d" by simp
  ultimately show ?thesis
    using r d by (simp add: utf16_units_def high_surrogate_def low_surrogate_def d_def [symmetric])
qed

lemma utf16_round_trip: "list_all valid_rune rs \<Longrightarrow> utf16_decode (utf16_encode rs) = rs"
  by (induction rs) (simp_all add: utf16_decode_units, simp add: utf16_encode_def)

lemma low_six: "char_code c mod 64 \<le> 63"
  using mod_less_divisor [of 64 "char_code c"] by linarith

lemma mod_in_row:
  assumes "m * n \<le> b" and "b < m * n + n"
  shows "b mod n = b - m * (n :: nat)"
proof -
  obtain k where "b = m * n + k" "k < n" using assms le_Suc_ex by fastforce
  then show ?thesis by simp
qed

lemma valid_two: "valid_rune ((b mod 32) * 64 + char_code c mod 64)"
proof -
  have "(b mod 32) * 64 + char_code c mod 64 < 0xD800"
    using mod_less_divisor [of 32 b] low_six [of c] by linarith
  then show ?thesis by (simp add: valid_rune_def)
qed

lemma valid_three:
  assumes "0xE0 \<le> b" "b \<le> 0xEF" "second_bounds b = (lo, hi)" "is_cont lo hi c"
  shows "valid_rune ((b mod 16) * 4096 + char_code c mod 64 * 64 + char_code d mod 64)"
proof -
  have b: "b mod 16 = b - 0xE0" using assms(1,2) mod_in_row [of 14 16 b] by simp
  consider "b < 0xED" | "b = 0xED" | "0xED < b" by linarith
  then show ?thesis
  proof cases
    case 1
    then have "(b - 0xE0) * 4096 + char_code c mod 64 * 64 + char_code d mod 64 < 0xD800"
      using assms(1) low_six [of c] low_six [of d] by linarith
    then show ?thesis using b by (simp add: valid_rune_def)
  next
    case 2
    then have "0x80 \<le> char_code c" "char_code c \<le> 0x9F"
      using assms(3,4) by (auto simp: second_bounds_def is_cont_def)
    then have "char_code c mod 64 \<le> 31" using mod_in_row [of 2 64 "char_code c"] by simp
    then show ?thesis using b 2 low_six [of d] by (simp add: valid_rune_def)
  next
    case 3
    then have "0xE000 \<le> (b - 0xE0) * 4096 + char_code c mod 64 * 64 + char_code d mod 64"
      "(b - 0xE0) * 4096 + char_code c mod 64 * 64 + char_code d mod 64 \<le> 0x10FFFF"
      using assms(2) low_six [of c] low_six [of d] by linarith+
    then show ?thesis using b by (simp add: valid_rune_def)
  qed
qed

lemma valid_four:
  assumes "0xF0 \<le> b" "b \<le> 0xF4" "second_bounds b = (lo, hi)" "is_cont lo hi c"
  shows "valid_rune ((b mod 8) * 262144 + char_code c mod 64 * 4096 + char_code d mod 64 * 64 + char_code e mod 64)"
proof -
  have b: "b mod 8 = b - 0xF0" using assms(1,2) mod_in_row [of 30 8 b] by simp
  consider "b = 0xF0" | "0xF0 < b" "b < 0xF4" | "b = 0xF4" using assms(1,2) by linarith
  then show ?thesis
  proof cases
    case 1
    then have "0x90 \<le> char_code c" "char_code c \<le> 0xBF"
      using assms(3,4) by (auto simp: second_bounds_def is_cont_def)
    then have "16 \<le> char_code c mod 64" using mod_in_row [of 2 64 "char_code c"] by simp
    then show ?thesis using b 1 low_six [of c] low_six [of d] low_six [of e] by (simp add: valid_rune_def)
  next
    case 2
    let ?v = "(b - 0xF0) * 262144 + char_code c mod 64 * 4096 + char_code d mod 64 * 64 + char_code e mod 64"
    have "0xE000 \<le> ?v" "?v \<le> 0x10FFFF"
      using 2 low_six [of c] low_six [of d] low_six [of e] by linarith+
    then show ?thesis using b by (simp add: valid_rune_def)
  next
    case 3
    then have "0x80 \<le> char_code c" "char_code c \<le> 0x8F"
      using assms(3,4) by (auto simp: second_bounds_def is_cont_def)
    then have "char_code c mod 64 \<le> 15" using mod_in_row [of 2 64 "char_code c"] by simp
    then show ?thesis using b 3 low_six [of d] low_six [of e] by (simp add: valid_rune_def)
  qed
qed

lemma valid_decode_rune: "valid_rune (fst (decode_rune s))"
proof -
  have plain: "valid_rune replacement_rune" "r < 0x80 \<Longrightarrow> valid_rune r" for r
    by (simp_all add: valid_rune_def)
  show ?thesis
    using plain valid_two valid_three valid_four
    by (auto simp: decode_rune_def Let_def split: prod.split)
qed

lemma valid_runes: "list_all valid_rune (runes s)"
proof (induction s rule: runes.induct)
  case (2 c s)
  then show ?case using valid_decode_rune [of "c # s"] by (simp split: prod.split) (metis fst_conv)
qed simp

lemma runes_ascii: "\<forall>c \<in> set s. char_code c < 128 \<Longrightarrow> runes s = map char_code s"
  by (induction s) (auto simp: decode_rune_def Let_def split: prod.split)

lemma string_of_runes_ascii: "\<forall>c \<in> set s. char_code c < 128 \<Longrightarrow> string_of_runes (map char_code s) = s"
  by (induction s) (auto simp: string_of_runes_def encode_rune_def valid_rune_def byte_char_def)

end
