(* ===== verification/SecMechanism.thy ===== *)
theory SecMechanism
  imports EspTransport GoNumbers GoRunes
begin

section \<open>Security mechanisms in SIP headers\<close>

text \<open>
  \<^verbatim>\<open>ipsec3gpp/mechanism.go\<close>: the values of the \<^verbatim>\<open>Security-Client\<close>, \<^verbatim>\<open>Security-Server\<close> and
  \<^verbatim>\<open>Security-Verify\<close> headers, parsed into \<open>security_mechanism\<close> and formatted from it.  The names
  of the algorithms are made canonical as in \<open>EspCrypto\<close>.  Every failure is one of the errors of
  the source.
\<close>

datatype mechanism_error =
    EmptyMechanism | UnsupportedMechanism | InvalidSpiC | InvalidSpiS | InvalidPortC | InvalidPortS

definition normalizeMechanismToken :: "string \<Rightarrow> string" where
  "normalizeMechanismToken token =
     ToLower (filter (\<lambda>c. c \<noteq> CHR 0x5F) (filter (\<lambda>c. c \<noteq> CHR 0x2D) (trimToken token)))"

definition parseUint32Param :: "string \<Rightarrow> u32 option" where
  "parseUint32Param v =
     (let s = trimToken v in
      map_option of_nat
        (if prefix ''0x'' s \<or> prefix ''0X'' s then ParseUint (drop 2 s) 16 32 else ParseUint s 10 32))"

definition or_error :: "'e \<Rightarrow> 'a option \<Rightarrow> 'e + 'a" where
  "or_error e r = (case r of None \<Rightarrow> Inl e | Some v \<Rightarrow> Inr v)"

definition set_param :: "string \<Rightarrow> string \<Rightarrow> security_mechanism \<Rightarrow> mechanism_error + security_mechanism" where
  "set_param key v m =
     (if key = ''alg'' then Inr (m\<lparr>Alg := canonicalAuthAlg v\<rparr>)
      else if key = ''ealg'' then Inr (m\<lparr>EAlg := canonicalEncAlg v\<rparr>)
      else if key = ''prot'' then Inr (m\<lparr>Prot := v\<rparr>)
      else if key = ''mod'' \<or> key = ''mode'' then Inr (m\<lparr>Mode := v\<rparr>)
      else if key = ''spi-c'' \<or> key = ''spi_c'' \<or> key = ''spic'' then
        res_bind (or_error InvalidSpiC (parseUint32Param v)) (\<lambda>x. Inr (m\<lparr>SPIc := x\<rparr>))
      else if key = ''spi-s'' \<or> key = ''spi_s'' \<or> key = ''spis'' then
        res_bind (or_error InvalidSpiS (parseUint32Param v)) (\<lambda>x. Inr (m\<lparr>SPIs := x\<rparr>))
      else if key = ''port-c'' \<or> key = ''port_c'' \<or> key = ''portc'' then
        res_bind (or_error InvalidPortC (Atoi v)) (\<lambda>x. Inr (m\<lparr>PortC := x\<rparr>))
      else if key = ''port-s'' \<or> key = ''port_s'' \<or> key = ''ports'' then
        res_bind (or_error InvalidPortS (Atoi v)) (\<lambda>x. Inr (m\<lparr>PortS := x\<rparr>))
      else Inr m)"

primrec parse_params :: "string list \<Rightarrow> security_mechanism \<Rightarrow> mechanism_error + security_mechanism" where
  "parse_params [] m = Inr m"
| "parse_params (p # ps) m =
     (case cut_at ''='' p of
        None \<Rightarrow> parse_params ps m
      | Some (key, v) \<Rightarrow>
          res_bind (set_param (normalizeMechanismToken key) (trimToken v) m) (parse_params ps))"

definition empty_mechanism :: "string \<Rightarrow> security_mechanism" where
  "empty_mechanism raw =
     \<lparr>Alg = [], EAlg = [], Prot = [], Mode = [], SPIc = 0, SPIs = 0, PortC = 0, PortS = 0, Raw = raw\<rparr>"

definition parseSecurityMechanism :: "string \<Rightarrow> mechanism_error + security_mechanism" where
  "parseSecurityMechanism raw0 =
     (let raw = TrimSpace raw0 in
      if raw = [] then Inl EmptyMechanism
      else
        let (scheme, params) = (case cut_at '';'' raw of None \<Rightarrow> (raw, []) | Some sp \<Rightarrow> sp);
            scheme' = trimToken (if prefix '' '' scheme then tl scheme else scheme)
        in if \<not> EqualFold scheme' ''ipsec-3gpp'' then Inl UnsupportedMechanism
           else parse_params (split_on '';'' params) (empty_mechanism raw))"

text \<open>The loop of \<open>splitMechanisms\<close> over the runes of the header: what the builder holds, and whether
  a quote is open.\<close>

definition split_part :: "nat list \<Rightarrow> string list" where
  "split_part b = (let part = TrimSpace (string_of_runes b) in if part \<noteq> [] then [part] else [])"

fun split_loop :: "nat list \<Rightarrow> nat list \<Rightarrow> bool \<Rightarrow> string list" where
  "split_loop [] b quoted = split_part b"
| "split_loop (r # rs) b quoted =
     (if r = 0x22 then split_loop rs (b @ [r]) (\<not> quoted)
      else if r = 0x2c \<and> \<not> quoted then split_part b @ split_loop rs [] quoted
      else split_loop rs (b @ [r]) quoted)"

definition splitMechanisms :: "string \<Rightarrow> string list" where
  "splitMechanisms header = split_loop (runes header) [] False"

primrec parse_all :: "string list \<Rightarrow> mechanism_error + security_mechanism list" where
  "parse_all [] = Inr []"
| "parse_all (p # ps) =
     res_bind (parseSecurityMechanism p) (\<lambda>m. res_bind (parse_all ps) (\<lambda>ms. Inr (m # ms)))"

definition ParseSecurityMechanisms :: "string \<Rightarrow> mechanism_error + security_mechanism list" where
  "ParseSecurityMechanisms header0 =
     (let header = TrimSpace header0 in
      if header = [] then Inr [] else parse_all (splitMechanisms header))"

definition FormatSecurityMechanism :: "security_mechanism \<Rightarrow> string" where
  "FormatSecurityMechanism m =
     (let alg = canonicalAuthAlg (Alg m);
          ealg = canonicalEncAlg (EAlg m);
          prot = (if TrimSpace (Prot m) = [] then ''esp'' else TrimSpace (Prot m));
          mode = (if TrimSpace (Mode m) = [] then ''trans'' else TrimSpace (Mode m))
      in ''ipsec-3gpp; alg='' @ alg @ ''; ealg='' @ ealg @ ''; prot='' @ prot @ ''; mod='' @ mode @
         ''; spi-c='' @ decimal (unat (SPIc m)) @ ''; spi-s='' @ decimal (unat (SPIs m)) @
         ''; port-c='' @ show_int (PortC m) @ ''; port-s='' @ show_int (PortS m))"

definition SelectSecurityMechanism :: "security_mechanism list \<Rightarrow> security_mechanism option" where
  "SelectSecurityMechanism ms = find (\<lambda>m. SPIc m \<noteq> 0 \<and> SPIs m \<noteq> 0 \<and> PortC m \<noteq> 0 \<and> PortS m \<noteq> 0) ms"

section \<open>Formatting and parsing\<close>

text \<open>A field that needs no quoting: printable, and free of the characters with a meaning.\<close>

definition plain :: "string \<Rightarrow> bool" where
  "plain s \<longleftrightarrow> list_all (\<lambda>c. printable c \<and> c \<notin> {CHR 0x22, CHR 0x2C, CHR 0x3B}) s"

definition plain_mechanism :: "security_mechanism \<Rightarrow> bool" where
  "plain_mechanism m \<longleftrightarrow>
     plain (Alg m) \<and> plain (EAlg m) \<and> plain (Prot m) \<and> plain (Mode m) \<and>
     - (2 ^ 63) \<le> PortC m \<and> PortC m < 2 ^ 63 \<and> - (2 ^ 63) \<le> PortS m \<and> PortS m < 2 ^ 63"

definition on_the_wire :: "security_mechanism \<Rightarrow> security_mechanism" where
  "on_the_wire m =
     m\<lparr>Alg := canonicalAuthAlg (Alg m), EAlg := canonicalEncAlg (EAlg m),
       Prot := (if Prot m = [] then ''esp'' else Prot m), Mode := (if Mode m = [] then ''trans'' else Mode m),
       Raw := FormatSecurityMechanism m\<rparr>"

lemma plain_printable: "plain s \<Longrightarrow> \<forall>c \<in> set s. printable c"
  by (auto simp: plain_def list_all_iff)

lemma plain_char: "plain s \<Longrightarrow> c \<in> {CHR 0x22, CHR 0x2C, CHR 0x3B} \<Longrightarrow> c \<notin> set s"
  by (auto simp: plain_def list_all_iff)

lemma TrimSpace_plain [simp]: "plain s \<Longrightarrow> TrimSpace s = s"
  by (rule TrimSpace_printable [OF plain_printable])

lemma dropWhile_none: "c \<notin> set s \<Longrightarrow> dropWhile (\<lambda>x. x = c) s = s"
  by (cases s) auto

lemma trimToken_plain [simp]: "plain s \<Longrightarrow> trimToken s = s"
  using plain_char [of s "CHR 0x22"] by (simp add: trimToken_def TrimQuotes_def dropWhile_none)

lemma printable_lower: "printable c \<Longrightarrow> printable (lower_char c)"
  by (auto simp: printable_def lower_char_def char_code_byte_char)

lemma lower_char_other:
  assumes "\<not> (97 \<le> char_code d \<and> char_code d \<le> 122)" and "\<not> (65 \<le> char_code d \<and> char_code d \<le> 90)"
  shows "lower_char c = d \<longleftrightarrow> c = d"
proof (cases "65 \<le> char_code c \<and> char_code c \<le> 90")
  case True
  then have "char_code (lower_char c) = char_code c + 32" by (simp add: lower_char_def char_code_byte_char)
  then have "lower_char c \<noteq> d" using True assms(1) by auto
  moreover have "c \<noteq> d" using True assms(2) by auto
  ultimately show ?thesis by simp
next
  case False
  then show ?thesis by (auto simp: lower_char_def)
qed

lemma lower_special [simp]:
  "lower_char c = CHR 0x22 \<longleftrightarrow> c = CHR 0x22" "lower_char c = CHR 0x2C \<longleftrightarrow> c = CHR 0x2C"
  "lower_char c = CHR 0x3B \<longleftrightarrow> c = CHR 0x3B"
  by (simp_all add: lower_char_other)

lemma plain_lower: "plain s \<Longrightarrow> plain (ToLower s)"
  by (auto simp: plain_def list_all_iff ToLower_def printable_lower)

lemma plain_literals [simp]:
  "plain ''hmac-md5-96''" "plain ''hmac-sha-1-96''" "plain ''des-ede3-cbc''" "plain ''aes-cbc''" "plain ''null''"
  "plain ''esp''" "plain ''trans''" "plain []"
  by code_simp+

lemma plain_canonical [simp]:
  "plain s \<Longrightarrow> plain (canonicalAuthAlg s)" "plain s \<Longrightarrow> plain (canonicalEncAlg s)"
  by (simp_all add: canonicalAuthAlg_def canonicalEncAlg_def Let_def plain_lower)

lemma ToLower_literals:
  "ToLower ''hmac-md5-96'' = ''hmac-md5-96''" "ToLower ''hmac-sha-1-96'' = ''hmac-sha-1-96''"
  "ToLower ''des-ede3-cbc'' = ''des-ede3-cbc''" "ToLower ''aes-cbc'' = ''aes-cbc''" "ToLower ''null'' = ''null''"
  by code_simp+

lemma canonical_idem [simp]:
  assumes "plain s"
  shows "canonicalAuthAlg (canonicalAuthAlg s) = canonicalAuthAlg s"
    and "canonicalEncAlg (canonicalEncAlg s) = canonicalEncAlg s"
  using assms by (auto simp: canonicalAuthAlg_def canonicalEncAlg_def Let_def plain_lower ToLower_literals)

lemma plain_decimal [simp]: "plain (decimal n)"
proof -
  have "printable c \<and> c \<notin> {CHR 0x22, CHR 0x2C, CHR 0x3B}" if "c \<in> set (decimal n)" for c
    using decimal_chars [OF that] by (auto simp: printable_def)
  then show ?thesis by (simp add: plain_def list_all_iff)
qed

lemma plain_show_int [simp]: "plain (show_int i)"
proof -
  have "printable c \<and> c \<notin> {CHR 0x22, CHR 0x2C, CHR 0x3B}" if "c \<in> set (show_int i)" for c
    using show_int_chars [OF that] by (auto simp: printable_def)
  then show ?thesis by (simp add: plain_def list_all_iff)
qed

lemma no_hex_prefix: "\<not> prefix ''0x'' (decimal n)" "\<not> prefix ''0X'' (decimal n)"
proof -
  have "CHR ''x'' \<notin> set (decimal n)" "CHR ''X'' \<notin> set (decimal n)"
    using decimal_chars by fastforce+
  then show "\<not> prefix ''0x'' (decimal n)" "\<not> prefix ''0X'' (decimal n)"
    by (auto dest: set_mono_prefix)
qed

lemma parseUint32Param_decimal [simp]: "parseUint32Param (decimal (unat w)) = Some w"
proof -
  have "unat w < 2 ^ 32" using unat_u32_less [of w] by simp
  then show ?thesis by (simp add: parseUint32Param_def no_hex_prefix ParseUint_decimal)
qed

subsection \<open>The fields of one mechanism\<close>

text \<open>The parameters as the formatter writes them, between the semicolons.\<close>

definition params_of :: "security_mechanism \<Rightarrow> string list" where
  "params_of m =
     ['' alg='' @ canonicalAuthAlg (Alg m), '' ealg='' @ canonicalEncAlg (EAlg m),
      '' prot='' @ (if Prot m = [] then ''esp'' else Prot m), '' mod='' @ (if Mode m = [] then ''trans'' else Mode m),
      '' spi-c='' @ decimal (unat (SPIc m)), '' spi-s='' @ decimal (unat (SPIs m)),
      '' port-c='' @ show_int (PortC m), '' port-s='' @ show_int (PortS m)]"

lemma format_params:
  "plain_mechanism m \<Longrightarrow> FormatSecurityMechanism m = ''ipsec-3gpp;'' @ join '';'' (params_of m)"
  by (simp add: FormatSecurityMechanism_def params_of_def plain_mechanism_def Let_def)

lemma cut_param: "CHR ''='' \<notin> set k \<Longrightarrow> cut_at ''='' (k @ CHR ''='' # v) = Some (k, v)"
  by (rule cut_at_char)

lemma cut_params [simp]:
  "cut_at ''='' ('' alg='' @ v) = Some ('' alg'', v)" "cut_at ''='' ('' ealg='' @ v) = Some ('' ealg'', v)"
  "cut_at ''='' ('' prot='' @ v) = Some ('' prot'', v)" "cut_at ''='' ('' mod='' @ v) = Some ('' mod'', v)"
  "cut_at ''='' ('' spi-c='' @ v) = Some ('' spi-c'', v)" "cut_at ''='' ('' spi-s='' @ v) = Some ('' spi-s'', v)"
  "cut_at ''='' ('' port-c='' @ v) = Some ('' port-c'', v)" "cut_at ''='' ('' port-s='' @ v) = Some ('' port-s'', v)"
  using cut_param [of "'' alg''" v] cut_param [of "'' ealg''" v] cut_param [of "'' prot''" v]
    cut_param [of "'' mod''" v] cut_param [of "'' spi-c''" v] cut_param [of "'' spi-s''" v]
    cut_param [of "'' port-c''" v] cut_param [of "'' port-s''" v] by simp_all

lemma normal_keys [simp]:
  "normalizeMechanismToken '' alg'' = ''alg''" "normalizeMechanismToken '' ealg'' = ''ealg''"
  "normalizeMechanismToken '' prot'' = ''prot''" "normalizeMechanismToken '' mod'' = ''mod''"
  "normalizeMechanismToken '' spi-c'' = ''spic''" "normalizeMechanismToken '' spi-s'' = ''spis''"
  "normalizeMechanismToken '' port-c'' = ''portc''" "normalizeMechanismToken '' port-s'' = ''ports''"
  by code_simp+

lemma parse_params_of:
  assumes "plain_mechanism m"
  shows "parse_params (params_of m) (empty_mechanism (FormatSecurityMechanism m)) = Inr (on_the_wire m)"
  using assms
  by (simp add: params_of_def plain_mechanism_def set_param_def or_error_def Atoi_show_int empty_mechanism_def
      on_the_wire_def del: append.simps)

subsection \<open>A whole mechanism and a whole header\<close>

lemma TrimSpace_ends:
  assumes "s \<noteq> []" and "printable (hd s)" and "printable (last s)"
  shows "TrimSpace s = s"
proof -
  have l: "trim_prefixes go_spaces s = s"
  proof (rule trim_prefixes_none, intro ballI)
    fix p assume p: "p \<in> set go_spaces"
    show "p = [] \<or> \<not> prefix p s"
      using go_spaces_ends [OF p] assms by (cases p; cases s) auto
  qed
  have r: "trim_prefixes (map rev go_spaces) (rev s) = rev s"
  proof (rule trim_prefixes_none, intro ballI)
    fix p assume "p \<in> set (map rev go_spaces)"
    then obtain q where q: "p = rev q" "q \<in> set go_spaces" by auto
    show "p = [] \<or> \<not> prefix p (rev s)"
      using go_spaces_ends [OF q(2)] assms q(1) by (cases q rule: rev_cases; cases s rule: rev_cases) auto
  qed
  show ?thesis by (simp add: TrimSpace_def l r)
qed

lemma trim_leading_space: "trim_prefixes go_spaces (CHR 0x20 # s) = trim_prefixes go_spaces s"
proof -
  have "byte_char 32 = CHR 0x20" "byte_char 9 \<noteq> CHR 0x20" "byte_char 10 \<noteq> CHR 0x20" "byte_char 11 \<noteq> CHR 0x20"
    "byte_char 12 \<noteq> CHR 0x20" "byte_char 13 \<noteq> CHR 0x20"
    by code_simp+
  then have "find (\<lambda>p. p \<noteq> [] \<and> prefix p (CHR 0x20 # s)) go_spaces = Some [CHR 0x20]"
    by (simp add: go_spaces_def ascii_spaces_def)
  then show ?thesis by (subst trim_prefixes.simps) simp
qed

lemma TrimSpace_leading: "TrimSpace (CHR 0x20 # s) = TrimSpace s"
  by (simp add: TrimSpace_def trim_leading_space)

text \<open>What the splitting of a header relies on.\<close>

definition header_item :: "string \<Rightarrow> bool" where
  "header_item s \<longleftrightarrow>
     s \<noteq> [] \<and> printable (hd s) \<and> printable (last s) \<and> (\<forall>c \<in> set s. char_code c < 128) \<and>
     CHR 0x22 \<notin> set s \<and> CHR 0x2C \<notin> set s"

lemma printable_ascii: "printable c \<Longrightarrow> char_code c < 128"
  by (simp add: printable_def)

lemma plain_item_chars:
  "plain s \<Longrightarrow> (\<forall>c \<in> set s. char_code c < 128) \<and> CHR 0x22 \<notin> set s \<and> CHR 0x2C \<notin> set s"
  by (auto simp: plain_def list_all_iff printable_ascii)

lemma last_show_int: "printable (last (show_int i))"
proof -
  have "show_int i \<noteq> []" by (simp add: show_int_def)
  then have "last (show_int i) \<in> set (show_int i)" by simp
  then show ?thesis using plain_printable [OF plain_show_int] by blast
qed

lemma literal_chars:
  "(\<forall>c \<in> set ''ipsec-3gpp; alg=''. char_code c < 128)" "(\<forall>c \<in> set ''; ealg=''. char_code c < 128)"
  "(\<forall>c \<in> set ''; prot=''. char_code c < 128)" "(\<forall>c \<in> set ''; mod=''. char_code c < 128)"
  "(\<forall>c \<in> set ''; spi-c=''. char_code c < 128)" "(\<forall>c \<in> set ''; spi-s=''. char_code c < 128)"
  "(\<forall>c \<in> set ''; port-c=''. char_code c < 128)" "(\<forall>c \<in> set ''; port-s=''. char_code c < 128)"
  by simp_all

lemma format_item:
  assumes "plain_mechanism m"
  shows "header_item (FormatSecurityMechanism m)"
proof -
  define fields where "fields = [canonicalAuthAlg (Alg m), canonicalEncAlg (EAlg m),
    if Prot m = [] then ''esp'' else Prot m, if Mode m = [] then ''trans'' else Mode m,
    decimal (unat (SPIc m)), decimal (unat (SPIs m)), show_int (PortC m), show_int (PortS m)]"
  have "\<forall>f \<in> set fields. plain f"
    using assms by (simp add: fields_def plain_mechanism_def)
  then have chars: "\<forall>f \<in> set fields. (\<forall>c \<in> set f. char_code c < 128) \<and> CHR 0x22 \<notin> set f \<and> CHR 0x2C \<notin> set f"
    using plain_item_chars by blast
  have shape: "FormatSecurityMechanism m = ''ipsec-3gpp; alg='' @ fields ! 0 @ ''; ealg='' @ fields ! 1 @
      ''; prot='' @ fields ! 2 @ ''; mod='' @ fields ! 3 @ ''; spi-c='' @ fields ! 4 @ ''; spi-s='' @ fields ! 5 @
      ''; port-c='' @ fields ! 6 @ ''; port-s='' @ fields ! 7"
    using assms by (simp add: fields_def FormatSecurityMechanism_def plain_mechanism_def Let_def)
  have last: "last (FormatSecurityMechanism m) = last (fields ! 7)"
    by (simp add: shape fields_def show_int_def)
  have "\<forall>c \<in> set (FormatSecurityMechanism m). char_code c < 128 \<and> c \<noteq> CHR 0x22 \<and> c \<noteq> CHR 0x2C"
    unfolding shape set_append ball_Un using chars by (auto simp: fields_def)
  moreover have "hd (FormatSecurityMechanism m) = CHR ''i''" "FormatSecurityMechanism m \<noteq> []"
    by (simp_all add: shape)
  moreover have "printable (last (FormatSecurityMechanism m))"
    unfolding last by (simp add: fields_def last_show_int)
  ultimately show ?thesis by (auto simp: header_item_def printable_def)
qed

lemma scheme_literal: "EqualFold (trimToken ''ipsec-3gpp'') ''ipsec-3gpp''"
  by code_simp

lemma params_no_semicolon:
  assumes "plain_mechanism m"
  shows "\<forall>p \<in> set (params_of m). CHR 0x3B \<notin> set p"
  using assms plain_char [where c = "CHR 0x3B"]
  by (simp add: params_of_def plain_mechanism_def)

lemma parse_format:
  assumes "plain_mechanism m"
  shows "parseSecurityMechanism (FormatSecurityMechanism m) = Inr (on_the_wire m)"
proof -
  note item = format_item [OF assms]
  have trim: "TrimSpace (FormatSecurityMechanism m) = FormatSecurityMechanism m"
    using item by (auto simp: header_item_def intro: TrimSpace_ends)
  have "FormatSecurityMechanism m = ''ipsec-3gpp'' @ CHR '';'' # join '';'' (params_of m)"
    using format_params [OF assms] by simp
  moreover have "cut_at '';'' (''ipsec-3gpp'' @ CHR '';'' # join '';'' (params_of m)) =
      Some (''ipsec-3gpp'', join '';'' (params_of m))"
    by (rule cut_at_char) simp
  ultimately have cut: "cut_at '';'' (FormatSecurityMechanism m) = Some (''ipsec-3gpp'', join '';'' (params_of m))"
    by (simp only:)
  have split: "split_on '';'' (join '';'' (params_of m)) = params_of m"
    using params_no_semicolon [OF assms] by (intro split_join) (simp_all add: params_of_def)
  have "FormatSecurityMechanism m \<noteq> []" using item by (simp add: header_item_def)
  then show ?thesis
    using parse_params_of [OF assms] scheme_literal
    by (simp add: parseSecurityMechanism_def trim cut split)
qed

lemma split_loop_item:
  assumes "CHR 0x22 \<notin> set s" and "CHR 0x2C \<notin> set s"
  shows "split_loop (map char_code s @ rs) b False = split_loop rs (b @ map char_code s) False"
  using assms
proof (induction s arbitrary: b)
  case (Cons c s)
  have "c \<noteq> CHR 0x22" "c \<noteq> CHR 0x2C" using Cons.prems by auto
  then have "char_code c \<noteq> char_code (CHR 0x22)" "char_code c \<noteq> char_code (CHR 0x2C)"
    by (simp_all only: of_char_eq_iff not_False_eq_True)
  then have "char_code c \<noteq> 0x22" "char_code c \<noteq> 0x2c" by simp_all
  then show ?case using Cons by simp
qed simp

lemma split_part_item:
  assumes "header_item f" and "b = [] \<or> b = [0x20]"
  shows "split_part (b @ map char_code f) = [f]"
proof -
  have ascii: "\<forall>c \<in> set f. char_code c < 128" and trim: "TrimSpace f = f" and f: "f \<noteq> []"
    using assms(1) TrimSpace_ends by (auto simp: header_item_def)
  have "b @ map char_code f = map char_code f \<or> b @ map char_code f = map char_code (CHR 0x20 # f)"
    using assms(2) by auto
  moreover have "string_of_runes (map char_code f) = f" "string_of_runes (map char_code (CHR 0x20 # f)) = CHR 0x20 # f"
    using ascii by (intro string_of_runes_ascii; simp)+
  ultimately have "TrimSpace (string_of_runes (b @ map char_code f)) = f"
    using trim TrimSpace_leading by auto
  then show ?thesis using f by (simp add: split_part_def)
qed

lemma split_loop_join:
  assumes "\<forall>f \<in> set fs. header_item f" and "fs \<noteq> []" and "b = [] \<or> b = [0x20]"
  shows "split_loop (map char_code (join '', '' fs)) b False = fs"
  using assms
proof (induction fs arbitrary: b rule: induct_list012)
  case (2 f)
  then show ?case
    using split_loop_item [of f "[]" b] split_part_item [of f b] by (simp add: header_item_def)
next
  case (3 f g fs)
  have "split_loop (map char_code (join '', '' (f # g # fs))) b False =
      split_loop (0x2c # 0x20 # map char_code (join '', '' (g # fs))) (b @ map char_code f) False"
    using 3 split_loop_item [of f "0x2c # 0x20 # map char_code (join '', '' (g # fs))" b]
    by (simp add: header_item_def)
  also have "\<dots> = f # split_loop (map char_code (join '', '' (g # fs))) [0x20] False"
    using 3 split_part_item [of f b] by simp
  also have "\<dots> = f # g # fs" using 3 by simp
  finally show ?case .
qed simp

lemma item_ascii: "header_item f \<Longrightarrow> c \<in> set f \<Longrightarrow> char_code c < 128"
  by (simp add: header_item_def)

lemma join_ascii: "\<forall>f \<in> set fs. header_item f \<Longrightarrow> \<forall>c \<in> set (join '', '' fs). char_code c < 128"
proof (induction fs rule: induct_list012)
  case (3 f g fs)
  have f: "\<forall>c \<in> set f. char_code c < 128" using 3(3) item_ascii [of f] by simp
  have "\<forall>c \<in> set (join '', '' (g # fs)). char_code c < 128" by (rule 3(2)) (use 3(3) in simp)
  then show ?case using f by (simp add: ball_Un)
qed (simp_all add: item_ascii)

lemma join_ends:
  "\<forall>f \<in> set fs. header_item f \<Longrightarrow> fs \<noteq> [] \<Longrightarrow>
     join '', '' fs \<noteq> [] \<and> printable (hd (join '', '' fs)) \<and> printable (last (join '', '' fs))"
proof (induction fs rule: induct_list012)
  case (3 f g fs)
  have f: "f \<noteq> []" "printable (hd f)" using 3(3) by (simp_all add: header_item_def)
  have "join '', '' (g # fs) \<noteq> [] \<and> printable (last (join '', '' (g # fs)))"
    using 3(2) 3(3) by simp
  then show ?case using f by simp
qed (simp_all add: header_item_def)

lemma parse_all_formats:
  "\<forall>m \<in> set ms. plain_mechanism m \<Longrightarrow> parse_all (map FormatSecurityMechanism ms) = Inr (map on_the_wire ms)"
  by (induction ms) (simp_all add: parse_format)

text \<open>Property C5: a header made of formatted mechanisms, any number of them, parses to exactly those
  mechanisms, with the names of their algorithms made canonical and the defaults filled in.\<close>

theorem mechanism_headers_round_trip:
  assumes "\<forall>m \<in> set ms. plain_mechanism m"
  shows "ParseSecurityMechanisms (join '', '' (map FormatSecurityMechanism ms)) = Inr (map on_the_wire ms)"
proof (cases "ms = []")
  case True
  have "TrimSpace [] = []" by code_simp
  then show ?thesis using True by (simp add: ParseSecurityMechanisms_def)
next
  case False
  let ?fs = "map FormatSecurityMechanism ms"
  let ?h = "join '', '' ?fs"
  have items: "\<forall>f \<in> set ?fs. header_item f" using assms format_item by auto
  note ends = join_ends [OF items]
  have "TrimSpace ?h = ?h" using ends False by (intro TrimSpace_ends) simp_all
  moreover have "splitMechanisms ?h = ?fs"
    using split_loop_join [OF items, of "[]"] False join_ascii [OF items]
    by (simp add: splitMechanisms_def runes_ascii)
  ultimately show ?thesis
    using ends False parse_all_formats [OF assms] by (simp add: ParseSecurityMechanisms_def)
qed

definition demo_mechanism :: security_mechanism where
  "demo_mechanism = \<lparr>Alg = ''HMAC-SHA1-96'', EAlg = ''aes-cbc'', Prot = [], Mode = ''trans'',
     SPIc = 0x1001, SPIs = 0xFFFFFFFF, PortC = 5064, PortS = 5060, Raw = []\<rparr>"

lemma demo_mechanism_plain: "plain_mechanism demo_mechanism" "plain_mechanism (demo_mechanism\<lparr>Alg := []\<rparr>)"
  by code_simp+

theorem mechanism_headers_round_trip_witness:
  "ParseSecurityMechanisms (join '', '' (map FormatSecurityMechanism
     [demo_mechanism, demo_mechanism\<lparr>Alg := []\<rparr>])) =
   Inr [on_the_wire demo_mechanism, on_the_wire (demo_mechanism\<lparr>Alg := []\<rparr>)]"
  using mechanism_headers_round_trip [of "[demo_mechanism, demo_mechanism\<lparr>Alg := []\<rparr>]"] demo_mechanism_plain
  by simp

subsection \<open>The negotiated policy\<close>

lemma canonical_empty:
  "plain s \<Longrightarrow> canonicalAuthAlg s = [] \<longleftrightarrow> s = []" "plain s \<Longrightarrow> canonicalEncAlg s = [] \<longleftrightarrow> s = []"
  by (auto simp: canonicalAuthAlg_def canonicalEncAlg_def Let_def ToLower_def)

lemma canonical_coalesce:
  assumes "plain s"
  shows "canonicalAuthAlg (coalesce [a, canonicalAuthAlg s]) = canonicalAuthAlg (coalesce [a, s])"
    and "canonicalEncAlg (coalesce [a, canonicalEncAlg s]) = canonicalEncAlg (coalesce [a, s])"
  using assms by (simp_all add: canonical_empty)

lemma policy_on_the_wire:
  assumes "plain_mechanism m"
  shows "NewPolicy (i\<lparr>Mech := on_the_wire m\<rparr>) = NewPolicy (i\<lparr>Mech := m\<rparr>)"
proof -
  have alg: "canonicalAuthAlg (coalesce [a, Alg (on_the_wire m)]) = canonicalAuthAlg (coalesce [a, Alg m])"
    "canonicalEncAlg (coalesce [a, EAlg (on_the_wire m)]) = canonicalEncAlg (coalesce [a, EAlg m])" for a
    using assms canonical_coalesce by (simp_all add: on_the_wire_def plain_mechanism_def del: coalesce.simps)
  have same: "SPIc (on_the_wire m) = SPIc m" "SPIs (on_the_wire m) = SPIs m"
    "PortC (on_the_wire m) = PortC m" "PortS (on_the_wire m) = PortS m"
    by (simp_all add: on_the_wire_def)
  have "fillPortsFromInput (i\<lparr>Mech := on_the_wire m\<rparr>) = fillPortsFromInput (i\<lparr>Mech := m\<rparr>)"
    by (simp add: fillPortsFromInput_def same)
  then have "policy_of (i\<lparr>Mech := on_the_wire m\<rparr>) = policy_of (i\<lparr>Mech := m\<rparr>)"
    by (intro ext) (simp add: policy_of_def same)
  then show ?thesis
    by (simp add: NewPolicy_def Let_def alg same del: coalesce.simps cong: option.case_cong if_cong)
qed

lemma format_on_the_wire:
  assumes "plain_mechanism m"
  shows "FormatSecurityMechanism (on_the_wire m) = FormatSecurityMechanism m"
  using assms by (auto simp: FormatSecurityMechanism_def on_the_wire_def plain_mechanism_def Let_def)

text \<open>A mechanism that goes through a header gives the same policy on the other side as the
  mechanism itself, and formatting it again (the echo in \<^verbatim>\<open>Security-Verify\<close>) gives the same value
  byte for byte.\<close>

theorem negotiated_mechanism_gives_same_policy:
  assumes "plain_mechanism m"
  shows "\<exists>m'. ParseSecurityMechanisms (FormatSecurityMechanism m) = Inr [m'] \<and>
    NewPolicy (i\<lparr>Mech := m'\<rparr>) = NewPolicy (i\<lparr>Mech := m\<rparr>) \<and>
    FormatSecurityMechanism m' = FormatSecurityMechanism m"
proof -
  note item = format_item [OF assms]
  have "TrimSpace (FormatSecurityMechanism m) = FormatSecurityMechanism m"
    using item by (auto simp: header_item_def intro: TrimSpace_ends)
  moreover have "splitMechanisms (FormatSecurityMechanism m) = [FormatSecurityMechanism m]"
    using split_loop_join [of "[FormatSecurityMechanism m]" "[]"] item
    by (simp add: splitMechanisms_def runes_ascii header_item_def)
  ultimately have "ParseSecurityMechanisms (FormatSecurityMechanism m) = Inr [on_the_wire m]"
    using item parse_format [OF assms] by (simp add: ParseSecurityMechanisms_def header_item_def)
  then show ?thesis using policy_on_the_wire [OF assms] format_on_the_wire [OF assms] by blast
qed

theorem negotiated_mechanism_gives_same_policy_witness:
  "\<exists>m'. ParseSecurityMechanisms (FormatSecurityMechanism demo_mechanism) = Inr [m'] \<and>
    NewPolicy (demo_input\<lparr>Mech := m'\<rparr>) = NewPolicy (demo_input\<lparr>Mech := demo_mechanism\<rparr>) \<and>
    FormatSecurityMechanism m' = FormatSecurityMechanism demo_mechanism"
  by (rule negotiated_mechanism_gives_same_policy [OF demo_mechanism_plain(1)])

end
