(* ===== verification/SipFramer.thy ===== *)
theory SipFramer
  imports GoText
begin

section \<open>Framing SIP messages on a byte stream\<close>

text \<open>
  \<^verbatim>\<open>vowifi-go/internal/vowifi/imscore/sip_stream_framer.go\<close>: a byte stream is cut into SIP
  messages by their Content-Length, with every accumulation bounded and the first framing
  error latched.  The framer's buffer is a list of bytes (\<open>char\<close>); its \<open>nil\<close> receiver
  is not modelled.
\<close>

record framer_limits =
  MaxHeaderBytes :: int
  MaxBodyBytes :: int

definition defaultSIPFramerLimits :: framer_limits where
  "defaultSIPFramerLimits = \<lparr>MaxHeaderBytes = 16 * 1024, MaxBodyBytes = 64 * 1024\<rparr>"

definition normalized :: "framer_limits \<Rightarrow> framer_limits" where
  "normalized l =
     \<lparr>MaxHeaderBytes = (if MaxHeaderBytes l \<le> 0 then MaxHeaderBytes defaultSIPFramerLimits else MaxHeaderBytes l),
      MaxBodyBytes = (if MaxBodyBytes l \<le> 0 then MaxBodyBytes defaultSIPFramerLimits else MaxBodyBytes l)\<rparr>"

datatype framing_reason =
    BadStartLine | MissingContentLength | BadContentLength | ConflictingContentLength
  | HeaderTooLarge | BodyTooLarge | Truncated

record framer =
  limits :: framer_limits
  buf :: string
  headerDone :: bool
  headerLen :: nat
  bodyLen :: nat
  failed :: "framing_reason option"

definition newSIPStreamFramer :: "framer_limits \<Rightarrow> framer" where
  "newSIPStreamFramer l =
     \<lparr>limits = normalized l, buf = [], headerDone = False, headerLen = 0, bodyLen = 0, failed = None\<rparr>"

definition sipHeaderTerminator :: string where
  "sipHeaderTerminator = CRLF @ CRLF"

subsection \<open>The header section\<close>

definition validSIPStartLine :: "string \<Rightarrow> bool" where
  "validSIPStartLine header =
     (let line = (case index_of CRLF header of Some idx \<Rightarrow> take idx header | None \<Rightarrow> header) in
      if line = [] then False
      else if prefix ''SIP/2.0 '' line then True
      else if suffix '' SIP/2.0'' line then 2 \<le> length (filter (\<lambda>c. c = CHR 0x20) line)
      else False)"

definition lf_space :: "string \<Rightarrow> bool" where
  "lf_space line \<longleftrightarrow> line \<noteq> [] \<and> (hd line = CHR 0x20 \<or> hd line = byte_char 9)"

definition unfold_line :: "string list \<Rightarrow> string \<Rightarrow> string list" where
  "unfold_line out line =
     (if lf_space line \<and> out \<noteq> []
      then butlast out @ [last out @ [CHR 0x20] @ TrimSpace line]
      else out @ [line])"

definition unfoldHeaderLines :: "string \<Rightarrow> string list" where
  "unfoldHeaderLines header = foldl unfold_line [] (split_on CRLF header)"

definition equalFoldASCII :: "string \<Rightarrow> string \<Rightarrow> bool" where
  "equalFoldASCII a b \<longleftrightarrow>
     length a = length b \<and> list_all2 (\<lambda>ca cb. lower_char ca = lower_char cb) a b"

definition contentLengthValues :: "string \<Rightarrow> string list" where
  "contentLengthValues header =
     concat (map (\<lambda>line.
       (case index_of '':'' line of
          None \<Rightarrow> []
        | Some colon \<Rightarrow>
            let name = TrimSpace (take colon line) in
            if \<not> equalFoldASCII name ''content-length'' \<and> \<not> equalFoldASCII name ''l'' then []
            else [TrimSpace (drop (colon + 1) line)]))
       (tl (unfoldHeaderLines header)))"

definition maxParsedContentLength :: nat where
  "maxParsedContentLength = 2 ^ 40"

fun digits_loop :: "string \<Rightarrow> nat \<Rightarrow> nat option" where
  "digits_loop [] n = Some n"
| "digits_loop (c # s) n =
     (if char_code c < 48 \<or> char_code c > 57 then None
      else digits_loop s (if n < maxParsedContentLength then n * 10 + (char_code c - 48) else n))"

definition parseStrictDigits :: "string \<Rightarrow> nat option" where
  "parseStrictDigits s = (if s = [] then None else digits_loop s 0)"

definition declaredContentLength :: "string \<Rightarrow> framing_reason + nat" where
  "declaredContentLength header =
     (case contentLengthValues header of
        [] \<Rightarrow> Inl MissingContentLength
      | v # vs \<Rightarrow>
          if list_ex (\<lambda>w. w \<noteq> v) vs then Inl ConflictingContentLength
          else case parseStrictDigits v of None \<Rightarrow> Inl BadContentLength | Some n \<Rightarrow> Inr n)"

subsection \<open>The framer's operations\<close>

definition fail_with :: "framing_reason \<Rightarrow> framer \<Rightarrow> framer" where
  "fail_with reason f =
     f\<lparr>failed := Some reason, buf := [], headerDone := False, headerLen := 0, bodyLen := 0\<rparr>"

fun skip_crlf :: "string \<Rightarrow> string" where
  "skip_crlf (a # b # s) = (if [a, b] = CRLF then skip_crlf s else a # b # s)"
| "skip_crlf s = s"

definition skipLeadingCRLF :: "framer \<Rightarrow> framer" where
  "skipLeadingCRLF f = f\<lparr>buf := skip_crlf (buf f)\<rparr>"

text \<open>The part of an iteration before the body: more bytes are needed, the stream fails, or the
  header is complete.\<close>

datatype stage = Waiting framer | Failing framing_reason framer | Ready framer

definition header_stage :: "framer \<Rightarrow> stage" where
  "header_stage f0 =
     (if headerDone f0 then Ready f0
      else let f = skipLeadingCRLF f0 in
      case index_of sipHeaderTerminator (buf f) of
        None \<Rightarrow>
          if int (length (buf f)) > MaxHeaderBytes (limits f) then Failing HeaderTooLarge f else Waiting f
      | Some idx \<Rightarrow>
          let headerEnd = idx + length sipHeaderTerminator; header = take idx (buf f) in
          if int headerEnd > MaxHeaderBytes (limits f) then Failing HeaderTooLarge f
          else if \<not> validSIPStartLine header then Failing BadStartLine f
          else case declaredContentLength header of
            Inl reason \<Rightarrow> Failing reason f
          | Inr n \<Rightarrow>
              if int n > MaxBodyBytes (limits f) then Failing BodyTooLarge f
              else Ready (f\<lparr>headerDone := True, headerLen := headerEnd, bodyLen := n\<rparr>))"

definition frame_total :: "framer \<Rightarrow> nat" where
  "frame_total f = headerLen f + bodyLen f"

definition consume_frame :: "framer \<Rightarrow> framer" where
  "consume_frame f =
     f\<lparr>buf := drop (frame_total f) (buf f), headerDone := False, headerLen := 0, bodyLen := 0\<rparr>"

lemma length_skip_crlf: "length (skip_crlf s) \<le> length s"
  by (induction s rule: skip_crlf.induct) auto

lemma header_stage_Ready:
  assumes "header_stage f = Ready f'"
  shows "headerDone f \<and> f' = f \<or>
    (\<not> headerDone f \<and> (\<exists>idx n. index_of sipHeaderTerminator (skip_crlf (buf f)) = Some idx \<and>
      f' = f\<lparr>buf := skip_crlf (buf f), headerDone := True,
        headerLen := idx + length sipHeaderTerminator, bodyLen := n\<rparr> \<and>
      int (idx + length sipHeaderTerminator) \<le> MaxHeaderBytes (limits f) \<and>
      validSIPStartLine (take idx (skip_crlf (buf f))) \<and>
      declaredContentLength (take idx (skip_crlf (buf f))) = Inr n \<and> int n \<le> MaxBodyBytes (limits f)))"
  using assms
  by (auto simp: header_stage_def skipLeadingCRLF_def Let_def split: if_splits option.splits sum.splits)

text \<open>The loop of \<open>Push\<close>: the frames, the error if there is one, and the framer.\<close>

function push_loop :: "framer \<Rightarrow> string list \<times> framing_reason option \<times> framer" where
  "push_loop f =
     (case header_stage f of
        Waiting f' \<Rightarrow> ([], None, f')
      | Failing reason f' \<Rightarrow> ([], Some reason, fail_with reason f')
      | Ready f' \<Rightarrow>
          if length (buf f') < frame_total f' then ([], None, f')
          else let (fs, e, f'') = push_loop (consume_frame f')
               in (take (frame_total f') (buf f') # fs, e, f''))"
  by auto
termination
proof (relation "measure (\<lambda>f. 2 * length (buf f) + (if headerDone f then 1 else 0))")
  fix f f'
  assume st: "header_stage f = Ready f'" and len: "\<not> length (buf f') < frame_total f'"
  have pos: "0 < length sipHeaderTerminator" by (simp add: sipHeaderTerminator_def CRLF_def)
  show "(consume_frame f', f) \<in> measure (\<lambda>f. 2 * length (buf f) + (if headerDone f then 1 else 0))"
  proof (cases "headerDone f")
    case True
    then have "f' = f" using header_stage_Ready [OF st] by auto
    then show ?thesis using True by (simp add: consume_frame_def)
  next
    case False
    then obtain n idx where f': "f' = f\<lparr>buf := skip_crlf (buf f), headerDone := True,
        headerLen := idx + length sipHeaderTerminator, bodyLen := n\<rparr>"
      using header_stage_Ready [OF st] by auto
    then have "0 < frame_total f'" using pos by (simp add: frame_total_def)
    moreover have "length (buf f') \<le> length (buf f)" using f' length_skip_crlf by simp
    ultimately have "length (buf f') - frame_total f' < length (buf f)" using len by linarith
    then show ?thesis using False by (simp add: consume_frame_def)
  qed
qed simp

declare push_loop.simps [simp del]

definition Push :: "framer \<Rightarrow> string \<Rightarrow> string list \<times> framing_reason option \<times> framer" where
  "Push f bytes =
     (case failed f of
        Some reason \<Rightarrow> ([], Some reason, f)
      | None \<Rightarrow> push_loop (f\<lparr>buf := buf f @ bytes\<rparr>))"

definition CloseInput :: "framer \<Rightarrow> framing_reason option \<times> framer" where
  "CloseInput f =
     (case failed f of
        Some reason \<Rightarrow> (Some reason, f)
      | None \<Rightarrow> if buf f \<noteq> [] then (Some Truncated, fail_with Truncated f) else (None, f))"

definition Buffered :: "framer \<Rightarrow> nat" where "Buffered f = length (buf f)"
definition Failed :: "framer \<Rightarrow> framing_reason option" where "Failed f = failed f"

definition Reset :: "framer \<Rightarrow> framer" where
  "Reset f = f\<lparr>buf := [], headerDone := False, headerLen := 0, bodyLen := 0, failed := None\<rparr>"

section \<open>Any chunking gives the same frames\<close>

abbreviation extend :: "framer \<Rightarrow> string \<Rightarrow> framer" where
  "extend f b \<equiv> f\<lparr>buf := buf f @ b\<rparr>"

lemma CRLF_simps [simp]: "length CRLF = 2" "CRLF \<noteq> []"
  by (simp_all add: CRLF_def)

lemma terminator_simps [simp]: "length sipHeaderTerminator = 4" "sipHeaderTerminator \<noteq> []"
  by (simp_all add: sipHeaderTerminator_def CRLF_def)

lemma skip_crlf_append: "skip_crlf (s @ t) = skip_crlf (skip_crlf s @ t)"
  by (induction s rule: skip_crlf.induct) auto

lemma skip_crlf_CRLF: "skip_crlf (CRLF @ s) = skip_crlf s"
  by (simp add: CRLF_def)

lemma skip_crlf_idem [simp]: "skip_crlf (skip_crlf s) = skip_crlf s"
  by (induction s rule: skip_crlf.induct) auto

lemma skip_crlf_stable: "2 \<le> length (skip_crlf s) \<Longrightarrow> skip_crlf (skip_crlf s @ t) = skip_crlf s @ t"
proof (induction s rule: skip_crlf.induct)
  case (1 a b s)
  then show ?case by (simp split: if_splits)
qed auto

lemma index_long:
  "index_of sipHeaderTerminator s = Some idx \<Longrightarrow> 4 \<le> length s"
  using index_of_Some [of sipHeaderTerminator s idx] by simp

lemma stage_extend_Ready:
  assumes "header_stage f = Ready f'"
  shows "header_stage (extend f b) = Ready (extend f' b)"
proof (cases "headerDone f")
  case True
  then show ?thesis using assms by (simp add: header_stage_def)
next
  case False
  obtain idx n where h: "index_of sipHeaderTerminator (skip_crlf (buf f)) = Some idx"
    "f' = f\<lparr>buf := skip_crlf (buf f), headerDone := True,
        headerLen := idx + length sipHeaderTerminator, bodyLen := n\<rparr>"
    "int (idx + length sipHeaderTerminator) \<le> MaxHeaderBytes (limits f)"
    "validSIPStartLine (take idx (skip_crlf (buf f)))"
    "declaredContentLength (take idx (skip_crlf (buf f))) = Inr n" "int n \<le> MaxBodyBytes (limits f)"
    using header_stage_Ready [OF assms] False by auto
  have len: "idx + 4 \<le> length (skip_crlf (buf f))" using index_of_Some [OF h(1)] by simp
  then have sk: "skip_crlf (buf f @ b) = skip_crlf (buf f) @ b"
    using skip_crlf_append [of "buf f" b] skip_crlf_stable [of "buf f" b] by simp
  have "index_of sipHeaderTerminator (skip_crlf (buf f) @ b) = Some idx" by (rule index_of_append [OF h(1)])
  then show ?thesis using h len False by (simp add: header_stage_def skipLeadingCRLF_def Let_def sk)
qed

lemma stage_extend_Failing:
  assumes "header_stage f = Failing r f'" and pos: "0 < MaxHeaderBytes (limits f)"
  shows "\<exists>f''. header_stage (extend f b) = Failing r f'' \<and> fail_with r f'' = fail_with r f'"
proof -
  have nd: "\<not> headerDone f" using assms by (auto simp: header_stage_def split: if_splits)
  show ?thesis
  proof (cases "index_of sipHeaderTerminator (skip_crlf (buf f))")
    case None
    then have r: "r = HeaderTooLarge" and big: "MaxHeaderBytes (limits f) < int (length (skip_crlf (buf f)))"
        and f': "f' = f\<lparr>buf := skip_crlf (buf f)\<rparr>"
      using assms nd by (auto simp: header_stage_def skipLeadingCRLF_def Let_def split: if_splits)
    have "2 \<le> length (skip_crlf (buf f))" using big pos by linarith
    then have sk: "skip_crlf (buf f @ b) = skip_crlf (buf f) @ b"
      using skip_crlf_append [of "buf f" b] skip_crlf_stable [of "buf f" b] by simp
    show ?thesis
    proof (cases "index_of sipHeaderTerminator (skip_crlf (buf f) @ b)")
      case None2: None
      then show ?thesis using nd r big f' sk
        by (simp add: header_stage_def skipLeadingCRLF_def Let_def fail_with_def)
    next
      case (Some i)
      then have "length (skip_crlf (buf f)) < i + 4"
        using index_of_append_late [OF None Some] by simp
      then show ?thesis using nd r big f' sk Some
        by (simp add: header_stage_def skipLeadingCRLF_def Let_def fail_with_def)
    qed
  next
    case (Some idx)
    then have len: "2 \<le> length (skip_crlf (buf f))" using index_long by fastforce
    then have sk: "skip_crlf (buf f @ b) = skip_crlf (buf f) @ b"
      using skip_crlf_append [of "buf f" b] skip_crlf_stable [of "buf f" b] by simp
    have ix: "index_of sipHeaderTerminator (skip_crlf (buf f) @ b) = Some idx"
      by (rule index_of_append [OF Some])
    have "idx \<le> length (skip_crlf (buf f))" using index_of_Some [OF Some] by simp
    then show ?thesis
      using assms nd Some ix
      by (auto simp: header_stage_def skipLeadingCRLF_def Let_def sk fail_with_def
          split: if_splits sum.splits)
  qed
qed

lemma stage_extend_Waiting:
  assumes "header_stage f = Waiting f'"
  shows "header_stage (extend f b) = header_stage (extend f' b)" and "\<not> headerDone f"
    and "f' = f\<lparr>buf := skip_crlf (buf f)\<rparr>"
proof -
  show nd: "\<not> headerDone f" using assms by (auto simp: header_stage_def split: if_splits)
  show f': "f' = f\<lparr>buf := skip_crlf (buf f)\<rparr>"
    using assms by (auto simp: header_stage_def skipLeadingCRLF_def Let_def split: if_splits option.splits sum.splits)
  show "header_stage (extend f b) = header_stage (extend f' b)"
    using nd skip_crlf_append [of "buf f" b] by (simp add: header_stage_def skipLeadingCRLF_def f')
qed

lemma stage_limits:
  "header_stage f = Ready f' \<Longrightarrow> limits f' = limits f"
  "header_stage f = Waiting f' \<Longrightarrow> limits f' = limits f"
  "header_stage f = Failing r f' \<Longrightarrow> limits f' = limits f"
  by (auto simp: header_stage_def skipLeadingCRLF_def Let_def split: if_splits option.splits sum.splits)

lemma extend_twice: "extend (extend f a) b = extend f (a @ b)"
  by simp

lemma loop_extend:
  "push_loop f = (fs, e, f1) \<Longrightarrow> 0 < MaxHeaderBytes (limits f) \<Longrightarrow>
     push_loop (extend f b) =
       (case e of
          Some r \<Rightarrow> (fs, Some r, f1)
        | None \<Rightarrow> (let (fs2, e2, f2) = push_loop (extend f1 b) in (fs @ fs2, e2, f2)))"
proof (induction f arbitrary: fs e f1 rule: push_loop.induct)
  case (1 f)
  show ?case
  proof (cases "header_stage f")
    case (Waiting f')
    then have eq: "fs = []" "e = None" "f1 = f'" using "1.prems"(1) by (auto simp: push_loop.simps [of f])
    have "push_loop (extend f b) = push_loop (extend f' b)"
      unfolding push_loop.simps [of "extend f b"] push_loop.simps [of "extend f' b"]
        stage_extend_Waiting(1) [OF Waiting] ..
    then show ?thesis by (simp add: eq split: prod.split)
  next
    case (Failing r f')
    then have eq: "fs = []" "e = Some r" "f1 = fail_with r f'"
      using "1.prems"(1) by (auto simp: push_loop.simps [of f])
    from stage_extend_Failing [OF Failing "1.prems"(2)] obtain f'' where
      "header_stage (extend f b) = Failing r f''" "fail_with r f'' = fail_with r f'" by blast
    then show ?thesis by (simp add: eq push_loop.simps [of "extend f b"])
  next
    case (Ready f')
    note st = stage_extend_Ready [OF Ready, of b]
    show ?thesis
    proof (cases "length (buf f') < frame_total f'")
      case True
      then have eq: "fs = []" "e = None" "f1 = f'"
        using "1.prems"(1) Ready by (auto simp: push_loop.simps [of f])
      have hd: "headerDone f'" using header_stage_Ready [OF Ready] by auto
      then have "header_stage (extend f' b) = Ready (extend f' b)" by (simp add: header_stage_def)
      then have "push_loop (extend f b) = push_loop (extend f' b)"
        unfolding push_loop.simps [of "extend f b"] push_loop.simps [of "extend f' b"] st by simp
      then show ?thesis by (simp add: eq split: prod.split)
    next
      case False
      obtain fs' e' where rest: "push_loop (consume_frame f') = (fs', e', f1)"
        and eq: "fs = take (frame_total f') (buf f') # fs'" "e = e'"
        using "1.prems"(1) Ready False by (auto simp: push_loop.simps [of f] split: prod.splits)
      have lim: "limits (consume_frame f') = limits f"
        using stage_limits(1) [OF Ready] by (simp add: consume_frame_def)
      have "extend (consume_frame f') b = consume_frame (extend f' b)"
        using False by (simp add: consume_frame_def frame_total_def)
      moreover have "push_loop (extend (consume_frame f') b) =
          (case e' of Some r \<Rightarrow> (fs', Some r, f1)
           | None \<Rightarrow> (let (fs2, e2, f2) = push_loop (extend f1 b) in (fs' @ fs2, e2, f2)))"
        using "1.IH" [OF Ready False rest] "1.prems"(2) lim by simp
      ultimately have "push_loop (consume_frame (extend f' b)) =
          (case e' of Some r \<Rightarrow> (fs', Some r, f1)
           | None \<Rightarrow> (let (fs2, e2, f2) = push_loop (extend f1 b) in (fs' @ fs2, e2, f2)))" by simp
      moreover have "take (frame_total (extend f' b)) (buf (extend f' b)) = take (frame_total f') (buf f')"
        "\<not> length (buf (extend f' b)) < frame_total (extend f' b)"
        using False by (simp_all add: frame_total_def)
      ultimately show ?thesis
        unfolding push_loop.simps [of "extend f b"] st
        by (simp add: eq split: prod.splits option.splits)
    qed
  qed
qed

text \<open>A whole stream in chunks.\<close>

primrec push_all :: "framer \<Rightarrow> string list \<Rightarrow> string list \<times> framer" where
  "push_all f [] = ([], f)"
| "push_all f (c # cs) =
     (let (fs, _, f1) = Push f c; (fs2, f2) = push_all f1 cs in (fs @ fs2, f2))"

definition settled :: "framer \<Rightarrow> bool" where
  "settled f \<longleftrightarrow> failed f = None \<and> push_loop f = ([], None, f)"

lemma loop_result:
  "push_loop f = (fs, e, f1) \<Longrightarrow> failed f = None \<Longrightarrow>
     limits f1 = limits f \<and> failed f1 = e \<and> (e = None \<longrightarrow> settled f1) \<and>
     (e \<noteq> None \<longrightarrow> buf f1 = [])"
proof (induction f arbitrary: fs e f1 rule: push_loop.induct)
  case (1 f)
  show ?case
  proof (cases "header_stage f")
    case (Waiting f')
    note w = stage_extend_Waiting(2,3) [OF Waiting]
    have "header_stage f' = Waiting f'"
      using Waiting w by (auto simp: header_stage_def skipLeadingCRLF_def Let_def
          split: if_splits option.splits sum.splits)
    then have "push_loop f' = ([], None, f')" by (simp add: push_loop.simps [of f'])
    then show ?thesis
      using "1.prems" Waiting w(2) by (auto simp: push_loop.simps [of f] settled_def)
  next
    case (Failing r f')
    then show ?thesis using "1.prems" stage_limits(3) [OF Failing]
      by (auto simp: push_loop.simps [of f] fail_with_def)
  next
    case (Ready f')
    have ff: "failed f' = failed f" "limits f' = limits f" "headerDone f'"
      using header_stage_Ready [OF Ready] by auto
    show ?thesis
    proof (cases "length (buf f') < frame_total f'")
      case True
      have "header_stage f' = Ready f'" using ff(3) by (simp add: header_stage_def)
      then have "push_loop f' = ([], None, f')" using True by (simp add: push_loop.simps [of f'])
      then show ?thesis using "1.prems" Ready True ff by (auto simp: push_loop.simps [of f] settled_def)
    next
      case False
      obtain fs' e' where rest: "push_loop (consume_frame f') = (fs', e', f1)" and "e = e'"
        using "1.prems"(1) Ready False by (auto simp: push_loop.simps [of f] split: prod.splits)
      then show ?thesis using "1.IH" [OF Ready False rest] "1.prems"(2) ff by (simp add: consume_frame_def)
    qed
  qed
qed

lemma Push_settled:
  assumes "settled f" and "0 < MaxHeaderBytes (limits f)"
  shows "push_all f cs = (let (fs, _, f1) = Push f (concat cs) in (fs, f1))"
  using assms
proof (induction cs arbitrary: f)
  case Nil
  then show ?case by (simp add: Push_def settled_def)
next
  case (Cons c cs)
  have nf: "failed f = None" using Cons.prems(1) by (simp add: settled_def)
  obtain fs e f1 where p: "push_loop (extend f c) = (fs, e, f1)" by (cases "push_loop (extend f c)") auto
  have r: "limits f1 = limits f" "failed f1 = e" "e = None \<longrightarrow> settled f1"
    using loop_result [OF p] nf by auto
  have big: "push_loop (extend f (c @ concat cs)) =
      (case e of Some r \<Rightarrow> (fs, Some r, f1)
       | None \<Rightarrow> (let (fs2, e2, f2) = push_loop (extend f1 (concat cs)) in (fs @ fs2, e2, f2)))"
    using loop_extend [OF p] Cons.prems(2) by simp
  show ?case
  proof (cases e)
    case None
    then have "push_all f1 cs = (let (fs, _, f1) = Push f1 (concat cs) in (fs, f1))"
      using Cons.IH [of f1] r Cons.prems(2) by simp
    then show ?thesis using nf p big None r(2) by (simp add: Push_def Let_def split: prod.splits)
  next
    case (Some reason)
    then have "failed f1 = Some reason" using r(2) by simp
    then have "push_all f1 cs = ([], f1)" for cs
      by (induction cs) (simp_all add: Push_def)
    then show ?thesis using nf p big Some by (simp add: Push_def)
  qed
qed

lemma normalized_pos: "0 < MaxHeaderBytes (normalized l)" "0 < MaxBodyBytes (normalized l)"
  by (simp_all add: normalized_def defaultSIPFramerLimits_def)

lemma settled_new: "settled (newSIPStreamFramer l)"
proof -
  have "header_stage (newSIPStreamFramer l) = Waiting (newSIPStreamFramer l)"
    using normalized_pos(1) [of l]
    by (simp add: header_stage_def skipLeadingCRLF_def newSIPStreamFramer_def)
  then show ?thesis by (simp add: settled_def newSIPStreamFramer_def push_loop.simps)
qed

text \<open>Property C7: however the peer's bytes are cut into reads, the framer returns the same
  messages and ends in the same state as if all bytes had arrived in one read.\<close>

theorem framing_independent_of_chunks:
  "push_all (newSIPStreamFramer l) chunks =
     (let (frames, _, f) = Push (newSIPStreamFramer l) (concat chunks) in (frames, f))"
  by (rule Push_settled [OF settled_new]) (simp add: newSIPStreamFramer_def normalized_pos)

section \<open>What a frame is\<close>

definition sip_message :: "framer_limits \<Rightarrow> string \<Rightarrow> bool" where
  "sip_message l m \<longleftrightarrow>
     (\<exists>header body. m = header @ sipHeaderTerminator @ body \<and>
        index_of sipHeaderTerminator m = Some (length header) \<and>
        validSIPStartLine header \<and> declaredContentLength header = Inr (length body) \<and>
        int (length header + 4) \<le> MaxHeaderBytes l \<and> int (length body) \<le> MaxBodyBytes l)"

text \<open>While a header is waiting for its body, it is one that was accepted.\<close>

definition pending_ok :: "framer \<Rightarrow> bool" where
  "pending_ok f \<longleftrightarrow>
     (headerDone f \<longrightarrow>
        (\<exists>idx. index_of sipHeaderTerminator (buf f) = Some idx \<and> headerLen f = idx + 4 \<and>
          validSIPStartLine (take idx (buf f)) \<and>
          declaredContentLength (take idx (buf f)) = Inr (bodyLen f) \<and>
          int (headerLen f) \<le> MaxHeaderBytes (limits f) \<and> int (bodyLen f) \<le> MaxBodyBytes (limits f)))"

lemma pending_ready: "header_stage f = Ready f' \<Longrightarrow> pending_ok f \<Longrightarrow> pending_ok f'"
  using header_stage_Ready [of f f'] by (auto simp: pending_ok_def)

lemma frame_is_message:
  assumes "pending_ok f" and "headerDone f" and "frame_total f \<le> length (buf f)"
  shows "sip_message (limits f) (take (frame_total f) (buf f))"
proof -
  from assms(1,2) obtain idx where h: "index_of sipHeaderTerminator (buf f) = Some idx" "headerLen f = idx + 4"
    "validSIPStartLine (take idx (buf f))" "declaredContentLength (take idx (buf f)) = Inr (bodyLen f)"
    "int (headerLen f) \<le> MaxHeaderBytes (limits f)" "int (bodyLen f) \<le> MaxBodyBytes (limits f)"
    by (auto simp: pending_ok_def)
  note I = index_of_Some [OF h(1)]
  let ?m = "take (frame_total f) (buf f)" and ?h = "take idx (buf f)"
  let ?b = "drop (idx + 4) ?m"
  have tot: "frame_total f = idx + 4 + bodyLen f" using h(2) by (simp add: frame_total_def)
  have pre: "prefix sipHeaderTerminator (drop idx ?m)"
  proof -
    have "prefix sipHeaderTerminator (take (4 + bodyLen f) (drop idx (buf f)))"
      using I by (auto simp: prefix_def)
    then show ?thesis by (simp add: tot drop_take add.assoc)
  qed
  then obtain z where z: "drop idx ?m = sipHeaderTerminator @ z" by (auto simp: prefix_def)
  have "?b = drop 4 (drop idx ?m)" by (simp only: drop_drop add.commute)
  then have d: "drop idx ?m = sipHeaderTerminator @ ?b" using z by simp
  have m: "?m = ?h @ sipHeaderTerminator @ ?b"
    using append_take_drop_id [of idx ?m] d tot by (simp add: min_def)
  have first: "index_of sipHeaderTerminator ?m = Some idx"
  proof (rule index_of_first [OF pre])
    show "idx \<le> length ?m" using assms(3) tot by simp
    show "\<forall>j < idx. \<not> prefix sipHeaderTerminator (drop j ?m)"
    proof (intro allI impI notI)
      fix j assume "j < idx" "prefix sipHeaderTerminator (drop j ?m)"
      then have "prefix sipHeaderTerminator (drop j (buf f))"
        by (metis append_take_drop_id drop_append prefix_append prefix_order.trans prefixI)
      then show False using I \<open>j < idx\<close> by blast
    qed
  qed
  have "length ?b = bodyLen f" and "length ?h = idx" using assms(3) tot I by simp_all
  then show ?thesis unfolding sip_message_def using m first h by (metis of_nat_add of_nat_numeral)
qed

lemma loop_frames:
  "push_loop f = (fs, e, f1) \<Longrightarrow> pending_ok f \<Longrightarrow>
     (\<forall>m \<in> set fs. sip_message (limits f) m) \<and> pending_ok f1"
proof (induction f arbitrary: fs e f1 rule: push_loop.induct)
  case (1 f)
  show ?case
  proof (cases "header_stage f")
    case (Waiting f')
    then show ?thesis using "1.prems" stage_extend_Waiting(2,3) [OF Waiting]
      by (auto simp: push_loop.simps [of f] pending_ok_def)
  next
    case (Failing r f')
    then show ?thesis using "1.prems" by (auto simp: push_loop.simps [of f] fail_with_def pending_ok_def)
  next
    case (Ready f')
    have ok: "pending_ok f'" using pending_ready [OF Ready "1.prems"(2)] .
    have hd: "headerDone f'" "limits f' = limits f" using header_stage_Ready [OF Ready] by auto
    show ?thesis
    proof (cases "length (buf f') < frame_total f'")
      case True
      then show ?thesis using "1.prems"(1) Ready ok by (auto simp: push_loop.simps [of f])
    next
      case False
      obtain fs' e' where rest: "push_loop (consume_frame f') = (fs', e', f1)"
        and fs: "fs = take (frame_total f') (buf f') # fs'"
        using "1.prems"(1) Ready False by (auto simp: push_loop.simps [of f] split: prod.splits)
      have "pending_ok (consume_frame f')" by (simp add: pending_ok_def consume_frame_def)
      from "1.IH" [OF Ready False rest this] hd(2) show ?thesis
        using fs frame_is_message [OF ok hd(1)] False by (auto simp: consume_frame_def)
    qed
  qed
qed

lemma loop_bounded:
  assumes "push_loop f = (fs, e, f1)" and "pending_ok f" and "failed f = None"
    and "0 < MaxHeaderBytes (limits f)" and "0 < MaxBodyBytes (limits f)"
  shows "int (length (buf f1)) \<le> MaxHeaderBytes (limits f) + MaxBodyBytes (limits f)"
proof (cases e)
  case (Some r)
  then show ?thesis using loop_result [OF assms(1,3)] assms(4,5) by simp
next
  case None
  have lim: "limits f1 = limits f" and set: "settled f1" using loop_result [OF assms(1,3)] None by auto
  have ok: "pending_ok f1" using loop_frames [OF assms(1,2)] by simp
  show ?thesis
  proof (cases "header_stage f1")
    case (Waiting f')
    then have "f' = f1" using set by (simp add: settled_def push_loop.simps [of f1])
    moreover have "int (length (buf f')) \<le> MaxHeaderBytes (limits f1)"
      using Waiting by (auto simp: header_stage_def skipLeadingCRLF_def Let_def
          split: if_splits option.splits sum.splits)
    ultimately show ?thesis using lim assms(5) by simp
  next
    case (Failing r f')
    then show ?thesis using set by (simp add: settled_def push_loop.simps [of f1])
  next
    case (Ready f')
    have short: "length (buf f') < frame_total f'" and eq: "f' = f1"
      using set Ready by (auto simp: settled_def push_loop.simps [of f1] split: if_splits prod.splits)
    have "headerDone f'" using header_stage_Ready [OF Ready] by auto
    then have "headerDone f1" using eq by simp
    then show ?thesis using ok short eq lim by (auto simp: pending_ok_def frame_total_def)
  qed
qed

lemma push_all_Push:
  "push_all (newSIPStreamFramer l) chunks = (frames, f) \<Longrightarrow>
     \<exists>e. push_loop (extend (newSIPStreamFramer l) (concat chunks)) = (frames, e, f)"
  unfolding Push_settled [OF settled_new, of l chunks, simplified newSIPStreamFramer_def,
      simplified, OF normalized_pos(1), folded newSIPStreamFramer_def]
  by (auto simp: Push_def newSIPStreamFramer_def split: prod.splits)

text \<open>Property C29: every frame the framer returns is one SIP message: a start line and headers up to
  the first blank line, then a body of exactly the length its Content-Length declares, within
  the limits; and what is kept between reads never exceeds the header limit plus the
  body limit.\<close>

theorem frames_are_bounded_messages:
  "(\<forall>m \<in> set (fst (push_all (newSIPStreamFramer l) chunks)). sip_message (normalized l) m) \<and>
   int (Buffered (snd (push_all (newSIPStreamFramer l) chunks))) \<le>
     MaxHeaderBytes (normalized l) + MaxBodyBytes (normalized l)"
proof -
  obtain frames f where p: "push_all (newSIPStreamFramer l) chunks = (frames, f)" by fastforce
  let ?g = "extend (newSIPStreamFramer l) (concat chunks)"
  have g: "limits ?g = normalized l" "pending_ok ?g" "failed ?g = None"
    by (simp_all add: newSIPStreamFramer_def pending_ok_def)
  obtain e where q: "push_loop ?g = (frames, e, f)" using push_all_Push [OF p] by blast
  show ?thesis
    using loop_frames [OF q g(2)] loop_bounded [OF q g(2,3)] normalized_pos g(1) p
    by (simp add: Buffered_def)
qed

section \<open>Exact framing of a stream of messages\<close>

lemma skip_message:
  assumes "sip_message l m"
  shows "skip_crlf (m @ t) = m @ t"
proof -
  from assms obtain header body where m: "m = header @ sipHeaderTerminator @ body"
    and v: "validSIPStartLine header" by (auto simp: sip_message_def)
  have ne: "header \<noteq> []" using v by (auto simp: validSIPStartLine_def Let_def split: option.splits if_splits)
  have "\<not> prefix CRLF header"
  proof
    assume "prefix CRLF header"
    then have "index_of CRLF header = Some 0" using ne by (cases header) auto
    then show False using v by (simp add: validSIPStartLine_def)
  qed
  then have "\<not> prefix CRLF (m @ t)"
    using ne by (cases header; cases "tl header") (auto simp: m sipHeaderTerminator_def CRLF_def byte_char_def)
  then show ?thesis by (cases "m @ t" rule: skip_crlf.cases) (auto simp: CRLF_def)
qed

lemma skip_keepalives: "skip_crlf (concat (replicate k CRLF) @ s) = skip_crlf s"
  by (induction k) (simp_all add: skip_crlf_CRLF)

lemma stage_message:
  assumes "sip_message (limits f) m" and "buf f = concat (replicate k CRLF) @ m @ t"
    and "\<not> headerDone f"
  obtains h n where "header_stage f = Ready (f\<lparr>buf := m @ t, headerDone := True, headerLen := h, bodyLen := n\<rparr>)"
    and "h + n = length m"
proof -
  from assms(1) obtain header body where m: "m = header @ sipHeaderTerminator @ body"
    and ix: "index_of sipHeaderTerminator m = Some (length header)"
    and v: "validSIPStartLine header" "declaredContentLength header = Inr (length body)"
      "int (length header + 4) \<le> MaxHeaderBytes (limits f)" "int (length body) \<le> MaxBodyBytes (limits f)"
    by (auto simp: sip_message_def)
  have sk: "skip_crlf (buf f) = m @ t"
    using skip_message [OF assms(1)] assms(2) by (simp add: skip_keepalives)
  have "index_of sipHeaderTerminator (m @ t) = Some (length header)" by (rule index_of_append [OF ix])
  moreover have "take (length header) (m @ t) = header" by (simp add: m)
  ultimately have "header_stage f = Ready (f\<lparr>buf := m @ t, headerDone := True,
      headerLen := length header + 4, bodyLen := length body\<rparr>)"
    using assms(3) v by (simp add: header_stage_def skipLeadingCRLF_def Let_def sk)
  then show ?thesis by (rule that) (simp add: m)
qed

definition stream_of :: "(nat \<times> string) list \<Rightarrow> string" where
  "stream_of kms = concat (map (\<lambda>(k, m). concat (replicate k CRLF) @ m) kms)"

lemma loop_stream:
  "\<forall>(k, m) \<in> set kms. sip_message (limits f) m \<Longrightarrow> \<not> headerDone f \<Longrightarrow> headerLen f = 0 \<Longrightarrow>
     bodyLen f = 0 \<Longrightarrow> 0 < MaxHeaderBytes (limits f) \<Longrightarrow> buf f = stream_of kms \<Longrightarrow>
     push_loop f = (map snd kms, None, f\<lparr>buf := []\<rparr>)"
proof (induction kms arbitrary: f)
  case Nil
  then have "header_stage f = Waiting (f\<lparr>buf := []\<rparr>)"
    by (simp add: stream_of_def header_stage_def skipLeadingCRLF_def)
  then show ?case by (simp add: push_loop.simps [of f])
next
  case (Cons km kms)
  obtain k m where km: "km = (k, m)" by (cases km)
  have msg: "sip_message (limits f) m" using Cons.prems(1) km by auto
  have b: "buf f = concat (replicate k CRLF) @ m @ stream_of kms"
    using Cons.prems(6) by (simp add: stream_of_def km)
  obtain h n where st: "header_stage f =
      Ready (f\<lparr>buf := m @ stream_of kms, headerDone := True, headerLen := h, bodyLen := n\<rparr>)"
    and hn: "h + n = length m"
    using stage_message [OF msg b Cons.prems(2)] by blast
  let ?f' = "f\<lparr>buf := m @ stream_of kms, headerDone := True, headerLen := h, bodyLen := n\<rparr>"
  have c: "consume_frame ?f' = f\<lparr>buf := stream_of kms\<rparr>"
    using hn Cons.prems(2,3,4) by (cases f) (simp add: consume_frame_def frame_total_def)
  have "push_loop (f\<lparr>buf := stream_of kms\<rparr>) = (map snd kms, None, f\<lparr>buf := []\<rparr>)"
    using Cons.IH [of "f\<lparr>buf := stream_of kms\<rparr>"] Cons.prems by simp
  then show ?case using st c hn by (simp add: push_loop.simps [of f] frame_total_def km)
qed

text \<open>Property C6: a stream of messages within the limits, with any number of keep-alive line ends
  before each, cut into reads anywhere, comes out as exactly those messages in order; nothing
  is left over, and closing the input then is no error.\<close>

theorem framing_is_exact:
  assumes "\<forall>(k, m) \<in> set kms. sip_message (normalized l) m" and "concat chunks = stream_of kms"
  shows "push_all (newSIPStreamFramer l) chunks = (map snd kms, newSIPStreamFramer l) \<and>
    fst (CloseInput (snd (push_all (newSIPStreamFramer l) chunks))) = None"
proof -
  let ?g = "extend (newSIPStreamFramer l) (stream_of kms)"
  have "push_loop ?g = (map snd kms, None, ?g\<lparr>buf := []\<rparr>)"
    using assms(1) by (intro loop_stream) (simp_all add: newSIPStreamFramer_def normalized_pos)
  moreover have "push_all (newSIPStreamFramer l) chunks =
      (let (fs, _, f1) = Push (newSIPStreamFramer l) (concat chunks) in (fs, f1))"
    by (rule Push_settled [OF settled_new]) (simp add: newSIPStreamFramer_def normalized_pos)
  ultimately show ?thesis
    by (simp add: Push_def assms(2) newSIPStreamFramer_def CloseInput_def)
qed

definition demo_options :: string where
  "demo_options = ''OPTIONS sip:a SIP/2.0'' @ CRLF @ ''l: 2'' @ CRLF @ CRLF @ ''hi''"

lemma demo_options_message: "sip_message (normalized defaultSIPFramerLimits) demo_options"
  unfolding sip_message_def
  by (rule exI [of _ "''OPTIONS sip:a SIP/2.0'' @ CRLF @ ''l: 2''"], rule exI [of _ "''hi''"]) code_simp

theorem frames_are_bounded_messages_witness:
  "fst (push_all (newSIPStreamFramer defaultSIPFramerLimits) [take 30 demo_options, drop 30 demo_options]) =
     [demo_options] \<and>
   sip_message (normalized defaultSIPFramerLimits) demo_options"
proof
  show *: "fst (push_all (newSIPStreamFramer defaultSIPFramerLimits)
      [take 30 demo_options, drop 30 demo_options]) = [demo_options]" by code_simp
  show "sip_message (normalized defaultSIPFramerLimits) demo_options"
    using frames_are_bounded_messages [of defaultSIPFramerLimits "[take 30 demo_options, drop 30 demo_options]"]
    unfolding * by simp
qed

theorem framing_is_exact_witness:
  "push_all (newSIPStreamFramer defaultSIPFramerLimits)
      [CRLF @ take 25 demo_options, drop 25 demo_options @ demo_options] =
    ([demo_options, demo_options], newSIPStreamFramer defaultSIPFramerLimits)"
proof -
  have msgs: "\<forall>(k, m) \<in> set [(1, demo_options), (0, demo_options)].
      sip_message (normalized defaultSIPFramerLimits) m"
    using demo_options_message by auto
  have "concat [CRLF @ take 25 demo_options, drop 25 demo_options @ demo_options] =
      stream_of [(1, demo_options), (0, demo_options)]"
  proof -
    have "take 25 demo_options @ drop 25 demo_options @ demo_options = demo_options @ demo_options"
      by (metis append.assoc append_take_drop_id)
    then show ?thesis by (simp add: stream_of_def)
  qed
  from framing_is_exact [OF msgs this, THEN conjunct1] show ?thesis by (simp only: list.map snd_conv)
qed

end
