(* ===== verification/SmsCodec.thy ===== *)
theory SmsCodec
  imports GoText
begin

unbundle bit_operations_syntax

section \<open>RP messages and addresses of SMS over IMS\<close>

text \<open>
  \<^verbatim>\<open>pkg/smscodec/pdu.go\<close> up to the TPDU itself: the RP layer (RP-DATA, RP-ACK, RP-ERROR), the
  BCD addresses, the normalisation of a service-centre address, hexadecimal bodies.  Numbers are strings
  (\<open>char\<close> lists), wire data lists of 8-bit words.
\<close>

datatype sms_error =
    RpduTooShort | RpDaMissing | RpDaBounds | RpOaMissing | RpOaBounds | RpUdMissing | RpUdBounds
  | RpErrorTooShort | NotRpError byte | CauseEmpty | CauseBounds
  | AddressEmpty | BadBcdDigit byte
  | ServiceCentreEmpty | SipNoUser | SipsNoUser | ServiceCentreNotNumeric | NonNumericCharacter
  | BadDigitCount | TpduTooLong | SubmitTooShort | NotSubmit
  | UnsupportedEncoding string | BodyEmpty | BadHex

datatype rpdu_kind = RPDUKindUnknown | RPDUKindData | RPDUKindAck | RPDUKindError

record rpdu_info =
  Kind :: rpdu_kind
  RawType :: byte
  MR :: byte
  Cause :: nat

subsection \<open>Hexadecimal bodies\<close>

definition is_digit :: "char \<Rightarrow> bool" where
  "is_digit c \<longleftrightarrow> 48 \<le> char_code c \<and> char_code c \<le> 57"

definition is_hex_char :: "char \<Rightarrow> bool" where
  "is_hex_char c \<longleftrightarrow> is_digit c \<or> (97 \<le> char_code c \<and> char_code c \<le> 102) \<or>
     (65 \<le> char_code c \<and> char_code c \<le> 70)"

definition IsHexString :: "string \<Rightarrow> bool" where
  "IsHexString s \<longleftrightarrow> \<not> (length s < 2 \<or> length s mod 2 \<noteq> 0) \<and> list_all is_hex_char s"

definition hex_value :: "char \<Rightarrow> nat" where
  "hex_value c =
     (if is_digit c then char_code c - 48
      else if 97 \<le> char_code c then char_code c - 87 else char_code c - 55)"

text \<open>\<^verbatim>\<open>encoding/hex\<close>.\<close>

fun hex_decode :: "string \<Rightarrow> byte list option" where
  "hex_decode [] = Some []"
| "hex_decode [c] = None"
| "hex_decode (a # b # s) =
     (if is_hex_char a \<and> is_hex_char b
      then map_option (\<lambda>bs. of_nat (hex_value a * 16 + hex_value b) # bs) (hex_decode s)
      else None)"

definition hex_digit :: "nat \<Rightarrow> char" where
  "hex_digit n = byte_char (if n < 10 then 48 + n else 87 + n)"

definition hex_encode :: "byte list \<Rightarrow> string" where
  "hex_encode bs = concat (map (\<lambda>b. [hex_digit (unat b div 16), hex_digit (unat b mod 16)]) bs)"

definition bytes_of :: "string \<Rightarrow> byte list" where
  "bytes_of s = map (\<lambda>c. of_nat (char_code c)) s"

definition DecodeBodyMaybeHex :: "string \<Rightarrow> sms_error + byte list" where
  "DecodeBodyMaybeHex body =
     (let s = TrimSpace body in
      if s = [] then Inl BodyEmpty
      else if IsHexString s then (case hex_decode s of None \<Rightarrow> Inl BadHex | Some b \<Rightarrow> Inr b)
      else Inr (bytes_of body))"

datatype sms_encoding = SMSEncodingAuto | SMSEncodingUCS2

definition NormalizeSMSEncoding :: "string \<Rightarrow> sms_error + sms_encoding" where
  "NormalizeSMSEncoding raw =
     (let s = ToLower (TrimSpace raw) in
      if s = [] \<or> s = ''auto'' then Inr SMSEncodingAuto
      else if s = ''ucs2'' then Inr SMSEncodingUCS2
      else Inl (UnsupportedEncoding raw))"

subsection \<open>Addresses\<close>

text \<open>One half of a BCD octet: a digit, the filler, or an error.\<close>

definition bcd_half :: "byte \<Rightarrow> sms_error + string" where
  "bcd_half d =
     (if d \<le> 9 then Inr [byte_char (48 + unat d)]
      else if d = 0x0F then Inr []
      else Inl (BadBcdDigit d))"

fun decode_bcd :: "byte list \<Rightarrow> sms_error + string" where
  "decode_bcd [] = Inr []"
| "decode_bcd (b # bs) =
     res_bind (bcd_half (b AND 0x0F)) (\<lambda>lo.
     res_bind (bcd_half (drop_bit 4 b AND 0x0F)) (\<lambda>hi.
     res_bind (decode_bcd bs) (\<lambda>rest. Inr (lo @ hi @ rest))))"

definition DecodeAddressValue :: "byte list \<Rightarrow> sms_error + string" where
  "DecodeAddressValue v =
     (case v of
        [] \<Rightarrow> Inl AddressEmpty
      | ton # bcd \<Rightarrow>
          res_bind (decode_bcd bcd) (\<lambda>s. Inr ((if ton AND 0x70 = 0x10 then ''+'' else []) @ s)))"

definition digit_of :: "char \<Rightarrow> byte" where
  "digit_of c = of_nat (char_code c) - 48"

fun encode_bcd :: "string \<Rightarrow> byte list" where
  "encode_bcd [] = []"
| "encode_bcd [a] = [digit_of a OR 0xF0]"
| "encode_bcd (a # b # s) = (digit_of a OR push_bit 4 (digit_of b)) # encode_bcd s"

definition EncodeAddress :: "string \<Rightarrow> byte list" where
  "EncodeAddress number0 =
     (let number = TrimSpace number0 in
      if number = [] then [0x00]
      else
        let plus = (hd number = CHR 0x2B);
            ton = (if plus then 0x91 else 0x81);
            bcd = encode_bcd (if plus then tl number else number)
        in of_nat (1 + length bcd) # ton # bcd)"

subsection \<open>RP-DATA\<close>

text \<open>A length octet and as many octets, at the head of a list: the step the parsers repeat.\<close>

definition take_lv :: "sms_error \<Rightarrow> sms_error \<Rightarrow> byte list \<Rightarrow> sms_error + (byte list \<times> byte list)" where
  "take_lv missing bounds bs =
     (case bs of
        [] \<Rightarrow> Inl missing
      | n # rest \<Rightarrow>
          if unat n > length rest then Inl bounds
          else Inr (take (unat n) rest, drop (unat n) rest))"

definition ParseRPData :: "byte list \<Rightarrow> sms_error + (byte \<times> byte list)" where
  "ParseRPData body =
     (if length body < 3 then Inl RpduTooShort
      else
        res_bind (take_lv RpDaMissing RpDaBounds (drop 2 body)) (\<lambda>(da, r1).
        res_bind (take_lv RpOaMissing RpOaBounds r1) (\<lambda>(oa, r2).
        res_bind (take_lv RpUdMissing RpUdBounds r2) (\<lambda>(ud, _).
          Inr (body ! 1, ud)))))"

text \<open>\<open>oa, _ = DecodeAddressValue(...)\<close>: on an error the string is empty.\<close>

definition address_or_empty :: "byte list \<Rightarrow> string" where
  "address_or_empty v =
     (if v = [] then [] else case DecodeAddressValue v of Inl _ \<Rightarrow> [] | Inr s \<Rightarrow> s)"

definition ParseRPDataWithAddresses ::
    "byte list \<Rightarrow> sms_error + (byte \<times> string \<times> string \<times> byte list)" where
  "ParseRPDataWithAddresses body =
     (if length body < 5 then Inl RpduTooShort
      else
        res_bind (take_lv RpOaMissing RpOaBounds (drop 2 body)) (\<lambda>(oa, r1).
        res_bind (take_lv RpDaMissing RpDaBounds r1) (\<lambda>(da, r2).
        res_bind (take_lv RpUdMissing RpUdBounds r2) (\<lambda>(ud, _).
          Inr (body ! 1, address_or_empty oa, address_or_empty da, ud)))))"

definition ParseRPErrorCause :: "byte list \<Rightarrow> sms_error + byte" where
  "ParseRPErrorCause body =
     (if length body < 4 then Inl RpErrorTooShort
      else if body ! 0 \<noteq> 0x04 \<and> body ! 0 \<noteq> 0x05 then Inl (NotRpError (body ! 0))
      else let causeIELen = unat (body ! 2) in
      if causeIELen \<le> 0 then Inl CauseEmpty
      else if 3 + causeIELen > length body then Inl CauseBounds
      else Inr (body ! 3 AND 0x7F))"

definition ClassifyRPDU :: "byte list \<Rightarrow> rpdu_info" where
  "ClassifyRPDU body =
     (if length body = 0 then \<lparr>Kind = RPDUKindUnknown, RawType = 0, MR = 0, Cause = 0\<rparr>
      else
        let b = body ! 0;
            info = \<lparr>Kind = RPDUKindUnknown, RawType = b, MR = (if length body > 1 then body ! 1 else 0), Cause = 0\<rparr>
        in if b = 0x00 \<or> b = 0x01 then info\<lparr>Kind := RPDUKindData\<rparr>
           else if b = 0x02 \<or> b = 0x03 then info\<lparr>Kind := RPDUKindAck\<rparr>
           else if b = 0x04 \<or> b = 0x05 then
             info\<lparr>Kind := RPDUKindError,
               Cause := (case ParseRPErrorCause body of Inl _ \<Rightarrow> 0 | Inr c \<Rightarrow> unat c)\<rparr>
           else info)"

definition buildRPData :: "byte \<Rightarrow> byte list \<Rightarrow> byte list \<Rightarrow> byte list" where
  "buildRPData rpMr tpdu smscAddr = [0x00, rpMr, 0x00] @ smscAddr @ [of_nat (length tpdu)] @ tpdu"

definition BuildRPData :: "byte \<Rightarrow> byte list \<Rightarrow> string \<Rightarrow> byte list" where
  "BuildRPData rpMr tpdu smsc = buildRPData rpMr tpdu (EncodeAddress smsc)"

text \<open>The loop over the characters of a service-centre number; \<open>acc\<close> is what was kept, in order,
  \<open>digits\<close> how many digits.\<close>

function keep_digits :: "string \<Rightarrow> string \<Rightarrow> nat \<Rightarrow> sms_error + (string \<times> nat)" where
  "keep_digits s acc digits =
     (case s of
        [] \<Rightarrow> Inr (acc, digits)
      | c # rest \<Rightarrow>
          if is_digit c then keep_digits rest (acc @ [c]) (digits + 1)
          else if c = CHR 0x2B \<and> acc = [] then keep_digits rest (acc @ [c]) digits
          else if c = CHR 0x2D \<or> c = CHR 0x28 \<or> c = CHR 0x29 then keep_digits rest acc digits
          else case find (\<lambda>p. p \<noteq> [] \<and> prefix p s) go_spaces of
              Some p \<Rightarrow> keep_digits (drop (length p) s) acc digits
            | None \<Rightarrow> Inl NonNumericCharacter)"
  by pat_completeness auto
termination
proof (relation "measure (\<lambda>(s, _, _). length s)")
  fix s acc :: string and digits :: nat and c rest p
  assume s: "s = c # rest" and "find (\<lambda>p. p \<noteq> [] \<and> prefix p s) go_spaces = Some p"
  then have "p \<noteq> []" by (auto simp: find_Some_iff)
  then show "((drop (length p) s, acc, digits), s, acc, digits) \<in> measure (\<lambda>(s, _, _). length s)"
    using s drop_shrinks [of "length p" s] by simp
qed auto

declare keep_digits.simps [simp del]

definition user_part :: "sms_error \<Rightarrow> string \<Rightarrow> sms_error + string" where
  "user_part err v =
     (case index_of [CHR 0x40] v of
        None \<Rightarrow> Inl err
      | Some at_pos \<Rightarrow> if at_pos = 0 then Inl err else Inr (take at_pos v))"

definition normalizeRPServiceCentreAddress :: "string \<Rightarrow> sms_error + string" where
  "normalizeRPServiceCentreAddress raw =
     (let value = TrimSpace raw in
      if value = [] then Inl ServiceCentreEmpty
      else let lower = ToLower value in
      res_bind
        (if prefix ''sip:'' lower then user_part SipNoUser (drop 4 value)
         else if prefix ''sips:'' lower then user_part SipsNoUser (drop 5 value)
         else if prefix ''tel:'' lower then
           Inr (takeWhile (\<lambda>c. c \<noteq> CHR 0x3B \<and> c \<noteq> CHR 0x3F) (drop 4 value))
         else if list_ex (\<lambda>c. c = CHR 0x40 \<or> c = CHR 0x3A) value then Inl ServiceCentreNotNumeric
         else Inr value)
        (\<lambda>v. res_bind (keep_digits (TrimSpace v) [] 0) (\<lambda>(normalized, digits).
           if digits = 0 \<or> digits > 20 then Inl BadDigitCount else Inr normalized)))"

definition BuildRPDataStrict :: "byte \<Rightarrow> byte list \<Rightarrow> string \<Rightarrow> sms_error + byte list" where
  "BuildRPDataStrict rpMr tpdu smsc =
     res_bind (normalizeRPServiceCentreAddress smsc) (\<lambda>normalized.
       if length tpdu > 232 then Inl TpduTooLong
       else Inr (buildRPData rpMr tpdu (EncodeAddress normalized)))"

definition BuildRPAck :: "byte \<Rightarrow> byte list" where
  "BuildRPAck rpMr = [0x02, rpMr]"

definition RPCauseTemporaryFailure :: byte where
  "RPCauseTemporaryFailure = 41"

definition BuildRPError :: "byte \<Rightarrow> byte \<Rightarrow> byte list" where
  "BuildRPError rpMr cause = [0x04, rpMr, 0x01, cause, 0x00]"

definition IsShortCode :: "string \<Rightarrow> bool" where
  "IsShortCode phone \<longleftrightarrow>
     \<not> prefix ''+'' phone \<and> dropWhile is_digit phone = [] \<and> length phone \<le> 6"

definition SetSubmitMessageReference :: "byte list \<Rightarrow> byte \<Rightarrow> sms_error + byte list" where
  "SetSubmitMessageReference tpdu mr =
     (if length tpdu < 2 then Inl SubmitTooShort
      else if tpdu ! 0 AND 0x03 \<noteq> 0x01 then Inl NotSubmit
      else Inr (tpdu[1 := mr]))"

section \<open>Addresses: encode and decode\<close>

lemma low_nibble: "unat (b AND 0x0F) = unat (b :: byte) mod 16"
proof -
  have "b AND 0x0F = take_bit 4 b" by (simp add: take_bit_eq_mask mask_eq_exp_minus_1)
  then show ?thesis by (simp add: take_bit_eq_mod unat_mod)
qed

lemma high_nibble: "unat (drop_bit 4 b AND 0x0F) = unat (b :: byte) div 16"
proof -
  have "unat (drop_bit 4 b) = unat b div 16" by (simp add: drop_bit_eq_div unat_div)
  moreover have "unat b div 16 < 16" using unat_byte_less [of b] by linarith
  ultimately show ?thesis by (simp add: low_nibble)
qed

lemma nibbles_or:
  assumes "unat (a :: byte) < 16" and "unat (b :: byte) < 16"
  shows "unat (a OR push_bit 4 b) = unat b * 16 + unat a"
proof -
  have p: "unat (push_bit 4 b) = unat b * 16"
    using assms(2) by (simp add: push_bit_eq_mult unat_word_ariths)
  have "bit a i \<Longrightarrow> i < 4" for i
  proof (rule ccontr)
    assume "bit a i" and "\<not> i < 4"
    then have "bit (unat a) i" by (simp add: bit_unsigned_iff)
    then have "2 ^ i \<le> unat a" by (metis bit_iff_odd div_less even_zero not_le)
    moreover have "(2 :: nat) ^ 4 \<le> 2 ^ i" using \<open>\<not> i < 4\<close> by (intro power_increasing) auto
    ultimately show False using assms(1) by simp
  qed
  then have disj: "a AND push_bit 4 b = 0"
    by (intro bit_eqI) (fastforce simp: bit_and_iff bit_push_bit_iff)
  then have "a OR push_bit 4 b = a + push_bit 4 b" using disjunctive_add_eq_or by metis
  then show ?thesis using assms p by (simp add: unat_word_ariths)
qed

lemma digit_of_digit: "is_digit c \<Longrightarrow> unat (digit_of c) = char_code c - 48 \<and> unat (digit_of c) < 10"
proof -
  assume d: "is_digit c"
  then have "48 \<le> (of_nat (char_code c) :: byte)" by (simp add: is_digit_def word_le_nat_alt)
  then have "unat (digit_of c) = char_code c - 48" unfolding digit_of_def by (simp add: unat_sub)
  then show ?thesis using d by (auto simp: is_digit_def)
qed

lemma bcd_half_digit:
  assumes "is_digit c" and "unat d = char_code c - 48"
  shows "bcd_half d = Inr [c]"
proof -
  have "unat d \<le> 9" using assms unfolding is_digit_def by linarith
  then have "d \<le> 9" by (simp add: word_le_nat_alt)
  moreover have "byte_char (48 + unat d) = c" using assms by (simp add: byte_char_def is_digit_def)
  ultimately show ?thesis by (simp add: bcd_half_def)
qed

lemma bcd_half_filler: "unat d = 15 \<Longrightarrow> bcd_half d = Inr []"
proof -
  assume *: "unat d = 15"
  then have "d = 0x0F" by (simp add: word_unat_eq_iff)
  then show ?thesis by (simp add: bcd_half_def)
qed

lemma decode_encode_bcd: "list_all is_digit ds \<Longrightarrow> decode_bcd (encode_bcd ds) = Inr ds"
proof (induction ds rule: encode_bcd.induct)
  case (2 a)
  note d = digit_of_digit [of a]
  define v where "v = digit_of a OR 0xF0"
  have p: "push_bit 4 (0x0F :: byte) = 0xF0" by code_simp
  have u: "unat v = 240 + unat (digit_of a)"
    using 2 d nibbles_or [of "digit_of a" "0x0F"] unfolding p v_def by simp
  have m: "(240 + k) mod 16 = k" "(240 + k) div 16 = 15" if "k < 10" for k :: nat
  proof -
    have "240 + k = k + 15 * 16" by simp
    then show "(240 + k) mod 16 = k" "(240 + k) div 16 = 15"
      using that by (simp_all only: mod_mult_self1 div_mult_self1) simp_all
  qed
  have "bcd_half (v AND 0x0F) = Inr [a]"
    using 2 d by (intro bcd_half_digit) (simp_all add: low_nibble u m)
  moreover have "bcd_half (drop_bit 4 v AND 0x0F) = Inr []"
    using 2 d by (intro bcd_half_filler) (simp add: high_nibble u m)
  ultimately show ?case by (simp add: v_def)
next
  case (3 a b s)
  note d = digit_of_digit [of a] digit_of_digit [of b]
  let ?o = "digit_of a OR push_bit 4 (digit_of b)"
  have u: "unat ?o = unat (digit_of b) * 16 + unat (digit_of a)"
    using 3 d by (intro nibbles_or) auto
  define v where "v = ?o"
  have u': "unat v = unat (digit_of b) * 16 + unat (digit_of a)" using u by (simp add: v_def)
  have "bcd_half (v AND 0x0F) = Inr [a]"
    using 3 d u' by (intro bcd_half_digit) (auto simp: low_nibble)
  moreover have "bcd_half (drop_bit 4 v AND 0x0F) = Inr [b]"
    using 3 d u' by (intro bcd_half_digit) (auto simp: high_nibble)
  ultimately show ?case using 3 by (simp add: v_def)
qed simp

lemma length_encode_bcd: "length (encode_bcd ds) = (length ds + 1) div 2"
  by (induction ds rule: encode_bcd.induct) auto

text \<open>A number as the codec keeps it: an optional plus, then digits.\<close>

definition number_form :: "string \<Rightarrow> bool" where
  "number_form s \<longleftrightarrow> s \<noteq> [] \<and> list_all is_digit (if hd s = CHR 0x2B then tl s else s)"

lemma digit_printable: "is_digit c \<Longrightarrow> printable c"
  by (simp add: is_digit_def printable_def)

lemma plus_printable: "printable (CHR 0x2B)"
  by (simp add: printable_def)

lemma number_form_printable: "number_form s \<Longrightarrow> \<forall>c \<in> set s. printable c"
  by (cases s) (auto simp: number_form_def list_all_iff digit_printable plus_printable split: if_splits)

lemma encode_number:
  assumes "number_form n" and "length n \<le> 500"
  obtains v where "EncodeAddress n = of_nat (length v) # v" and "v \<noteq> []" and "length v \<le> 252"
    and "DecodeAddressValue v = Inr n"
proof -
  define plus where "plus = (hd n = CHR 0x2B)"
  define ds where "ds = (if plus then tl n else n)"
  define ton :: byte where "ton = (if plus then 0x91 else 0x81)"
  have ds: "list_all is_digit ds" "n \<noteq> []" using assms(1) by (auto simp: number_form_def plus_def ds_def)
  have n: "n = (if plus then ''+'' else []) @ ds" using ds(2) by (cases n) (auto simp: plus_def ds_def)
  have "EncodeAddress n = of_nat (length (ton # encode_bcd ds)) # ton # encode_bcd ds"
    using ds(2) TrimSpace_printable [OF number_form_printable [OF assms(1)]]
    by (simp add: EncodeAddress_def Let_def plus_def ds_def ton_def)
  moreover have "length (ton # encode_bcd ds) \<le> 252"
  proof -
    have "length ds \<le> 500" using assms(2) by (auto simp: ds_def)
    then show ?thesis by (simp add: length_encode_bcd)
  qed
  moreover have "DecodeAddressValue (ton # encode_bcd ds) = Inr n"
    using decode_encode_bcd [OF ds(1)] n by (auto simp: DecodeAddressValue_def ton_def)
  ultimately show ?thesis using that by blast
qed

text \<open>A telephone number of digits, with or without an international prefix, is the
  same after it is encoded as an RP address and decoded again, and the length octet counts the
  value's octets.\<close>

theorem address_round_trip:
  assumes "number_form n" and "length n \<le> 500"
  shows "DecodeAddressValue (tl (EncodeAddress n)) = Inr n \<and>
    unat (hd (EncodeAddress n)) = length (tl (EncodeAddress n))"
  by (rule encode_number [OF assms]) simp

theorem address_round_trip_witness:
  "DecodeAddressValue (tl (EncodeAddress ''+4917099'')) = Inr ''+4917099'' \<and>
    unat (hd (EncodeAddress ''+4917099'')) = length (tl (EncodeAddress ''+4917099''))"
proof (rule address_round_trip)
  show "number_form ''+4917099''" by code_simp
qed simp

section \<open>RP messages: build and parse\<close>

lemma take_lv_append:
  "length v < 256 \<Longrightarrow> take_lv e1 e2 (of_nat (length v) # v @ rest) = Inr (v, rest)"
  by (simp add: take_lv_def)

lemma take_lv_zero: "take_lv e1 e2 (0 # rest) = Inr ([], rest)"
  by (simp add: take_lv_def)

lemma take_lv_shrinks:
  "take_lv e1 e2 bs = Inr (v, rest) \<Longrightarrow> \<exists>n. bs = n # v @ rest \<and> unat n = length v"
  by (auto simp: take_lv_def split: list.splits if_splits)

lemma parse_built:
  assumes "EncodeAddress n = of_nat (length v) # v" and "v \<noteq> []" and "length v \<le> 252"
    and "DecodeAddressValue v = Inr n" and "length tpdu \<le> 255"
  shows "ParseRPDataWithAddresses (buildRPData mr tpdu (EncodeAddress n)) = Inr (mr, [], n, tpdu)"
    and "ParseRPData (buildRPData mr tpdu (EncodeAddress n)) = Inr (mr, tpdu)"
    and "Kind (ClassifyRPDU (buildRPData mr tpdu (EncodeAddress n))) = RPDUKindData"
    and "MR (ClassifyRPDU (buildRPData mr tpdu (EncodeAddress n))) = mr"
proof -
  let ?b = "buildRPData mr tpdu (EncodeAddress n)"
  have b: "?b = [0, mr] @ 0 # of_nat (length v) # v @ of_nat (length tpdu) # tpdu @ []"
    by (simp add: buildRPData_def assms(1))
  have lv: "take_lv e1 e2 (of_nat (length v) # v @ of_nat (length tpdu) # tpdu @ []) =
      Inr (v, of_nat (length tpdu) # tpdu @ [])"
    "take_lv e1 e2 (of_nat (length tpdu) # tpdu @ []) = Inr (tpdu, [])" for e1 e2
    using assms(3,5) take_lv_append [of tpdu e1 e2 "[]"] by (auto intro: take_lv_append)
  have len: "5 \<le> length ?b" using assms(2) by (cases v) (simp_all add: b)
  have at1: "?b ! 1 = mr" and d2: "drop 2 ?b = 0 # of_nat (length v) # v @ of_nat (length tpdu) # tpdu @ []"
    by (simp_all add: b)
  show "ParseRPDataWithAddresses ?b = Inr (mr, [], n, tpdu)"
    using len assms(2,4)
    unfolding ParseRPDataWithAddresses_def d2 at1 take_lv_zero res_bind_Inr lv prod.case
    by (simp add: address_or_empty_def)
  show "ParseRPData ?b = Inr (mr, tpdu)"
    using len unfolding ParseRPData_def d2 at1 take_lv_zero res_bind_Inr lv prod.case by simp
  show "Kind (ClassifyRPDU ?b) = RPDUKindData" "MR (ClassifyRPDU ?b) = mr"
    by (simp_all add: ClassifyRPDU_def b Let_def)
qed

text \<open>The codec of the RP-DATA messages this side sends, as the interface of the prelude.\<close>

definition rp_data_fits :: "byte \<times> byte list \<times> string \<Rightarrow> bool" where
  "rp_data_fits = (\<lambda>(mr, tpdu, n). number_form n \<and> length n \<le> 500 \<and> length tpdu \<le> 255)"

interpretation rp_data: wire_codec "\<lambda>(mr, tpdu, n). BuildRPData mr tpdu n"
    "\<lambda>b. res_bind (ParseRPDataWithAddresses b) (\<lambda>(mr, oa, da, ud). Inr (mr, ud, da))" rp_data_fits
proof
  fix x assume "rp_data_fits x"
  then obtain mr tpdu n where x: "x = (mr, tpdu, n)" "number_form n" "length n \<le> 500" "length tpdu \<le> 255"
    by (auto simp: rp_data_fits_def)
  from encode_number [OF x(2,3)] obtain v where "EncodeAddress n = of_nat (length v) # v" "v \<noteq> []"
    "length v \<le> 252" "DecodeAddressValue v = Inr n" by blast
  from parse_built(1) [OF this x(4), of mr]
  show "res_bind (ParseRPDataWithAddresses (case x of (mr, tpdu, n) \<Rightarrow> BuildRPData mr tpdu n))
      (\<lambda>(mr, oa, da, ud). Inr (mr, ud, da)) = Inr x"
    by (simp add: x(1) BuildRPData_def)
qed

text \<open>an RP-DATA message parses back to the reference, destination number and TPDU it
  was built from, so different messages never have the same encoding.\<close>

theorem rp_data_round_trip:
  assumes "rp_data_fits (mr, tpdu, n)" and "rp_data_fits (mr', tpdu', n')"
  shows "res_bind (ParseRPDataWithAddresses (BuildRPData mr tpdu n)) (\<lambda>(m, oa, da, ud). Inr (m, ud, da)) =
      Inr (mr, tpdu, n) \<and>
    (BuildRPData mr tpdu n = BuildRPData mr' tpdu' n' \<longleftrightarrow> (mr, tpdu, n) = (mr', tpdu', n'))"
  using rp_data.dec_enc [OF assms(1)] rp_data.enc_eq_iff [OF assms] by simp

theorem rp_data_round_trip_witness:
  "res_bind (ParseRPDataWithAddresses (BuildRPData 7 [1, 2] ''+49'')) (\<lambda>(m, oa, da, ud). Inr (m, ud, da)) =
      Inr (7, [1, 2], ''+49'') \<and>
    (BuildRPData 7 [1, 2] ''+49'' = BuildRPData 7 [1, 2] ''49'' \<longleftrightarrow>
      (7 :: byte, [1, 2 :: byte], ''+49'') = (7, [1, 2], ''49''))"
proof (rule rp_data_round_trip)
  show "rp_data_fits (7, [1, 2], ''+49'')" "rp_data_fits (7, [1, 2], ''49'')" by code_simp+
qed

subsection \<open>The strict builder\<close>

lemma keep_digits_step:
  "is_digit c \<Longrightarrow> keep_digits (c # rest) acc k = keep_digits rest (acc @ [c]) (k + 1)"
  "keep_digits (CHR 0x2B # rest) [] k = keep_digits rest [CHR 0x2B] k"
  "\<not> is_digit c \<Longrightarrow> \<not> (c = CHR 0x2B \<and> acc = []) \<Longrightarrow>
     c = CHR 0x2D \<or> c = CHR 0x28 \<or> c = CHR 0x29 \<Longrightarrow> keep_digits (c # rest) acc k = keep_digits rest acc k"
  by (subst keep_digits.simps, force simp: is_digit_def)+

lemma keep_digits_form:
  "keep_digits s acc k = Inr (n, k') \<Longrightarrow>
     list_all is_digit (if acc \<noteq> [] \<and> hd acc = CHR 0x2B then tl acc else acc) \<Longrightarrow>
     length acc \<le> k + 1 \<Longrightarrow> (acc = [] \<longrightarrow> k = 0) \<Longrightarrow>
     list_all is_digit (if n \<noteq> [] \<and> hd n = CHR 0x2B then tl n else n) \<and> length n \<le> k' + 1 \<and>
     (n = [] \<longrightarrow> k' = 0)"
proof (induction s acc k rule: keep_digits.induct)
  case (1 s acc k)
  show ?case
  proof (cases s)
    case Nil
    then have "n = acc" "k' = k" using "1.prems"(1) by (simp_all add: keep_digits.simps)
    then show ?thesis using "1.prems"(2-4) by blast
  next
    case (Cons c rest)
    consider (digit) "is_digit c" | (plus) "\<not> is_digit c" "c = CHR 0x2B" "acc = []"
      | (dash) "\<not> is_digit c" "\<not> (c = CHR 0x2B \<and> acc = [])" "c = CHR 0x2D \<or> c = CHR 0x28 \<or> c = CHR 0x29"
      | (other) "\<not> is_digit c" "\<not> (c = CHR 0x2B \<and> acc = [])" "\<not> (c = CHR 0x2D \<or> c = CHR 0x28 \<or> c = CHR 0x29)"
      by blast
    then show ?thesis
    proof cases
      case digit
      have "keep_digits rest (acc @ [c]) (k + 1) = Inr (n, k')"
        using "1.prems"(1) Cons digit by (simp add: keep_digits_step)
      moreover have "list_all is_digit (if acc @ [c] \<noteq> [] \<and> hd (acc @ [c]) = CHR 0x2B then tl (acc @ [c]) else acc @ [c])"
      proof -
        have "c \<noteq> CHR 0x2B" using digit by (auto simp: is_digit_def)
        then show ?thesis using "1.prems"(2) digit by (cases acc) auto
      qed
      ultimately show ?thesis using "1.IH"(1) [OF Cons digit] "1.prems" by simp
    next
      case plus
      have "keep_digits rest (acc @ [c]) k = Inr (n, k')"
        using "1.prems"(1) Cons plus by (simp add: keep_digits_step)
      then show ?thesis using "1.IH"(2) [OF Cons plus(1)] plus "1.prems" by simp
    next
      case dash
      have "keep_digits rest acc k = Inr (n, k')"
        using "1.prems"(1) keep_digits_step(3) [OF dash] Cons by simp
      then show ?thesis using "1.IH"(3) [OF Cons dash] "1.prems" by simp
    next
      case other
      then obtain p where p: "find (\<lambda>p. p \<noteq> [] \<and> prefix p s) go_spaces = Some p"
        using "1.prems"(1) Cons by (auto simp: keep_digits.simps [of "c # rest"] split: option.splits)
      have "keep_digits (drop (length p) s) acc k = Inr (n, k')"
        using "1.prems"(1) Cons other p by (simp add: keep_digits.simps [of "c # rest"])
      then show ?thesis using "1.IH"(4) [OF Cons other p] "1.prems" by simp
    qed
  qed
qed

lemma normalized_form:
  assumes "normalizeRPServiceCentreAddress raw = Inr n"
  shows "number_form n" and "length n \<le> 21"
proof -
  obtain v k where k: "keep_digits v [] 0 = Inr (n, k)" and "k \<noteq> 0" "k \<le> 20"
    using assms by (auto simp: normalizeRPServiceCentreAddress_def Let_def res_simps split: if_splits)
  then show "number_form n" "length n \<le> 21"
    using keep_digits_form [OF k] by (auto simp: number_form_def)
qed

text \<open>The strict builder never sends a message that the parser reads differently: when it
  succeeds, the service-centre address is a number of at most 20 digits, and the message is an
  RP-DATA that parses back to the reference, that number and the TPDU.\<close>

theorem strict_rp_data_parses:
  assumes "BuildRPDataStrict mr tpdu smsc = Inr b"
  shows "\<exists>n. normalizeRPServiceCentreAddress smsc = Inr n \<and> number_form n \<and> length n \<le> 21 \<and>
    length tpdu \<le> 232 \<and> Kind (ClassifyRPDU b) = RPDUKindData \<and> MR (ClassifyRPDU b) = mr \<and>
    ParseRPData b = Inr (mr, tpdu) \<and> ParseRPDataWithAddresses b = Inr (mr, [], n, tpdu)"
proof -
  obtain n where n: "normalizeRPServiceCentreAddress smsc = Inr n" "length tpdu \<le> 232"
      and b: "b = buildRPData mr tpdu (EncodeAddress n)"
    using assms by (auto simp: BuildRPDataStrict_def res_simps split: if_splits)
  note f = normalized_form [OF n(1)]
  have "length n \<le> 500" using f(2) by simp
  from encode_number [OF f(1) this] obtain v where v: "EncodeAddress n = of_nat (length v) # v" "v \<noteq> []"
    "length v \<le> 252" "DecodeAddressValue v = Inr n" by blast
  have "length tpdu \<le> 255" using n(2) by simp
  from parse_built [OF v this, of mr] show ?thesis using n f by (simp add: b)
qed

theorem strict_rp_data_parses_witness:
  "let b = [0, 9, 0, 4, 0x91, 0x94, 0x71, 0xF0, 3, 1, 2, 3] in
   \<exists>n. normalizeRPServiceCentreAddress ''tel:+49-170;a'' = Inr n \<and> number_form n \<and>
    length n \<le> 21 \<and> length [1, 2, 3 :: byte] \<le> 232 \<and> Kind (ClassifyRPDU b) = RPDUKindData \<and>
    MR (ClassifyRPDU b) = 9 \<and> ParseRPData b = Inr (9, [1, 2, 3]) \<and>
    ParseRPDataWithAddresses b = Inr (9, [], n, [1, 2, 3])"
  unfolding Let_def
proof (rule strict_rp_data_parses)
  show "BuildRPDataStrict 9 [1, 2, 3] ''tel:+49-170;a'' =
    Inr [0, 9, 0, 4, 0x91, 0x94, 0x71, 0xF0, 3, 1, 2, 3]" by code_simp
qed

subsection \<open>Hexadecimal text is read back\<close>

lemma hex_digit_value: "n < 16 \<Longrightarrow> is_hex_char (hex_digit n) \<and> hex_value (hex_digit n) = n"
  by (simp add: hex_digit_def is_hex_char_def hex_value_def is_digit_def char_code_byte_char)

lemma hex_decode_encode [simp]: "hex_decode (hex_encode bs) = Some bs"
proof (induction bs)
  case Nil
  show ?case by (simp add: hex_encode_def)
next
  case (Cons b bs)
  have "unat b div 16 < 16" "unat b mod 16 < 16"
    using unat_byte_less [of b] by (simp_all add: less_mult_imp_div_less)
  then show ?case
    using Cons.IH by (simp add: hex_encode_def hex_digit_value)
qed

lemma upper_digit_printable: "n < 16 \<Longrightarrow> printable (upper_char (hex_digit n))"
  by (auto simp: upper_char_def hex_digit_def printable_def char_code_byte_char)

lemma upper_hex_printable: "\<forall>c \<in> set (ToUpper (hex_encode bs)). printable c"
proof -
  have "unat b div 16 < 16" for b :: byte using unat_byte_less [of b] by (simp add: less_mult_imp_div_less)
  then show ?thesis by (auto simp: hex_encode_def ToUpper_def upper_digit_printable)
qed

lemma hex_char_upper:
  assumes "is_hex_char c"
  shows "is_hex_char (upper_char c) \<and> hex_value (upper_char c) = hex_value c \<and> printable (upper_char c) \<and> printable c"
  using assms
  by (auto simp: is_hex_char_def is_digit_def hex_value_def upper_char_def printable_def char_code_byte_char)

lemma hex_decode_upper: "hex_decode s = Some bs \<Longrightarrow> hex_decode (ToUpper s) = Some bs"
  by (induction s arbitrary: bs rule: hex_decode.induct) (auto simp: ToUpper_def hex_char_upper split: if_splits)

lemma hex_decode_printable: "hex_decode s = Some bs \<Longrightarrow> \<forall>c \<in> set (ToUpper s). printable c"
  by (induction s arbitrary: bs rule: hex_decode.induct) (auto simp: ToUpper_def hex_char_upper split: if_splits)

end
