(* ===== verification/MbimWire.thy ===== *)
theory MbimWire
  imports GoPrelude
begin

section \<open>MBIM messages and fragments\<close>

text \<open>
  \<^verbatim>\<open>pkg/mbim/message.go\<close>, \<^verbatim>\<open>pkg/mbim/fragment.go\<close>, \<^verbatim>\<open>pkg/mbim/transport.go\<close> and the message types of
  \<^verbatim>\<open>pkg/mbim/protocol.go\<close>: the little-endian fields, the message header, the OPEN, CLOSE and COMMAND
  messages, the split of a long COMMAND into fragments, the collector that puts the fragments of
  a response together, and the stream transport that cuts a byte stream into messages.  A UUID is
  a list of 16 bytes.
\<close>

subsection \<open>Little-endian fields\<close>

definition le_put16 :: "u16 \<Rightarrow> byte list" where "le_put16 w = rev (put16 w)"
definition le_put32 :: "u32 \<Rightarrow> byte list" where "le_put32 w = rev (put32 w)"
definition le_put64 :: "u64 \<Rightarrow> byte list" where "le_put64 w = rev (put64 w)"

text \<open>\<^verbatim>\<open>le.Uint32(b[i:])\<close> and its siblings, where the bounds are known.\<close>

definition le_u16 :: "byte list \<Rightarrow> nat \<Rightarrow> u16" where "le_u16 b i = get16 (rev (subslice b i (i + 2)))"
definition le_u32 :: "byte list \<Rightarrow> nat \<Rightarrow> u32" where "le_u32 b i = get32 (rev (subslice b i (i + 4)))"
definition le_u64 :: "byte list \<Rightarrow> nat \<Rightarrow> u64" where "le_u64 b i = get64 (rev (subslice b i (i + 8)))"

lemma length_le_put [simp, wire_simps]:
  "length (le_put16 w) = 2" "length (le_put32 v) = 4" "length (le_put64 u) = 8"
  by (simp_all add: le_put16_def le_put32_def le_put64_def)

lemma subslice_head: "length xs = n \<Longrightarrow> subslice (xs @ ys) 0 n = xs"
  by (simp add: subslice_def)

lemma subslice_all: "length xs = n \<Longrightarrow> subslice xs 0 n = xs"
  by (simp add: subslice_def)

lemma subslice_skip: "length xs \<le> i \<Longrightarrow> i \<le> j \<Longrightarrow> subslice (xs @ ys) i j = subslice ys (i - length xs) (j - length xs)"
  by (simp add: subslice_def)

lemma le_u16_head [simp, wire_simps]: "le_u16 (le_put16 w @ ys) 0 = w" "le_u16 (le_put16 w) 0 = w"
  by (simp_all add: le_u16_def le_put16_def subslice_head subslice_all)

lemma le_u32_head [simp, wire_simps]: "le_u32 (le_put32 w @ ys) 0 = w" "le_u32 (le_put32 w) 0 = w"
  by (simp_all add: le_u32_def le_put32_def subslice_head subslice_all)

lemma le_u64_head [simp, wire_simps]: "le_u64 (le_put64 w @ ys) 0 = w" "le_u64 (le_put64 w) 0 = w"
  by (simp_all add: le_u64_def le_put64_def subslice_head subslice_all)

lemma le_u16_skip [wire_simps]: "length xs \<le> i \<Longrightarrow> le_u16 (xs @ ys) i = le_u16 ys (i - length xs)"
  by (simp add: le_u16_def subslice_skip Suc_diff_le)

lemma le_u32_skip [wire_simps]: "length xs \<le> i \<Longrightarrow> le_u32 (xs @ ys) i = le_u32 ys (i - length xs)"
  by (simp add: le_u32_def subslice_skip)

lemma le_u64_skip [wire_simps]: "length xs \<le> i \<Longrightarrow> le_u64 (xs @ ys) i = le_u64 ys (i - length xs)"
  by (simp add: le_u64_def subslice_skip)

lemma le_u32_prefix: "i + 4 \<le> length xs \<Longrightarrow> le_u32 (xs @ ys) i = le_u32 xs i"
  by (simp add: le_u32_def subslice_append_left)

subsection \<open>Messages\<close>

type_synonym uuid = "byte list"

definition headerLen :: nat where "headerLen = 12"
definition fragHdrLen :: nat where "fragHdrLen = 8"
definition uuidLen :: nat where "uuidLen = 16"
definition openBodyLen :: nat where "openBodyLen = 4"

definition MessageTypeOpen :: u32 where "MessageTypeOpen = 0x00000001"
definition MessageTypeClose :: u32 where "MessageTypeClose = 0x00000002"
definition MessageTypeCommand :: u32 where "MessageTypeCommand = 0x00000003"
definition MessageTypeOpenDone :: u32 where "MessageTypeOpenDone = 0x80000001"
definition MessageTypeCloseDone :: u32 where "MessageTypeCloseDone = 0x80000002"
definition MessageTypeCommandDone :: u32 where "MessageTypeCommandDone = 0x80000003"
definition MessageTypeIndicateStatus :: u32 where "MessageTypeIndicateStatus = 0x80000007"

definition CommandTypeQuery :: u32 where "CommandTypeQuery = 0"
definition CommandTypeSet :: u32 where "CommandTypeSet = 1"

definition putHeader :: "u32 \<Rightarrow> u32 \<Rightarrow> u32 \<Rightarrow> byte list" where
  "putHeader mt len txID = le_put32 mt @ le_put32 len @ le_put32 txID"

definition encodeOpen :: "u32 \<Rightarrow> u32 \<Rightarrow> byte list" where
  "encodeOpen txID maxControlTransfer =
     putHeader MessageTypeOpen (of_nat (headerLen + openBodyLen)) txID @ le_put32 maxControlTransfer"

definition encodeClose :: "u32 \<Rightarrow> byte list" where
  "encodeClose txID = putHeader MessageTypeClose (of_nat headerLen) txID"

definition encodeCommand :: "u32 \<Rightarrow> uuid \<Rightarrow> u32 \<Rightarrow> u32 \<Rightarrow> byte list \<Rightarrow> byte list" where
  "encodeCommand txID service cid ct info =
     (let bodyLen = fragHdrLen + uuidLen + 4 + 4 + 4 + length info in
      putHeader MessageTypeCommand (of_nat (headerLen + bodyLen)) txID @
      le_put32 1 @ le_put32 0 @ service @ le_put32 cid @ le_put32 ct @
      le_put32 (of_nat (length info)) @ info)"

record msg_header =
  MsgType :: u32
  MsgLength :: u32
  TransactionID :: u32

datatype mbim_error =
    ShortMessage | ShortFragment | FirstFragmentNotZero | ShortFirstFragment | OutOfOrder
  | NoData | ReassembledTooShort | BadMessageLength | MessageTooLong
  | EOF | UnexpectedEOF | NoProgress | ShortWrite | IOFailure

definition decodeHeader :: "byte list \<Rightarrow> mbim_error + msg_header" where
  "decodeHeader b =
     (if length b < headerLen then Inl ShortMessage
      else Inr \<lparr>MsgType = le_u32 b 0, MsgLength = le_u32 b 4, TransactionID = le_u32 b 8\<rparr>)"

record command_done =
  Service :: uuid
  CID :: u32
  Status :: u32
  InfoBuffer :: "byte list"

subsection \<open>The collector\<close>

definition fixedDoneOffset :: nat where
  "fixedDoneOffset = headerLen + fragHdrLen + uuidLen + 4 + 4 + 4"

definition fixedCmdOffset :: nat where
  "fixedCmdOffset = headerLen + fragHdrLen + uuidLen + 4 + 4 + 4"

record collector =
  started :: bool
  total_frags :: u32
  next_frag :: u32
  c_service :: uuid
  c_cid :: u32
  c_status :: u32
  fullLen :: u32
  c_info :: "byte list"

definition newCollector :: collector where
  "newCollector = \<lparr>started = False, total_frags = 0, next_frag = 0, c_service = replicate 16 0, c_cid = 0,
     c_status = 0, fullLen = 0, c_info = []\<rparr>"

definition add_fragment :: "collector \<Rightarrow> byte list \<Rightarrow> mbim_error + (bool \<times> collector)" where
  "add_fragment c b =
     (if length b < headerLen + fragHdrLen then Inl ShortFragment
      else let tot = le_u32 b 12; current = le_u32 b 16 in
      if \<not> started c then
        if current \<noteq> 0 then Inl FirstFragmentNotZero
        else if length b < fixedDoneOffset then Inl ShortFirstFragment
        else
          let c' = c\<lparr>c_service := subslice b 20 36, c_cid := le_u32 b 36, c_status := le_u32 b 40,
                fullLen := le_u32 b 44, total_frags := tot, next_frag := 1, started := True,
                c_info := c_info c @ drop fixedDoneOffset b\<rparr>
          in Inr (total_frags c' \<le> next_frag c', c')
      else if current \<noteq> next_frag c then Inl OutOfOrder
      else
        let c' = c\<lparr>next_frag := next_frag c + 1, c_info := c_info c @ drop (headerLen + fragHdrLen) b\<rparr>
        in Inr (total_frags c' \<le> next_frag c', c'))"

definition commandDone :: "collector \<Rightarrow> mbim_error + command_done" where
  "commandDone c =
     (if \<not> started c then Inl NoData
      else if unat (fullLen c) > length (c_info c) then Inl ReassembledTooShort
      else Inr \<lparr>Service = c_service c, CID = c_cid c, Status = c_status c,
                InfoBuffer = take (unat (fullLen c)) (c_info c)\<rparr>)"

subsection \<open>The split of a COMMAND\<close>

text \<open>The sizes of the continuation fragments; a capacity of zero, where Go's loop would not end, is
  excluded by the caller.\<close>

function cont_sizes :: "nat \<Rightarrow> nat \<Rightarrow> nat list" where
  "cont_sizes contCap remaining =
     (if remaining = 0 \<or> contCap = 0 then []
      else let n = min contCap remaining in n # cont_sizes contCap (remaining - n))"
  by pat_completeness auto
termination by (relation "measure snd") auto

declare cont_sizes.simps [simp del]

fun cut_sizes :: "nat list \<Rightarrow> 'a list \<Rightarrow> 'a list list" where
  "cut_sizes [] xs = []"
| "cut_sizes (n # ns) xs = take n xs # cut_sizes ns (drop n xs)"

definition first_fragment :: "u32 \<Rightarrow> uuid \<Rightarrow> u32 \<Rightarrow> u32 \<Rightarrow> nat \<Rightarrow> nat \<Rightarrow> byte list \<Rightarrow> byte list" where
  "first_fragment txID service cid ct len tot chunk =
     putHeader MessageTypeCommand (of_nat (fixedCmdOffset + length chunk)) txID @
     le_put32 (of_nat tot) @ le_put32 0 @ service @ le_put32 cid @ le_put32 ct @
     le_put32 (of_nat len) @ chunk"

definition cont_fragment :: "u32 \<Rightarrow> nat \<Rightarrow> nat \<Rightarrow> byte list \<Rightarrow> byte list" where
  "cont_fragment txID tot i chunk =
     putHeader MessageTypeCommand (of_nat (headerLen + fragHdrLen + length chunk)) txID @
     le_put32 (of_nat tot) @ le_put32 (of_nat i) @ chunk"

text \<open>Go computes the capacities as signed integers; the natural difference is zero exactly where
  theirs is not positive.\<close>

definition splitCommand ::
    "u32 \<Rightarrow> uuid \<Rightarrow> u32 \<Rightarrow> u32 \<Rightarrow> byte list \<Rightarrow> u32 \<Rightarrow> byte list list" where
  "splitCommand txID service cid ct info maxControlTransfer =
     (let mx = unat maxControlTransfer;
          firstCap = mx - fixedCmdOffset;
          contCap = mx - (headerLen + fragHdrLen)
      in if firstCap = 0 \<or> contCap = 0 \<or> length info \<le> firstCap
         then [encodeCommand txID service cid ct info]
         else
           let sizes = firstCap # cont_sizes contCap (length info - firstCap);
               tot = length sizes;
               chunks = cut_sizes sizes info
           in first_fragment txID service cid ct (length info) tot (hd chunks) #
              map (\<lambda>(i, chunk). cont_fragment txID tot i chunk) (enumerate 1 (tl chunks)))"

section \<open>Splitting and reassembly\<close>

lemmas mbim_lens = headerLen_def fragHdrLen_def uuidLen_def openBodyLen_def fixedCmdOffset_def fixedDoneOffset_def

lemma length_putHeader [simp, wire_simps]: "length (putHeader mt len tx) = 12"
  by (simp add: putHeader_def)

lemma header_fields:
  "le_u32 (putHeader mt len tx @ r) 0 = mt" "le_u32 (putHeader mt len tx @ r) 4 = len"
  "le_u32 (putHeader mt len tx @ r) 8 = tx"
  by (simp_all add: putHeader_def le_u32_skip)

lemma header_skip: "12 \<le> i \<Longrightarrow> le_u32 (putHeader mt len tx @ r) i = le_u32 r (i - 12)"
  by (simp add: le_u32_skip)

lemma decode_putHeader:
  "decodeHeader (putHeader mt len tx @ r) = Inr \<lparr>MsgType = mt, MsgLength = len, TransactionID = tx\<rparr>"
  by (simp add: decodeHeader_def mbim_lens header_fields)

text \<open>The collector on a list of fragments: whether each completed the message, and the state.\<close>

primrec feed :: "collector \<Rightarrow> byte list list \<Rightarrow> mbim_error + (bool list \<times> collector)" where
  "feed c [] = Inr ([], c)"
| "feed c (m # ms) =
     res_bind (add_fragment c m) (\<lambda>(fin, c').
     res_bind (feed c' ms) (\<lambda>(fins, c''). Inr (fin # fins, c'')))"

lemma add_first:
  assumes "length service = 16" and "\<not> started c"
  shows "add_fragment c (first_fragment tx service cid ct len tot chunk) =
    Inr ((of_nat tot :: u32) \<le> 1,
      c\<lparr>c_service := service, c_cid := cid, c_status := ct, fullLen := of_nat len,
        total_frags := of_nat tot, next_frag := 1, started := True, c_info := c_info c @ chunk\<rparr>)"
proof -
  let ?b = "first_fragment tx service cid ct len tot chunk"
  have f: "le_u32 ?b 12 = of_nat tot" "le_u32 ?b 16 = 0" "le_u32 ?b 36 = cid" "le_u32 ?b 40 = ct"
    "le_u32 ?b 44 = of_nat len"
    using assms(1) by (simp_all add: first_fragment_def header_skip le_u32_skip)
  have s: "subslice ?b 20 36 = service" and d: "drop 48 ?b = chunk" and l: "48 \<le> length ?b"
    using assms(1) by (simp_all add: first_fragment_def subslice_skip subslice_head)
  show ?thesis using assms(2) l by (simp add: add_fragment_def f s d mbim_lens Let_def)
qed

lemma add_cont:
  assumes "started c" and "next_frag c = of_nat i"
  shows "add_fragment c (cont_fragment tx tot i chunk) =
    Inr (total_frags c \<le> next_frag c + 1, c\<lparr>next_frag := next_frag c + 1, c_info := c_info c @ chunk\<rparr>)"
proof -
  let ?b = "cont_fragment tx tot i chunk"
  have f: "le_u32 ?b 16 = of_nat i" and d: "drop 20 ?b = chunk" and l: "20 \<le> length ?b"
    by (simp_all add: cont_fragment_def header_skip le_u32_skip)
  show ?thesis using assms l by (simp add: add_fragment_def f d mbim_lens Let_def)
qed

lemma feed_conts:
  assumes "started c" and "next_frag c = of_nat i" and "total_frags c = of_nat tot"
    and "i + length cs = tot" and "tot < 2 ^ 32"
  shows "feed c (map (\<lambda>(i, chunk). cont_fragment tx tot i chunk) (enumerate i cs)) =
    Inr (map (\<lambda>j. Suc j = tot) [i ..< tot], c\<lparr>next_frag := of_nat tot, c_info := c_info c @ concat cs\<rparr>)"
  using assms
proof (induction cs arbitrary: c i)
  case (Cons chunk cs)
  let ?c = "c\<lparr>next_frag := next_frag c + 1, c_info := c_info c @ chunk\<rparr>"
  have lt: "i < tot" and b: "Suc i < 2 ^ 32 \<or> Suc i = tot" using Cons.prems(4,5) by auto
  have n: "next_frag ?c = of_nat (Suc i)" using Cons.prems(2) by simp
  have fin: "(total_frags c \<le> next_frag c + 1) = (Suc i = tot)"
  proof -
    have "next_frag c + 1 = of_nat (Suc i)" using Cons.prems(2) by simp
    moreover have "unat (of_nat (Suc i) :: u32) = Suc i" "unat (of_nat tot :: u32) = tot"
      using Cons.prems(4,5) by (simp_all only: unat_of_nat_u32) simp_all
    ultimately have "(total_frags c \<le> next_frag c + 1) = (tot \<le> Suc i)"
      using Cons.prems(3) by (simp only: word_le_nat_alt)
    then show ?thesis using lt by auto
  qed
  have "feed ?c (map (\<lambda>(i, chunk). cont_fragment tx tot i chunk) (enumerate (Suc i) cs)) =
    Inr (map (\<lambda>j. Suc j = tot) [Suc i ..< tot],
      ?c\<lparr>next_frag := of_nat tot, c_info := c_info ?c @ concat cs\<rparr>)"
    using Cons.prems n by (intro Cons.IH) simp_all
  then show ?case
    using lt by (simp add: add_cont [OF Cons.prems(1,2)] fin upt_conv_Cons)
qed simp

subsection \<open>The chunks\<close>

lemma cont_sizes_step:
  "0 < n \<Longrightarrow> 0 < cap \<Longrightarrow> cont_sizes cap n = min cap n # cont_sizes cap (n - min cap n)"
  by (subst cont_sizes.simps) (simp add: Let_def)

lemma cont_sizes_facts:
  assumes "0 < cap"
  shows "sum_list (cont_sizes cap n) = n \<and> length (cont_sizes cap n) \<le> n \<and>
    (\<forall>k \<in> set (cont_sizes cap n). k \<le> cap)"
proof (induction n rule: less_induct)
  case (less n)
  show ?case
  proof (cases "n = 0")
    case True
    then show ?thesis by (simp add: cont_sizes.simps)
  next
    case False
    define m where "m = min cap n"
    have m: "0 < m" "m \<le> n" "m \<le> cap" using False assms by (auto simp: m_def)
    then have "n - m < n" by simp
    note ih = less [OF this]
    have "cont_sizes cap n = m # cont_sizes cap (n - m)"
      using False assms unfolding m_def by (intro cont_sizes_step) simp_all
    moreover have "Suc (length (cont_sizes cap (n - m))) \<le> n" using ih m by linarith
    ultimately show ?thesis using ih m by simp
  qed
qed

lemma length_cut_sizes [simp]: "length (cut_sizes ns xs) = length ns"
  by (induction ns arbitrary: xs) auto

lemma concat_cut_sizes: "sum_list ns = length xs \<Longrightarrow> concat (cut_sizes ns xs) = xs"
  by (induction ns arbitrary: xs) auto

lemma cut_sizes_bounded: "\<forall>n \<in> set ns. n \<le> k \<Longrightarrow> c \<in> set (cut_sizes ns xs) \<Longrightarrow> length c \<le> k"
  by (induction ns arbitrary: xs) auto

definition request_fits :: "uuid \<Rightarrow> byte list \<Rightarrow> bool" where
  "request_fits service info \<longleftrightarrow> length service = 16 \<and> length info + 48 < 2 ^ 32"

lemma encodeCommand_first:
  "encodeCommand tx service cid ct info = first_fragment tx service cid ct (length info) 1 info"
  by (simp add: encodeCommand_def first_fragment_def mbim_lens Let_def)

lemma split_shape:
  assumes "request_fits service info"
  obtains chunk cs where
    "splitCommand tx service cid ct info mx =
       first_fragment tx service cid ct (length info) (Suc (length cs)) chunk #
       map (\<lambda>(i, chunk). cont_fragment tx (Suc (length cs)) i chunk) (enumerate 1 cs)"
    and "concat (chunk # cs) = info" and "Suc (length cs) < 2 ^ 32"
    and "48 < unat mx \<longrightarrow> length chunk + 48 \<le> unat mx"
    and "48 < unat mx \<longrightarrow> (\<forall>c \<in> set cs. length c + 20 \<le> unat mx)"
proof (cases "unat mx - 48 = 0 \<or> unat mx - 20 = 0 \<or> length info \<le> unat mx - 48")
  case True
  then have "splitCommand tx service cid ct info mx = [encodeCommand tx service cid ct info]"
    by (auto simp: splitCommand_def mbim_lens Let_def)
  moreover have "48 < unat mx \<longrightarrow> length info + 48 \<le> unat mx" using True by linarith
  ultimately show ?thesis using that [of "[]" info] by (simp add: encodeCommand_first)
next
  case False
  define sizes where "sizes = cont_sizes (unat mx - 20) (length info - (unat mx - 48))"
  define cs where "cs = cut_sizes sizes (drop (unat mx - 48) info)"
  have cap: "0 < unat mx - 20" using False by simp
  note sz = cont_sizes_facts [OF cap, of "length info - (unat mx - 48)", folded sizes_def]
  have split: "splitCommand tx service cid ct info mx =
       first_fragment tx service cid ct (length info) (Suc (length cs)) (take (unat mx - 48) info) #
       map (\<lambda>(i, chunk). cont_fragment tx (Suc (length cs)) i chunk) (enumerate 1 cs)"
    using False by (simp add: splitCommand_def mbim_lens Let_def sizes_def cs_def)
  have whole: "concat (take (unat mx - 48) info # cs) = info"
    using sz by (simp add: cs_def concat_cut_sizes)
  have few: "Suc (length cs) < 2 ^ 32"
    using sz False assms by (simp add: cs_def request_fits_def) linarith
  have small: "\<forall>c \<in> set cs. length c + 20 \<le> unat mx"
    using sz cap cut_sizes_bounded [of sizes "unat mx - 20"] unfolding cs_def by fastforce
  show ?thesis
    using that [OF split whole few] small False by auto
qed

lemma last_only: "map (\<lambda>j. Suc j = Suc n) [0 ..< Suc n] = replicate n False @ [True]"
  by (rule nth_equalityI) (auto simp: nth_append simp del: upt_Suc)

text \<open>Property C3: a COMMAND of any length, split for any negotiated transfer size, is put together
  again from its fragments: only the last one completes the message, and the collector then
  holds the service, the command and the whole information buffer.\<close>

theorem split_reassembles:
  assumes "request_fits service info"
  shows "\<exists>n c. feed newCollector (splitCommand tx service cid ct info mx) = Inr (replicate n False @ [True], c) \<and>
    length (splitCommand tx service cid ct info mx) = Suc n \<and>
    commandDone c = Inr \<lparr>Service = service, CID = cid, Status = ct, InfoBuffer = info\<rparr>"
proof -
  from split_shape [OF assms] obtain chunk cs where s: "splitCommand tx service cid ct info mx =
       first_fragment tx service cid ct (length info) (Suc (length cs)) chunk #
       map (\<lambda>(i, chunk). cont_fragment tx (Suc (length cs)) i chunk) (enumerate 1 cs)"
    and w: "concat (chunk # cs) = info" and few: "Suc (length cs) < 2 ^ 32" .
  define c where "c = newCollector\<lparr>c_service := service, c_cid := cid, c_status := ct,
      fullLen := of_nat (length info), total_frags := of_nat (Suc (length cs)), next_frag := 1,
      started := True, c_info := chunk\<rparr>"
  have len: "length service = 16" using assms by (simp add: request_fits_def)
  have one: "((of_nat (Suc (length cs)) :: u32) \<le> 1) = (Suc 0 = Suc (length cs))"
  proof -
    have "unat (of_nat (Suc (length cs)) :: u32) = Suc (length cs)"
      using few by (simp only: unat_of_nat_u32) simp
    then show ?thesis by (auto simp: word_le_nat_alt)
  qed
  have first: "add_fragment newCollector (first_fragment tx service cid ct (length info) (Suc (length cs)) chunk) =
      Inr (Suc 0 = Suc (length cs), c)"
    using add_first [OF len, of newCollector] by (simp add: c_def newCollector_def one del: of_nat_Suc)
  have rest: "feed c (map (\<lambda>(i, chunk). cont_fragment tx (Suc (length cs)) i chunk) (enumerate 1 cs)) =
      Inr (map (\<lambda>j. Suc j = Suc (length cs)) [1 ..< Suc (length cs)],
        c\<lparr>next_frag := of_nat (Suc (length cs)), c_info := c_info c @ concat cs\<rparr>)"
    using few by (intro feed_conts) (simp_all add: c_def)
  let ?c = "c\<lparr>next_frag := of_nat (Suc (length cs)), c_info := c_info c @ concat cs\<rparr>"
  have "feed newCollector (splitCommand tx service cid ct info mx) =
      Inr (map (\<lambda>j. Suc j = Suc (length cs)) [0 ..< Suc (length cs)], ?c)"
    unfolding s feed.simps first res_bind_Inr prod.case rest by (simp add: upt_conv_Cons del: upt_Suc)
  moreover have "commandDone ?c = Inr \<lparr>Service = service, CID = cid, Status = ct, InfoBuffer = info\<rparr>"
    using w assms by (auto simp: commandDone_def c_def request_fits_def)
  ultimately show ?thesis using last_only [of "length cs"] by (auto simp: s simp del: upt_Suc)
qed

theorem split_reassembles_witness:
  "\<exists>n c. feed newCollector (splitCommand 5 (replicate 16 7) 9 1 [1, 2, 3, 4, 5] 50) = Inr (replicate n False @ [True], c) \<and>
    length (splitCommand 5 (replicate 16 7) 9 1 [1, 2, 3, 4, 5] 50) = Suc n \<and>
    commandDone c = Inr \<lparr>Service = replicate 16 7, CID = 9, Status = 1, InfoBuffer = [1, 2, 3, 4, 5]\<rparr>"
  by (rule split_reassembles) (simp add: request_fits_def)

lemma enumerate_member: "(i, c) \<in> set (enumerate n cs) \<Longrightarrow> c \<in> set cs"
proof -
  assume "(i, c) \<in> set (enumerate n cs)"
  then have "c \<in> snd ` set (enumerate n cs)" by (rule rev_image_eqI) simp
  then show "c \<in> set cs" by (simp only: set_map [symmetric] map_snd_enumerate)
qed

text \<open>Every fragment carries the transaction and its own length in its header, and none is
  longer than the negotiated transfer size, whatever the length of the request.\<close>

theorem fragments_fit_transfer_size:
  assumes "request_fits service info" and "m \<in> set (splitCommand tx service cid ct info mx)"
  shows "decodeHeader m =
      Inr \<lparr>MsgType = MessageTypeCommand, MsgLength = of_nat (length m), TransactionID = tx\<rparr> \<and>
    (48 < unat mx \<longrightarrow> length m \<le> unat mx)"
proof -
  from split_shape [OF assms(1)] obtain chunk cs where s: "splitCommand tx service cid ct info mx =
       first_fragment tx service cid ct (length info) (Suc (length cs)) chunk #
       map (\<lambda>(i, chunk). cont_fragment tx (Suc (length cs)) i chunk) (enumerate 1 cs)"
    and "concat (chunk # cs) = info" "Suc (length cs) < 2 ^ 32"
    and b: "48 < unat mx \<longrightarrow> length chunk + 48 \<le> unat mx"
      "48 < unat mx \<longrightarrow> (\<forall>c \<in> set cs. length c + 20 \<le> unat mx)" .
  have len: "length service = 16" using assms(1) by (simp add: request_fits_def)
  consider (first) "m = first_fragment tx service cid ct (length info) (Suc (length cs)) chunk"
    | (cont) i c where "m = cont_fragment tx (Suc (length cs)) i c" "c \<in> set cs"
    using assms(2) unfolding s by (auto dest: enumerate_member)
  then show ?thesis
  proof cases
    case first
    then have "length m = 48 + length chunk" using len by (simp add: first_fragment_def)
    then show ?thesis using b(1) first by (auto simp: first_fragment_def decode_putHeader mbim_lens)
  next
    case cont
    then have "length m = 20 + length c" by (simp add: cont_fragment_def)
    then show ?thesis using b(2) cont by (auto simp: cont_fragment_def decode_putHeader mbim_lens)
  qed
qed

theorem fragments_fit_transfer_size_witness:
  "let m = splitCommand 5 (replicate 16 7) 9 1 [1, 2, 3, 4, 5] 50 ! 0 in
   decodeHeader m =
      Inr \<lparr>MsgType = MessageTypeCommand, MsgLength = of_nat (length m), TransactionID = 5\<rparr> \<and>
    (48 < unat (50 :: u32) \<longrightarrow> length m \<le> unat (50 :: u32))"
  unfolding Let_def
proof (rule fragments_fit_transfer_size)
  show "request_fits (replicate 16 7) [1, 2, 3, 4, 5]" by (simp add: request_fits_def)
  have "0 < length (splitCommand 5 (replicate 16 7) 9 1 [1, 2, 3, 4, 5] 50)" by code_simp
  then show "splitCommand 5 (replicate 16 7) 9 1 [1, 2, 3, 4, 5] 50 ! 0 \<in> set (splitCommand 5 (replicate 16 7) 9 1 [1, 2, 3, 4, 5] 50)"
    by (rule nth_mem)
qed

section \<open>The stream transport\<close>

definition maxMessageSize :: nat where "maxMessageSize = 64 * 1024"

text \<open>What \<open>ReadMessage\<close> does with the bytes it has, before it reads more.\<close>

datatype framed = NeedMore | Malformed mbim_error | Framed "byte list" "byte list"

definition cut_message :: "byte list \<Rightarrow> framed" where
  "cut_message b =
     (if headerLen \<le> length b then
        let msgLen = unat (le_u32 b 4) in
        if msgLen < headerLen then Malformed BadMessageLength
        else if msgLen > maxMessageSize then Malformed MessageTooLong
        else if msgLen \<le> length b then Framed (take msgLen b) (drop msgLen b)
        else NeedMore
      else NeedMore)"

text \<open>The reader is the list of the results its \<open>Read\<close> will give: the bytes and an error.  The value
  is the message or error, the bytes kept and the reads left; \<open>None\<close> where the reader blocks.\<close>

type_synonym read_results = "(byte list \<times> mbim_error option) list"

fun ReadMessage :: "byte list \<Rightarrow> read_results \<Rightarrow> ((mbim_error + byte list) \<times> byte list \<times> read_results) option" where
  "ReadMessage b [] =
     (case cut_message b of
        Malformed e \<Rightarrow> Some (Inl e, b, [])
      | Framed m rest \<Rightarrow> Some (Inr m, rest, [])
      | NeedMore \<Rightarrow> None)"
| "ReadMessage b ((bytes, err) # reads) =
     (case cut_message b of
        Malformed e \<Rightarrow> Some (Inl e, b, (bytes, err) # reads)
      | Framed m rest \<Rightarrow> Some (Inr m, rest, (bytes, err) # reads)
      | NeedMore \<Rightarrow>
          let b' = b @ bytes in
          case err of
            Some e \<Rightarrow> Some (Inl (if e = EOF \<and> b' \<noteq> [] then UnexpectedEOF else e), b', reads)
          | None \<Rightarrow> if bytes = [] then Some (Inl NoProgress, b', reads) else ReadMessage b' reads)"

text \<open>\<open>WriteMessage\<close> against the counts and errors its \<open>Write\<close> calls will give: the error and the bytes
  written.\<close>

fun WriteMessage :: "byte list \<Rightarrow> (nat \<times> mbim_error option) list \<Rightarrow> (mbim_error option \<times> byte list) option" where
  "WriteMessage [] writes = Some (None, [])"
| "WriteMessage msg [] = None"
| "WriteMessage msg ((n, err) # writes) =
     (case err of
        Some e \<Rightarrow> Some (Some e, take n msg)
      | None \<Rightarrow>
          if n = 0 then Some (Some ShortWrite, [])
          else map_option (\<lambda>(e, w). (e, take n msg @ w)) (WriteMessage (drop n msg) writes))"

primrec read_messages :: "nat \<Rightarrow> byte list \<Rightarrow> read_results \<Rightarrow> (byte list list \<times> byte list \<times> read_results) option" where
  "read_messages 0 b reads = Some ([], b, reads)"
| "read_messages (Suc n) b reads =
     (case ReadMessage b reads of
        Some (Inr m, b', reads') \<Rightarrow>
          map_option (\<lambda>(ms, b'', reads''). (m # ms, b'', reads'')) (read_messages n b' reads')
      | _ \<Rightarrow> None)"

definition framed_message :: "byte list \<Rightarrow> bool" where
  "framed_message m \<longleftrightarrow> 12 \<le> length m \<and> length m \<le> maxMessageSize \<and> unat (le_u32 m 4) = length m"

lemma cut_framed:
  assumes "framed_message m"
  shows "cut_message (m @ t) = Framed m t"
proof -
  have "le_u32 (m @ t) 4 = le_u32 m 4" using assms by (simp add: framed_message_def le_u32_prefix)
  then show ?thesis using assms by (simp add: cut_message_def framed_message_def mbim_lens Let_def)
qed

lemma cut_partial:
  assumes "framed_message m" and "m = b @ r" and "r \<noteq> []"
  shows "cut_message b = NeedMore"
proof (cases "12 \<le> length b")
  case True
  then have "le_u32 b 4 = le_u32 m 4" using assms(2) by (simp add: le_u32_prefix)
  then show ?thesis using assms by (simp add: cut_message_def framed_message_def mbim_lens Let_def)
qed (simp add: cut_message_def mbim_lens)

abbreviation ok_reads :: "byte list list \<Rightarrow> read_results" where
  "ok_reads chunks \<equiv> map (\<lambda>d. (d, None)) chunks"

lemma read_one:
  assumes "framed_message m" and "b @ concat chunks = m @ t" and "[] \<notin> set chunks"
  shows "\<exists>b' chunks'. ReadMessage b (ok_reads chunks) = Some (Inr m, b', ok_reads chunks') \<and>
    b' @ concat chunks' = t \<and> [] \<notin> set chunks'"
  using assms(2,3)
proof (induction chunks arbitrary: b)
  case Nil
  then show ?case using cut_framed [OF assms(1), of t]
    by (auto intro!: exI [of _ t] exI [of _ "[]"])
next
  case (Cons d chunks)
  show ?case
  proof (cases "length m \<le> length b")
    case True
    then obtain t' where b: "b = m @ t'"
      using Cons.prems(1) by (auto simp: append_eq_append_conv2)
    then have "t' @ concat (d # chunks) = t" using Cons.prems(1) by simp
    then show ?thesis using b cut_framed [OF assms(1), of t'] Cons.prems(2)
      by (intro exI [of _ t'] exI [of _ "d # chunks"]) simp
  next
    case False
    then obtain r where "m = b @ r" "r \<noteq> []"
      using Cons.prems(1) by (auto simp: append_eq_append_conv2)
    then have "cut_message b = NeedMore" by (rule cut_partial [OF assms(1)])
    moreover have "(b @ d) @ concat chunks = m @ t" using Cons.prems(1) by simp
    moreover have "d \<noteq> []" using Cons.prems(2) by auto
    ultimately show ?thesis using Cons.IH [of "b @ d"] Cons.prems(2) by (simp add: Let_def)
  qed
qed

lemma read_all:
  assumes "\<forall>m \<in> set ms. framed_message m" and "b @ concat chunks = concat ms" and "[] \<notin> set chunks"
  shows "read_messages (length ms) b (ok_reads chunks) = Some (ms, [], [])"
  using assms
proof (induction ms arbitrary: b chunks)
  case Nil
  then have "chunks = []" by (cases chunks) auto
  then show ?case using Nil by simp
next
  case (Cons m ms)
  then have "framed_message m" "b @ concat chunks = m @ concat ms" by simp_all
  from read_one [OF this Cons.prems(3)] obtain b' chunks' where
    r: "ReadMessage b (ok_reads chunks) = Some (Inr m, b', ok_reads chunks')"
      "b' @ concat chunks' = concat ms" "[] \<notin> set chunks'" by blast
  then show ?case using Cons.IH [of b' chunks'] Cons.prems(1) by simp
qed

text \<open>Messages that carry their own length come out of the transport one by one and
  unchanged, however the device cuts the stream into reads; nothing is left over.\<close>

theorem messages_survive_chunking:
  assumes "\<forall>m \<in> set ms. framed_message m" and "concat chunks = concat ms" and "[] \<notin> set chunks"
  shows "read_messages (length ms) [] (ok_reads chunks) = Some (ms, [], [])"
  using assms by (intro read_all) simp_all

theorem messages_survive_chunking_witness:
  "read_messages (length [encodeOpen 1 4096, encodeClose 2]) []
      (ok_reads [take 7 (encodeOpen 1 4096), drop 7 (encodeOpen 1 4096) @ encodeClose 2]) =
    Some ([encodeOpen 1 4096, encodeClose 2], [], [])"
proof (rule messages_survive_chunking)
  have "framed_message (encodeOpen 1 4096)" "framed_message (encodeClose 2)" by code_simp+
  then show "\<forall>m \<in> set [encodeOpen 1 4096, encodeClose 2]. framed_message m" by simp
  show "concat [take 7 (encodeOpen 1 4096), drop 7 (encodeOpen 1 4096) @ encodeClose 2] =
      concat [encodeOpen 1 4096, encodeClose 2]" by (simp only: concat.simps append_assoc [symmetric] append_take_drop_id)
  show "[] \<notin> set [take 7 (encodeOpen 1 4096), drop 7 (encodeOpen 1 4096) @ encodeClose 2]" by code_simp
qed

end
