(* ===== verification/MbimInfo.thy ===== *)
theory MbimInfo
  imports MbimWire GoRunes
begin

section \<open>MBIM information buffers\<close>

text \<open>
  \<^verbatim>\<open>pkg/mbim/databuffer.go\<close> and the encoders' helpers: the reader of an information buffer, with
  every bounds check of the source, and the UTF-16 strings in it.  A slice expression that the
  source does not guard on the spot is \<open>go_slice\<close> (or \<open>go_u32\<close>), whose error \<open>SlicePanic\<close> is Go's
  run-time panic; that none of the parsers ever yields it is a theorem, not an assumption.
  Positions are natural numbers: the source computes them in 64-bit integers from 32-bit fields.
\<close>

datatype info_error =
    U32Range | U64Range | ByteArrayRange | OddString | StringRange
  | InfoTooShort | RecordRange | PduRange | NoRecord | PayloadInHeader
  | StatusError u32 | ChannelStatus u32 | SyncFailure "byte list" | CommandFailed
  | ClientIDMissing | ResultMissing | Rejected u16 | SlotTruncated | AppTruncated | TlvMissing
  | SlicePanic

definition go_slice :: "byte list \<Rightarrow> nat \<Rightarrow> nat \<Rightarrow> info_error + byte list" where
  "go_slice b i j = (if i \<le> j \<and> j \<le> length b then Inr (subslice b i j) else Inl SlicePanic)"

definition go_u32 :: "byte list \<Rightarrow> nat \<Rightarrow> info_error + u32" where
  "go_u32 b i = (if i + 4 \<le> length b then Inr (le_u32 b i) else Inl SlicePanic)"

definition go_u16 :: "byte list \<Rightarrow> nat \<Rightarrow> info_error + u16" where
  "go_u16 b i = (if i + 2 \<le> length b then Inr (le_u16 b i) else Inl SlicePanic)"

definition go_byte :: "byte list \<Rightarrow> nat \<Rightarrow> info_error + byte" where
  "go_byte b i = (if i < length b then Inr (b ! i) else Inl SlicePanic)"

subsection \<open>The reader\<close>

definition u32At :: "byte list \<Rightarrow> nat \<Rightarrow> info_error + u32" where
  "u32At b pos = (if pos + 4 > length b then Inl U32Range else Inr (le_u32 b pos))"

definition u64At :: "byte list \<Rightarrow> nat \<Rightarrow> info_error + u64" where
  "u64At b pos = (if pos + 8 > length b then Inl U64Range else Inr (le_u64 b pos))"

text \<open>\<^verbatim>\<open>v, _ := r.u32At(pos)\<close>: zero where the read fails.\<close>

definition u32_or_zero :: "byte list \<Rightarrow> nat \<Rightarrow> u32" where
  "u32_or_zero b pos = (case u32At b pos of Inl _ \<Rightarrow> 0 | Inr v \<Rightarrow> v)"

definition u64_or_zero :: "byte list \<Rightarrow> nat \<Rightarrow> u64" where
  "u64_or_zero b pos = (case u64At b pos of Inl _ \<Rightarrow> 0 | Inr v \<Rightarrow> v)"

definition array_range :: "byte list \<Rightarrow> u32 \<Rightarrow> u32 \<Rightarrow> info_error + byte list" where
  "array_range b offset len =
     (if len = 0 then Inr []
      else let fin = unat offset + unat len in
      if fin > length b then Inl ByteArrayRange
      else go_slice b (unat offset) fin)"

definition byteArrayAt :: "byte list \<Rightarrow> nat \<Rightarrow> info_error + byte list" where
  "byteArrayAt b pairPos =
     res_bind (u32At b pairPos) (\<lambda>offset.
     res_bind (u32At b (pairPos + 4)) (\<lambda>len. array_range b offset len))"

definition uiccByteArrayAt :: "byte list \<Rightarrow> nat \<Rightarrow> info_error + byte list" where
  "uiccByteArrayAt b pairPos =
     res_bind (u32At b pairPos) (\<lambda>len.
     res_bind (u32At b (pairPos + 4)) (\<lambda>offset. array_range b offset len))"

fun le_units :: "byte list \<Rightarrow> nat list" where
  "le_units (a # b # bs) = (unat a + 256 * unat b) # le_units bs"
| "le_units _ = []"

definition decodeUTF16Range :: "byte list \<Rightarrow> u32 \<Rightarrow> u32 \<Rightarrow> info_error + string" where
  "decodeUTF16Range b offset len =
     (if len = 0 then Inr []
      else if unat len mod 2 \<noteq> 0 then Inl OddString
      else let fin = unat offset + unat len in
      if fin > length b then Inl StringRange
      else res_bind (go_slice b (unat offset) fin)
             (\<lambda>bs. Inr (string_of_runes (utf16_decode (le_units bs)))))"

definition stringAt :: "byte list \<Rightarrow> nat \<Rightarrow> info_error + string" where
  "stringAt b pairPos =
     res_bind (u32At b pairPos) (\<lambda>offset.
     res_bind (u32At b (pairPos + 4)) (\<lambda>len.
       if len = 0 then Inr [] else decodeUTF16Range b offset len))"

text \<open>\<open>collect f i n\<close> is the loop \<^verbatim>\<open>for i := ...; i < count; i++ { ...; out = append(out, v) }\<close> over
  \<open>n\<close> indices from \<open>i\<close> on.\<close>

primrec collect :: "(nat \<Rightarrow> 'e + 'a) \<Rightarrow> nat \<Rightarrow> nat \<Rightarrow> 'e + 'a list" where
  "collect f i 0 = Inr []"
| "collect f i (Suc n) = res_bind (f i) (\<lambda>v. res_bind (collect f (Suc i) n) (\<lambda>vs. Inr (v # vs)))"

definition stringArrayCountAt :: "byte list \<Rightarrow> nat \<Rightarrow> info_error + string list" where
  "stringArrayCountAt b countPos =
     res_bind (u32At b countPos) (\<lambda>count.
       collect (\<lambda>i. stringAt b (countPos + 4 + i * 8)) 0 (unat count))"

subsection \<open>Writing\<close>

text \<open>\<^verbatim>\<open>pad4\<close> rounds up to a multiple of four; \<open>padded\<close> are the bytes with the zeros of \<^verbatim>\<open>make\<close> after
  them.\<close>

definition pad4 :: "nat \<Rightarrow> nat" where
  "pad4 n = (n + 3) div 4 * 4"

definition padded :: "byte list \<Rightarrow> byte list" where
  "padded bs = bs @ replicate (pad4 (length bs) - length bs) 0"

definition encodeUTF16LE :: "string \<Rightarrow> byte list" where
  "encodeUTF16LE s = concat (map (\<lambda>u. le_put16 (of_nat u)) (utf16_encode (runes s)))"

definition fixed16 :: "byte list \<Rightarrow> byte list" where
  "fixed16 b = take 16 b @ replicate (16 - length b) 0"

section \<open>The reader never leaves its buffer\<close>

definition no_panic :: "info_error + 'a \<Rightarrow> bool" where
  "no_panic r \<longleftrightarrow> r \<noteq> Inl SlicePanic"

named_theorems panic_simps \<open>operations that never panic\<close>

lemma no_panic_Inr [panic_simps]: "no_panic (Inr v)"
  by (simp add: no_panic_def)

lemma no_panic_Inl [panic_simps]: "no_panic (Inl e) \<longleftrightarrow> e \<noteq> SlicePanic"
  by (simp add: no_panic_def)

lemma no_panic_bind:
  "no_panic r \<Longrightarrow> (\<And>v. r = Inr v \<Longrightarrow> no_panic (f v)) \<Longrightarrow> no_panic (res_bind r f)"
  by (cases r) (auto simp: no_panic_def)

lemma no_panic_u32At [panic_simps]: "no_panic (u32At b i)"
  by (simp add: u32At_def no_panic_def)

lemma no_panic_u64At [panic_simps]: "no_panic (u64At b i)"
  by (simp add: u64At_def no_panic_def)

lemma no_panic_slice: "i \<le> j \<Longrightarrow> j \<le> length b \<Longrightarrow> no_panic (go_slice b i j)"
  by (simp add: go_slice_def no_panic_def)

lemma no_panic_array_range [panic_simps]: "no_panic (array_range b off len)"
  by (simp add: array_range_def go_slice_def no_panic_def Let_def)

lemma no_panic_byteArrayAt [panic_simps]: "no_panic (byteArrayAt b i)"
  unfolding byteArrayAt_def by (intro no_panic_bind panic_simps)

lemma no_panic_uiccByteArrayAt [panic_simps]: "no_panic (uiccByteArrayAt b i)"
  unfolding uiccByteArrayAt_def by (intro no_panic_bind panic_simps)

lemma no_panic_decodeUTF16 [panic_simps]: "no_panic (decodeUTF16Range b off len)"
  by (simp add: decodeUTF16Range_def go_slice_def no_panic_def Let_def)

lemma no_panic_stringAt [panic_simps]: "no_panic (stringAt b i)"
  unfolding stringAt_def
  by (intro no_panic_bind panic_simps) (simp add: panic_simps)

lemma no_panic_collect: "(\<And>i. no_panic (f i)) \<Longrightarrow> no_panic (collect f i n)"
  by (induction n arbitrary: i) (auto intro!: no_panic_bind simp: panic_simps)

lemma no_panic_stringArray [panic_simps]: "no_panic (stringArrayCountAt b i)"
  unfolding stringArrayCountAt_def by (intro no_panic_bind no_panic_collect panic_simps)

section \<open>What was written is read back\<close>

lemma pad4_ge: "n \<le> pad4 n"
  unfolding pad4_def by (simp add: div_mult_mod_eq [symmetric])

lemma length_padded [simp, wire_simps]: "length (padded bs) = pad4 (length bs)"
  using pad4_ge [of "length bs"] by (simp add: padded_def)

lemma le_units_put: "u < 65536 \<Longrightarrow> le_units (le_put16 (of_nat u) @ r) = u # le_units r"
proof -
  assume u: "u < 65536"
  have "le_put16 (of_nat u) = [of_nat u, of_nat (u div 256)]"
    using u by (simp add: le_put16_def be_bytes_2)
  then show ?thesis using u by simp
qed

lemma le_units_encode:
  "\<forall>u \<in> set us. u < 65536 \<Longrightarrow> le_units (concat (map (\<lambda>u. le_put16 (of_nat u)) us)) = us"
  by (induction us) (simp_all add: le_units_put)

lemma length_encodeUTF16LE: "length (encodeUTF16LE s) = 2 * length (utf16_encode (runes s))"
  by (simp add: encodeUTF16LE_def length_concat comp_def sum_list_triv)

lemma utf16_of_encoded: "utf16_decode (le_units (encodeUTF16LE s)) = runes s"
  unfolding encodeUTF16LE_def
  using utf16_encode_small by (simp add: le_units_encode utf16_round_trip valid_runes)

lemma decode_at:
  assumes "length (encodeUTF16LE s) < 2 ^ 32" and "length pre < 2 ^ 32"
    and "b = pre @ encodeUTF16LE s @ post"
  shows "decodeUTF16Range b (of_nat (length pre)) (of_nat (length (encodeUTF16LE s))) =
    Inr (string_of_runes (runes s))"
proof (cases "encodeUTF16LE s = []")
  case True
  then have "utf16_encode (runes s) = []" using length_encodeUTF16LE [of s] by simp
  then have "runes s = []" using utf16_round_trip [OF valid_runes, of s] by simp
  then show ?thesis using True by (simp add: decodeUTF16Range_def string_of_runes_def)
next
  case False
  let ?n = "length (encodeUTF16LE s)"
  have n: "unat (of_nat ?n :: u32) = ?n" "unat (of_nat (length pre) :: u32) = length pre"
    using assms(1,2) by (simp_all only: unat_of_nat_u32) simp_all
  then have nz: "(of_nat ?n :: u32) \<noteq> 0" using False by (metis length_0_conv unat_0)
  have ev: "?n mod 2 = 0" by (simp add: length_encodeUTF16LE)
  have sl: "go_slice b (length pre) (length pre + ?n) = Inr (encodeUTF16LE s)"
    using assms(3) by (simp add: go_slice_def subslice_def)
  have fin: "\<not> length b < length pre + ?n" using assms(3) by simp
  show ?thesis
    unfolding decodeUTF16Range_def n Let_def using nz ev fin by (simp add: sl utf16_of_encoded)
qed

end
