(* ===== verification/MbimServices.thy ===== *)
theory MbimServices
  imports MbimInfo
begin

unbundle bit_operations_syntax

section \<open>Basic Connect, SMS and USSD\<close>

text \<open>
  The requests and responses of \<^verbatim>\<open>pkg/mbim\<close> outside the UICC service: \<^verbatim>\<open>basicconnect.go\<close>,
  \<^verbatim>\<open>subscriber.go\<close>, \<^verbatim>\<open>radio.go\<close>, \<^verbatim>\<open>register.go\<close>, \<^verbatim>\<open>packet.go\<close>, \<^verbatim>\<open>signal.go\<close>, \<^verbatim>\<open>connect.go\<close>,
  \<^verbatim>\<open>ipconfig.go\<close>, \<^verbatim>\<open>providers.go\<close>, \<^verbatim>\<open>deviceservices.go\<close>, \<^verbatim>\<open>subscribe.go\<close>, \<^verbatim>\<open>sms.go\<close>, \<^verbatim>\<open>ussd.go\<close>,
  \<^verbatim>\<open>slotinfo.go\<close>, \<^verbatim>\<open>version.go\<close>, \<^verbatim>\<open>reset.go\<close>, \<^verbatim>\<open>capability.go\<close> and the proxy configuration of
  \<^verbatim>\<open>transport_proxy.go\<close>.  Every exchange takes the device's \<^verbatim>\<open>Command\<close> as the argument \<open>cmd\<close>
  (theory MbimDevice models it); the GSM 7-bit codec of \<^verbatim>\<open>github.com/warthog618/sms\<close> is a
  parameter of the USSD functions.  An IP address is kept as its bytes: \<^verbatim>\<open>net.IP.String\<close> only
  prints them, and the empty list is the empty string.
\<close>

type_synonym commander = "uuid \<Rightarrow> u32 \<Rightarrow> u32 \<Rightarrow> byte list \<Rightarrow> info_error + command_done"

text \<open>The common head of the exchanges: an error of \<^verbatim>\<open>Command\<close> or a non-zero status ends them.\<close>

definition exchange :: "commander \<Rightarrow> uuid \<Rightarrow> u32 \<Rightarrow> u32 \<Rightarrow> byte list \<Rightarrow> info_error + byte list" where
  "exchange cmd service cid ct info =
     res_bind (cmd service cid ct info) (\<lambda>resp.
       if Status resp \<noteq> 0 then Inl (StatusError (Status resp)) else Inr (InfoBuffer resp))"

definition UUIDBasicConnect :: uuid where
  "UUIDBasicConnect = [0xa2, 0x89, 0xcc, 0x33, 0xbc, 0xbb, 0x8b, 0x4f, 0xb6, 0xb0, 0x13, 0x3e, 0xc2, 0xaa, 0xe6, 0xdf]"

definition UUIDSMS :: uuid where
  "UUIDSMS = [0x53, 0x3f, 0xbe, 0xeb, 0x14, 0xfe, 0x44, 0x67, 0x9f, 0x90, 0x33, 0xa2, 0x23, 0xe5, 0x6c, 0x3f]"

definition UUIDUSSD :: uuid where
  "UUIDUSSD = [0xe5, 0x50, 0xa0, 0xc8, 0x5e, 0x82, 0x47, 0x9e, 0x82, 0xf7, 0x10, 0xab, 0xf4, 0xc3, 0x35, 0x1f]"

definition UUIDProxyControl :: uuid where
  "UUIDProxyControl = [0x83, 0x8c, 0xf7, 0xfb, 0x8d, 0x0d, 0x4d, 0x7f, 0x87, 0x1e, 0xd7, 0x1d, 0xbe, 0xfb, 0xb3, 0x9b]"

definition UUIDMSUICCLowLevelAccess :: uuid where
  "UUIDMSUICCLowLevelAccess = [0xc2, 0xf6, 0x58, 0x8e, 0xf0, 0x37, 0x4b, 0xc9, 0x86, 0x65, 0xf4, 0xd4, 0x4b, 0xd0, 0x93, 0x67]"

definition UUIDMSBasicConnectExtensions :: uuid where
  "UUIDMSBasicConnectExtensions = [0x3d, 0x01, 0xdc, 0xc5, 0xfe, 0xf5, 0x4d, 0x05, 0x0d, 0x3a, 0xbe, 0xf7, 0x05, 0x8e, 0x9a, 0xaf]"

definition UUIDAuth :: uuid where
  "UUIDAuth = [0x1d, 0x2b, 0x5f, 0xf7, 0x0a, 0xa1, 0x48, 0xb2, 0xaa, 0x52, 0x50, 0xf1, 0x57, 0x67, 0x17, 0x4e]"

definition UUIDContextTypeInternet :: uuid where
  "UUIDContextTypeInternet = [0x7e, 0x5e, 0x2a, 0x7e, 0x4e, 0x6f, 0x72, 0x72, 0x73, 0x6b, 0x65, 0x6e, 0x7e, 0x5e, 0x2a, 0x7e]"

definition UUIDQMI :: uuid where
  "UUIDQMI = [0xd1, 0xa3, 0x0b, 0xc2, 0xf9, 0x7a, 0x6e, 0x43, 0xbf, 0x65, 0xc7, 0xe2, 0x4f, 0xb0, 0xf0, 0xd3]"

subsection \<open>Device capabilities, subscriber, radio\<close>

record caps =
  DeviceType :: u32
  CellularClass :: u32
  DataClass :: u32
  SmsCaps :: u32
  DeviceID :: string
  FirmwareInfo :: string
  HardwareInfo :: string

text \<open>\<^verbatim>\<open>s, _ := r.stringAt(pos)\<close>: empty where the read fails.\<close>

definition string_or_empty :: "byte list \<Rightarrow> nat \<Rightarrow> string" where
  "string_or_empty b pos = (case stringAt b pos of Inl _ \<Rightarrow> [] | Inr s \<Rightarrow> s)"

definition parseDeviceCaps :: "byte list \<Rightarrow> info_error + caps" where
  "parseDeviceCaps info =
     (if length info < 64 then Inl InfoTooShort
      else res_bind (stringAt info 40) (\<lambda>dev.
        Inr \<lparr>DeviceType = u32_or_zero info 0, CellularClass = u32_or_zero info 4,
             DataClass = u32_or_zero info 16, SmsCaps = u32_or_zero info 20, DeviceID = dev,
             FirmwareInfo = string_or_empty info 48, HardwareInfo = string_or_empty info 56\<rparr>))"

definition DeviceCaps :: "commander \<Rightarrow> info_error + caps" where
  "DeviceCaps cmd = res_bind (exchange cmd UUIDBasicConnect 1 CommandTypeQuery []) parseDeviceCaps"

record subscriber_ready =
  ReadyState :: u32
  IMSI :: string
  ICCID :: string
  MSISDN :: string

definition parseSubscriberReady :: "byte list \<Rightarrow> info_error + subscriber_ready" where
  "parseSubscriberReady info =
     (if length info < 28 then Inl InfoTooShort
      else
        res_bind (stringAt info 4) (\<lambda>imsi.
        res_bind (stringAt info 12) (\<lambda>iccid.
        res_bind (stringArrayCountAt info 24) (\<lambda>numbers.
          Inr \<lparr>ReadyState = u32_or_zero info 0, IMSI = imsi, ICCID = iccid,
               MSISDN = (case numbers of [] \<Rightarrow> [] | n # _ \<Rightarrow> n)\<rparr>))))"

definition QuerySubscriberReady :: "commander \<Rightarrow> info_error + subscriber_ready" where
  "QuerySubscriberReady cmd =
     res_bind (exchange cmd UUIDBasicConnect 2 CommandTypeQuery []) parseSubscriberReady"

record radio_state =
  Hardware :: u32
  Software :: u32

definition parseRadioState :: "byte list \<Rightarrow> info_error + radio_state" where
  "parseRadioState info =
     (if length info < 8 then Inl InfoTooShort
      else Inr \<lparr>Hardware = u32_or_zero info 0, Software = u32_or_zero info 4\<rparr>)"

definition QueryRadioState :: "commander \<Rightarrow> info_error + radio_state" where
  "QueryRadioState cmd = res_bind (exchange cmd UUIDBasicConnect 3 CommandTypeQuery []) parseRadioState"

definition SetRadioState :: "commander \<Rightarrow> u32 \<Rightarrow> info_error + radio_state" where
  "SetRadioState cmd sw =
     res_bind (exchange cmd UUIDBasicConnect 3 CommandTypeSet (le_put32 sw)) parseRadioState"

subsection \<open>Registration, packet service, signal\<close>

record register_state =
  RegNwError :: u32
  RegState :: u32
  RegMode :: u32
  ProviderID :: string
  ProviderName :: string
  MCC :: string
  MNC :: string

definition splitPLMN :: "string \<Rightarrow> string \<times> string" where
  "splitPLMN plmn = (if length plmn < 5 then ([], []) else (take 3 plmn, drop 3 plmn))"

definition parseRegisterState :: "byte list \<Rightarrow> info_error + register_state" where
  "parseRegisterState info =
     (if length info < 44 then Inl InfoTooShort
      else
        res_bind (stringAt info 20) (\<lambda>pid.
        res_bind (stringAt info 28) (\<lambda>pname.
          Inr \<lparr>RegNwError = u32_or_zero info 0, RegState = u32_or_zero info 4,
               RegMode = u32_or_zero info 8, ProviderID = pid, ProviderName = pname,
               MCC = fst (splitPLMN pid), MNC = snd (splitPLMN pid)\<rparr>)))"

definition QueryRegisterState :: "commander \<Rightarrow> info_error + register_state" where
  "QueryRegisterState cmd =
     res_bind (exchange cmd UUIDBasicConnect 9 CommandTypeQuery []) parseRegisterState"

text \<open>A reference to data of the variable part: offset and length, both zero for no data.\<close>

definition data_ref :: "nat \<Rightarrow> byte list \<Rightarrow> byte list" where
  "data_ref off bs =
     (if bs = [] then le_put32 0 @ le_put32 0 else le_put32 (of_nat off) @ le_put32 (of_nat (length bs)))"

definition encodeSetRegisterState :: "u32 \<Rightarrow> string \<Rightarrow> byte list" where
  "encodeSetRegisterState action plmn =
     (let providerID = (if plmn \<noteq> [] then encodeUTF16LE plmn else [])
      in data_ref 16 providerID @ le_put32 action @ le_put32 0 @ providerID)"

definition SetRegisterState :: "commander \<Rightarrow> u32 \<Rightarrow> string \<Rightarrow> info_error + register_state" where
  "SetRegisterState cmd action plmn =
     res_bind (exchange cmd UUIDBasicConnect 9 CommandTypeSet (encodeSetRegisterState action plmn))
       parseRegisterState"

record packet_service =
  PsNwError :: u32
  PsState :: u32
  HighestClass :: u32
  UplinkSpeed :: u64
  DownlinkSpeed :: u64

definition parsePacketService :: "byte list \<Rightarrow> info_error + packet_service" where
  "parsePacketService info =
     (if length info < 28 then Inl InfoTooShort
      else Inr \<lparr>PsNwError = u32_or_zero info 0, PsState = u32_or_zero info 4,
                HighestClass = u32_or_zero info 8, UplinkSpeed = u64_or_zero info 12,
                DownlinkSpeed = u64_or_zero info 20\<rparr>)"

definition QueryPacketService :: "commander \<Rightarrow> info_error + packet_service" where
  "QueryPacketService cmd =
     res_bind (exchange cmd UUIDBasicConnect 10 CommandTypeQuery []) parsePacketService"

definition SetPacketService :: "commander \<Rightarrow> u32 \<Rightarrow> info_error + packet_service" where
  "SetPacketService cmd action =
     res_bind (exchange cmd UUIDBasicConnect 10 CommandTypeSet (le_put32 action)) parsePacketService"

record signal_state =
  RSSI :: u32
  DBM :: int
  Unknown :: bool
  ErrorRate :: u32
  RSRP :: int
  HasRSRP :: bool
  SNR :: int
  HasSNR :: bool

definition rssiToDBM :: "u32 \<Rightarrow> int \<times> bool" where
  "rssiToDBM rssi = (if rssi = 99 \<or> rssi > 31 then (0, True) else (-113 + 2 * uint rssi, False))"

definition rsrpCodedToDBM :: "u32 \<Rightarrow> int option" where
  "rsrpCodedToDBM coded = (if coded > 126 then None else Some (uint coded - 157))"

text \<open>Go's integer division truncates towards zero.\<close>

definition snrCodedToDB :: "u32 \<Rightarrow> int option" where
  "snrCodedToDB coded =
     (if coded > 127 then None
      else let d = uint coded - 46 in Some (if 0 \<le> d then d div 2 else - (- d div 2)))"

definition dataClassLTE :: u32 where "dataClassLTE = 0x20"
definition dataClass5GNSA :: u32 where "dataClass5GNSA = 0x40"
definition dataClass5GSA :: u32 where "dataClass5GSA = 0x80"

definition with_rsrp :: "u32 \<Rightarrow> signal_state \<Rightarrow> signal_state" where
  "with_rsrp coded s = (case rsrpCodedToDBM coded of None \<Rightarrow> s | Some v \<Rightarrow> s\<lparr>RSRP := v, HasRSRP := True\<rparr>)"

definition with_snr :: "u32 \<Rightarrow> signal_state \<Rightarrow> signal_state" where
  "with_snr coded s = (case snrCodedToDB coded of None \<Rightarrow> s | Some v \<Rightarrow> s\<lparr>SNR := v, HasSNR := True\<rparr>)"

primrec rsrp_loop :: "byte list \<Rightarrow> nat \<Rightarrow> nat \<Rightarrow> signal_state \<Rightarrow> signal_state" where
  "rsrp_loop b i 0 s = s"
| "rsrp_loop b i (Suc n) s =
     (let base = 4 + i * 20 in
      if base + 20 > length b then s
      else if u32_or_zero b (base + 16) AND (dataClassLTE OR dataClass5GNSA OR dataClass5GSA) = 0
      then rsrp_loop b (Suc i) n s
      else
        let s' = with_snr (u32_or_zero b (base + 4)) (with_rsrp (u32_or_zero b base) s) in
        if HasRSRP s' \<or> HasSNR s' then s' else rsrp_loop b (Suc i) n s')"

definition parseSignalRsrpSnrV2 :: "byte list \<Rightarrow> signal_state \<Rightarrow> signal_state" where
  "parseSignalRsrpSnrV2 info s =
     (if length info < 28 then s
      else case byteArrayAt info 20 of
        Inl _ \<Rightarrow> s
      | Inr b \<Rightarrow> if length b < 4 then s else rsrp_loop b 0 (unat (u32_or_zero b 0)) s)"

definition parseSignalState :: "byte list \<Rightarrow> info_error + signal_state" where
  "parseSignalState info =
     (if length info < 20 then Inl InfoTooShort
      else
        let rssi = u32_or_zero info 0; (dbm, unk) = rssiToDBM rssi in
        Inr (parseSignalRsrpSnrV2 info
          \<lparr>RSSI = rssi, DBM = dbm, Unknown = unk, ErrorRate = u32_or_zero info 4,
           RSRP = 0, HasRSRP = False, SNR = 0, HasSNR = False\<rparr>))"

definition QuerySignalState :: "commander \<Rightarrow> info_error + signal_state" where
  "QuerySignalState cmd =
     res_bind (exchange cmd UUIDBasicConnect 11 CommandTypeQuery []) parseSignalState"

subsection \<open>Connections and addresses\<close>

record connect_state =
  SessionID :: u32
  ActivationState :: u32
  IPType :: u32
  ConnNwError :: u32

definition encodeConnect :: "u32 \<Rightarrow> u32 \<Rightarrow> string \<Rightarrow> string \<Rightarrow> string \<Rightarrow> u32 \<Rightarrow> u32 \<Rightarrow> byte list" where
  "encodeConnect sessionID command accessString userName password authProtocol ipType =
     (let access = encodeUTF16LE accessString; user = encodeUTF16LE userName;
          pass = encodeUTF16LE password;
          userOff = 60 + pad4 (length access); passOff = userOff + pad4 (length user)
      in le_put32 sessionID @ le_put32 command @ data_ref 60 access @ data_ref userOff user @
         data_ref passOff pass @ le_put32 0 @ le_put32 authProtocol @ le_put32 ipType @
         UUIDContextTypeInternet @ padded access @ padded user @ padded pass)"

definition parseConnect :: "byte list \<Rightarrow> info_error + connect_state" where
  "parseConnect info =
     (if length info < 36 then Inl InfoTooShort
      else Inr \<lparr>SessionID = u32_or_zero info 0, ActivationState = u32_or_zero info 4,
                IPType = u32_or_zero info 12, ConnNwError = u32_or_zero info 32\<rparr>)"

definition Connect ::
    "commander \<Rightarrow> u32 \<Rightarrow> u32 \<Rightarrow> string \<Rightarrow> string \<Rightarrow> string \<Rightarrow> u32 \<Rightarrow> u32 \<Rightarrow> info_error + connect_state" where
  "Connect cmd sessionID command accessString userName password authProtocol ipType =
     res_bind (exchange cmd UUIDBasicConnect 12 CommandTypeSet
         (encodeConnect sessionID command accessString userName password authProtocol ipType))
       parseConnect"

record ip_configuration =
  IPv4Address :: "byte list"
  IPv4PrefixLength :: u32
  IPv4Gateway :: "byte list"
  IPv4DNS :: "byte list list"
  IPv4MTU :: u32
  IPv6Address :: "byte list"
  IPv6PrefixLength :: u32
  IPv6Gateway :: "byte list"
  IPv6DNS :: "byte list list"
  IPv6MTU :: u32

definition ipAt :: "byte list \<Rightarrow> nat \<Rightarrow> nat \<Rightarrow> info_error + byte list" where
  "ipAt b off n =
     (if off = 0 then Inr []
      else if off + n > length b then Inl ByteArrayRange
      else go_slice b off (off + n))"

text \<open>Where the source drops the error, the address stays empty.\<close>

definition ip_or_empty :: "byte list \<Rightarrow> nat \<Rightarrow> nat \<Rightarrow> info_error + byte list" where
  "ip_or_empty b off n =
     (case ipAt b off n of Inl SlicePanic \<Rightarrow> Inl SlicePanic | Inl _ \<Rightarrow> Inr [] | Inr a \<Rightarrow> Inr a)"

text \<open>The three parts that IPv4 and IPv6 share, with \<open>n\<close> the bytes of an address: address and prefix
  length, gateway, name servers.\<close>

definition ip_address_part :: "byte list \<Rightarrow> nat \<Rightarrow> nat \<Rightarrow> nat \<Rightarrow> info_error + (u32 \<times> byte list)" where
  "ip_address_part info countPos offPos n =
     (if u32_or_zero info countPos = 0 then Inr (0, [])
      else
        let addrOff = unat (u32_or_zero info offPos) in
        if addrOff + 4 + n \<le> length info then
          res_bind (go_u32 info addrOff) (\<lambda>len.
          res_bind (ip_or_empty info (addrOff + 4) n) (\<lambda>a. Inr (len, a)))
        else Inr (0, []))"

definition ip_gateway_part :: "byte list \<Rightarrow> nat \<Rightarrow> nat \<Rightarrow> info_error + byte list" where
  "ip_gateway_part info offPos n =
     (let gwOff = u32_or_zero info offPos in
      if gwOff = 0 then Inr [] else ip_or_empty info (unat gwOff) n)"

definition ip_dns_part :: "byte list \<Rightarrow> nat \<Rightarrow> nat \<Rightarrow> nat \<Rightarrow> info_error + byte list list" where
  "ip_dns_part info countPos offPos n =
     (let dnsOff = unat (u32_or_zero info offPos) in
      res_bind (collect (\<lambda>i. ip_or_empty info (dnsOff + i * n) n) 0 (unat (u32_or_zero info countPos)))
        (\<lambda>as. Inr (filter (\<lambda>a. a \<noteq> []) as)))"

definition parseIPConfiguration :: "byte list \<Rightarrow> info_error + ip_configuration" where
  "parseIPConfiguration info =
     (if length info < 60 then Inl InfoTooShort
      else
        res_bind (ip_address_part info 12 16 4) (\<lambda>(len4, addr4).
        res_bind (ip_gateway_part info 28 4) (\<lambda>gw4.
        res_bind (ip_dns_part info 36 40 4) (\<lambda>dns4.
        res_bind (ip_address_part info 20 24 16) (\<lambda>(len6, addr6).
        res_bind (ip_gateway_part info 32 16) (\<lambda>gw6.
        res_bind (ip_dns_part info 44 48 16) (\<lambda>dns6.
          Inr \<lparr>IPv4Address = addr4, IPv4PrefixLength = len4, IPv4Gateway = gw4, IPv4DNS = dns4,
               IPv4MTU = u32_or_zero info 52, IPv6Address = addr6, IPv6PrefixLength = len6,
               IPv6Gateway = gw6, IPv6DNS = dns6, IPv6MTU = u32_or_zero info 56\<rparr>)))))))"

definition QueryIPConfiguration :: "commander \<Rightarrow> u32 \<Rightarrow> info_error + ip_configuration" where
  "QueryIPConfiguration cmd sessionID =
     res_bind (exchange cmd UUIDBasicConnect 15 CommandTypeQuery (le_put32 sessionID @ replicate 56 0))
       parseIPConfiguration"

subsection \<open>Providers\<close>

record provider =
  PLMN :: string
  PName :: string
  PState :: u32
  PClass :: u32
  PRSSI :: u32

definition parseProvider :: "byte list \<Rightarrow> info_error + provider" where
  "parseProvider info =
     res_bind (decodeUTF16Range info (u32_or_zero info 0) (u32_or_zero info 4)) (\<lambda>plmn.
     res_bind (decodeUTF16Range info (u32_or_zero info 12) (u32_or_zero info 16)) (\<lambda>name.
       Inr \<lparr>PLMN = plmn, PName = name, PState = u32_or_zero info 8, PClass = u32_or_zero info 20,
            PRSSI = u32_or_zero info 24\<rparr>))"

text \<open>A counted list of structures that are given by offset and size, each at least \<open>least\<close> bytes
  long.\<close>

definition sized_part :: "byte list \<Rightarrow> nat \<Rightarrow> nat \<Rightarrow> info_error + byte list" where
  "sized_part info pairPos least =
     res_bind (u32At info pairPos) (\<lambda>offset.
     res_bind (u32At info (pairPos + 4)) (\<lambda>len.
       if unat len < least \<or> unat offset + unat len > length info then Inl RecordRange
       else go_slice info (unat offset) (unat offset + unat len)))"

definition parseVisibleProviders :: "byte list \<Rightarrow> info_error + provider list" where
  "parseVisibleProviders info =
     res_bind (u32At info 0) (\<lambda>count.
       collect (\<lambda>i. res_bind (sized_part info (4 + i * 8) 32) parseProvider) 0 (unat count))"

definition QueryHomeProvider :: "commander \<Rightarrow> info_error + provider" where
  "QueryHomeProvider cmd = res_bind (exchange cmd UUIDBasicConnect 7 CommandTypeQuery []) parseProvider"

definition QueryVisibleProviders :: "commander \<Rightarrow> info_error + provider list" where
  "QueryVisibleProviders cmd =
     res_bind (exchange cmd UUIDBasicConnect 8 CommandTypeQuery (le_put32 0)) parseVisibleProviders"

subsection \<open>Device services, subscriptions, capabilities\<close>

record service_element =
  ElemService :: uuid
  CIDs :: "u32 list"

record device_services =
  MaxDssSessions :: u32
  Elements :: "service_element list"

definition HasService :: "device_services \<Rightarrow> uuid \<Rightarrow> bool" where
  "HasService ds service = list_ex (\<lambda>e. ElemService e = service) (Elements ds)"

definition Supports :: "device_services \<Rightarrow> uuid \<Rightarrow> u32 \<Rightarrow> bool" where
  "Supports ds service cid =
     (case find (\<lambda>e. ElemService e = service) (Elements ds) of
        None \<Rightarrow> False
      | Some e \<Rightarrow> list_ex (\<lambda>c. c = cid) (CIDs e))"

definition service_at :: "byte list \<Rightarrow> nat \<Rightarrow> info_error + service_element option" where
  "service_at info i =
     (case byteArrayAt info (8 + i * 8) of
        Inl _ \<Rightarrow> Inr None
      | Inr elem \<Rightarrow>
          if length elem < 28 then Inr None
          else
            res_bind (go_slice elem 0 16) (\<lambda>svc.
              let cidsCount = unat (u32_or_zero elem 24) in
              if 28 + cidsCount * 4 > length elem then Inr None
              else Inr (Some \<lparr>ElemService = svc,
                CIDs = map (\<lambda>j. u32_or_zero elem (28 + j * 4)) [0 ..< cidsCount]\<rparr>)))"

definition parseDeviceServices :: "byte list \<Rightarrow> info_error + device_services" where
  "parseDeviceServices info =
     (if length info < 8 then Inl InfoTooShort
      else
        res_bind (collect (service_at info) 0 (unat (u32_or_zero info 0))) (\<lambda>es.
          Inr \<lparr>MaxDssSessions = u32_or_zero info 4, Elements = List.map_filter (\<lambda>e. e) es\<rparr>))"

definition QueryDeviceServices :: "commander \<Rightarrow> info_error + device_services" where
  "QueryDeviceServices cmd =
     res_bind (exchange cmd UUIDBasicConnect 16 CommandTypeQuery []) parseDeviceServices"

definition subscription :: "uuid \<times> u32 list \<Rightarrow> byte list" where
  "subscription = (\<lambda>(service, cids).
     service @ le_put32 (of_nat (length cids)) @ concat (map le_put32 cids))"

primrec subscription_refs :: "nat \<Rightarrow> byte list list \<Rightarrow> byte list" where
  "subscription_refs pos [] = []"
| "subscription_refs pos (d # ds) =
     le_put32 (of_nat pos) @ le_put32 (of_nat (length d)) @ subscription_refs (pos + length d) ds"

definition encodeSubscribeList :: "(uuid \<times> u32 list) list \<Rightarrow> byte list" where
  "encodeSubscribeList entries =
     (let blobs = map subscription entries; fixed = 4 + length entries * 8
      in le_put32 (of_nat (length entries)) @ subscription_refs fixed blobs @ concat blobs)"

definition Subscribe :: "commander \<Rightarrow> (uuid \<times> u32 list) list \<Rightarrow> info_error + unit" where
  "Subscribe cmd entries =
     res_bind (exchange cmd UUIDBasicConnect 19 CommandTypeSet (encodeSubscribeList entries)) (\<lambda>_. Inr ())"

definition SubscribeDefaultEvents :: "commander \<Rightarrow> info_error + unit" where
  "SubscribeDefaultEvents cmd =
     Subscribe cmd [(UUIDBasicConnect, [11, 9, 10, 2]), (UUIDSMS, [2])]"

record capabilities =
  Services :: device_services
  MBIMExOK :: bool
  QMIOverMBIMOK :: bool
  UICCReadOK :: bool
  UICCRecordOK :: bool
  UICCChannelOK :: bool
  AppListOK :: bool
  authAKADead :: bool

text \<open>A nil \<^verbatim>\<open>*Capabilities\<close> is \<open>None\<close>.\<close>

definition AuthAKAUsable :: "capabilities option \<Rightarrow> bool" where
  "AuthAKAUsable c =
     (case c of None \<Rightarrow> False | Some c \<Rightarrow> HasService (Services c) UUIDAuth \<and> \<not> authAKADead c)"

definition MarkAuthAKADead :: "capabilities option \<Rightarrow> capabilities option" where
  "MarkAuthAKADead c = map_option (\<lambda>c. c\<lparr>authAKADead := True\<rparr>) c"

definition DeviceResetUsable :: "capabilities option \<Rightarrow> bool" where
  "DeviceResetUsable c =
     (case c of None \<Rightarrow> False | Some c \<Rightarrow> Supports (Services c) UUIDMSBasicConnectExtensions 10)"

definition AppListKnownUnsupported :: "capabilities option \<Rightarrow> bool" where
  "AppListKnownUnsupported c =
     (case c of None \<Rightarrow> False
      | Some c \<Rightarrow> HasService (Services c) UUIDMSUICCLowLevelAccess \<and> \<not> AppListOK c)"

record slot_info_status =
  SlotIndex :: u32
  SlotState :: u32

definition parseSlotInfoStatus :: "byte list \<Rightarrow> info_error + slot_info_status" where
  "parseSlotInfoStatus info =
     (if length info < 8 then Inl InfoTooShort
      else Inr \<lparr>SlotIndex = u32_or_zero info 0, SlotState = u32_or_zero info 4\<rparr>)"

definition QuerySlotInfoStatus :: "commander \<Rightarrow> u32 \<Rightarrow> info_error + slot_info_status" where
  "QuerySlotInfoStatus cmd slotIndex =
     res_bind (exchange cmd UUIDMSBasicConnectExtensions 8 CommandTypeQuery (le_put32 slotIndex))
       parseSlotInfoStatus"

definition encodeVersionInfo :: "u16 \<Rightarrow> u16 \<Rightarrow> byte list" where
  "encodeVersionInfo mbimVer mbimExVer = le_put16 mbimVer @ le_put16 mbimExVer"

definition NegotiateVersion :: "commander \<Rightarrow> u16 \<Rightarrow> u16 \<Rightarrow> info_error + (u16 \<times> u16)" where
  "NegotiateVersion cmd hostMBIM hostMBIMEx =
     res_bind (exchange cmd UUIDMSBasicConnectExtensions 15 CommandTypeQuery
         (encodeVersionInfo hostMBIM hostMBIMEx)) (\<lambda>b.
       if length b < 4 then Inl InfoTooShort
       else res_bind (go_u16 b 0) (\<lambda>v. res_bind (go_u16 b 2) (\<lambda>ex. Inr (v, ex))))"

definition DeviceReset :: "commander \<Rightarrow> info_error + unit" where
  "DeviceReset cmd =
     res_bind (exchange cmd UUIDMSBasicConnectExtensions 10 CommandTypeSet []) (\<lambda>_. Inr ())"

definition encodeProxyConfigInfo :: "string \<Rightarrow> u32 \<Rightarrow> byte list" where
  "encodeProxyConfigInfo devicePath timeoutSecs =
     (let pathBytes = encodeUTF16LE devicePath
      in le_put32 12 @ le_put32 (of_nat (length pathBytes)) @ le_put32 timeoutSecs @ pathBytes)"

definition UICCChannelAKAUsable :: "capabilities option \<Rightarrow> bool" where
  "UICCChannelAKAUsable c = (case c of None \<Rightarrow> False | Some c \<Rightarrow> UICCChannelOK c)"

definition MBIMExUsable :: "capabilities option \<Rightarrow> bool" where
  "MBIMExUsable c = (case c of None \<Rightarrow> False | Some c \<Rightarrow> MBIMExOK c)"

definition QMIReadUsable :: "capabilities option \<Rightarrow> bool" where
  "QMIReadUsable c = (case c of None \<Rightarrow> False | Some c \<Rightarrow> QMIOverMBIMOK c)"

subsection \<open>SMS\<close>

definition encodeSMSSend :: "byte list \<Rightarrow> byte list" where
  "encodeSMSSend pdu = le_put32 0 @ le_put32 12 @ le_put32 (of_nat (length pdu)) @ padded pdu"

definition SendSMS :: "commander \<Rightarrow> byte list \<Rightarrow> info_error + u32" where
  "SendSMS cmd pdu =
     res_bind (exchange cmd UUIDSMS 3 CommandTypeSet (encodeSMSSend pdu)) (\<lambda>b.
       if length b < 4 then Inl InfoTooShort else go_u32 b 0)"

record sms_record =
  SmsIndex :: u32
  SmsStatus :: u32
  PDU :: "byte list"

definition encodeSMSReadQuery :: "u32 \<Rightarrow> u32 \<Rightarrow> byte list" where
  "encodeSMSReadQuery flag index = le_put32 0 @ le_put32 flag @ le_put32 index"

definition parseSMSRecord :: "byte list \<Rightarrow> info_error + sms_record" where
  "parseSMSRecord rec =
     (let pduOff = unat (u32_or_zero rec 8); pduSize = unat (u32_or_zero rec 12) in
      if pduOff + pduSize > length rec then Inl PduRange
      else res_bind (go_slice rec pduOff (pduOff + pduSize)) (\<lambda>pdu.
        Inr \<lparr>SmsIndex = u32_or_zero rec 0, SmsStatus = u32_or_zero rec 4, PDU = pdu\<rparr>))"

definition parseSMSRead :: "byte list \<Rightarrow> info_error + sms_record list" where
  "parseSMSRead info =
     (if length info < 8 then Inl InfoTooShort
      else collect (\<lambda>i. res_bind (sized_part info (8 + i * 8) 16) parseSMSRecord) 0
             (unat (u32_or_zero info 4)))"

definition ReadSMS :: "commander \<Rightarrow> u32 \<Rightarrow> info_error + sms_record" where
  "ReadSMS cmd index =
     res_bind (exchange cmd UUIDSMS 2 CommandTypeQuery (encodeSMSReadQuery 1 index)) (\<lambda>b.
     res_bind (parseSMSRead b) (\<lambda>recs. case recs of [] \<Rightarrow> Inl NoRecord | r # _ \<Rightarrow> Inr r))"

definition ListSMS :: "commander \<Rightarrow> info_error + sms_record list" where
  "ListSMS cmd = res_bind (exchange cmd UUIDSMS 2 CommandTypeQuery (encodeSMSReadQuery 0 0)) parseSMSRead"

definition deleteSMS :: "commander \<Rightarrow> u32 \<Rightarrow> u32 \<Rightarrow> info_error + unit" where
  "deleteSMS cmd flag index =
     res_bind (exchange cmd UUIDSMS 4 CommandTypeSet (le_put32 flag @ le_put32 index)) (\<lambda>_. Inr ())"

definition GetSMSC :: "commander \<Rightarrow> info_error + string" where
  "GetSMSC cmd =
     res_bind (exchange cmd UUIDSMS 1 CommandTypeQuery []) (\<lambda>b.
       if length b < 24 then Inl InfoTooShort else stringAt b 16)"

definition encodeSetSMSConfig :: "string \<Rightarrow> byte list" where
  "encodeSetSMSConfig smsc =
     (let sc = (if smsc \<noteq> [] then encodeUTF16LE smsc else [])
      in le_put32 0 @ data_ref 12 sc @ padded sc)"

definition SetSMSC :: "commander \<Rightarrow> string \<Rightarrow> info_error + unit" where
  "SetSMSC cmd smsc =
     res_bind (exchange cmd UUIDSMS 1 CommandTypeSet (encodeSetSMSConfig smsc)) (\<lambda>_. Inr ())"

subsection \<open>USSD\<close>

record ussd_response =
  Response :: u32
  SessionState :: u32
  UssdDCS :: u32
  Payload :: "byte list"

definition encodeUSSD :: "u32 \<Rightarrow> u32 \<Rightarrow> byte list \<Rightarrow> byte list" where
  "encodeUSSD action dcs payload =
     le_put32 action @ le_put32 dcs @ le_put32 16 @ le_put32 (of_nat (length payload)) @ padded payload"

definition parseUSSDResponse :: "byte list \<Rightarrow> info_error + ussd_response" where
  "parseUSSDResponse info =
     (if length info < 20 then Inl InfoTooShort
      else if u32_or_zero info 16 \<noteq> 0 \<and> u32_or_zero info 12 < 20 then Inl PayloadInHeader
      else res_bind (byteArrayAt info 12) (\<lambda>payload.
        Inr \<lparr>Response = u32_or_zero info 0, SessionState = u32_or_zero info 4,
             UssdDCS = u32_or_zero info 8, Payload = payload\<rparr>))"

definition SendUSSD :: "commander \<Rightarrow> u32 \<Rightarrow> u32 \<Rightarrow> byte list \<Rightarrow> info_error + ussd_response" where
  "SendUSSD cmd action dcs payload =
     res_bind (exchange cmd UUIDUSSD 1 CommandTypeSet (encodeUSSD action dcs payload)) parseUSSDResponse"

text \<open>The text of a USSD exchange, over the library's GSM 7-bit codec: \<open>enc\<close> and \<open>pack\<close> for
  \<^verbatim>\<open>gsm7.Encode\<close> and \<^verbatim>\<open>gsm7.Pack7BitUSSD\<close>, \<open>unpack\<close> and \<open>dec\<close> for their inverses.\<close>

definition EncodeUSSDRequest ::
    "(string \<Rightarrow> byte list option) \<Rightarrow> (byte list \<Rightarrow> byte list) \<Rightarrow> string \<Rightarrow> u32 \<times> byte list" where
  "EncodeUSSDRequest enc pack command =
     (case enc command of
        None \<Rightarrow> (0x48, concat (map (\<lambda>u. put16 (of_nat u)) (utf16_encode (runes command))))
      | Some septets \<Rightarrow> (0x0F, pack septets))"

fun be_units :: "byte list \<Rightarrow> nat list" where
  "be_units (a # b # bs) = (unat a * 256 + unat b) # be_units bs"
| "be_units _ = []"

definition DecodeUSSDText ::
    "(byte list \<Rightarrow> byte list) \<Rightarrow> (byte list \<Rightarrow> string option) \<Rightarrow> u32 \<Rightarrow> byte list \<Rightarrow> string" where
  "DecodeUSSDText unpack dec dcs payload =
     (if payload = [] then []
      else if dcs = 0x48 \<or> dcs AND 0xC0 = 0x40 then
        if length payload mod 2 \<noteq> 0 then []
        else string_of_runes (utf16_decode (be_units payload))
      else case dec (unpack payload) of None \<Rightarrow> [] | Some s \<Rightarrow> s)"

section \<open>No response can make a parser panic\<close>

lemma no_panic_exchange: "(\<And>s c t i. no_panic (cmd s c t i)) \<Longrightarrow> no_panic (exchange cmd service cid ct info)"
  unfolding exchange_def by (intro no_panic_bind) (auto simp: panic_simps)

lemma no_panic_sized_part: "no_panic (sized_part info i n)"
  unfolding sized_part_def
  by (intro no_panic_bind panic_simps) (auto simp: panic_simps go_slice_def)

lemma no_panic_ip_or_empty: "no_panic (ip_or_empty b off n)"
  by (auto simp: ip_or_empty_def ipAt_def go_slice_def no_panic_def split: info_error.splits sum.splits if_splits)

lemma no_panic_ip_parts:
  "no_panic (ip_address_part info i j n)" "no_panic (ip_gateway_part info j n)" "no_panic (ip_dns_part info i j n)"
proof -
  show "no_panic (ip_address_part info i j n)"
    by (auto simp: ip_address_part_def Let_def panic_simps go_u32_def
        intro!: no_panic_bind no_panic_ip_or_empty)
  show "no_panic (ip_gateway_part info j n)"
    by (auto simp: ip_gateway_part_def Let_def panic_simps intro: no_panic_ip_or_empty)
  show "no_panic (ip_dns_part info i j n)"
    by (auto simp: ip_dns_part_def Let_def panic_simps intro!: no_panic_bind no_panic_collect no_panic_ip_or_empty)
qed

lemma no_panic_service_at: "no_panic (service_at info i)"
  by (auto simp: service_at_def panic_simps go_slice_def Let_def intro!: no_panic_bind split: sum.split)

lemma no_panic_parseProvider: "no_panic (parseProvider b)"
  by (auto simp: parseProvider_def panic_simps intro!: no_panic_bind)

lemma no_panic_parseSMSRecord: "no_panic (parseSMSRecord b)"
  by (auto simp: parseSMSRecord_def panic_simps go_slice_def Let_def intro!: no_panic_bind)

lemmas no_panic_parts = no_panic_sized_part no_panic_ip_or_empty no_panic_ip_parts no_panic_service_at
  no_panic_parseProvider no_panic_parseSMSRecord

text \<open>Whatever the modem puts into an information buffer, no parser of a Basic Connect,
  SMS or USSD response runs into a slice out of range: every offset, size and count is checked
  before it is used.\<close>

theorem service_parsers_never_panic:
  "no_panic (parseDeviceCaps info) \<and> no_panic (parseSubscriberReady info) \<and> no_panic (parseRadioState info) \<and>
   no_panic (parseRegisterState info) \<and> no_panic (parsePacketService info) \<and> no_panic (parseSignalState info) \<and>
   no_panic (parseConnect info) \<and> no_panic (parseIPConfiguration info) \<and> no_panic (parseVisibleProviders info) \<and>
   no_panic (parseProvider info) \<and> no_panic (parseDeviceServices info) \<and> no_panic (parseSlotInfoStatus info) \<and>
   no_panic (parseSMSRead info) \<and> no_panic (parseUSSDResponse info)"
proof (intro conjI)
  show "no_panic (parseDeviceCaps info)" "no_panic (parseRadioState info)" "no_panic (parsePacketService info)"
    "no_panic (parseConnect info)" "no_panic (parseSlotInfoStatus info)"
    by (auto simp: parseDeviceCaps_def parseRadioState_def parsePacketService_def parseConnect_def
        parseSlotInfoStatus_def panic_simps intro!: no_panic_bind)
  show "no_panic (parseSubscriberReady info)" "no_panic (parseRegisterState info)" "no_panic (parseUSSDResponse info)"
    by (auto simp: parseSubscriberReady_def parseRegisterState_def parseUSSDResponse_def panic_simps
        intro!: no_panic_bind)
  show "no_panic (parseSignalState info)"
    by (auto simp: parseSignalState_def panic_simps Let_def split: prod.split)
  show "no_panic (parseIPConfiguration info)"
    by (auto simp: parseIPConfiguration_def panic_simps intro!: no_panic_bind no_panic_parts split: prod.split)
  show "no_panic (parseVisibleProviders info)" "no_panic (parseDeviceServices info)" "no_panic (parseSMSRead info)"
    "no_panic (parseProvider info)"
    by (auto simp: parseVisibleProviders_def parseDeviceServices_def parseSMSRead_def panic_simps
        intro!: no_panic_bind no_panic_collect no_panic_parts)
qed

section \<open>The strings of a request are where its references say\<close>

lemma length_data_ref [simp, wire_simps]: "length (data_ref off bs) = 8"
  by (simp add: data_ref_def)

text \<open>What the reader yields for a string once it is written.\<close>

definition sent_string :: "string \<Rightarrow> string" where
  "sent_string s = string_of_runes (runes s)"

lemma sent_ascii: "\<forall>c \<in> set s. char_code c < 128 \<Longrightarrow> sent_string s = s"
  by (simp add: sent_string_def runes_ascii string_of_runes_ascii)

lemma encoded_empty: "encodeUTF16LE s = [] \<Longrightarrow> sent_string s = []"
proof -
  assume "encodeUTF16LE s = []"
  then have "utf16_encode (runes s) = []" using length_encodeUTF16LE [of s] by simp
  then have "runes s = []" using utf16_round_trip [OF valid_runes, of s] by simp
  then show "sent_string s = []" by (simp add: sent_string_def string_of_runes_def)
qed

lemma stringAt_alt:
  "stringAt b p = res_bind (u32At b p) (\<lambda>off. res_bind (u32At b (p + 4)) (decodeUTF16Range b off))"
  by (simp add: stringAt_def res_bind_def decodeUTF16Range_def split: sum.split)

lemma stringAt_ref:
  assumes "b = pre @ data_ref off (encodeUTF16LE s) @ rest"
    and "b = front @ encodeUTF16LE s @ post" and "length b < 2 ^ 32" and off: "length front = off"
  shows "stringAt b (length pre) = Inr (sent_string s)"
proof -
  let ?d = "encodeUTF16LE s"
  have bound: "length pre + 8 \<le> length b" using assms(1) by simp
  have small: "length ?d < 2 ^ 32" "length front < 2 ^ 32" using assms(2,3) by simp_all
  show ?thesis
  proof (cases "?d = []")
    case True
    then have "le_u32 b (length pre + 4) = 0" "le_u32 b (length pre) = 0"
      using assms(1) by (simp_all add: data_ref_def le_u32_skip)
    then show ?thesis
      using bound encoded_empty [OF True] by (simp add: stringAt_def u32At_def)
  next
    case False
    then have f: "le_u32 b (length pre) = of_nat (length front)" "le_u32 b (length pre + 4) = of_nat (length ?d)"
      using assms(1) off by (simp_all add: data_ref_def le_u32_skip)
    show ?thesis
      unfolding stringAt_alt sent_string_def decode_at [OF small assms(2), symmetric]
      using bound by (simp add: u32At_def f)
  qed
qed

text \<open>In a CONNECT request the access string, the user name and the password are read
  back from the places their references name, and so are the provider of a REGISTER_STATE
  request, the address of an SMS_CONFIGURATION request and the device path of a proxy
  configuration; a string of ASCII characters comes back as it was.\<close>

theorem request_strings_read_back:
  assumes "length (encodeConnect sid cmd a u pw auth ip) < 2 ^ 32"
    and "length (encodeSetRegisterState action plmn) < 2 ^ 32"
    and "length (encodeSetSMSConfig smsc) < 2 ^ 32"
  shows "stringAt (encodeConnect sid cmd a u pw auth ip) 8 = Inr (sent_string a) \<and>
    stringAt (encodeConnect sid cmd a u pw auth ip) 16 = Inr (sent_string u) \<and>
    stringAt (encodeConnect sid cmd a u pw auth ip) 24 = Inr (sent_string pw) \<and>
    stringAt (encodeSetRegisterState action plmn) 0 = Inr (sent_string plmn) \<and>
    stringAt (encodeSetSMSConfig smsc) 4 = Inr (sent_string smsc)"
proof (intro conjI)
  let ?A = "encodeUTF16LE a" and ?U = "encodeUTF16LE u" and ?P = "encodeUTF16LE pw"
  let ?b = "encodeConnect sid cmd a u pw auth ip"
  let ?fixed = "take 60 ?b"
  have uuid: "length UUIDContextTypeInternet = 16" by (simp add: UUIDContextTypeInternet_def)
  define tail where "tail = le_put32 0 @ le_put32 auth @ le_put32 ip @ UUIDContextTypeInternet"
  define refU where "refU = data_ref (60 + pad4 (length ?A)) ?U"
  define refP where "refP = data_ref (60 + pad4 (length ?A) + pad4 (length ?U)) ?P"
  have len_tail: "length tail = 28" "length refU = 8" "length refP = 8"
    by (simp_all add: tail_def refU_def refP_def uuid)
  have b: "?b = (le_put32 sid @ le_put32 cmd @ data_ref 60 ?A @ refU @ refP @ tail) @
      padded ?A @ padded ?U @ padded ?P"
    by (simp add: encodeConnect_def Let_def tail_def refU_def refP_def)
  let ?f = "le_put32 sid @ le_put32 cmd @ data_ref 60 ?A @ refU @ refP @ tail"
  have len: "length ?f = 60" "length (?f @ padded ?A) = 60 + pad4 (length ?A)"
    "length (?f @ padded ?A @ padded ?U) = 60 + pad4 (length ?A) + pad4 (length ?U)"
    by (simp_all add: len_tail)
  obtain za zu zp where z: "padded ?A = ?A @ za" "padded ?U = ?U @ zu" "padded ?P = ?P @ zp"
    by (simp add: padded_def)
  have "stringAt ?b (length (le_put32 sid @ le_put32 cmd)) = Inr (sent_string a)"
  proof (rule stringAt_ref)
    show "?b = (le_put32 sid @ le_put32 cmd) @ data_ref 60 ?A @ refU @ refP @ tail @ padded ?A @ padded ?U @ padded ?P"
      by (simp only: b append_assoc)
    show "?b = ?f @ ?A @ za @ padded ?U @ padded ?P" by (simp only: b append_assoc z(1))
  qed (simp_all only: len assms(1))
  then show "stringAt ?b 8 = Inr (sent_string a)" by simp
  have "stringAt ?b (length (le_put32 sid @ le_put32 cmd @ data_ref 60 ?A)) = Inr (sent_string u)"
  proof (rule stringAt_ref)
    show "?b = (le_put32 sid @ le_put32 cmd @ data_ref 60 ?A) @ data_ref (60 + pad4 (length ?A)) ?U @
        refP @ tail @ padded ?A @ padded ?U @ padded ?P"
      by (simp only: b append_assoc refU_def)
    show "?b = (?f @ padded ?A) @ ?U @ zu @ padded ?P" by (simp only: b append_assoc z(2))
  qed (simp_all only: len assms(1))
  then show "stringAt ?b 16 = Inr (sent_string u)" by simp
  have "stringAt ?b (length (le_put32 sid @ le_put32 cmd @ data_ref 60 ?A @ refU)) = Inr (sent_string pw)"
  proof (rule stringAt_ref)
    show "?b = (le_put32 sid @ le_put32 cmd @ data_ref 60 ?A @ refU) @
        data_ref (60 + pad4 (length ?A) + pad4 (length ?U)) ?P @ tail @ padded ?A @ padded ?U @ padded ?P"
      by (simp only: b append_assoc refP_def)
    show "?b = (?f @ padded ?A @ padded ?U) @ ?P @ zp" by (simp only: b append_assoc z(3))
  qed (simp_all only: len assms(1))
  then show "stringAt ?b 24 = Inr (sent_string pw)" by (simp add: len_tail)
  have runs: "(if s \<noteq> [] then encodeUTF16LE s else []) = encodeUTF16LE s" for s
    by (simp add: encodeUTF16LE_def utf16_encode_def)
  let ?N = "encodeUTF16LE plmn" and ?S = "encodeUTF16LE smsc"
  have "stringAt (encodeSetRegisterState action plmn) (length ([] :: byte list)) = Inr (sent_string plmn)"
  proof (rule stringAt_ref)
    show "encodeSetRegisterState action plmn = [] @ data_ref 16 ?N @ le_put32 action @ le_put32 0 @ ?N"
      by (simp add: encodeSetRegisterState_def runs Let_def)
    show "encodeSetRegisterState action plmn = (data_ref 16 ?N @ le_put32 action @ le_put32 0) @ ?N @ []"
      by (simp add: encodeSetRegisterState_def runs Let_def)
  qed (use assms(2) in simp_all)
  then show "stringAt (encodeSetRegisterState action plmn) 0 = Inr (sent_string plmn)" by simp
  obtain zs where zs: "padded ?S = ?S @ zs" by (simp add: padded_def)
  have "stringAt (encodeSetSMSConfig smsc) (length (le_put32 0)) = Inr (sent_string smsc)"
  proof (rule stringAt_ref)
    show "encodeSetSMSConfig smsc = le_put32 0 @ data_ref 12 ?S @ padded ?S"
      by (simp add: encodeSetSMSConfig_def runs Let_def)
    show "encodeSetSMSConfig smsc = (le_put32 0 @ data_ref 12 ?S) @ ?S @ zs"
      by (simp add: encodeSetSMSConfig_def runs Let_def zs)
  qed (use assms(3) in simp_all)
  then show "stringAt (encodeSetSMSConfig smsc) 4 = Inr (sent_string smsc)" by simp
qed

theorem request_strings_read_back_witness:
  "stringAt (encodeConnect 0 1 ''ims'' ''u'' ''pw'' 2 3) 8 = Inr (sent_string ''ims'') \<and>
    stringAt (encodeConnect 0 1 ''ims'' ''u'' ''pw'' 2 3) 16 = Inr (sent_string ''u'') \<and>
    stringAt (encodeConnect 0 1 ''ims'' ''u'' ''pw'' 2 3) 24 = Inr (sent_string ''pw'') \<and>
    stringAt (encodeSetRegisterState 1 ''26201'') 0 = Inr (sent_string ''26201'') \<and>
    stringAt (encodeSetSMSConfig ''+49170'') 4 = Inr (sent_string ''+49170'')"
proof (rule request_strings_read_back)
  show "length (encodeConnect 0 1 ''ims'' ''u'' ''pw'' 2 3) < 2 ^ 32"
    "length (encodeSetRegisterState 1 ''26201'') < 2 ^ 32" "length (encodeSetSMSConfig ''+49170'') < 2 ^ 32"
    by code_simp+
qed

lemma be_units_put: "u < 65536 \<Longrightarrow> be_units (put16 (of_nat u) @ r) = u # be_units r"
  by (simp add: be_bytes_2)

lemma be_units_encode:
  "\<forall>u \<in> set us. u < 65536 \<Longrightarrow> be_units (concat (map (\<lambda>u. put16 (of_nat u)) us)) = us"
proof (induction us)
  case (Cons u us)
  then have "be_units (concat (map (\<lambda>u. put16 (of_nat u)) us)) = us" "u < 65536" by auto
  then show ?case by (simp only: list.map concat.simps be_units_put)
qed simp

text \<open>A USSD command that the GSM alphabet cannot express is sent as UCS-2, and the
  response decoder reads the same text from it.\<close>

theorem ussd_ucs2_round_trip:
  assumes "enc command = None" and "EncodeUSSDRequest enc pack command = (dcs, payload)"
  shows "DecodeUSSDText unpack dec dcs payload = sent_string command"
proof -
  let ?us = "utf16_encode (runes command)"
  have p: "dcs = 0x48" "payload = concat (map (\<lambda>u. put16 (of_nat u)) ?us)"
    using assms by (auto simp: EncodeUSSDRequest_def)
  have "utf16_decode (be_units payload) = runes command"
    unfolding p(2) using utf16_encode_small be_units_encode [of ?us] utf16_round_trip [OF valid_runes, of command]
    by metis
  moreover have "length payload mod 2 = 0"
    by (simp add: p length_concat comp_def sum_list_triv)
  moreover have "payload = [] \<Longrightarrow> sent_string command = []"
  proof -
    assume "payload = []"
    then have "?us = []" by (cases ?us) (auto simp: p be_bytes_2)
    then show "sent_string command = []"
      using utf16_round_trip [OF valid_runes, of command] by (simp add: sent_string_def string_of_runes_def)
  qed
  ultimately show ?thesis by (auto simp: DecodeUSSDText_def sent_string_def p(1))
qed

theorem ussd_ucs2_round_trip_witness:
  "DecodeUSSDText (\<lambda>b. b) (\<lambda>_. None) 0x48 [0x26, 0x05] = sent_string (map byte_char [0xE2, 0x98, 0x85])"
proof (rule ussd_ucs2_round_trip)
  show "EncodeUSSDRequest (\<lambda>_. None) (\<lambda>b. b) (map byte_char [0xE2, 0x98, 0x85]) = (0x48, [0x26, 0x05])"
    by code_simp
qed simp

end
