(* ===== verification/MbimUicc.thy ===== *)
theory MbimUicc
  imports MbimServices
begin

unbundle bit_operations_syntax

section \<open>UICC access, authentication and the QMI tunnel\<close>

text \<open>
  \<^verbatim>\<open>pkg/mbim/uicc.go\<close>, \<^verbatim>\<open>uicc_fileaccess.go\<close>, \<^verbatim>\<open>auth.go\<close>, \<^verbatim>\<open>uicc_qmi.go\<close>, \<^verbatim>\<open>uicc_qmi_power.go\<close> and
  \<^verbatim>\<open>uicc_qmi_read.go\<close>: the exchanges with the SIM card over MBIM, and the QMI messages that are
  tunnelled through it, whose responses are lists of type-length-value fields.
\<close>

subsection \<open>Logical channels and APDUs\<close>

definition encodeUICCOpenChannel :: "byte list \<Rightarrow> u32 \<Rightarrow> u32 \<Rightarrow> byte list" where
  "encodeUICCOpenChannel aid selectP2Arg channelGroup =
     le_put32 (of_nat (length aid)) @ le_put32 (if length aid > 0 then 16 else 0) @
     le_put32 selectP2Arg @ le_put32 channelGroup @ padded aid"

definition encodeUICCAPDU :: "u32 \<Rightarrow> byte list \<Rightarrow> byte list" where
  "encodeUICCAPDU channel command =
     le_put32 channel @ le_put32 0 @ le_put32 0 @ le_put32 (of_nat (length command)) @ le_put32 20 @
     padded command"

definition uiccOpenChannelStatusOK :: "u32 \<Rightarrow> bool" where
  "uiccOpenChannelStatusOK status =
     (if status = 0 then True
      else
        let sw1 = (if status > 0xFF then drop_bit 8 status AND 0xFF else status)
        in sw1 = 0x90 \<or> sw1 = 0x91 \<or> sw1 = 0x61 \<or> sw1 = 0x62 \<or> sw1 = 0x63)"

definition UICCOpenChannel :: "commander \<Rightarrow> byte list \<Rightarrow> info_error + u32" where
  "UICCOpenChannel cmd aid =
     res_bind (exchange cmd UUIDMSUICCLowLevelAccess 2 CommandTypeSet (encodeUICCOpenChannel aid 0 0)) (\<lambda>b.
       if length b < 8 then Inl InfoTooShort
       else if \<not> uiccOpenChannelStatusOK (u32_or_zero b 0) then Inl (ChannelStatus (u32_or_zero b 0))
       else Inr (u32_or_zero b 4))"

definition uiccStatusWordBytes :: "u32 \<Rightarrow> byte list" where
  "uiccStatusWordBytes status =
     (if status \<le> 0xFF then [ucast status, 0x00]
      else [ucast (drop_bit 8 status AND 0xFF), ucast (status AND 0xFF)])"

definition parseUICCAPDU :: "byte list \<Rightarrow> info_error + byte list" where
  "parseUICCAPDU b =
     (if length b < 4 then Inl InfoTooShort
      else
        let status = u32_or_zero b 0 in
        res_bind (uiccByteArrayAt b 4) (\<lambda>resp.
          Inr (if status \<noteq> 0 then resp @ uiccStatusWordBytes status else resp)))"

definition UICCAPDU :: "commander \<Rightarrow> u32 \<Rightarrow> byte list \<Rightarrow> info_error + byte list" where
  "UICCAPDU cmd channel command =
     res_bind (exchange cmd UUIDMSUICCLowLevelAccess 4 CommandTypeSet (encodeUICCAPDU channel command))
       parseUICCAPDU"

definition UICCCloseChannel :: "commander \<Rightarrow> u32 \<Rightarrow> info_error + unit" where
  "UICCCloseChannel cmd channel =
     res_bind (exchange cmd UUIDMSUICCLowLevelAccess 3 CommandTypeSet (le_put32 channel @ le_put32 0)) (\<lambda>_. Inr ())"

subsection \<open>Direct file access\<close>

record uicc_application =
  AppType :: u32
  AID :: "byte list"

record uicc_file_result =
  SW1 :: u32
  SW2 :: u32
  FileData :: "byte list"

definition encodeUICCReadBinary :: "byte list \<Rightarrow> byte list \<Rightarrow> u32 \<Rightarrow> u32 \<Rightarrow> byte list" where
  "encodeUICCReadBinary aid filePath readOffset readSize =
     le_put32 1 @ le_put32 44 @ le_put32 (of_nat (length aid)) @
     le_put32 (of_nat (44 + pad4 (length aid))) @ le_put32 (of_nat (length filePath)) @
     le_put32 readOffset @ le_put32 readSize @ replicate 16 0 @ padded aid @ padded filePath"

definition encodeUICCReadRecord :: "byte list \<Rightarrow> byte list \<Rightarrow> u32 \<Rightarrow> byte list" where
  "encodeUICCReadRecord aid filePath recordNumber =
     le_put32 1 @ le_put32 40 @ le_put32 (of_nat (length aid)) @
     le_put32 (of_nat (40 + pad4 (length aid))) @ le_put32 (of_nat (length filePath)) @
     le_put32 recordNumber @ replicate 16 0 @ padded aid @ padded filePath"

definition parseUICCFileResponse :: "byte list \<Rightarrow> info_error + uicc_file_result" where
  "parseUICCFileResponse info =
     res_bind (u32At info 4) (\<lambda>sw1.
     res_bind (u32At info 8) (\<lambda>sw2.
     res_bind (byteArrayAt info 12) (\<lambda>bs. Inr \<lparr>SW1 = sw1, SW2 = sw2, FileData = bs\<rparr>)))"

definition UICCReadBinary :: "commander \<Rightarrow> byte list \<Rightarrow> byte list \<Rightarrow> u32 \<Rightarrow> u32 \<Rightarrow> info_error + uicc_file_result" where
  "UICCReadBinary cmd aid filePath readOffset readSize =
     res_bind (exchange cmd UUIDMSUICCLowLevelAccess 9 CommandTypeQuery
       (encodeUICCReadBinary aid filePath readOffset readSize)) parseUICCFileResponse"

definition UICCReadRecord :: "commander \<Rightarrow> byte list \<Rightarrow> byte list \<Rightarrow> u32 \<Rightarrow> info_error + uicc_file_result" where
  "UICCReadRecord cmd aid filePath recordNumber =
     res_bind (exchange cmd UUIDMSUICCLowLevelAccess 10 CommandTypeQuery
       (encodeUICCReadRecord aid filePath recordNumber)) parseUICCFileResponse"

definition application_at :: "byte list \<Rightarrow> nat \<Rightarrow> info_error + uicc_application" where
  "application_at info i =
     res_bind (sized_part info (16 + i * 8) 0) (\<lambda>st.
     res_bind (u32At st 0) (\<lambda>t.
     res_bind (byteArrayAt st 4) (\<lambda>aid. Inr \<lparr>AppType = t, AID = aid\<rparr>)))"

definition parseUICCApplicationList :: "byte list \<Rightarrow> info_error + uicc_application list" where
  "parseUICCApplicationList info =
     res_bind (u32At info 4) (\<lambda>count. collect (application_at info) 0 (unat count))"

definition QueryUICCApplicationList :: "commander \<Rightarrow> info_error + uicc_application list" where
  "QueryUICCApplicationList cmd =
     res_bind (exchange cmd UUIDMSUICCLowLevelAccess 7 CommandTypeQuery []) parseUICCApplicationList"

subsection \<open>Authentication\<close>

definition encodeAuthAKA :: "byte list \<Rightarrow> byte list \<Rightarrow> byte list" where
  "encodeAuthAKA rand autn = fixed16 rand @ fixed16 autn"

definition mbimStatusAuthSyncFailure :: u32 where "mbimStatusAuthSyncFailure = 35"

text \<open>The result is \<open>(res, ik, ck, auts)\<close>; a synchronisation failure carries the AUTS, empty where the
  response has none.\<close>

definition AuthAKA ::
    "commander \<Rightarrow> byte list \<Rightarrow> byte list \<Rightarrow> info_error + (byte list \<times> byte list \<times> byte list \<times> byte list)" where
  "AuthAKA cmd rand autn =
     res_bind (cmd UUIDAuth 1 CommandTypeQuery (encodeAuthAKA rand autn)) (\<lambda>resp.
       let b = InfoBuffer resp in
       if Status resp \<noteq> 0 then
         if Status resp = mbimStatusAuthSyncFailure then
           if length b \<ge> 66 then res_bind (go_slice b 52 66) (\<lambda>a. Inl (SyncFailure a))
           else if length b \<ge> 14 then res_bind (go_slice b 0 14) (\<lambda>a. Inl (SyncFailure a))
           else Inl (SyncFailure [])
         else Inl (StatusError (Status resp))
       else if length b < 66 then Inl InfoTooShort
       else
         res_bind (go_u32 b 16) (\<lambda>resLen.
         res_bind (go_slice b 0 (unat (if resLen > 16 then 16 else resLen))) (\<lambda>r.
         res_bind (go_slice b 20 36) (\<lambda>ik.
         res_bind (go_slice b 36 52) (\<lambda>ck.
         res_bind (go_slice b 52 66) (\<lambda>auts. Inr (r, ik, ck, auts)))))))"

definition encodeAuthSIM :: "byte list \<Rightarrow> byte list \<Rightarrow> byte list \<Rightarrow> u32 \<Rightarrow> byte list" where
  "encodeAuthSIM rand1 rand2 rand3 n = fixed16 rand1 @ fixed16 rand2 @ fixed16 rand3 @ le_put32 n"

definition AuthSIM :: "commander \<Rightarrow> byte list \<Rightarrow> info_error + (u32 \<times> u64)" where
  "AuthSIM cmd rand =
     res_bind (exchange cmd UUIDAuth 3 CommandTypeQuery (encodeAuthSIM rand [] [] 1)) (\<lambda>b.
       if length b < 12 then Inl InfoTooShort
       else res_bind (go_u32 b 0) (\<lambda>sres. res_bind (go_slice b 4 12) (\<lambda>k. Inr (sres, le_u64 k 0))))"

subsection \<open>QMI messages\<close>

definition buildQMIMessage :: "byte \<Rightarrow> byte \<Rightarrow> u16 \<Rightarrow> u16 \<Rightarrow> byte list \<Rightarrow> byte list" where
  "buildQMIMessage service clientID txID msgID tlvs =
     (let isCTL = (service = 0x00);
          sduLen = (if isCTL then 6 + length tlvs else 7 + length tlvs);
          qmuxLen = 5 + sduLen
      in 0x01 # le_put16 (of_nat qmuxLen) @ [0x00, service, clientID, 0x00] @
         (if isCTL then [ucast txID] else le_put16 txID) @ le_put16 msgID @
         le_put16 (of_nat (length tlvs)) @ tlvs)"

text \<open>One field of a list of type-length-value fields: type, value and what follows; \<open>None\<close> where the
  loops of the source end (fewer than three bytes left, or a length beyond the end).\<close>

definition next_tlv :: "byte list \<Rightarrow> (byte \<times> byte list \<times> byte list) option" where
  "next_tlv bs =
     (if length bs < 3 then None
      else let l = unat (le_u16 bs 1) in
      if 3 + l > length bs then None
      else Some (bs ! 0, subslice bs 3 (3 + l), drop (3 + l) bs))"

lemma next_tlv_shrinks: "next_tlv bs = Some (t, v, rest) \<Longrightarrow> length rest < length bs"
  by (auto simp: next_tlv_def Let_def split: if_splits)

function tlv_fields :: "byte list \<Rightarrow> (byte \<times> byte list) list" where
  "tlv_fields bs =
     (case next_tlv bs of
        None \<Rightarrow> []
      | Some (t, v, rest) \<Rightarrow> (t, v) # tlv_fields rest)"
  by auto
termination by (relation "measure length") (auto dest: next_tlv_shrinks)

declare tlv_fields.simps [simp del]

definition extractClientID :: "byte list \<Rightarrow> info_error + byte" where
  "extractClientID qmi =
     (if length qmi < 12 then Inl InfoTooShort
      else case find (\<lambda>(t, v). t = 0x01 \<and> length v \<ge> 2) (tlv_fields (drop 12 qmi)) of
        None \<Rightarrow> Inl ClientIDMissing
      | Some (_, v) \<Rightarrow> go_byte v 1)"

definition parseQMIResultOnly :: "byte list \<Rightarrow> info_error + unit" where
  "parseQMIResultOnly frame =
     (if length frame < 13 then Inl InfoTooShort
      else case find (\<lambda>(t, v). t = 0x02 \<and> length v \<ge> 4) (tlv_fields (drop 13 frame)) of
        None \<Rightarrow> Inl ResultMissing
      | Some (_, v) \<Rightarrow>
          res_bind (go_u16 v 0) (\<lambda>r.
            if r \<noteq> 0 then res_bind (go_u16 v 2) (\<lambda>e. Inl (Rejected e)) else Inr ()))"

definition buildQMIUIMPowerRequest :: "byte \<Rightarrow> u16 \<Rightarrow> byte \<Rightarrow> byte list" where
  "buildQMIUIMPowerRequest clientID msgID slot =
     buildQMIMessage 0x0B clientID 2 msgID [0x01, 0x01, 0x00, slot]"

definition qmiSessionTLV :: "byte list \<Rightarrow> byte list" where
  "qmiSessionTLV aid =
     (let v = [if length aid > 0 then 0x04 else 0x00, of_nat (length aid)] @ aid
      in [0x01, of_nat (length v), of_nat (length v div 256)] @ v)"

definition qmiFileTLV :: "u16 \<Rightarrow> byte list \<Rightarrow> byte list" where
  "qmiFileTLV fileID path =
     (let v = [ucast fileID, ucast (drop_bit 8 fileID), of_nat (length path)] @ path
      in [0x02, of_nat (length v), of_nat (length v div 256)] @ v)"

definition qmiOffsetLenTLV :: "u16 \<Rightarrow> u16 \<Rightarrow> byte list" where
  "qmiOffsetLenTLV a b =
     [0x03, 0x04, 0x00, ucast a, ucast (drop_bit 8 a), ucast b, ucast (drop_bit 8 b)]"

definition buildQMIReadTransparent ::
    "byte \<Rightarrow> u16 \<Rightarrow> u16 \<Rightarrow> byte list \<Rightarrow> byte list \<Rightarrow> u16 \<Rightarrow> u16 \<Rightarrow> byte list" where
  "buildQMIReadTransparent clientID txID fileID aid path offset len =
     buildQMIMessage 0x0B clientID txID 0x0020
       (qmiSessionTLV aid @ qmiFileTLV fileID path @ qmiOffsetLenTLV offset len)"

definition buildQMIReadRecord ::
    "byte \<Rightarrow> u16 \<Rightarrow> u16 \<Rightarrow> byte list \<Rightarrow> byte list \<Rightarrow> u16 \<Rightarrow> u16 \<Rightarrow> byte list" where
  "buildQMIReadRecord clientID txID fileID aid path rec len =
     buildQMIMessage 0x0B clientID txID 0x0021
       (qmiSessionTLV aid @ qmiFileTLV fileID path @ qmiOffsetLenTLV rec len)"

text \<open>The state of the loop of \<open>parseQMIReadResult\<close>: the error code of a failed request, the status
  word, the data (\<open>None\<close> is Go's nil).\<close>

record read_result =
  QmiFailed :: "u16 option"
  CardSW :: "(byte \<times> byte) option"
  ReadData :: "byte list option"

definition read_result_field :: "read_result \<Rightarrow> byte \<times> byte list \<Rightarrow> read_result" where
  "read_result_field s = (\<lambda>(t, v).
     if t = 0x02 then
       if length v \<ge> 4 \<and> le_u16 v 0 \<noteq> 0 then s\<lparr>QmiFailed := Some (le_u16 v 2)\<rparr> else s
     else if t = 0x10 then
       if length v \<ge> 2 then s\<lparr>CardSW := Some (v ! 0, v ! 1)\<rparr> else s
     else if t = 0x11 then
       if length v \<ge> 2 \<and> 2 + unat (le_u16 v 0) \<le> length v
       then s\<lparr>ReadData := Some (subslice v 2 (2 + unat (le_u16 v 0)))\<rparr> else s
     else s)"

definition parseQMIReadResult :: "byte list \<Rightarrow> info_error + (byte list \<times> byte \<times> byte)" where
  "parseQMIReadResult frame =
     (if length frame < 13 then Inl InfoTooShort
      else
        let s = foldl read_result_field \<lparr>QmiFailed = None, CardSW = None, ReadData = None\<rparr>
                  (tlv_fields (drop 13 frame))
        in case QmiFailed s of
             Some e \<Rightarrow> Inl (Rejected e)
           | None \<Rightarrow>
               if CardSW s = None \<and> ReadData s = None then Inl ResultMissing
               else Inr (case ReadData s of None \<Rightarrow> [] | Some d \<Rightarrow> d,
                         case CardSW s of None \<Rightarrow> 0 | Some (sw1, _) \<Rightarrow> sw1,
                         case CardSW s of None \<Rightarrow> 0 | Some (_, sw2) \<Rightarrow> sw2))"

subsection \<open>Card status\<close>

record uicc_app_info =
  QmiAppType :: byte
  QmiAID :: "byte list"

text \<open>The nested loops of \<^verbatim>\<open>parseAllAIDs\<close>: the applications found so far, and the bytes left, \<open>None\<close>
  where the value ends early and the source goes on with the next field.\<close>

fun qmi_apps :: "nat \<Rightarrow> byte list \<Rightarrow> uicc_app_info list \<times> byte list option" where
  "qmi_apps 0 v = ([], Some v)"
| "qmi_apps (Suc n) v =
     (if length v < 6 then ([], None)
      else case drop 6 v of
        [] \<Rightarrow> ([], None)
      | aidLen # v2 \<Rightarrow>
          if unat aidLen > length v2 then ([], None)
          else
            let app = \<lparr>QmiAppType = v ! 0, QmiAID = take (unat aidLen) v2\<rparr>;
                v3 = drop (unat aidLen) v2
            in if length v3 < 7 then ([app], None)
               else let (apps, rest) = qmi_apps n (drop 7 v3) in (app # apps, rest))"

fun qmi_slots :: "nat \<Rightarrow> byte list \<Rightarrow> uicc_app_info list \<times> byte list option" where
  "qmi_slots 0 v = ([], Some v)"
| "qmi_slots (Suc n) v =
     (if length v < 5 then ([], None)
      else case drop 5 v of
        [] \<Rightarrow> ([], None)
      | numApps # v2 \<Rightarrow>
          case qmi_apps (unat numApps) v2 of
            (apps, None) \<Rightarrow> (apps, None)
          | (apps, Some v3) \<Rightarrow>
              let (more, rest) = qmi_slots n v3 in (apps @ more, rest))"

definition card_status :: "byte list \<Rightarrow> uicc_app_info list \<times> bool" where
  "card_status v =
     (if length v < 8 then ([], False)
      else case drop 8 v of
        [] \<Rightarrow> ([], False)
      | numSlots # v2 \<Rightarrow> let (apps, rest) = qmi_slots (unat numSlots) v2 in (apps, rest \<noteq> None))"

fun all_aids :: "(byte \<times> byte list) list \<Rightarrow> uicc_app_info list" where
  "all_aids [] = []"
| "all_aids ((t, v) # fs) =
     (if t = 0x10 then
        let (apps, complete) = card_status v in if complete then apps else apps @ all_aids fs
      else all_aids fs)"

definition parseAllAIDs :: "byte list \<Rightarrow> info_error + uicc_app_info list" where
  "parseAllAIDs qmi =
     (if length qmi < 13 then Inl InfoTooShort else Inr (all_aids (tlv_fields (drop 13 qmi))))"

fun skip_apps :: "nat \<Rightarrow> byte list \<Rightarrow> info_error + byte list" where
  "skip_apps 0 v = Inr v"
| "skip_apps (Suc n) v =
     (if 7 > length v then Inl AppTruncated
      else
        let step = 7 + unat (v ! 6) + 7 in
        if step > length v then Inl AppTruncated else skip_apps n (drop step v))"

datatype slot_source = NoSlot | UimSlotStatus | UimSlotStatusIndex

fun active_slot :: "nat \<Rightarrow> nat \<Rightarrow> byte list \<Rightarrow> info_error + (byte \<times> slot_source)" where
  "active_slot s 0 v = Inr (0, NoSlot)"
| "active_slot s (Suc n) v =
     (if 6 > length v then Inl SlotTruncated
      else if v ! 0 = 0x01 \<and> v ! 1 = 0x01 then
        if v ! 4 \<noteq> 0 then Inr (v ! 4, UimSlotStatus) else Inr (of_nat (s + 1), UimSlotStatusIndex)
      else res_bind (skip_apps (unat (v ! 5)) (drop 6 v)) (active_slot (s + 1) n))"

definition ParseActiveSlot :: "byte list \<Rightarrow> info_error + (byte \<times> slot_source)" where
  "ParseActiveSlot frame =
     res_bind (parseQMIResultOnly frame) (\<lambda>_.
       case find (\<lambda>(t, v). t = 0x10) (tlv_fields (drop 13 frame)) of
         None \<Rightarrow> Inl TlvMissing
       | Some (_, v) \<Rightarrow>
           if length v < 9 then Inl InfoTooShort
           else active_slot 0 (unat (v ! 8)) (drop 9 v))"

subsection \<open>Exchanges with a client of the UIM service\<close>

text \<open>\<^verbatim>\<open>SendQMI\<close> as a function of the request and of a state \<open>'s\<close> of the device, which it may change.\<close>

type_synonym 's tunnel = "byte list \<Rightarrow> 's \<Rightarrow> (info_error + byte list) \<times> 's"

definition SendQMI :: "commander \<Rightarrow> byte list \<Rightarrow> info_error + byte list" where
  "SendQMI cmd payload = res_bind (cmd UUIDQMI 1 CommandTypeSet payload) (\<lambda>res. Inr (InfoBuffer res))"

definition alloc_request :: "byte list" where
  "alloc_request = buildQMIMessage 0x00 0x00 1 0x0022 [0x01, 0x01, 0x00, 0x0B]"

definition release_request :: "byte \<Rightarrow> byte list" where
  "release_request clientID = buildQMIMessage 0x00 0x00 2 0x0023 [0x01, 0x02, 0x00, 0x0B, clientID]"

definition allocUIMClient :: "'s tunnel \<Rightarrow> 's \<Rightarrow> (info_error + byte) \<times> 's" where
  "allocUIMClient send st = (let (r, st') = send alloc_request st in (res_bind r extractClientID, st'))"

definition releaseUIMClient :: "'s tunnel \<Rightarrow> byte \<Rightarrow> 's \<Rightarrow> 's" where
  "releaseUIMClient send clientID st = snd (send (release_request clientID) st)"

text \<open>Allocate a client, send the request made for it, read the response, release the client: the shape of
  every exchange, the release being the deferred call.\<close>

definition with_uim_client ::
    "'s tunnel \<Rightarrow> (byte \<Rightarrow> byte list) \<Rightarrow> (byte list \<Rightarrow> info_error + 'a) \<Rightarrow> 's \<Rightarrow> (info_error + 'a) \<times> 's" where
  "with_uim_client send req parse st =
     (case allocUIMClient send st of
        (Inl e, st1) \<Rightarrow> (Inl e, st1)
      | (Inr clientID, st1) \<Rightarrow>
          let (r, st2) = send (req clientID) st1
          in (res_bind r parse, releaseUIMClient send clientID st2))"

definition QMIUIMApplicationList :: "'s tunnel \<Rightarrow> 's \<Rightarrow> (info_error + uicc_app_info list) \<times> 's" where
  "QMIUIMApplicationList send =
     with_uim_client send (\<lambda>c. buildQMIMessage 0x0B c 3 0x002F []) parseAllAIDs"

definition UIMPowerOffSIM :: "'s tunnel \<Rightarrow> byte \<Rightarrow> 's \<Rightarrow> (info_error + unit) \<times> 's" where
  "UIMPowerOffSIM send slot =
     with_uim_client send (\<lambda>c. buildQMIUIMPowerRequest c 0x0030 slot) parseQMIResultOnly"

definition UIMPowerOnSIM :: "'s tunnel \<Rightarrow> byte \<Rightarrow> 's \<Rightarrow> (info_error + unit) \<times> 's" where
  "UIMPowerOnSIM send slot =
     with_uim_client send (\<lambda>c. buildQMIUIMPowerRequest c 0x0031 slot) parseQMIResultOnly"

definition QMIUIMGetCardStatus :: "'s tunnel \<Rightarrow> 's \<Rightarrow> (info_error + byte list) \<times> 's" where
  "QMIUIMGetCardStatus send =
     with_uim_client send (\<lambda>c. buildQMIMessage 0x0B c 3 0x002F []) Inr"

definition QMIReadTransparentEF ::
    "'s tunnel \<Rightarrow> u16 \<Rightarrow> byte list \<Rightarrow> byte list \<Rightarrow> u16 \<Rightarrow> u16 \<Rightarrow> 's \<Rightarrow> (info_error + (byte list \<times> byte \<times> byte)) \<times> 's" where
  "QMIReadTransparentEF send fileID aid path offset len =
     with_uim_client send (\<lambda>c. buildQMIReadTransparent c 2 fileID aid path offset len) parseQMIReadResult"

definition QMIReadRecordEF ::
    "'s tunnel \<Rightarrow> u16 \<Rightarrow> byte list \<Rightarrow> byte list \<Rightarrow> u16 \<Rightarrow> u16 \<Rightarrow> 's \<Rightarrow> (info_error + (byte list \<times> byte \<times> byte)) \<times> 's" where
  "QMIReadRecordEF send fileID aid path rec len =
     with_uim_client send (\<lambda>c. buildQMIReadRecord c 2 fileID aid path rec len) parseQMIReadResult"

section \<open>No response can make a parser panic\<close>

lemma no_panic_application_at: "no_panic (application_at info i)"
  unfolding application_at_def by (intro no_panic_bind no_panic_sized_part panic_simps)

lemma no_panic_skip_apps: "no_panic (skip_apps n v)"
  by (induction n v rule: skip_apps.induct) (auto simp: panic_simps Let_def)

lemma no_panic_active_slot: "no_panic (active_slot s n v)"
  by (induction s n v rule: active_slot.induct) (auto simp: panic_simps intro!: no_panic_bind no_panic_skip_apps)

lemma no_panic_result_only: "no_panic (parseQMIResultOnly b)"
  by (auto simp: parseQMIResultOnly_def panic_simps go_u16_def find_Some_iff split: option.split
      intro!: no_panic_bind)

text \<open>Whatever the card or the modem answers to a UICC, authentication or QMI request, no
  parser runs into a slice out of range.\<close>

theorem uicc_parsers_never_panic:
  "no_panic (parseUICCAPDU b) \<and> no_panic (parseUICCFileResponse b) \<and> no_panic (parseUICCApplicationList b) \<and>
   no_panic (AuthAKA (\<lambda>_ _ _ _. Inr resp) rand autn) \<and> no_panic (AuthSIM (\<lambda>_ _ _ _. Inr resp) rand) \<and>
   no_panic (extractClientID b) \<and> no_panic (parseQMIResultOnly b) \<and> no_panic (parseQMIReadResult b) \<and>
   no_panic (parseAllAIDs b) \<and> no_panic (ParseActiveSlot b)"
proof (intro conjI)
  show "no_panic (parseUICCAPDU b)" "no_panic (parseUICCFileResponse b)" "no_panic (parseUICCApplicationList b)"
    by (auto simp: parseUICCAPDU_def parseUICCFileResponse_def parseUICCApplicationList_def panic_simps Let_def
        intro!: no_panic_bind no_panic_collect no_panic_application_at)
  show "no_panic (AuthAKA (\<lambda>_ _ _ _. Inr resp) rand autn)"
    by (auto simp: AuthAKA_def Let_def panic_simps go_slice_def go_u32_def word_le_nat_alt word_less_nat_alt
        intro!: no_panic_bind)
  show "no_panic (AuthSIM (\<lambda>_ _ _ _. Inr resp) rand)"
    by (auto simp: AuthSIM_def exchange_def Let_def panic_simps go_slice_def go_u32_def intro!: no_panic_bind)
  show "no_panic (extractClientID b)"
    by (auto simp: extractClientID_def panic_simps go_byte_def find_Some_iff split: option.split)
  show "no_panic (parseQMIResultOnly b)" by (rule no_panic_result_only)
  show "no_panic (parseQMIReadResult b)" "no_panic (parseAllAIDs b)"
    by (auto simp: parseQMIReadResult_def parseAllAIDs_def panic_simps Let_def split: option.split)
  show "no_panic (ParseActiveSlot b)"
    by (auto simp: ParseActiveSlot_def panic_simps split: option.split
        intro!: no_panic_bind no_panic_result_only no_panic_active_slot)
qed

section \<open>The payload of a request is where its reference says\<close>

lemma array_range_at:
  assumes "b = front @ d @ post" and "length b < 2 ^ 32" and "d \<noteq> [] \<Longrightarrow> off = length front"
  shows "array_range b (of_nat off) (of_nat (length d)) = Inr d"
proof (cases "d = []")
  case False
  then have off: "off = length front" by (rule assms(3))
  have n: "unat (of_nat off :: u32) = length front" "unat (of_nat (length d) :: u32) = length d"
    using assms(1,2) off by (simp_all only: unat_of_nat_u32) simp_all
  then have "(of_nat (length d) :: u32) \<noteq> 0" using False by (metis length_0_conv unat_0)
  moreover have "\<not> length b < length front + length d" using assms(1) by simp
  moreover have "go_slice b (length front) (length front + length d) = Inr d"
    using assms(1) by (simp add: go_slice_def subslice_def)
  ultimately show ?thesis unfolding array_range_def n Let_def by simp
qed (simp add: array_range_def)

lemma byteArrayAt_ref:
  assumes "b = pre @ le_put32 (of_nat off) @ le_put32 (of_nat (length d)) @ rest"
    and "b = front @ d @ post" and "length b < 2 ^ 32" and "d \<noteq> [] \<Longrightarrow> off = length front"
  shows "byteArrayAt b (length pre) = Inr d"
proof -
  have f: "u32At b (length pre) = Inr (of_nat off)" "u32At b (length pre + 4) = Inr (of_nat (length d))"
    using assms(1) by (simp_all add: u32At_def le_u32_skip)
  show ?thesis unfolding byteArrayAt_def f res_bind_Inr by (rule array_range_at [OF assms(2-4)])
qed

lemma uiccByteArrayAt_ref:
  assumes "b = pre @ le_put32 (of_nat (length d)) @ le_put32 (of_nat off) @ rest"
    and "b = front @ d @ post" and "length b < 2 ^ 32" and "d \<noteq> [] \<Longrightarrow> off = length front"
  shows "uiccByteArrayAt b (length pre) = Inr d"
proof -
  have f: "u32At b (length pre) = Inr (of_nat (length d))" "u32At b (length pre + 4) = Inr (of_nat off)"
    using assms(1) by (simp_all add: u32At_def le_u32_skip)
  show ?thesis unfolding uiccByteArrayAt_def f res_bind_Inr by (rule array_range_at [OF assms(2-4)])
qed

lemma paddedE: obtains z where "padded d = d @ z"
  by (simp add: padded_def)

lemma apdu_read_back:
  assumes "length (encodeUICCAPDU channel d) < 2 ^ 32"
  shows "uiccByteArrayAt (encodeUICCAPDU channel d) 12 = Inr d"
proof -
  obtain z where z: "padded d = d @ z" by (rule paddedE)
  let ?pre = "le_put32 channel @ le_put32 0 @ le_put32 0"
  have "uiccByteArrayAt (encodeUICCAPDU channel d) (length ?pre) = Inr d"
  proof (rule uiccByteArrayAt_ref)
    show "encodeUICCAPDU channel d = ?pre @ le_put32 (of_nat (length d)) @ le_put32 (of_nat 20) @ padded d"
      by (simp add: encodeUICCAPDU_def)
    show "encodeUICCAPDU channel d =
        (?pre @ le_put32 (of_nat (length d)) @ le_put32 (of_nat 20)) @ d @ z"
      by (simp add: encodeUICCAPDU_def z)
  qed (use assms in simp_all)
  then show ?thesis by simp
qed

lemma aid_read_back:
  assumes "length (encodeUICCOpenChannel d p2 g) < 2 ^ 32"
  shows "uiccByteArrayAt (encodeUICCOpenChannel d p2 g) 0 = Inr d"
proof -
  obtain z where z: "padded d = d @ z" by (rule paddedE)
  let ?off = "if length d > 0 then 16 else 0 :: nat"
  have off: "(if length d > 0 then 16 else 0) = (of_nat ?off :: u32)" by simp
  have "uiccByteArrayAt (encodeUICCOpenChannel d p2 g) (length ([] :: byte list)) = Inr d"
  proof (rule uiccByteArrayAt_ref)
    show "encodeUICCOpenChannel d p2 g =
        [] @ le_put32 (of_nat (length d)) @ le_put32 (of_nat ?off) @ le_put32 p2 @ le_put32 g @ padded d"
      unfolding encodeUICCOpenChannel_def off by simp
    show "encodeUICCOpenChannel d p2 g =
        (le_put32 (of_nat (length d)) @ le_put32 (of_nat ?off) @ le_put32 p2 @ le_put32 g) @ d @ z"
      unfolding encodeUICCOpenChannel_def off z by simp
  qed (use assms in simp_all)
  then show ?thesis by simp
qed

lemma pdu_read_back:
  assumes "length (encodeSMSSend d) < 2 ^ 32"
  shows "byteArrayAt (encodeSMSSend d) 4 = Inr d"
proof -
  obtain z where z: "padded d = d @ z" by (rule paddedE)
  have "byteArrayAt (encodeSMSSend d) (length (le_put32 0)) = Inr d"
  proof (rule byteArrayAt_ref)
    show "encodeSMSSend d = le_put32 0 @ le_put32 (of_nat 12) @ le_put32 (of_nat (length d)) @ padded d"
      by (simp add: encodeSMSSend_def)
    show "encodeSMSSend d = (le_put32 0 @ le_put32 (of_nat 12) @ le_put32 (of_nat (length d))) @ d @ z"
      by (simp add: encodeSMSSend_def z)
  qed (use assms in simp_all)
  then show ?thesis by simp
qed

lemma ussd_read_back:
  assumes "length (encodeUSSD action dcs d) < 2 ^ 32"
  shows "byteArrayAt (encodeUSSD action dcs d) 8 = Inr d"
proof -
  obtain z where z: "padded d = d @ z" by (rule paddedE)
  let ?pre = "le_put32 action @ le_put32 dcs"
  have "byteArrayAt (encodeUSSD action dcs d) (length ?pre) = Inr d"
  proof (rule byteArrayAt_ref)
    show "encodeUSSD action dcs d = ?pre @ le_put32 (of_nat 16) @ le_put32 (of_nat (length d)) @ padded d"
      by (simp add: encodeUSSD_def)
    show "encodeUSSD action dcs d = (?pre @ le_put32 (of_nat 16) @ le_put32 (of_nat (length d))) @ d @ z"
      by (simp add: encodeUSSD_def z)
  qed (use assms in simp_all)
  then show ?thesis by simp
qed

lemma file_refs_read_back:
  assumes "length (encodeUICCReadBinary aid path ro rs) < 2 ^ 32"
  shows "byteArrayAt (encodeUICCReadBinary aid path ro rs) 4 = Inr aid"
    and "byteArrayAt (encodeUICCReadBinary aid path ro rs) 12 = Inr path"
proof -
  obtain z z' where z: "padded aid = aid @ z" "padded path = path @ z'" by (metis paddedE)
  let ?b = "encodeUICCReadBinary aid path ro rs"
  let ?refA = "le_put32 (of_nat 44) @ le_put32 (of_nat (length aid))"
    and ?refP = "le_put32 (of_nat (44 + pad4 (length aid))) @ le_put32 (of_nat (length path))"
    and ?rest = "le_put32 ro @ le_put32 rs @ replicate 16 0"
  have b: "?b = le_put32 1 @ ?refA @ ?refP @ ?rest @ padded aid @ padded path"
    by (simp add: encodeUICCReadBinary_def)
  have "byteArrayAt ?b (length (le_put32 1)) = Inr aid"
  proof (rule byteArrayAt_ref)
    show "?b = le_put32 1 @ le_put32 (of_nat 44) @ le_put32 (of_nat (length aid)) @ ?refP @ ?rest @ padded aid @ padded path"
      by (simp only: b append_assoc)
    show "?b = (le_put32 1 @ ?refA @ ?refP @ ?rest) @ aid @ z @ padded path"
      by (simp only: b append_assoc z(1))
  qed (use assms in simp_all)
  then show "byteArrayAt ?b 4 = Inr aid" by simp
  have "byteArrayAt ?b (length (le_put32 1 @ ?refA)) = Inr path"
  proof (rule byteArrayAt_ref)
    show "?b = (le_put32 1 @ ?refA) @ le_put32 (of_nat (44 + pad4 (length aid))) @ le_put32 (of_nat (length path)) @
        ?rest @ padded aid @ padded path"
      by (simp only: b append_assoc)
    show "?b = (le_put32 1 @ ?refA @ ?refP @ ?rest @ padded aid) @ path @ z'"
      by (simp only: b append_assoc z(2))
  qed (use assms in simp_all)
  then show "byteArrayAt ?b 12 = Inr path" by simp
qed

text \<open>The variable parts of the requests (the command APDU, the application identifier,
  the PDU of an SMS, the payload of a USSD, application and path of a file) are read back
  unchanged from the places the requests' own references name, padding included.\<close>

theorem request_payloads_read_back:
  assumes "length (encodeUICCAPDU channel apdu) < 2 ^ 32" and "length (encodeUICCOpenChannel aid p2 g) < 2 ^ 32"
    and "length (encodeSMSSend pdu) < 2 ^ 32" and "length (encodeUSSD action dcs payload) < 2 ^ 32"
    and "length (encodeUICCReadBinary aid path ro rs) < 2 ^ 32"
  shows "uiccByteArrayAt (encodeUICCAPDU channel apdu) 12 = Inr apdu \<and>
    uiccByteArrayAt (encodeUICCOpenChannel aid p2 g) 0 = Inr aid \<and>
    byteArrayAt (encodeSMSSend pdu) 4 = Inr pdu \<and>
    byteArrayAt (encodeUSSD action dcs payload) 8 = Inr payload \<and>
    byteArrayAt (encodeUICCReadBinary aid path ro rs) 4 = Inr aid \<and>
    byteArrayAt (encodeUICCReadBinary aid path ro rs) 12 = Inr path"
  by (intro conjI apdu_read_back aid_read_back pdu_read_back ussd_read_back file_refs_read_back assms)

theorem request_payloads_read_back_witness:
  "uiccByteArrayAt (encodeUICCAPDU 1 [0x00, 0xA4, 0x04, 0x00, 0x07]) 12 = Inr [0x00, 0xA4, 0x04, 0x00, 0x07] \<and>
    uiccByteArrayAt (encodeUICCOpenChannel [0xA0, 0, 1] 0 0) 0 = Inr [0xA0, 0, 1] \<and>
    byteArrayAt (encodeSMSSend [1, 2, 3]) 4 = Inr [1, 2, 3] \<and>
    byteArrayAt (encodeUSSD 0 15 [0xAA]) 8 = Inr [0xAA] \<and>
    byteArrayAt (encodeUICCReadBinary [0xA0, 0, 1] [0x2F, 0xE2] 0 10) 4 = Inr [0xA0, 0, 1] \<and>
    byteArrayAt (encodeUICCReadBinary [0xA0, 0, 1] [0x2F, 0xE2] 0 10) 12 = Inr [0x2F, 0xE2]"
  by (rule request_payloads_read_back) code_simp+

section \<open>QMI requests\<close>

lemma next_tlv_field:
  assumes "length v < 65536"
  shows "next_tlv (t # le_put16 (of_nat (length v)) @ v @ rest) = Some (t, v, rest)"
proof -
  have l: "unat (of_nat (length v) :: u16) = length v" using assms by (simp only: unat_of_nat_u16) simp
  have f: "le_u16 (t # le_put16 (of_nat (length v)) @ v @ rest) 1 = of_nat (length v)"
    using le_u16_skip [of "[t]" 1 "le_put16 (of_nat (length v)) @ v @ rest"] by simp
  have s: "subslice (t # le_put16 (of_nat (length v)) @ v @ rest) 3 (3 + length v) = v"
    using subslice_skip [of "t # le_put16 (of_nat (length v))" 3 "3 + length v" "v @ rest"]
    by (simp add: subslice_head)
  have d: "drop (3 + length v) (t # le_put16 (of_nat (length v)) @ v @ rest) = rest"
    by (simp add: numeral_3_eq_3)
  show ?thesis unfolding next_tlv_def Let_def f l s d by simp
qed

lemma tlv_fields_Cons:
  "length v < 65536 \<Longrightarrow>
     tlv_fields (t # le_put16 (of_nat (length v)) @ v @ rest) = (t, v) # tlv_fields rest"
  by (subst tlv_fields.simps) (simp add: next_tlv_field)

lemma tlv_fields_Nil: "tlv_fields [] = []"
  by (subst tlv_fields.simps) (simp add: next_tlv_def)

lemma le_put16_bytes: "le_put16 w = [ucast w, ucast (drop_bit 8 w)]"
proof -
  have "unat (drop_bit 8 w) = unat w div 256" by (simp add: drop_bit_eq_div unat_div)
  then have "(of_nat (unat w div 256) :: byte) = ucast (drop_bit 8 w)" by (metis of_nat_unat)
  moreover have "(of_nat (unat w) :: byte) = ucast w" by (simp add: of_nat_unat)
  ultimately show ?thesis by (simp add: le_put16_def be_bytes_2)
qed

lemma tlv_head:
  assumes "length v < 65536"
  shows "[t, of_nat (length v), of_nat (length v div 256)] = t # le_put16 (of_nat (length v))"
  using assms by (simp add: le_put16_def be_bytes_2)

lemma qmi_frame:
  assumes "service \<noteq> 0" and "length tlvs + 12 < 65536"
  shows "drop 13 (buildQMIMessage service c tx m tlvs) = tlvs"
    and "unat (le_u16 (buildQMIMessage service c tx m tlvs) 1) + 1 = length (buildQMIMessage service c tx m tlvs)"
proof -
  let ?f = "buildQMIMessage service c tx m tlvs"
  have f: "?f = [0x01] @ le_put16 (of_nat (12 + length tlvs)) @ [0, service, c, 0] @ le_put16 tx @ le_put16 m @
      le_put16 (of_nat (length tlvs)) @ tlvs"
    using assms(1) by (simp add: buildQMIMessage_def)
  show "drop 13 ?f = tlvs" by (simp add: f numeral_eq_Suc)
  have l: "le_u16 ?f 1 = of_nat (12 + length tlvs)" unfolding f by (subst le_u16_skip) simp_all
  have "unat (le_u16 ?f 1) = 12 + length tlvs"
    unfolding l using assms(2) by (simp only: unat_of_nat_u16) simp
  then show "unat (le_u16 ?f 1) + 1 = length ?f" by (simp add: f)
qed

text \<open>A QMI read request carries its length in its header, and its fields are, in this
  order, the session with the application identifier, the file with its path, and the offset and
  length, each as long as its own length field says.\<close>

theorem qmi_read_request_fields:
  fixes c :: byte and tx f offset len :: u16 and aid path :: "byte list"
  assumes "length aid \<le> 255" and "length path \<le> 255"
  defines "frame \<equiv> buildQMIReadTransparent c tx f aid path offset len"
  shows "tlv_fields (drop 13 frame) =
      [(1, [if aid \<noteq> [] then 4 else 0, of_nat (length aid)] @ aid),
       (2, le_put16 f @ [of_nat (length path)] @ path), (3, le_put16 offset @ le_put16 len)] \<and>
    unat (le_u16 frame 1) + 1 = length frame"
proof -
  define s where "s = [if aid \<noteq> [] then 4 else 0, of_nat (length aid)] @ aid"
  define p where "p = le_put16 f @ [of_nat (length path)] @ path"
  define o3 where "o3 = le_put16 offset @ le_put16 len"
  have len: "length s < 65536" "length p < 65536" "length o3 < 65536"
    using assms(1,2) by (simp_all add: s_def p_def o3_def)
  have t1: "qmiSessionTLV aid = 1 # le_put16 (of_nat (length s)) @ s"
    using tlv_head [OF len(1), of 1] by (simp add: qmiSessionTLV_def s_def Let_def)
  have t2: "qmiFileTLV f path = 2 # le_put16 (of_nat (length p)) @ p"
    using tlv_head [OF len(2), of 2] by (simp add: qmiFileTLV_def p_def Let_def le_put16_bytes [of f])
  have t3: "qmiOffsetLenTLV offset len = 3 # le_put16 (of_nat (length o3)) @ o3"
    using le_put16_bytes [of "4 :: u16"]
    by (simp add: qmiOffsetLenTLV_def o3_def le_put16_bytes [of offset] le_put16_bytes [of len])
  let ?tlvs = "qmiSessionTLV aid @ qmiFileTLV f path @ qmiOffsetLenTLV offset len"
  have small: "length ?tlvs + 12 < 65536" using assms(1,2) by (simp add: t1 t2 t3 s_def p_def o3_def)
  have "tlv_fields ?tlvs = [(1, s), (2, p), (3, o3)]"
    using tlv_fields_Cons [OF len(1)] tlv_fields_Cons [OF len(2)] tlv_fields_Cons [OF len(3), of 3 "[]"]
    by (simp add: t1 t2 t3 tlv_fields_Nil)
  then show ?thesis
    using qmi_frame [of "0x0B" ?tlvs, OF _ small]
    by (simp add: frame_def buildQMIReadTransparent_def s_def p_def o3_def)
qed

theorem qmi_read_request_fields_witness:
  "tlv_fields (drop 13 (buildQMIReadTransparent 1 2 0x6FAD [0xA0, 0] [0x3F, 0] 0 4)) =
      [(1, [if [0xA0, 0 :: byte] \<noteq> [] then 4 else 0, of_nat (length [0xA0, 0 :: byte])] @ [0xA0, 0]),
       (2, le_put16 0x6FAD @ [of_nat (length [0x3F, 0 :: byte])] @ [0x3F, 0]), (3, le_put16 0 @ le_put16 4)] \<and>
    unat (le_u16 (buildQMIReadTransparent 1 2 0x6FAD [0xA0, 0] [0x3F, 0] 0 4) 1) + 1 =
      length (buildQMIReadTransparent 1 2 0x6FAD [0xA0, 0] [0x3F, 0] 0 4)"
  by (rule qmi_read_request_fields) simp_all

subsection \<open>Clients are released\<close>

text \<open>A tunnel that records the requests; \<open>answer\<close> decides the responses from what was sent before.\<close>

definition recording :: "(byte list list \<Rightarrow> byte list \<Rightarrow> info_error + byte list) \<Rightarrow> byte list list tunnel" where
  "recording answer req sent = (answer sent req, sent @ [req])"

text \<open>An exchange with the UIM service sends nothing but the allocation when that fails;
  otherwise it sends the allocation, its one request for the client it was given, and the
  release of that same client, in this order and whatever the modem answers.\<close>

theorem uim_client_always_released:
  "snd (with_uim_client (recording answer) req parse []) =
     (case res_bind (answer [] alloc_request) extractClientID of
        Inl e \<Rightarrow> [alloc_request]
      | Inr c \<Rightarrow> [alloc_request, req c, release_request c])"
  by (simp add: with_uim_client_def allocUIMClient_def releaseUIMClient_def recording_def split: sum.split)

end
