(* ===== verification/MbimDevice.thy ===== *)
theory MbimDevice
  imports MbimWire
begin

section \<open>The MBIM device: transactions over one transport\<close>

text \<open>
  \<^verbatim>\<open>pkg/mbim/device.go\<close>: allocation of transactions, the map of pending transactions, the read loop
  with its collectors, and the queue of indications.  Each operation is what the source does
  inside one critical section of \<^verbatim>\<open>d.mu\<close> (the collectors are touched by the read loop only), so that
  any interleaving of the goroutines is a sequence of these operations.  A channel is a number;
  \<open>answers\<close> is the list of everything sent into channels so far, with the transaction it was sent
  for, and \<open>registered\<close> remembers for which transaction a channel was made: two ghost fields.
\<close>

record indication =
  IndService :: uuid
  IndCID :: u32
  IndInfo :: "byte list"

type_synonym command_result = "mbim_error + command_done"

record device =
  nextTx :: u32
  pending :: "u32 \<Rightarrow> nat option"
  maxCtrl :: u32
  closed :: bool
  collectors :: "u32 \<Rightarrow> collector option"
  indications :: "indication list"
  next_chan :: nat
  registered :: "nat \<Rightarrow> u32 option"
  answers :: "(nat \<times> u32 \<times> command_result) list"

definition newDevice :: device where
  "newDevice = \<lparr>nextTx = 0, pending = Map.empty, maxCtrl = 0, closed = False, collectors = Map.empty,
     indications = [], next_chan = 0, registered = Map.empty, answers = []\<rparr>"

definition allocTx :: "device \<Rightarrow> u32 \<times> device" where
  "allocTx d = (nextTx d + 1, d\<lparr>nextTx := nextTx d + 1\<rparr>)"

definition registerPending :: "u32 \<Rightarrow> device \<Rightarrow> nat \<times> device" where
  "registerPending tx d =
     (next_chan d, d\<lparr>pending := (pending d)(tx := Some (next_chan d)), next_chan := next_chan d + 1,
        registered := (registered d)(next_chan d := Some tx)\<rparr>)"

definition removePending :: "u32 \<Rightarrow> device \<Rightarrow> device" where
  "removePending tx d = d\<lparr>pending := (pending d)(tx := None)\<rparr>"

text \<open>\<^verbatim>\<open>deliver\<close> and \<^verbatim>\<open>deliverError\<close>.\<close>

definition deliver :: "u32 \<Rightarrow> command_result \<Rightarrow> device \<Rightarrow> device" where
  "deliver tx r d =
     (case pending d tx of
        None \<Rightarrow> d
      | Some ch \<Rightarrow> d\<lparr>pending := (pending d)(tx := None), answers := answers d @ [(ch, tx, r)]\<rparr>)"

definition commandCollector :: "u32 \<Rightarrow> device \<Rightarrow> collector" where
  "commandCollector tx d = (case collectors d tx of None \<Rightarrow> newCollector | Some c \<Rightarrow> c)"

definition removeCollector :: "u32 \<Rightarrow> device \<Rightarrow> device" where
  "removeCollector tx d = d\<lparr>collectors := (collectors d)(tx := None)\<rparr>"

definition store_collector :: "u32 \<Rightarrow> collector \<Rightarrow> device \<Rightarrow> device" where
  "store_collector tx c d = d\<lparr>collectors := (collectors d)(tx := Some c)\<rparr>"

definition handleCommandDoneFragment :: "u32 \<Rightarrow> byte list \<Rightarrow> device \<Rightarrow> device" where
  "handleCommandDoneFragment tx msg d =
     (case add_fragment (commandCollector tx d) msg of
        Inl _ \<Rightarrow> store_collector tx (commandCollector tx d) d
      | Inr (False, c) \<Rightarrow> store_collector tx c d
      | Inr (True, c) \<Rightarrow> deliver tx (commandDone c) (removeCollector tx d))"

definition commandDoneShapeIndication :: "byte list \<Rightarrow> byte list" where
  "commandDoneShapeIndication msg =
     (if length msg < headerLen + fragHdrLen then msg
      else if le_u32 msg (headerLen + 4) \<noteq> 0 then msg
      else if length msg < headerLen + fragHdrLen + uuidLen + 4 + 4 then msg
      else
        take 4 msg @ le_put32 (of_nat (length msg + 4)) @ subslice msg 8 40 @ replicate 4 0 @ drop 40 msg)"

definition queue_indication :: "command_done \<Rightarrow> device \<Rightarrow> device" where
  "queue_indication resp d =
     (if length (indications d) < 16 then
        d\<lparr>indications := indications d @
           [\<lparr>IndService = Service resp, IndCID = CID resp, IndInfo = InfoBuffer resp\<rparr>]\<rparr>
      else d)"

definition handleIndicationFragment :: "u32 \<Rightarrow> byte list \<Rightarrow> device \<Rightarrow> device" where
  "handleIndicationFragment tx msg d =
     (case add_fragment (commandCollector tx d) (commandDoneShapeIndication msg) of
        Inl _ \<Rightarrow> store_collector tx (commandCollector tx d) d
      | Inr (False, c) \<Rightarrow> store_collector tx c d
      | Inr (True, c) \<Rightarrow>
          (case commandDone c of
             Inl _ \<Rightarrow> removeCollector tx d
           | Inr resp \<Rightarrow> queue_indication resp (removeCollector tx d)))"

text \<open>One turn of the read loop, on a message the transport gave.\<close>

definition read_message :: "byte list \<Rightarrow> device \<Rightarrow> device" where
  "read_message msg d =
     (case decodeHeader msg of
        Inl _ \<Rightarrow> d
      | Inr h \<Rightarrow>
          if MsgType h = MessageTypeOpenDone \<or> MsgType h = MessageTypeCloseDone then
            if length msg < headerLen + 4 then d
            else deliver (TransactionID h)
                   (Inr \<lparr>Service = replicate 16 0, CID = 0, Status = le_u32 msg headerLen, InfoBuffer = []\<rparr>) d
          else if MsgType h = MessageTypeCommandDone then handleCommandDoneFragment (TransactionID h) msg d
          else if MsgType h = MessageTypeIndicateStatus then handleIndicationFragment (TransactionID h) msg d
          else d)"

text \<open>\<^verbatim>\<open>failPending\<close>: the transactions it fails are those of the map it takes; the order in which Go
  ranges over the map is \<open>txs\<close>.\<close>

definition failPending :: "mbim_error \<Rightarrow> u32 list \<Rightarrow> device \<Rightarrow> device" where
  "failPending e txs d =
     d\<lparr>pending := Map.empty, collectors := Map.empty,
       answers := answers d @ map (\<lambda>tx. (the (pending d tx), tx, Inl e)) txs\<rparr>"

definition begin_open :: "u32 \<Rightarrow> device \<Rightarrow> byte list \<times> u32 \<times> nat \<times> device" where
  "begin_open maxControlTransfer d =
     (let (tx, d1) = allocTx (d\<lparr>maxCtrl := maxControlTransfer\<rparr>); (ch, d2) = registerPending tx d1
      in (encodeOpen tx maxControlTransfer, tx, ch, d2))"

definition begin_command ::
    "uuid \<Rightarrow> u32 \<Rightarrow> u32 \<Rightarrow> byte list \<Rightarrow> device \<Rightarrow> byte list list \<times> u32 \<times> nat \<times> device" where
  "begin_command service cid ct info d =
     (let (tx, d1) = allocTx d; (ch, d2) = registerPending tx d1
      in (splitCommand tx service cid ct info (maxCtrl d2), tx, ch, d2))"

definition close_device :: "device \<Rightarrow> byte list option \<times> device" where
  "close_device d =
     (if closed d then (None, d)
      else let d' = d\<lparr>closed := True, nextTx := nextTx d + 1\<rparr> in (Some (encodeClose (nextTx d')), d'))"

text \<open>What the goroutines can do, in any order.  Registering any transaction, abandoning any (a failed
  write or a context that ended), a message of any content.\<close>

inductive dev_step :: "device \<Rightarrow> device \<Rightarrow> bool" where
  alloc: "dev_step d (snd (allocTx d))"
| register: "dev_step d (snd (registerPending tx d))"
| abandon: "dev_step d (removePending tx d)"
| set_max: "dev_step d (d\<lparr>maxCtrl := m\<rparr>)"
| receive: "dev_step d (read_message msg d)"
| read_failed: "distinct txs \<Longrightarrow> set txs = dom (pending d) \<Longrightarrow> dev_step d (failPending e txs d)"
| take_indication: "indications d = i # is \<Longrightarrow> dev_step d (d\<lparr>indications := is\<rparr>)"
| closing: "dev_step d (snd (close_device d))"

inductive dev_reachable :: "device \<Rightarrow> bool" where
  start: "dev_reachable newDevice"
| step: "dev_reachable d \<Longrightarrow> dev_step d d' \<Longrightarrow> dev_reachable d'"

inductive_cases dev_stepE: "dev_step d d'"

section \<open>Every channel is answered at most once, with its own transaction\<close>

definition dev_inv :: "device \<Rightarrow> bool" where
  "dev_inv d \<longleftrightarrow>
     (\<forall>tx ch. pending d tx = Some ch \<longrightarrow>
        ch < next_chan d \<and> registered d ch = Some tx \<and> ch \<notin> fst ` set (answers d)) \<and>
     (\<forall>(ch, tx, r) \<in> set (answers d). ch < next_chan d \<and> registered d ch = Some tx) \<and>
     distinct (map fst (answers d)) \<and> length (indications d) \<le> 16"

lemma dev_inv_new: "dev_inv newDevice"
  by (simp add: dev_inv_def newDevice_def)

lemma dev_inv_frame:
  assumes "dev_inv d" and "pending d' = pending d" and "next_chan d' = next_chan d"
    and "registered d' = registered d" and "answers d' = answers d" and "length (indications d') \<le> 16"
  shows "dev_inv d'"
  using assms by (simp add: dev_inv_def)

lemma dev_inv_deliver:
  assumes "dev_inv d"
  shows "dev_inv (deliver tx r d)"
proof (cases "pending d tx")
  case (Some ch)
  then have ch: "ch < next_chan d" "registered d ch = Some tx" "ch \<notin> fst ` set (answers d)"
    using assms by (auto simp: dev_inv_def)
  have others: "ch' \<noteq> ch" if "pending d tx' = Some ch'" "tx' \<noteq> tx" for tx' ch'
    using that ch(2) assms by (auto simp: dev_inv_def)
  show ?thesis
    using assms ch others Some by (auto simp: dev_inv_def deliver_def)
qed (use assms in \<open>simp add: deliver_def\<close>)

lemma dev_inv_collectors: "dev_inv d \<Longrightarrow> dev_inv (d\<lparr>collectors := c\<rparr>)"
  by (simp add: dev_inv_def)

lemma dev_inv_queue: "dev_inv d \<Longrightarrow> dev_inv (queue_indication resp d)"
  by (auto simp: dev_inv_def queue_indication_def)

lemma dev_inv_read: "dev_inv d \<Longrightarrow> dev_inv (read_message msg d)"
  by (auto simp: read_message_def handleCommandDoneFragment_def handleIndicationFragment_def
      store_collector_def removeCollector_def intro!: dev_inv_deliver dev_inv_collectors dev_inv_queue
      split: sum.split prod.split bool.split)

lemma dev_inv_register:
  assumes "dev_inv d"
  shows "dev_inv (snd (registerPending tx d))"
proof -
  have fresh: "next_chan d \<notin> fst ` set (answers d)"
    using assms by (auto simp: dev_inv_def)
  have old: "ch < next_chan d" "registered d ch = Some tx'" "ch \<notin> fst ` set (answers d)"
    if "pending d tx' = Some ch" for tx' ch
    using that assms by (auto simp: dev_inv_def)
  have log: "ch < next_chan d" "registered d ch = Some tx'" if "(ch, tx', r) \<in> set (answers d)" for ch tx' r
    using that assms by (auto simp: dev_inv_def)
  show ?thesis
    using assms fresh unfolding dev_inv_def registerPending_def snd_conv
    by (intro conjI allI ballI impI) (auto dest: old log split: if_splits)
qed

lemma pending_chan:
  assumes "dev_inv d" and "pending d tx = Some ch"
  shows "ch < next_chan d" and "registered d ch = Some tx" and "ch \<notin> fst ` set (answers d)"
  using assms by (simp_all add: dev_inv_def)

lemma dev_inv_fail:
  assumes "dev_inv d" and "distinct txs" and "set txs = dom (pending d)"
  shows "dev_inv (failPending e txs d)"
proof -
  let ?ch = "\<lambda>tx. the (pending d tx)"
  have some: "pending d tx = Some (?ch tx)" if "tx \<in> set txs" for tx
    using that assms(3) by auto
  note chan = pending_chan [OF assms(1) some]
  have "inj_on ?ch (set txs)"
  proof (rule inj_onI)
    fix x y assume xy: "x \<in> set txs" "y \<in> set txs" "?ch x = ?ch y"
    have "Some x = registered d (?ch x)" by (rule chan(2) [OF xy(1), symmetric])
    also have "\<dots> = registered d (?ch y)" by (rule arg_cong [OF xy(3)])
    also have "\<dots> = Some y" by (rule chan(2) [OF xy(2)])
    finally show "x = y" by (rule option.inject [THEN iffD1])
  qed
  then have "distinct (map ?ch txs)" using assms(2) by (simp add: distinct_map)
  moreover have "set (map ?ch txs) \<inter> fst ` set (answers d) = {}"
    unfolding set_map disjoint_iff by (intro allI impI, elim imageE) (simp only: chan(3) not_False_eq_True)
  ultimately have dist: "distinct (map fst (answers (failPending e txs d)))"
    using assms(1) by (auto simp: failPending_def dev_inv_def comp_def)
  have log: "ch < next_chan d \<and> registered d ch = Some tx"
    if mem: "(ch, tx, r) \<in> set (answers (failPending e txs d))" for ch tx r
  proof -
    have "(ch, tx, r) \<in> set (answers d) \<or> (tx \<in> set txs \<and> ch = ?ch tx)"
      using mem by (auto simp: failPending_def)
    then show ?thesis
    proof
      assume "(ch, tx, r) \<in> set (answers d)"
      then show ?thesis using assms(1) by (auto simp: dev_inv_def)
    next
      assume "tx \<in> set txs \<and> ch = ?ch tx"
      then show ?thesis using chan(1,2) by simp
    qed
  qed
  have rest: "pending (failPending e txs d) = Map.empty" "next_chan (failPending e txs d) = next_chan d"
    "registered (failPending e txs d) = registered d" "indications (failPending e txs d) = indications d"
    by (simp_all add: failPending_def)
  show ?thesis
    unfolding dev_inv_def rest using log dist assms(1) by (auto simp: dev_inv_def)
qed

lemma dev_inv_alloc: "dev_inv d \<Longrightarrow> dev_inv (snd (allocTx d))"
  by (simp add: allocTx_def dev_inv_def)

lemma dev_inv_close: "dev_inv d \<Longrightarrow> dev_inv (snd (close_device d))"
  by (simp add: close_device_def dev_inv_def Let_def)

lemma dev_inv_abandon: "dev_inv d \<Longrightarrow> dev_inv (removePending tx d)"
  by (auto simp: removePending_def dev_inv_def)

lemma dev_inv_step: "dev_step d d' \<Longrightarrow> dev_inv d \<Longrightarrow> dev_inv d'"
proof (induction rule: dev_step.induct)
  case (set_max d m)
  then show ?case by (simp add: dev_inv_def)
next
  case (take_indication d i "is")
  then show ?case by (simp add: dev_inv_def)
qed (simp_all add: dev_inv_alloc dev_inv_register dev_inv_abandon dev_inv_read dev_inv_fail dev_inv_close)

lemma dev_inv_reachable: "dev_reachable d \<Longrightarrow> dev_inv d"
  by (induction rule: dev_reachable.induct) (auto intro: dev_inv_new dev_inv_step)

text \<open>Property C4: in every state the device can reach, whatever the modem sends and however the
  goroutines interleave, no channel has been sent two results (so no send can block the read
  loop), no channel that is still pending has been sent one, every result went to the channel of
  its own transaction, and at most 16 indications wait.\<close>

theorem channels_answered_once:
  assumes "dev_reachable d"
  shows "distinct (map fst (answers d)) \<and>
    (\<forall>(ch, tx, r) \<in> set (answers d). registered d ch = Some tx) \<and>
    (\<forall>tx ch. pending d tx = Some ch \<longrightarrow> registered d ch = Some tx \<and> ch \<notin> fst ` set (answers d)) \<and>
    length (indications d) \<le> 16"
  using dev_inv_reachable [OF assms] by (auto simp: dev_inv_def)

definition open_done :: "u32 \<Rightarrow> byte list" where
  "open_done tx = putHeader MessageTypeOpenDone 16 tx @ le_put32 0"

definition demo_device :: device where
  "demo_device = read_message (open_done 1) (snd (registerPending 1 (snd (allocTx newDevice))))"

lemma demo_device_reachable: "dev_reachable demo_device"
  unfolding demo_device_def
  by (intro dev_reachable.step [OF _ dev_step.receive] dev_reachable.step [OF _ dev_step.register]
      dev_reachable.step [OF _ dev_step.alloc] dev_reachable.start)

theorem channels_answered_once_witness:
  "map fst (answers demo_device) = [0] \<and> distinct (map fst (answers demo_device)) \<and>
   list_all (\<lambda>(ch, tx, r). registered demo_device ch = Some tx) (answers demo_device)"
proof (intro conjI)
  show "map fst (answers demo_device) = [0]"
    by (simp add: demo_device_def read_message_def open_done_def decode_putHeader mbim_lens deliver_def
        registerPending_def allocTx_def newDevice_def)
  note all = channels_answered_once [OF demo_device_reachable]
  from all show "distinct (map fst (answers demo_device))" by (rule conjunct1)
  from all show "list_all (\<lambda>(ch, tx, r). registered demo_device ch = Some tx) (answers demo_device)"
    unfolding list_all_iff by (elim conjE)
qed

section \<open>Transactions do not disturb one another\<close>

text \<open>What a transaction sees of the device.\<close>

definition view :: "u32 \<Rightarrow> device \<Rightarrow> collector option \<times> nat option \<times> (nat \<times> u32 \<times> command_result) list" where
  "view t d = (collectors d t, pending d t, filter (\<lambda>(ch, tx, r). tx = t) (answers d))"

definition message_for :: "u32 \<Rightarrow> byte list \<Rightarrow> bool" where
  "message_for t m = (case decodeHeader m of Inl _ \<Rightarrow> False | Inr h \<Rightarrow> TransactionID h = t)"

lemma view_store: "view t (store_collector tx c d) = (if tx = t then (Some c, snd (view t d)) else view t d)"
  by (simp add: view_def store_collector_def)

lemma view_remove: "view t (removeCollector tx d) = (if tx = t then (None, snd (view t d)) else view t d)"
  by (simp add: view_def removeCollector_def)

lemma view_queue: "view t (queue_indication resp d) = view t d"
  by (simp add: view_def queue_indication_def)

lemma view_deliver:
  "view t (deliver tx r d) =
     (if tx = t then
        case view t d of (c, p, as) \<Rightarrow>
          (case p of None \<Rightarrow> (c, p, as) | Some ch \<Rightarrow> (c, None, as @ [(ch, t, r)]))
      else view t d)"
  by (simp add: view_def deliver_def split: option.split)

lemma view_collector: "commandCollector t d = (case fst (view t d) of None \<Rightarrow> newCollector | Some c \<Rightarrow> c)"
  by (simp add: view_def commandCollector_def)

lemmas view_ops = view_store view_remove view_queue view_deliver

lemma view_command_done:
  "view t (handleCommandDoneFragment tx m d) =
     (if tx = t then
        case add_fragment (commandCollector t d) m of
          Inl _ \<Rightarrow> view t (store_collector t (commandCollector t d) d)
        | Inr (fin, c) \<Rightarrow>
            if fin then view t (deliver t (commandDone c) (removeCollector t d)) else view t (store_collector t c d)
      else view t d)"
  by (auto simp: handleCommandDoneFragment_def view_ops split: sum.split prod.split bool.split)

lemma view_indication:
  "view t (handleIndicationFragment tx m d) =
     (if tx = t then
        case add_fragment (commandCollector t d) (commandDoneShapeIndication m) of
          Inl _ \<Rightarrow> view t (store_collector t (commandCollector t d) d)
        | Inr (fin, c) \<Rightarrow> if fin then view t (removeCollector t d) else view t (store_collector t c d)
      else view t d)"
  by (auto simp: handleIndicationFragment_def view_ops split: sum.split prod.split bool.split)

lemma view_other:
  assumes "\<not> message_for t m"
  shows "view t (read_message m d) = view t d"
proof (cases "decodeHeader m")
  case (Inr h)
  then have "TransactionID h \<noteq> t" using assms by (simp add: message_for_def)
  then show ?thesis using Inr by (simp add: read_message_def view_command_done view_indication view_deliver)
qed (simp add: read_message_def)

lemma view_cong:
  assumes "view t d = view t d'" and "message_for t m"
  shows "view t (read_message m d) = view t (read_message m d')"
proof -
  obtain h where h: "decodeHeader m = Inr h" "TransactionID h = t"
    using assms(2) by (auto simp: message_for_def split: sum.splits)
  have c: "commandCollector t d = commandCollector t d'" by (simp add: view_collector assms(1))
  have "view t (handleCommandDoneFragment t m d) = view t (handleCommandDoneFragment t m d')"
    by (simp add: view_command_done c view_ops assms(1) split: sum.split)
  moreover have "view t (handleIndicationFragment t m d) = view t (handleIndicationFragment t m d')"
    by (simp add: view_indication c view_ops assms(1) split: sum.split)
  moreover have "view t (deliver t r d) = view t (deliver t r d')" for r
    by (simp add: view_deliver assms(1))
  ultimately show ?thesis using h assms(1) by (simp add: read_message_def)
qed

lemma view_run: "view t d = view t d' \<Longrightarrow> view t (foldl (\<lambda>d m. read_message m d) d ms) =
    view t (foldl (\<lambda>d m. read_message m d) d' (filter (message_for t) ms))"
proof (induction ms arbitrary: d d')
  case (Cons m ms)
  show ?case
  proof (cases "message_for t m")
    case True
    then show ?thesis using Cons.IH [OF view_cong [OF Cons.prems True]] by simp
  next
    case False
    then show ?thesis using Cons.IH [of "read_message m d" d'] view_other [OF False, of d] Cons.prems by simp
  qed
qed simp

text \<open>The fragments of a response, in order, through the read loop.\<close>

lemma run_response:
  assumes "feed c frags = Inr (replicate n False @ [True], c')"
    and "\<forall>m \<in> set frags. \<exists>h. decodeHeader m = Inr h \<and> MsgType h = MessageTypeCommandDone \<and> TransactionID h = t"
    and "commandCollector t d = c" and "pending d t = Some ch"
  shows "view t (foldl (\<lambda>d m. read_message m d) d frags) =
    (None, None, filter (\<lambda>(ch, tx, r). tx = t) (answers d) @ [(ch, t, commandDone c')])"
  using assms
proof (induction frags arbitrary: c d n)
  case (Cons m frags)
  obtain h where h: "decodeHeader m = Inr h" "MsgType h = MessageTypeCommandDone" "TransactionID h = t"
    using Cons.prems(2) by auto
  have types: "MessageTypeCommandDone \<noteq> MessageTypeOpenDone" "MessageTypeCommandDone \<noteq> MessageTypeCloseDone"
    by (simp_all add: MessageTypeCommandDone_def MessageTypeOpenDone_def MessageTypeCloseDone_def)
  then have read: "read_message m d = handleCommandDoneFragment t m d" using h by (simp add: read_message_def)
  obtain fin c1 fins where add: "add_fragment c m = Inr (fin, c1)" "feed c1 frags = Inr (fins, c')"
    "fin # fins = replicate n False @ [True]"
    using Cons.prems(1) by (auto simp: res_simps)
  show ?case
  proof (cases n)
    case 0
    then have "fin" "fins = []" using add(3) by simp_all
    moreover have "frags = []" using add(2) \<open>fins = []\<close> by (cases frags) (auto simp: res_simps)
    ultimately show ?thesis
      using add Cons.prems(3,4)
      by (simp add: read handleCommandDoneFragment_def view_def deliver_def removeCollector_def)
  next
    case (Suc k)
    then have f: "\<not> fin" "fins = replicate k False @ [True]" using add(3) by simp_all
    let ?d = "store_collector t c1 d"
    have r: "read_message m d = ?d"
      using add(1) f(1) Cons.prems(3) by (simp add: read handleCommandDoneFragment_def)
    have "commandCollector t ?d = c1" "pending ?d t = Some ch" "answers ?d = answers d"
      using Cons.prems(4) by (simp_all add: commandCollector_def store_collector_def)
    then show ?thesis using Cons.IH [of c1 k ?d] add(2) f(2) Cons.prems(2) by (simp add: r)
  qed
qed simp

text \<open>Property C28: while a transaction is pending, its caller gets exactly the response that its own
  fragments make up, however they are interleaved with messages of other transactions, with
  indications and with garbage; afterwards nothing of it is left in the device.\<close>

theorem response_survives_interleaving:
  assumes "pending d t = Some ch" and "collectors d t = None"
    and "filter (message_for t) msgs = frags"
    and "\<forall>m \<in> set frags. \<exists>h. decodeHeader m = Inr h \<and> MsgType h = MessageTypeCommandDone \<and> TransactionID h = t"
    and "feed newCollector frags = Inr (replicate n False @ [True], c)"
  shows "\<exists>d'. d' = foldl (\<lambda>d m. read_message m d) d msgs \<and>
    filter (\<lambda>(ch, tx, r). tx = t) (answers d') =
      filter (\<lambda>(ch, tx, r). tx = t) (answers d) @ [(ch, t, commandDone c)] \<and>
    pending d' t = None \<and> collectors d' t = None"
proof -
  let ?d = "foldl (\<lambda>d m. read_message m d) d msgs"
  have "commandCollector t d = newCollector" using assms(2) by (simp add: commandCollector_def)
  from run_response [OF assms(5,4) this assms(1)] have
    "view t ?d = (None, None, filter (\<lambda>(ch, tx, r). tx = t) (answers d) @ [(ch, t, commandDone c)])"
    using view_run [OF refl, of t d msgs] assms(3) by simp
  then show ?thesis by (simp add: view_def)
qed

definition demo_fragment :: "u32 \<Rightarrow> u32 \<Rightarrow> nat \<Rightarrow> byte list \<Rightarrow> byte list" where
  "demo_fragment mt tx i chunk =
     putHeader mt (of_nat (20 + length chunk)) tx @ le_put32 2 @ le_put32 (of_nat i) @ chunk"

definition demo_first :: "byte list" where
  "demo_first = demo_fragment MessageTypeCommandDone 7 0
     (replicate 16 9 @ le_put32 3 @ le_put32 0 @ le_put32 2 @ [0xAA])"

definition demo_second :: "byte list" where
  "demo_second = demo_fragment MessageTypeCommandDone 7 1 [0xBB]"

theorem response_survives_interleaving_witness:
  "\<exists>d'. d' = foldl (\<lambda>d m. read_message m d) (snd (registerPending 7 newDevice))
        [demo_first, open_done 3, demo_second] \<and>
    filter (\<lambda>(ch, tx, r). tx = 7) (answers d') =
      filter (\<lambda>(ch, tx, r). tx = 7) (answers (snd (registerPending 7 newDevice))) @
        [(0, 7, commandDone (snd (projr (feed newCollector [demo_first, demo_second]))))] \<and>
    pending d' 7 = None \<and> collectors d' 7 = None"
proof (rule response_survives_interleaving)
  show "pending (snd (registerPending 7 newDevice)) 7 = Some 0" "collectors (snd (registerPending 7 newDevice)) 7 = None"
    by (simp_all add: registerPending_def newDevice_def)
  show "filter (message_for 7) [demo_first, open_done 3, demo_second] = [demo_first, demo_second]"
    by (simp add: message_for_def demo_first_def demo_second_def demo_fragment_def open_done_def decode_putHeader)
  show "\<forall>m \<in> set [demo_first, demo_second].
      \<exists>h. decodeHeader m = Inr h \<and> MsgType h = MessageTypeCommandDone \<and> TransactionID h = 7"
    by (simp add: demo_first_def demo_second_def demo_fragment_def decode_putHeader)
  show "feed newCollector [demo_first, demo_second] =
      Inr (replicate 1 False @ [True], snd (projr (feed newCollector [demo_first, demo_second])))"
    by code_simp
qed

section \<open>An interrupted indication\<close>

text \<open>A message that starts an indication of its own: fragment number 0.\<close>

definition starts_indication :: "u32 \<Rightarrow> byte list \<Rightarrow> bool" where
  "starts_indication t m \<longleftrightarrow>
     (\<exists>h. decodeHeader m = Inr h \<and> MsgType h = MessageTypeIndicateStatus \<and> TransactionID h = t) \<and>
     44 \<le> length m \<and> le_u32 m 16 = 0"

lemma le_u32_take: "i + 4 \<le> n \<Longrightarrow> le_u32 (take n b) i = le_u32 b i"
  by (simp add: le_u32_def subslice_def drop_take min_def)

lemma shaped_current:
  assumes "44 \<le> length m" and "le_u32 m 16 = 0"
  shows "le_u32 (commandDoneShapeIndication m) 16 = 0" and "20 \<le> length (commandDoneShapeIndication m)"
proof -
  let ?p = "take 4 m @ le_put32 (of_nat (length m + 4))"
  have s: "commandDoneShapeIndication m = ?p @ subslice m 8 40 @ replicate 4 0 @ drop 40 m"
    using assms by (simp add: commandDoneShapeIndication_def mbim_lens)
  have "le_u32 (commandDoneShapeIndication m) 16 = le_u32 (subslice m 8 40 @ replicate 4 0 @ drop 40 m) 8"
    unfolding s using assms(1) le_u32_skip [of ?p 16 "subslice m 8 40 @ replicate 4 0 @ drop 40 m"]
    by (simp del: append_assoc)
  also have "\<dots> = le_u32 m 16"
    using assms(1) by (subst le_u32_prefix) (simp_all add: le_u32_def subslice_def drop_take min_def)
  finally show "le_u32 (commandDoneShapeIndication m) 16 = 0" using assms(2) by simp
  show "20 \<le> length (commandDoneShapeIndication m)" unfolding s using assms(1) by simp
qed

lemma blocked_indication:
  assumes "collectors d t = Some c" and "started c" and "next_frag c \<noteq> 0" and "starts_indication t m"
  shows "read_message m d = d"
proof -
  obtain h where h: "decodeHeader m = Inr h" "MsgType h = MessageTypeIndicateStatus" "TransactionID h = t"
    and m: "44 \<le> length m" "le_u32 m 16 = 0"
    using assms(4) by (auto simp: starts_indication_def)
  have "add_fragment c (commandDoneShapeIndication m) = Inl OutOfOrder"
    using shaped_current [OF m] assms(2,3) by (simp add: add_fragment_def mbim_lens Let_def)
  then have "handleIndicationFragment t m d = d"
    using assms(1) by (simp add: handleIndicationFragment_def commandCollector_def store_collector_def fun_upd_idem)
  moreover have "MessageTypeIndicateStatus \<noteq> MessageTypeOpenDone" "MessageTypeIndicateStatus \<noteq> MessageTypeCloseDone"
    "MessageTypeIndicateStatus \<noteq> MessageTypeCommandDone"
    by (simp_all add: MessageTypeCommandDone_def MessageTypeOpenDone_def MessageTypeCloseDone_def
        MessageTypeIndicateStatus_def)
  ultimately show ?thesis using h by (simp add: read_message_def)
qed

text \<open>Property C31: once the collector of a transaction number holds the beginning of an indication whose
  next fragment never comes, every later indication with that number is dropped, however many
  there are and although each is complete in itself: the device does not change at all.\<close>

theorem interrupted_indication_blocks_later_ones:
  assumes "collectors d t = Some c" and "started c" and "next_frag c \<noteq> 0"
    and "\<forall>m \<in> set msgs. starts_indication t m"
  shows "foldl (\<lambda>d m. read_message m d) d msgs = d"
  using assms(4) by (induction msgs) (simp_all add: blocked_indication [OF assms(1-3)])

definition demo_indication :: "u32 \<Rightarrow> byte list" where
  "demo_indication tot = putHeader MessageTypeIndicateStatus 45 0 @ le_put32 tot @ le_put32 0 @
     replicate 16 9 @ le_put32 2 @ le_put32 1 @ [0xCC]"

definition demo_interrupted :: device where
  "demo_interrupted = read_message (demo_indication 2) newDevice"

theorem interrupted_indication_blocks_later_ones_witness:
  "length (indications (read_message (demo_indication 1) newDevice)) = 1 \<and>
   foldl (\<lambda>d m. read_message m d) demo_interrupted [demo_indication 1, demo_indication 1] = demo_interrupted \<and>
   indications demo_interrupted = []"
proof (intro conjI)
  show "length (indications (read_message (demo_indication 1) newDevice)) = 1" by code_simp
  show "indications demo_interrupted = []" by code_simp
  let ?c = "the (collectors demo_interrupted 0)"
  have c: "\<not> Option.is_none (collectors demo_interrupted 0)" "started ?c" "next_frag ?c \<noteq> 0" by code_simp+
  show "foldl (\<lambda>d m. read_message m d) demo_interrupted [demo_indication 1, demo_indication 1] = demo_interrupted"
  proof (rule interrupted_indication_blocks_later_ones [OF _ c(2,3)])
    show "collectors demo_interrupted 0 = Some ?c" using c(1) by (simp add: Option.is_none_def)
    show "\<forall>m \<in> set [demo_indication 1, demo_indication 1]. starts_indication 0 m"
      by (simp add: starts_indication_def demo_indication_def decode_putHeader header_skip le_u32_skip)
  qed
qed

end
