(* ===== verification/MbimMonitor.thy ===== *)
theory MbimMonitor
  imports MbimServices MbimDevice
begin

section \<open>The monitor of indications\<close>

text \<open>
  \<^verbatim>\<open>pkg/mbim/snapshot.go\<close>: the monitor takes the indications that \<open>MbimDevice\<close> queues, parses
  them with \<open>MbimServices\<close>, keeps a snapshot of the modem and calls the callbacks that were
  registered.  A callback is an event of the output; that one is registered is a flag.  The time
  of an update is a number that the caller gives.  Whoever reads the snapshot does so between two
  operations (the lock), so an operation is one step.
\<close>

record snapshot =
  SnapReadyState :: u32
  SnapIMSI :: string
  SnapICCID :: string
  SnapRegisterState :: u32
  SnapProviderName :: string
  SnapMCC :: string
  SnapMNC :: string
  SnapPacketState :: u32
  SignalRSSI :: u32
  SignalDBM :: int
  SignalUnknown :: bool
  UpdatedAt :: nat







definition with_signal :: "signal_state \<Rightarrow> snapshot \<Rightarrow> snapshot" where
  "with_signal st s = s\<lparr>SignalRSSI := RSSI st, SignalDBM := DBM st, SignalUnknown := Unknown st\<rparr>"

definition with_register :: "register_state \<Rightarrow> snapshot \<Rightarrow> snapshot" where
  "with_register rs s =
     s\<lparr>SnapRegisterState := RegState rs, SnapProviderName := ProviderName rs, SnapMCC := MCC rs, SnapMNC := MNC rs\<rparr>"

definition with_packet :: "packet_service \<Rightarrow> snapshot \<Rightarrow> snapshot" where
  "with_packet ps s = s\<lparr>SnapPacketState := PsState ps\<rparr>"

definition with_subscriber :: "subscriber_ready \<Rightarrow> snapshot \<Rightarrow> snapshot" where
  "with_subscriber sub s =
     s\<lparr>SnapReadyState := ReadyState sub, SnapIMSI := IMSI sub, SnapICCID := ICCID sub\<rparr>"




section \<open>A change of the card is reported exactly once\<close>


definition card_of :: "snapshot \<Rightarrow> u32 \<times> string" where
  "card_of s = (SnapReadyState s, SnapICCID s)"


text \<open>The abstract specification: of a sequence of values, those that differ from the one before.\<close>

fun changes :: "'a \<Rightarrow> 'a list \<Rightarrow> 'a list" where
  "changes x [] = []"
| "changes x (y # ys) = (if y = x then changes x ys else y # changes y ys)"

lemma changes_last: "last (x # changes x ys) = last (x # ys)"
  by (induction x ys rule: changes.induct) auto


lemma card_frames [simp]:
  "card_of (with_signal st s) = card_of s" "card_of (with_register rs s) = card_of s"
  "card_of (with_packet ps s) = card_of s" "card_of (s\<lparr>UpdatedAt := n\<rparr>) = card_of s"
  "card_of (with_subscriber sub s) = (ReadyState sub, ICCID sub)"
  by (simp_all add: card_of_def with_signal_def with_register_def with_packet_def with_subscriber_def)










section \<open>From the message to the callback\<close>










end
