(* ===== verification/ApduArbiter.thy ===== *)
theory ApduArbiter
  imports GoText "HOL-Library.Multiset"
begin

section \<open>The arbiter of access to a card\<close>

text \<open>
  \<^verbatim>\<open>internal/apduarbiter/arbiter.go\<close>: leases of three kinds (sessions, one-shot operations,
  transports) and barriers compete for one card.  Each definition is what the source does inside
  one critical section of \<^verbatim>\<open>a.mu\<close>; the waiting of the goroutines between their critical sections
  is the step relation at the end.  The channel \<^verbatim>\<open>notifyC\<close>, closed and made anew by every signal, is
  the number of signals so far: a goroutine that waits on a channel of an earlier number is woken.
  The number of a ticket is drawn just before the lock is taken, here inside; numbers are only ever
  compared for equality.  Times are integers in nanoseconds that the caller gives.  A set of classes is a list.  Upper case
  is that of ASCII.  Logging has no effect on the state and is left out.
\<close>

datatype lease_type = SessionLease | OneShotLease | TransportLease | BarrierLease
datatype wait_kind = WaitLease | WaitBarrier

definition ScopeExclusive :: string where "ScopeExclusive = ''exclusive''"
definition ScopeQMIChannel :: string where "ScopeQMIChannel = ''qmi_channel''"

definition ClassEUICCWrite :: string where "ClassEUICCWrite = ''EUICCWrite''"
definition ClassUSIMAKA :: string where "ClassUSIMAKA = ''USIMAKA''"
definition ClassSMSC :: string where "ClassSMSC = ''SMSC''"
definition ClassSwitchBarrier :: string where "ClassSwitchBarrier = ''SwitchBarrier''"

definition millisecond :: int where "millisecond = 1000000"
definition transportPriorityAging :: int where "transportPriorityAging = 500 * millisecond"

record options =
  MaxLeaseHold :: int
  MaxSessions :: int
  MaxQMITransports :: int
  CanRecover :: bool
  RecoveryTimeout :: int

record request =
  ReqOwner :: string
  ReqMode :: string
  ReqClass :: string
  ReqChannel :: int
  ReqScope :: string

record ticket =
  t_id :: nat
  t_owner :: string
  t_mode :: string
  t_class :: string
  t_channel :: int
  t_scope :: string
  t_lease :: lease_type
  t_kind :: wait_kind
  t_blocked :: "string list"
  t_enqueued :: int

record active_lease =
  held :: ticket
  acquiredAt :: int
  expiresAt :: "int option"
  timer :: bool
  suspect :: bool
  recovering :: bool
  ownerDone :: bool

record active_barrier =
  raised :: ticket
  raisedAt :: int
  barrier_suspect :: bool

record arbiter =
  seq_id :: nat
  opts :: options
  queue :: "ticket list"
  activeSessions :: "active_lease list"
  activeOneshot :: "active_lease option"
  activeTransports :: "active_lease list"
  activeBarriers :: "active_barrier list"
  signals :: nat
  waitRequests :: nat
  acquires :: nat
  waitTimeouts :: nat
  forcedReleases :: nat

definition or_positive :: "int \<Rightarrow> int \<Rightarrow> int" where
  "or_positive n d = (if n \<le> 0 then d else n)"

definition New :: "options \<Rightarrow> arbiter" where
  "New o' =
     \<lparr>seq_id = 0,
      opts = o'\<lparr>MaxLeaseHold := or_positive (MaxLeaseHold o') (120 * 1000 * millisecond),
        MaxSessions := or_positive (MaxSessions o') 1,
        MaxQMITransports := or_positive (MaxQMITransports o') 1,
        RecoveryTimeout := or_positive (RecoveryTimeout o') (5 * 1000 * millisecond)\<rparr>,
      queue = [], activeSessions = [], activeOneshot = None, activeTransports = [], activeBarriers = [],
      signals = 0, waitRequests = 0, acquires = 0, waitTimeouts = 0, forcedReleases = 0\<rparr>"

subsection \<open>Requests\<close>

definition normalizeOwner :: "string \<Rightarrow> string" where
  "normalizeOwner owner = (if TrimSpace owner = [] then ''unknown'' else TrimSpace owner)"

definition normalizeMode :: "string \<Rightarrow> string" where
  "normalizeMode mode =
     (let m = ToUpper (TrimSpace mode) in if m = [] then ''UNKNOWN'' else m)"

definition normalizeClass :: "string \<Rightarrow> lease_type \<Rightarrow> string" where
  "normalizeClass cls lt =
     (if cls \<noteq> [] then cls
      else case lt of
        TransportLease \<Rightarrow> ClassEUICCWrite
      | OneShotLease \<Rightarrow> ClassUSIMAKA
      | _ \<Rightarrow> ClassEUICCWrite)"

definition normalizeTransportScope :: "string \<Rightarrow> string \<Rightarrow> int \<Rightarrow> lease_type \<Rightarrow> string" where
  "normalizeTransportScope scope mode channel lt =
     (if lt \<noteq> TransportLease then ScopeExclusive
      else if scope = ScopeQMIChannel \<and> mode = ''QMI'' \<and> channel > 0 then ScopeQMIChannel
      else ScopeExclusive)"

definition normalizeRequest :: "request \<Rightarrow> lease_type \<Rightarrow> request" where
  "normalizeRequest req lt =
     (let mode = normalizeMode (ReqMode req) in
      req\<lparr>ReqOwner := normalizeOwner (ReqOwner req), ReqMode := mode,
        ReqClass := normalizeClass (ReqClass req) lt,
        ReqScope := normalizeTransportScope (ReqScope req) mode (ReqChannel req) lt\<rparr>)"

subsection \<open>What is active\<close>

definition hasActiveTransport :: "arbiter \<Rightarrow> bool" where
  "hasActiveTransport a \<longleftrightarrow> activeTransports a \<noteq> []"

definition hasActiveExclusiveTransport :: "arbiter \<Rightarrow> bool" where
  "hasActiveExclusiveTransport a \<longleftrightarrow> list_ex (\<lambda>l. t_scope (held l) \<noteq> ScopeQMIChannel) (activeTransports a)"

definition activeQMITransportCount :: "arbiter \<Rightarrow> nat" where
  "activeQMITransportCount a = length (filter (\<lambda>l. t_scope (held l) = ScopeQMIChannel) (activeTransports a))"

definition hasSuspectTransport :: "arbiter \<Rightarrow> bool" where
  "hasSuspectTransport a \<longleftrightarrow> list_ex suspect (activeTransports a)"

definition hasActiveTransportOnChannel :: "arbiter \<Rightarrow> int \<Rightarrow> bool" where
  "hasActiveTransportOnChannel a channel \<longleftrightarrow>
     list_ex (\<lambda>l. t_scope (held l) = ScopeQMIChannel \<and> t_channel (held l) = channel) (activeTransports a)"

definition isIdle :: "arbiter \<Rightarrow> bool" where
  "isIdle a \<longleftrightarrow> activeOneshot a = None \<and> activeTransports a = [] \<and> activeSessions a = [] \<and>
     activeBarriers a = [] \<and> queue a = []"

definition isBlockedByActiveBarrier :: "arbiter \<Rightarrow> string \<Rightarrow> bool" where
  "isBlockedByActiveBarrier a cls \<longleftrightarrow> list_ex (\<lambda>b. cls \<in> set (t_blocked (raised b))) (activeBarriers a)"

fun pending_barrier_ahead :: "ticket list \<Rightarrow> ticket \<Rightarrow> bool" where
  "pending_barrier_ahead [] t = False"
| "pending_barrier_ahead (q # qs) t =
     (if t_id q = t_id t then False
      else if t_kind q \<noteq> WaitBarrier then pending_barrier_ahead qs t
      else if t_class t \<in> set (t_blocked q) then True
      else pending_barrier_ahead qs t)"

definition queueHeadIs :: "arbiter \<Rightarrow> nat \<Rightarrow> bool" where
  "queueHeadIs a i \<longleftrightarrow> queue a \<noteq> [] \<and> t_id (hd (queue a)) = i"

subsection \<open>Who may go next\<close>

definition canAcquireTransportNow :: "arbiter \<Rightarrow> ticket \<Rightarrow> bool" where
  "canAcquireTransportNow a t \<longleftrightarrow>
     (if t_lease t \<noteq> TransportLease then False
      else if hasSuspectTransport a then False
      else if t_scope t \<noteq> ScopeQMIChannel then \<not> hasActiveTransport a
      else if hasActiveExclusiveTransport a then False
      else if int (activeQMITransportCount a) \<ge> MaxQMITransports (opts a) then False
      else \<not> hasActiveTransportOnChannel a (t_channel t))"

definition transportWaitGatesQueue :: "arbiter \<Rightarrow> ticket \<Rightarrow> bool" where
  "transportWaitGatesQueue a t \<longleftrightarrow>
     (if t_lease t \<noteq> TransportLease then True
      else if hasSuspectTransport a then True
      else if t_scope t \<noteq> ScopeQMIChannel then True
      else hasActiveExclusiveTransport a \<or> int (activeQMITransportCount a) \<ge> MaxQMITransports (opts a))"

text \<open>The three tickets that the loop of \<open>selectedTransport\<close> remembers.\<close>

record choice =
  oldestEligible :: "ticket option"
  oldestAgedNonAKA :: "ticket option"
  oldestAKA :: "ticket option"

definition or_first :: "'a option \<Rightarrow> 'a \<Rightarrow> 'a option" where
  "or_first old x = (case old of None \<Rightarrow> Some x | Some y \<Rightarrow> Some y)"

fun select_loop :: "arbiter \<Rightarrow> int \<Rightarrow> ticket list \<Rightarrow> choice \<Rightarrow> choice" where
  "select_loop a now [] c = c"
| "select_loop a now (q # qs) c =
     (if t_kind q = WaitBarrier then c
      else if t_lease q \<noteq> TransportLease then c
      else if isBlockedByActiveBarrier a (t_class q) then select_loop a now qs c
      else if \<not> canAcquireTransportNow a q then
        (if transportWaitGatesQueue a q then c else select_loop a now qs c)
      else
        let c1 = c\<lparr>oldestEligible := or_first (oldestEligible c) q\<rparr> in
        if t_class q = ClassUSIMAKA then
          select_loop a now qs (c1\<lparr>oldestAKA := or_first (oldestAKA c1) q\<rparr>)
        else if now - t_enqueued q \<ge> transportPriorityAging then
          select_loop a now qs (c1\<lparr>oldestAgedNonAKA := or_first (oldestAgedNonAKA c1) q\<rparr>)
        else select_loop a now qs c1)"

definition best_choice :: "choice \<Rightarrow> ticket option" where
  "best_choice c =
     (case oldestAgedNonAKA c of
        Some t \<Rightarrow> Some t
      | None \<Rightarrow> (case oldestAKA c of Some t \<Rightarrow> Some t | None \<Rightarrow> oldestEligible c))"

definition selectedTransport :: "arbiter \<Rightarrow> int \<Rightarrow> nat" where
  "selectedTransport a now =
     (case best_choice (select_loop a now (queue a)
        \<lparr>oldestEligible = None, oldestAgedNonAKA = None, oldestAKA = None\<rparr>) of
        None \<Rightarrow> 0
      | Some t \<Rightarrow> t_id t)"

definition selectedBarrier :: "arbiter \<Rightarrow> nat" where
  "selectedBarrier a =
     (case find (\<lambda>q. t_kind q = WaitBarrier) (queue a) of None \<Rightarrow> 0 | Some q \<Rightarrow> t_id q)"

definition canAcquireLease :: "arbiter \<Rightarrow> int \<Rightarrow> ticket \<Rightarrow> bool" where
  "canAcquireLease a now t \<longleftrightarrow>
     (if t_kind t \<noteq> WaitLease then False
      else if isBlockedByActiveBarrier a (t_class t) then False
      else if pending_barrier_ahead (queue a) t then False
      else case t_lease t of
        SessionLease \<Rightarrow>
          queueHeadIs a (t_id t) \<and> activeOneshot a = None \<and> \<not> hasActiveTransport a \<and>
          int (length (activeSessions a)) < MaxSessions (opts a)
      | OneShotLease \<Rightarrow>
          queueHeadIs a (t_id t) \<and> length (activeSessions a) = 0 \<and> activeOneshot a = None \<and>
          \<not> hasActiveTransport a
      | TransportLease \<Rightarrow>
          if length (activeSessions a) > 0 \<or> activeOneshot a \<noteq> None then False
          else selectedTransport a now = t_id t
      | BarrierLease \<Rightarrow> False)"

definition canAcquireBarrier :: "arbiter \<Rightarrow> ticket \<Rightarrow> bool" where
  "canAcquireBarrier a t \<longleftrightarrow>
     (if t_kind t \<noteq> WaitBarrier then False
      else if hasActiveTransport a \<or> length (activeSessions a) > 0 \<or> activeOneshot a \<noteq> None then False
      else selectedBarrier a = t_id t)"

subsection \<open>Queueing, granting, giving up\<close>

definition signal :: "arbiter \<Rightarrow> arbiter" where
  "signal a = a\<lparr>signals := signals a + 1\<rparr>"

fun remove_first :: "('a \<Rightarrow> bool) \<Rightarrow> 'a list \<Rightarrow> 'a list" where
  "remove_first P [] = []"
| "remove_first P (x # xs) = (if P x then xs else x # remove_first P xs)"

definition removeTicket :: "nat \<Rightarrow> arbiter \<Rightarrow> bool \<times> arbiter" where
  "removeTicket i a =
     (list_ex (\<lambda>q. t_id q = i) (queue a), a\<lparr>queue := remove_first (\<lambda>q. t_id q = i) (queue a)\<rparr>)"

text \<open>\<^verbatim>\<open>acquire\<close> up to its loop: the ticket and the state.\<close>

definition enqueue :: "ticket \<Rightarrow> arbiter \<Rightarrow> arbiter" where
  "enqueue t a = signal (a\<lparr>queue := queue a @ [t], waitRequests := waitRequests a + 1\<rparr>)"

definition lease_ticket :: "nat \<Rightarrow> request \<Rightarrow> lease_type \<Rightarrow> int \<Rightarrow> ticket" where
  "lease_ticket i req lt now =
     \<lparr>t_id = i, t_owner = ReqOwner req, t_mode = ReqMode req, t_class = ReqClass req,
      t_channel = ReqChannel req, t_scope = ReqScope req, t_lease = lt, t_kind = WaitLease,
      t_blocked = [], t_enqueued = now\<rparr>"

definition begin_acquire :: "request \<Rightarrow> lease_type \<Rightarrow> int \<Rightarrow> arbiter \<Rightarrow> ticket \<times> arbiter" where
  "begin_acquire req lt now a =
     (let t = lease_ticket (seq_id a + 1) (normalizeRequest req lt) lt now
      in (t, enqueue t (a\<lparr>seq_id := seq_id a + 1\<rparr>)))"

definition begin_AcquireTransport :: "request \<Rightarrow> int \<Rightarrow> arbiter \<Rightarrow> ticket \<times> arbiter" where
  "begin_AcquireTransport req = begin_acquire (normalizeRequest req TransportLease) TransportLease"

definition begin_AcquireSession :: "string \<Rightarrow> string \<Rightarrow> int \<Rightarrow> arbiter \<Rightarrow> ticket \<times> arbiter" where
  "begin_AcquireSession owner mode =
     begin_acquire \<lparr>ReqOwner = owner, ReqMode = mode, ReqClass = [], ReqChannel = 0, ReqScope = []\<rparr> SessionLease"

definition begin_AcquireOneShot :: "string \<Rightarrow> string \<Rightarrow> int \<Rightarrow> arbiter \<Rightarrow> ticket \<times> arbiter" where
  "begin_AcquireOneShot owner mode =
     begin_acquire \<lparr>ReqOwner = owner, ReqMode = mode, ReqClass = [], ReqChannel = 0, ReqScope = []\<rparr> OneShotLease"

definition blocked_classes :: "string list \<Rightarrow> string list" where
  "blocked_classes policy =
     (let cs = filter (\<lambda>c. c \<noteq> []) (map (\<lambda>c. normalizeClass c OneShotLease) policy)
      in if cs = [] then [ClassUSIMAKA, ClassSMSC] else cs)"

definition begin_barrier :: "request \<Rightarrow> string list \<Rightarrow> int \<Rightarrow> arbiter \<Rightarrow> ticket \<times> arbiter" where
  "begin_barrier req policy now a =
     (let t = \<lparr>t_id = seq_id a + 1, t_owner = normalizeOwner (ReqOwner req),
            t_mode = normalizeMode (ReqMode req),
            t_class = (if ReqClass req = [] then ClassSwitchBarrier else ReqClass req),
            t_channel = ReqChannel req, t_scope = ScopeExclusive, t_lease = BarrierLease,
            t_kind = WaitBarrier, t_blocked = blocked_classes policy, t_enqueued = now\<rparr>
      in (t, enqueue t (a\<lparr>seq_id := seq_id a + 1\<rparr>)))"

text \<open>A lease starts with a watchdog where the option asks for one; the zero time is \<open>None\<close>.\<close>

definition new_lease :: "options \<Rightarrow> ticket \<Rightarrow> int \<Rightarrow> active_lease" where
  "new_lease o' t now =
     \<lparr>held = t, acquiredAt = now,
      expiresAt = (if MaxLeaseHold o' > 0 then Some (now + MaxLeaseHold o') else None),
      timer = (MaxLeaseHold o' > 0), suspect = False, recovering = False, ownerDone = False\<rparr>"

definition addActive :: "active_lease \<Rightarrow> arbiter \<Rightarrow> arbiter" where
  "addActive l a =
     (case t_lease (held l) of
        SessionLease \<Rightarrow> a\<lparr>activeSessions := activeSessions a @ [l]\<rparr>
      | OneShotLease \<Rightarrow> a\<lparr>activeOneshot := Some l\<rparr>
      | TransportLease \<Rightarrow> a\<lparr>activeTransports := activeTransports a @ [l]\<rparr>
      | BarrierLease \<Rightarrow> a)"

text \<open>One turn of the loops of \<^verbatim>\<open>acquire\<close> and \<^verbatim>\<open>BeginBarrier\<close>: the state after the grant, or \<open>None\<close>
  where the goroutine goes to wait.\<close>

definition try_acquire :: "ticket \<Rightarrow> int \<Rightarrow> arbiter \<Rightarrow> arbiter option" where
  "try_acquire t now a =
     (if canAcquireLease a now t then
        let a1 = snd (removeTicket (t_id t) a);
            a2 = addActive (new_lease (opts a) t now) a1
        in Some (signal (a2\<lparr>acquires := acquires a2 + 1\<rparr>))
      else None)"

definition try_barrier :: "ticket \<Rightarrow> int \<Rightarrow> arbiter \<Rightarrow> arbiter option" where
  "try_barrier t now a =
     (if canAcquireBarrier a t then
        let a1 = snd (removeTicket (t_id t) a)
        in Some (signal (a1\<lparr>activeBarriers := activeBarriers a1 @
              [\<lparr>raised = t, raisedAt = now, barrier_suspect = False\<rparr>],
            acquires := acquires a1 + 1\<rparr>))
      else None)"

text \<open>The context of the caller ended while it waited.\<close>

definition give_up :: "nat \<Rightarrow> arbiter \<Rightarrow> arbiter" where
  "give_up i a =
     (let (removed, a1) = removeTicket i a in
      if removed then signal (a1\<lparr>waitTimeouts := waitTimeouts a1 + 1\<rparr>) else a1)"

subsection \<open>Active leases\<close>

definition findActive :: "nat \<Rightarrow> lease_type \<Rightarrow> arbiter \<Rightarrow> active_lease option" where
  "findActive i lt a =
     (case lt of
        SessionLease \<Rightarrow> find (\<lambda>l. t_id (held l) = i) (activeSessions a)
      | OneShotLease \<Rightarrow>
          (case activeOneshot a of
             Some l \<Rightarrow> if t_id (held l) = i then Some l else None
           | None \<Rightarrow> None)
      | TransportLease \<Rightarrow> find (\<lambda>l. t_id (held l) = i) (activeTransports a)
      | BarrierLease \<Rightarrow> None)"

definition removeActive :: "nat \<Rightarrow> lease_type \<Rightarrow> arbiter \<Rightarrow> arbiter" where
  "removeActive i lt a =
     (case lt of
        SessionLease \<Rightarrow> a\<lparr>activeSessions := remove_first (\<lambda>l. t_id (held l) = i) (activeSessions a)\<rparr>
      | OneShotLease \<Rightarrow>
          (case activeOneshot a of
             Some l \<Rightarrow> if t_id (held l) = i then a\<lparr>activeOneshot := None\<rparr> else a
           | None \<Rightarrow> a)
      | TransportLease \<Rightarrow> a\<lparr>activeTransports := remove_first (\<lambda>l. t_id (held l) = i) (activeTransports a)\<rparr>
      | BarrierLease \<Rightarrow> a)"

text \<open>A write through the pointer that \<^verbatim>\<open>findActiveLocked\<close> returned.\<close>

fun update_first :: "('a \<Rightarrow> bool) \<Rightarrow> ('a \<Rightarrow> 'a) \<Rightarrow> 'a list \<Rightarrow> 'a list" where
  "update_first P f [] = []"
| "update_first P f (x # xs) = (if P x then f x # xs else x # update_first P f xs)"

definition updateActive :: "(active_lease \<Rightarrow> active_lease) \<Rightarrow> nat \<Rightarrow> lease_type \<Rightarrow> arbiter \<Rightarrow> arbiter" where
  "updateActive f i lt a =
     (case lt of
        SessionLease \<Rightarrow> a\<lparr>activeSessions := update_first (\<lambda>l. t_id (held l) = i) f (activeSessions a)\<rparr>
      | OneShotLease \<Rightarrow>
          a\<lparr>activeOneshot := map_option (\<lambda>l. if t_id (held l) = i then f l else l) (activeOneshot a)\<rparr>
      | TransportLease \<Rightarrow> a\<lparr>activeTransports := update_first (\<lambda>l. t_id (held l) = i) f (activeTransports a)\<rparr>
      | BarrierLease \<Rightarrow> a)"

definition isActive :: "nat \<Rightarrow> lease_type \<Rightarrow> arbiter \<Rightarrow> bool" where
  "isActive i lt a \<longleftrightarrow> findActive i lt a \<noteq> None"

definition touch :: "nat \<Rightarrow> lease_type \<Rightarrow> int \<Rightarrow> arbiter \<Rightarrow> bool \<times> arbiter" where
  "touch i lt now a =
     (if MaxLeaseHold (opts a) \<le> 0 then (isActive i lt a, a)
      else case findActive i lt a of
        None \<Rightarrow> (False, a)
      | Some l \<Rightarrow>
          if suspect l then (False, a)
          else (True, updateActive (\<lambda>l. l\<lparr>expiresAt := Some (now + MaxLeaseHold (opts a)), timer := True\<rparr>) i lt a))"

definition release :: "nat \<Rightarrow> lease_type \<Rightarrow> bool \<Rightarrow> arbiter \<Rightarrow> arbiter" where
  "release i lt forced a =
     (case findActive i lt a of
        None \<Rightarrow> a
      | Some l \<Rightarrow>
          if recovering l then signal (updateActive (\<lambda>l. l\<lparr>ownerDone := True\<rparr>) i lt a)
          else
            let a1 = removeActive i lt a in
            signal (if forced then a1\<lparr>forcedReleases := forcedReleases a1 + 1\<rparr> else a1))"

text \<open>\<^verbatim>\<open>releaseExpired\<close> up to the call of the recovery function: the state, and whether it is called.\<close>

definition expire :: "nat \<Rightarrow> lease_type \<Rightarrow> int \<Rightarrow> arbiter \<Rightarrow> bool \<times> arbiter" where
  "expire i lt now a =
     (case findActive i lt a of
        None \<Rightarrow> (False, a)
      | Some l \<Rightarrow>
          if (case expiresAt l of None \<Rightarrow> False | Some e \<Rightarrow> e - now > 0) then (False, a)
          else (CanRecover (opts a),
                signal (updateActive (\<lambda>l. l\<lparr>suspect := True, timer := False, recovering := CanRecover (opts a)\<rparr>) i lt a)))"

definition requestFromTicket :: "ticket \<Rightarrow> request" where
  "requestFromTicket t =
     \<lparr>ReqOwner = t_owner t, ReqMode = t_mode t, ReqClass = t_class t, ReqChannel = t_channel t, ReqScope = t_scope t\<rparr>"

text \<open>What follows the recovery function, when it failed and when it succeeded.\<close>

definition recovery_failed :: "nat \<Rightarrow> lease_type \<Rightarrow> arbiter \<Rightarrow> arbiter" where
  "recovery_failed i lt a =
     (case findActive i lt a of
        None \<Rightarrow> a
      | Some l \<Rightarrow> if suspect l then updateActive (\<lambda>l. l\<lparr>recovering := False\<rparr>) i lt a else a)"

definition releaseRecovered :: "nat \<Rightarrow> lease_type \<Rightarrow> arbiter \<Rightarrow> arbiter" where
  "releaseRecovered i lt a =
     (case findActive i lt a of
        None \<Rightarrow> a
      | Some l \<Rightarrow> if suspect l then signal (removeActive i lt a) else a)"

definition releaseBarrier :: "nat \<Rightarrow> arbiter \<Rightarrow> arbiter" where
  "releaseBarrier i a =
     (if list_ex (\<lambda>b. t_id (raised b) = i) (activeBarriers a)
      then signal (a\<lparr>activeBarriers := remove_first (\<lambda>b. t_id (raised b) = i) (activeBarriers a)\<rparr>)
      else a)"

definition markBarrierSuspect :: "nat \<Rightarrow> arbiter \<Rightarrow> arbiter" where
  "markBarrierSuspect i a =
     (if list_ex (\<lambda>b. t_id (raised b) = i \<and> \<not> barrier_suspect b) (activeBarriers a)
      then signal (a\<lparr>activeBarriers :=
             update_first (\<lambda>b. t_id (raised b) = i \<and> \<not> barrier_suspect b) (\<lambda>b. b\<lparr>barrier_suspect := True\<rparr>)
               (activeBarriers a)\<rparr>)
      else a)"

subsection \<open>What it reports\<close>

record arbiter_stats =
  WaitRequests :: nat
  Acquires :: nat
  WaitTimeouts :: nat
  ForcedReleases :: nat
  CurrentQueue :: nat
  ActiveSessions :: nat
  ActiveOneshot :: bool
  ActiveTransport :: bool
  ActiveTransports :: nat
  ActiveBarriers :: nat
  SuspectLeases :: nat
  CurrentQueueType :: "wait_kind option"

definition suspectLeaseCount :: "arbiter \<Rightarrow> nat" where
  "suspectLeaseCount a =
     length (filter suspect (activeSessions a)) +
     (case activeOneshot a of Some l \<Rightarrow> if suspect l then 1 else 0 | None \<Rightarrow> 0) +
     length (filter suspect (activeTransports a))"

definition Stats_arbiter :: "arbiter \<Rightarrow> arbiter_stats" where
  "Stats_arbiter a =
     \<lparr>WaitRequests = waitRequests a, Acquires = acquires a, WaitTimeouts = waitTimeouts a,
      ForcedReleases = forcedReleases a, CurrentQueue = length (queue a),
      ActiveSessions = length (activeSessions a), ActiveOneshot = (activeOneshot a \<noteq> None),
      ActiveTransport = (length (activeTransports a) > 0), ActiveTransports = length (activeTransports a),
      ActiveBarriers = length (activeBarriers a), SuspectLeases = suspectLeaseCount a,
      CurrentQueueType = (case queue a of [] \<Rightarrow> None | q # _ \<Rightarrow> Some (t_kind q))\<rparr>"

record snapshot_entry =
  EntryTicket :: ticket
  WaitMS :: int
  HoldMS :: int
  EntrySuspect :: bool

definition snapshotActiveLease :: "int \<Rightarrow> active_lease \<Rightarrow> snapshot_entry" where
  "snapshotActiveLease now l =
     \<lparr>EntryTicket = held l, WaitMS = 0, HoldMS = (now - acquiredAt l) div millisecond, EntrySuspect = suspect l\<rparr>"

definition Snapshot_arbiter :: "int \<Rightarrow> arbiter \<Rightarrow> snapshot_entry list \<times> snapshot_entry list" where
  "Snapshot_arbiter now a =
     (map (snapshotActiveLease now) (activeSessions a) @
      (case activeOneshot a of Some l \<Rightarrow> [snapshotActiveLease now l] | None \<Rightarrow> []) @
      map (snapshotActiveLease now) (activeTransports a) @
      map (\<lambda>b. \<lparr>EntryTicket = raised b, WaitMS = 0, HoldMS = (now - raisedAt b) div millisecond,
                 EntrySuspect = barrier_suspect b\<rparr>) (activeBarriers a),
      map (\<lambda>q. \<lparr>EntryTicket = q, WaitMS = (now - t_enqueued q) div millisecond, HoldMS = 0,
                 EntrySuspect = False\<rparr>) (queue a))"

section \<open>Exclusive access\<close>

text \<open>The tickets that are in the queue, hold leases of the three kinds, and stand behind the barriers.\<close>

definition sessions_of :: "arbiter \<Rightarrow> ticket list" where "sessions_of a = map held (activeSessions a)"
definition oneshot_of :: "arbiter \<Rightarrow> ticket list" where
  "oneshot_of a = (case activeOneshot a of None \<Rightarrow> [] | Some l \<Rightarrow> [held l])"
definition transports_of :: "arbiter \<Rightarrow> ticket list" where "transports_of a = map held (activeTransports a)"
definition barriers_of :: "arbiter \<Rightarrow> ticket list" where "barriers_of a = map raised (activeBarriers a)"

text \<open>Transports that may be active together: one, or several on different QMI channels.\<close>

definition compatible_transports :: "options \<Rightarrow> ticket list \<Rightarrow> bool" where
  "compatible_transports o' ts \<longleftrightarrow>
     length ts \<le> 1 \<or>
     (\<forall>t \<in> set ts. t_scope t = ScopeQMIChannel) \<and> distinct (map t_channel ts) \<and>
     int (length ts) \<le> MaxQMITransports o'"

definition exclusive_use :: "options \<Rightarrow> ticket list \<Rightarrow> ticket list \<Rightarrow> ticket list \<Rightarrow> ticket list \<Rightarrow> bool" where
  "exclusive_use o' ss os ts bs \<longleftrightarrow>
     (ss = [] \<or> os = [] \<and> ts = []) \<and> (os = [] \<or> ts = []) \<and> length os \<le> 1 \<and>
     int (length ss) \<le> MaxSessions o' \<and> compatible_transports o' ts \<and>
     (\<forall>b \<in> set bs. \<forall>t \<in> set (ss @ os @ ts). t_class t \<notin> set (t_blocked b))"

definition well_numbered :: "nat \<Rightarrow> ticket list \<Rightarrow> bool" where
  "well_numbered n ts \<longleftrightarrow> distinct (map t_id ts) \<and> (\<forall>t \<in> set ts. 0 < t_id t \<and> t_id t \<le> n)"

definition all_tickets :: "arbiter \<Rightarrow> ticket list" where
  "all_tickets a = queue a @ sessions_of a @ oneshot_of a @ transports_of a @ barriers_of a"

definition arb_inv :: "arbiter \<Rightarrow> bool" where
  "arb_inv a \<longleftrightarrow>
     exclusive_use (opts a) (sessions_of a) (oneshot_of a) (transports_of a) (barriers_of a) \<and>
     well_numbered (seq_id a) (all_tickets a) \<and>
     (\<forall>t \<in> set (queue a). t_kind t = WaitBarrier \<longleftrightarrow> t_lease t = BarrierLease) \<and>
     1 \<le> MaxSessions (opts a) \<and> 1 \<le> MaxQMITransports (opts a)"

lemmas arb_views = sessions_of_def oneshot_of_def transports_of_def barriers_of_def all_tickets_def

lemma arb_inv_New: "arb_inv (New o')"
  by (simp add: arb_inv_def New_def arb_views exclusive_use_def compatible_transports_def well_numbered_def
      or_positive_def)

subsection \<open>Giving back\<close>

text \<open>Nothing that only takes tickets away can hurt.\<close>

lemma subseq_facts:
  assumes "subseq us ts"
  shows "set us \<subseteq> set ts" and "distinct (map f ts) \<Longrightarrow> distinct (map f us)"
proof -
  obtain N where "us = nths ts N" using assms by (auto simp: subseq_conv_nths)
  then show "set us \<subseteq> set ts" and "distinct (map f ts) \<Longrightarrow> distinct (map f us)"
    by (simp_all add: set_nths_subset nths_map [symmetric] distinct_nthsI)
qed

lemma well_numbered_subseq:
  assumes "well_numbered n ts" and "subseq us ts" and "n \<le> m"
  shows "well_numbered m us"
  using assms(1,3) subseq_facts [OF assms(2)] by (fastforce simp: well_numbered_def)

lemma exclusive_use_subseq:
  assumes "exclusive_use o' ss os ts bs"
    and "subseq ss' ss" and "subseq os' os" and "subseq ts' ts" and "subseq bs' bs"
  shows "exclusive_use o' ss' os' ts' bs'"
proof -
  have len: "length ss' \<le> length ss" "length os' \<le> length os" "length ts' \<le> length ts"
    using assms(2-4) by (auto dest: list_emb_length)
  have sets: "set ss' \<subseteq> set ss" "set os' \<subseteq> set os" "set ts' \<subseteq> set ts" "set bs' \<subseteq> set bs"
    using assms(2-5) subseq_facts(1) by blast+
  have comp: "compatible_transports o' ts'"
  proof (cases "length ts \<le> 1")
    case True
    then show ?thesis using len(3) by (simp add: compatible_transports_def)
  next
    case False
    then have "\<forall>t \<in> set ts. t_scope t = ScopeQMIChannel" "distinct (map t_channel ts)"
      "int (length ts) \<le> MaxQMITransports o'"
      using assms(1) by (simp_all add: exclusive_use_def compatible_transports_def)
    then show ?thesis
      using len(3) sets(3) subseq_facts(2) [OF assms(4), of t_channel]
      unfolding compatible_transports_def by auto
  qed
  have empty: "ss = [] \<Longrightarrow> ss' = []" "os = [] \<Longrightarrow> os' = []" "ts = [] \<Longrightarrow> ts' = []"
    using sets by auto
  have bars: "\<forall>b \<in> set bs'. \<forall>t \<in> set (ss' @ os' @ ts'). t_class t \<notin> set (t_blocked b)"
    using assms(1) sets unfolding exclusive_use_def set_append by blast
  show ?thesis
    using assms(1) len comp empty bars unfolding exclusive_use_def by auto
qed

lemma subseq_remove_first [simp]: "subseq (remove_first P xs) xs"
  by (induction xs) auto

lemma subseq_map_remove_first [simp]: "subseq (map g (remove_first P xs)) (map g xs)"
  by (rule subseq_map) simp

lemma map_update_first: "(\<And>x. g (f x) = g x) \<Longrightarrow> map g (update_first P f xs) = map g xs"
  by (induction xs) auto

definition same_but_fewer :: "arbiter \<Rightarrow> arbiter \<Rightarrow> bool" where
  "same_but_fewer a' a \<longleftrightarrow>
     opts a' = opts a \<and> seq_id a' = seq_id a \<and> subseq (queue a') (queue a) \<and>
     subseq (sessions_of a') (sessions_of a) \<and> subseq (oneshot_of a') (oneshot_of a) \<and>
     subseq (transports_of a') (transports_of a) \<and> subseq (barriers_of a') (barriers_of a)"

lemma arb_inv_fewer:
  assumes "arb_inv a" and "same_but_fewer a' a"
  shows "arb_inv a'"
proof -
  note f = assms(2) [unfolded same_but_fewer_def]
  have "subseq (all_tickets a') (all_tickets a)"
    unfolding all_tickets_def using f by (intro list_emb_append_mono) simp_all
  then have w: "well_numbered (seq_id a') (all_tickets a')"
    using assms(1) f well_numbered_subseq by (auto simp: arb_inv_def)
  have x: "exclusive_use (opts a') (sessions_of a') (oneshot_of a') (transports_of a') (barriers_of a')"
  proof -
    have "exclusive_use (opts a) (sessions_of a) (oneshot_of a) (transports_of a) (barriers_of a)"
      using assms(1) by (simp add: arb_inv_def)
    then have "exclusive_use (opts a) (sessions_of a') (oneshot_of a') (transports_of a') (barriers_of a')"
      using f by (elim exclusive_use_subseq) simp_all
    then show ?thesis using f by simp
  qed
  have q: "set (queue a') \<subseteq> set (queue a)" using f subseq_facts(1) by blast
  show ?thesis using assms(1) f w x q by (auto simp: arb_inv_def)
qed

lemma fewer_refl [simp]: "same_but_fewer a a"
  by (simp add: same_but_fewer_def)

lemma fewer_signal [simp]: "same_but_fewer (signal a') a = same_but_fewer a' a"
  by (simp add: same_but_fewer_def signal_def arb_views)

lemma fewer_counters [simp]:
  "same_but_fewer (a'\<lparr>waitTimeouts := n\<rparr>) a = same_but_fewer a' a"
  "same_but_fewer (a'\<lparr>forcedReleases := n\<rparr>) a = same_but_fewer a' a"
  by (simp_all add: same_but_fewer_def arb_views)

lemma fewer_removeTicket: "same_but_fewer (snd (removeTicket i a)) a"
  by (simp add: same_but_fewer_def removeTicket_def arb_views)

lemma fewer_removeActive: "same_but_fewer (removeActive i lt a) a"
  by (auto simp: same_but_fewer_def removeActive_def arb_views split: lease_type.split option.split)

lemma fewer_updateActive:
  assumes "\<And>l. held (f l) = held l"
  shows "same_but_fewer (updateActive f i lt a) a"
  by (auto simp: same_but_fewer_def updateActive_def arb_views assms map_update_first
      split: lease_type.split option.split)

lemma fewer_give_up: "same_but_fewer (give_up i a) a"
  using fewer_removeTicket [of i a] by (auto simp: give_up_def split: prod.split)

lemma fewer_touch: "same_but_fewer (snd (touch i lt now a)) a"
  by (auto simp: touch_def fewer_updateActive split: option.split)

lemma fewer_release: "same_but_fewer (release i lt forced a) a"
  by (auto simp: release_def fewer_updateActive fewer_removeActive Let_def split: option.split)

lemma fewer_expire: "same_but_fewer (snd (expire i lt now a)) a"
  by (auto simp: expire_def fewer_updateActive split: option.split)

lemma fewer_recovery:
  "same_but_fewer (recovery_failed i lt a) a" "same_but_fewer (releaseRecovered i lt a) a"
  by (auto simp: recovery_failed_def releaseRecovered_def fewer_updateActive fewer_removeActive split: option.split)

lemma fewer_barriers:
  "same_but_fewer (releaseBarrier i a) a" "same_but_fewer (markBarrierSuspect i a) a"
  by (simp_all add: releaseBarrier_def markBarrierSuspect_def same_but_fewer_def arb_views signal_def
      map_update_first)

lemmas fewer_ops = fewer_give_up fewer_touch fewer_release fewer_expire fewer_recovery fewer_barriers

subsection \<open>Queueing and granting\<close>

lemma well_numbered_mset: "mset us = mset ts \<Longrightarrow> well_numbered n us \<longleftrightarrow> well_numbered n ts"
  unfolding well_numbered_def
  by (metis (no_types, lifting) mset_eq_imp_distinct_iff mset_eq_setD mset_map)

lemma enqueue_inv:
  assumes "arb_inv a" and "t_id t = seq_id a + 1" and "t_kind t = WaitBarrier \<longleftrightarrow> t_lease t = BarrierLease"
  shows "arb_inv (enqueue t (a\<lparr>seq_id := seq_id a + 1\<rparr>))"
proof -
  define a' where "a' = enqueue t (a\<lparr>seq_id := seq_id a + 1\<rparr>)"
  have same: "opts a' = opts a" "sessions_of a' = sessions_of a" "oneshot_of a' = oneshot_of a"
    "transports_of a' = transports_of a" "barriers_of a' = barriers_of a" "queue a' = queue a @ [t]"
    "seq_id a' = seq_id a + 1"
    by (simp_all add: a'_def enqueue_def signal_def sessions_of_def oneshot_of_def transports_of_def barriers_of_def)
  have "mset (all_tickets a') = mset (t # all_tickets a)"
    unfolding all_tickets_def same by simp
  moreover have "well_numbered (seq_id a + 1) (t # all_tickets a)"
    using assms(1,2) by (force simp: arb_inv_def well_numbered_def)
  ultimately have "well_numbered (seq_id a') (all_tickets a')"
    using well_numbered_mset same(7) by metis
  then have "arb_inv a'" using assms(1,3) by (auto simp: arb_inv_def same)
  then show ?thesis by (simp only: a'_def)
qed

lemma begin_acquire_inv: "arb_inv a \<Longrightarrow> lt \<noteq> BarrierLease \<Longrightarrow> arb_inv (snd (begin_acquire req lt now a))"
  unfolding begin_acquire_def Let_def snd_conv by (rule enqueue_inv) (simp_all add: lease_ticket_def)

lemma begin_barrier_inv: "arb_inv a \<Longrightarrow> arb_inv (snd (begin_barrier req policy now a))"
  unfolding begin_barrier_def Let_def snd_conv by (rule enqueue_inv) simp_all

text \<open>What the loop over the queue selects.\<close>

definition may_go :: "arbiter \<Rightarrow> ticket list \<Rightarrow> ticket \<Rightarrow> bool" where
  "may_go a q t \<longleftrightarrow>
     t \<in> set (takeWhile (\<lambda>q. t_kind q \<noteq> WaitBarrier) q) \<and> t_lease t = TransportLease \<and> t_kind t = WaitLease \<and>
     \<not> isBlockedByActiveBarrier a (t_class t) \<and> canAcquireTransportNow a t"

definition choices :: "choice \<Rightarrow> ticket set" where
  "choices c = set_option (oldestEligible c) \<union> set_option (oldestAgedNonAKA c) \<union> set_option (oldestAKA c)"

lemma choices_grow:
  "choices (c\<lparr>oldestEligible := or_first (oldestEligible c) q\<rparr>) \<subseteq> insert q (choices c)"
  "choices (c\<lparr>oldestAgedNonAKA := or_first (oldestAgedNonAKA c) q\<rparr>) \<subseteq> insert q (choices c)"
  "choices (c\<lparr>oldestAKA := or_first (oldestAKA c) q\<rparr>) \<subseteq> insert q (choices c)"
  by (auto simp: choices_def or_first_def split: option.splits)

lemma best_choice_in: "best_choice c = Some t \<Longrightarrow> t \<in> choices c"
  by (auto simp: best_choice_def choices_def split: option.splits)

lemma select_loop_choices:
  "choices (select_loop a now q c) \<subseteq> choices c \<union> {t. may_go a q t}"
proof (induction a now q c rule: select_loop.induct)
  case (2 a now q qs c)
  have mono: "{t. may_go a qs t} \<subseteq> {t. may_go a (q # qs) t}" if "t_kind q \<noteq> WaitBarrier"
    using that by (auto simp: may_go_def)
  show ?case
  proof (cases "t_kind q = WaitBarrier \<or> t_lease q \<noteq> TransportLease \<or>
      isBlockedByActiveBarrier a (t_class q) \<or> \<not> canAcquireTransportNow a q")
    case True
    then show ?thesis using 2(1,2) mono by (cases "t_kind q = WaitBarrier") auto
  next
    case False
    then have q: "may_go a (q # qs) q" by (cases "t_kind q") (simp_all add: may_go_def)
    let ?c = "c\<lparr>oldestEligible := or_first (oldestEligible c) q\<rparr>"
    let ?k = "?c\<lparr>oldestAKA := or_first (oldestAKA ?c) q\<rparr>"
    let ?g = "?c\<lparr>oldestAgedNonAKA := or_first (oldestAgedNonAKA ?c) q\<rparr>"
    have sub: "choices ?c \<subseteq> insert q (choices c)" "choices ?k \<subseteq> insert q (choices c)"
      "choices ?g \<subseteq> insert q (choices c)"
      using choices_grow(1) [of c q] choices_grow(2,3) [of ?c q] by blast+
    obtain c' where c': "select_loop a now (q # qs) c = select_loop a now qs c'"
      "choices c' \<subseteq> insert q (choices c)" "choices (select_loop a now qs c') \<subseteq> choices c' \<union> {t. may_go a qs t}"
    proof (cases "t_class q = ClassUSIMAKA")
      case True
      then show ?thesis using that [of ?k] 2(3) False sub by auto
    next
      case nonaka: False
      show ?thesis
      proof (cases "transportPriorityAging \<le> now - t_enqueued q")
        case True
        then show ?thesis using that [of ?g] 2(4) False nonaka sub by auto
      next
        case young: False
        then show ?thesis using that [of ?c] 2(5) False nonaka sub by auto
      qed
    qed
    have "{t. may_go a qs t} \<subseteq> {t. may_go a (q # qs) t}" using mono False by simp
    moreover have "q \<in> {t. may_go a (q # qs) t}" using q by simp
    ultimately show ?thesis unfolding c'(1) using c'(2,3) by blast
  qed
qed simp

lemma selected_may_go:
  assumes "selectedTransport a now = i" and "0 < i"
  shows "\<exists>t. may_go a (queue a) t \<and> t_id t = i"
proof -
  let ?c = "\<lparr>oldestEligible = None, oldestAgedNonAKA = None, oldestAKA = None\<rparr>"
  obtain t where t: "best_choice (select_loop a now (queue a) ?c) = Some t" "t_id t = i"
    using assms by (auto simp: selectedTransport_def split: option.splits)
  have "t \<in> choices (select_loop a now (queue a) ?c)" using best_choice_in [OF t(1)] .
  also have "\<dots> \<subseteq> choices ?c \<union> {t. may_go a (queue a) t}" by (rule select_loop_choices)
  also have "\<dots> = {t. may_go a (queue a) t}" by (simp add: choices_def)
  finally show ?thesis using t(2) by auto
qed

lemma mset_remove_first:
  "t \<in> set q \<Longrightarrow> distinct (map t_id q) \<Longrightarrow> mset q = add_mset t (mset (remove_first (\<lambda>x. t_id x = t_id t) q))"
proof (induction q)
  case (Cons x q)
  show ?case
  proof (cases "t_id x = t_id t")
    case True
    then have "x = t" using Cons.prems by (auto dest: imageI [of t "set q" t_id])
    then show ?thesis by simp
  next
    case False
    then show ?thesis using Cons by auto
  qed
qed simp

lemma queue_unique:
  assumes "arb_inv a" and "t \<in> set (queue a)" and "t' \<in> set (queue a)" and "t_id t = t_id t'"
  shows "t = t'"
proof -
  have "inj_on t_id (set (queue a))"
    using assms(1) by (simp add: arb_inv_def well_numbered_def all_tickets_def distinct_map)
  then show ?thesis using assms(2-4) by (auto dest: inj_onD)
qed

lemma selected_ticket:
  assumes "arb_inv a" and "t \<in> set (queue a)" and "selectedTransport a now = t_id t"
  shows "may_go a (queue a) t"
proof -
  have "0 < t_id t" using assms(1,2) by (auto simp: arb_inv_def well_numbered_def all_tickets_def)
  then obtain t' where t': "may_go a (queue a) t'" "t_id t' = t_id t"
    using selected_may_go [of a now "t_id t"] assms(3) by auto
  then have "t' = t" using queue_unique [OF assms(1) _ assms(2)] set_takeWhileD by (fastforce simp: may_go_def)
  then show ?thesis using t' by simp
qed

lemma blocked_iff: "isBlockedByActiveBarrier a cls \<longleftrightarrow> (\<exists>b \<in> set (barriers_of a). cls \<in> set (t_blocked b))"
  by (auto simp: isBlockedByActiveBarrier_def barriers_of_def list_ex_iff)

text \<open>A transport that may go fits beside those that are active.\<close>

lemma compatible_grant:
  assumes "compatible_transports (opts a) (transports_of a)" and "canAcquireTransportNow a t"
    and "1 \<le> MaxQMITransports (opts a)"
  shows "compatible_transports (opts a) (transports_of a @ [t])"
proof (cases "activeTransports a = []")
  case True
  then show ?thesis by (simp add: compatible_transports_def transports_of_def)
next
  case False
  then have qmi: "t_scope t = ScopeQMIChannel" "\<not> hasActiveExclusiveTransport a"
    "int (activeQMITransportCount a) < MaxQMITransports (opts a)" "\<not> hasActiveTransportOnChannel a (t_channel t)"
    using assms(2) by (auto simp: canAcquireTransportNow_def hasActiveTransport_def split: if_splits)
  then have all: "\<forall>l \<in> set (activeTransports a). t_scope (held l) = ScopeQMIChannel"
    by (auto simp: hasActiveExclusiveTransport_def list_ex_iff)
  then have "activeQMITransportCount a = length (activeTransports a)"
    by (simp add: activeQMITransportCount_def)
  moreover have "t_channel t \<notin> set (map t_channel (transports_of a))"
    using qmi(4) all by (auto simp: hasActiveTransportOnChannel_def list_ex_iff transports_of_def)
  moreover have "distinct (map t_channel (transports_of a))"
  proof (cases "length (transports_of a) \<le> 1")
    case True
    then show ?thesis by (cases "transports_of a") auto
  next
    case False
    then show ?thesis using assms(1) by (simp add: compatible_transports_def)
  qed
  ultimately show ?thesis
    using qmi all by (auto simp: compatible_transports_def transports_of_def)
qed

text \<open>What the grant of a lease changes.\<close>

lemma try_acquire_views:
  assumes "try_acquire t now a = Some a'" and "t_lease t \<noteq> BarrierLease"
  shows "opts a' = opts a" "seq_id a' = seq_id a" "barriers_of a' = barriers_of a"
    "queue a' = remove_first (\<lambda>q. t_id q = t_id t) (queue a)"
    "sessions_of a' = sessions_of a @ (if t_lease t = SessionLease then [t] else [])"
    "oneshot_of a' = (if t_lease t = OneShotLease then [t] else oneshot_of a)"
    "transports_of a' = transports_of a @ (if t_lease t = TransportLease then [t] else [])"
  using assms
  by (auto simp: try_acquire_def removeTicket_def Let_def signal_def addActive_def new_lease_def arb_views
      split: if_splits lease_type.splits)

lemma grant_exclusive:
  assumes "arb_inv a" and "t \<in> set (queue a)" and "canAcquireLease a now t" and "try_acquire t now a = Some a'"
  shows "exclusive_use (opts a') (sessions_of a') (oneshot_of a') (transports_of a') (barriers_of a')"
proof -
  have inv: "exclusive_use (opts a) (sessions_of a) (oneshot_of a) (transports_of a) (barriers_of a)"
    and "1 \<le> MaxSessions (opts a)" and max: "1 \<le> MaxQMITransports (opts a)"
    using assms(1) by (simp_all add: arb_inv_def)
  have free: "\<forall>b \<in> set (barriers_of a). t_class t \<notin> set (t_blocked b)"
    using assms(3) by (auto simp: canAcquireLease_def blocked_iff split: if_splits)
  have nb: "t_lease t \<noteq> BarrierLease" using assms(3) by (auto simp: canAcquireLease_def split: if_splits)
  note views = try_acquire_views [OF assms(4) nb]
  consider "t_lease t = SessionLease" | "t_lease t = OneShotLease" | "t_lease t = TransportLease"
    using nb by (cases "t_lease t") auto
  then show ?thesis
  proof cases
    case 1
    then have "oneshot_of a = []" "transports_of a = []" "int (length (sessions_of a)) < MaxSessions (opts a)"
      using assms(3) by (auto simp: canAcquireLease_def hasActiveTransport_def arb_views split: if_splits)
    then show ?thesis using inv free 1 by (auto simp: exclusive_use_def views)
  next
    case 2
    then have "sessions_of a = []" "oneshot_of a = []" "transports_of a = []"
      using assms(3) by (auto simp: canAcquireLease_def hasActiveTransport_def arb_views split: if_splits)
    then show ?thesis using inv free 2 by (auto simp: exclusive_use_def views)
  next
    case 3
    then have *: "sessions_of a = []" "oneshot_of a = []" "selectedTransport a now = t_id t"
      using assms(3) by (auto simp: canAcquireLease_def arb_views split: if_splits)
    have "canAcquireTransportNow a t"
      using selected_ticket [OF assms(1,2) *(3)] by (simp add: may_go_def)
    then have "compatible_transports (opts a) (transports_of a @ [t])"
      using inv max by (intro compatible_grant) (simp_all add: exclusive_use_def)
    then show ?thesis using inv free 3 * by (auto simp: exclusive_use_def views)
  qed
qed

lemma try_acquire_inv:
  assumes "arb_inv a" and "t \<in> set (queue a)" and "try_acquire t now a = Some a'"
  shows "arb_inv a'"
proof -
  have can: "canAcquireLease a now t" using assms(3) by (auto simp: try_acquire_def split: if_splits)
  then have nb: "t_lease t \<noteq> BarrierLease" by (auto simp: canAcquireLease_def split: if_splits)
  note views = try_acquire_views [OF assms(3) nb]
  have d: "distinct (map t_id (queue a))" using assms(1) by (simp add: arb_inv_def well_numbered_def all_tickets_def)
  note q = mset_remove_first [OF assms(2) d]
  have none: "oneshot_of a = []" if "t_lease t = OneShotLease"
    using can that by (auto simp: canAcquireLease_def arb_views split: if_splits)
  have "mset (all_tickets a') = mset (all_tickets a)"
    using nb none q by (cases "t_lease t") (simp_all add: all_tickets_def views)
  then have w: "well_numbered (seq_id a') (all_tickets a')"
    using assms(1) well_numbered_mset views(2) by (metis arb_inv_def)
  have "set (queue a') \<subseteq> set (queue a)" unfolding views by (rule subseq_facts(1)) simp
  then show ?thesis
    using assms(1) w grant_exclusive [OF assms(1,2) can assms(3)] by (auto simp: arb_inv_def views(1))
qed

lemma try_barrier_views:
  assumes "try_barrier t now a = Some a'"
  shows "opts a' = opts a" "seq_id a' = seq_id a" "barriers_of a' = barriers_of a @ [t]"
    "queue a' = remove_first (\<lambda>q. t_id q = t_id t) (queue a)"
    "sessions_of a' = sessions_of a" "oneshot_of a' = oneshot_of a" "transports_of a' = transports_of a"
  using assms
  by (auto simp: try_barrier_def removeTicket_def Let_def signal_def arb_views split: if_splits)

lemma try_barrier_inv:
  assumes "arb_inv a" and "t \<in> set (queue a)" and "try_barrier t now a = Some a'"
  shows "arb_inv a'"
proof -
  have can: "canAcquireBarrier a t" using assms(3) by (auto simp: try_barrier_def split: if_splits)
  note views = try_barrier_views [OF assms(3)]
  have d: "distinct (map t_id (queue a))" using assms(1) by (simp add: arb_inv_def well_numbered_def all_tickets_def)
  have none: "sessions_of a = []" "oneshot_of a = []" "transports_of a = []"
    using can by (auto simp: canAcquireBarrier_def hasActiveTransport_def arb_views split: if_splits)
  have "mset (all_tickets a') = mset (all_tickets a)"
    using mset_remove_first [OF assms(2) d] by (simp add: all_tickets_def views)
  then have w: "well_numbered (seq_id a') (all_tickets a')"
    using assms(1) well_numbered_mset views(2) by (metis arb_inv_def)
  have "set (queue a') \<subseteq> set (queue a)" unfolding views by (rule subseq_facts(1)) simp
  then show ?thesis using assms(1) w none by (auto simp: arb_inv_def exclusive_use_def views)
qed

section \<open>The goroutines\<close>

text \<open>
  The state of the whole: the arbiter, the time, and per ticket: the signal number a waiting
  goroutine sleeps on and when it last looked, whether the owner has released (\<^verbatim>\<open>once\<close>), whether the
  watchdog timer is armed, how many watchdogs have fired and wait for the lock, how many recovery
  functions are running.  A timer may fire at any time after it is armed; \<open>expire\<close> itself checks
  the time.
\<close>

record system =
  arb :: arbiter
  clock :: int
  asleep :: "nat \<Rightarrow> (nat \<times> int) option"
  once_done :: "nat \<Rightarrow> bool"
  armed :: "nat \<Rightarrow> bool"
  fired :: "nat \<Rightarrow> nat"
  recoveries :: "nat \<Rightarrow> nat"

definition boot :: "options \<Rightarrow> int \<Rightarrow> system" where
  "boot o' t0 = \<lparr>arb = New o', clock = t0, asleep = \<lambda>_. None, once_done = \<lambda>_. False, armed = \<lambda>_. False,
     fired = \<lambda>_. 0, recoveries = \<lambda>_. 0\<rparr>"

text \<open>One turn of the loop that waits: granted, or to sleep on the present channel.\<close>

definition look :: "ticket \<Rightarrow> system \<Rightarrow> system" where
  "look t s =
     (let go_on = (case t_kind t of
            WaitLease \<Rightarrow> try_acquire t (clock s) (arb s)
          | WaitBarrier \<Rightarrow> try_barrier t (clock s) (arb s))
      in case go_on of
           Some a' \<Rightarrow> s\<lparr>arb := a', armed := (armed s)(t_id t := (MaxLeaseHold (opts (arb s)) > 0))\<rparr>
         | None \<Rightarrow> s\<lparr>asleep := (asleep s)(t_id t := Some (signals (arb s), clock s))\<rparr>)"

definition awake :: "system \<Rightarrow> nat \<Rightarrow> bool" where
  "awake s i \<longleftrightarrow> (case asleep s i of None \<Rightarrow> True | Some (g, _) \<Rightarrow> g < signals (arb s))"

definition sys_acquire :: "request \<Rightarrow> lease_type \<Rightarrow> system \<Rightarrow> system" where
  "sys_acquire req lt s = (let (t, a') = begin_acquire req lt (clock s) (arb s) in look t (s\<lparr>arb := a'\<rparr>))"

definition sys_barrier :: "request \<Rightarrow> string list \<Rightarrow> system \<Rightarrow> system" where
  "sys_barrier req policy s =
     (let (t, a') = begin_barrier req policy (clock s) (arb s) in look t (s\<lparr>arb := a'\<rparr>))"

definition sys_touch :: "nat \<Rightarrow> lease_type \<Rightarrow> system \<Rightarrow> system" where
  "sys_touch i lt s =
     (let (ok, a') = touch i lt (clock s) (arb s)
      in s\<lparr>arb := a', armed := (if ok \<and> MaxLeaseHold (opts (arb s)) > 0 then (armed s)(i := True) else armed s)\<rparr>)"

definition sys_release :: "nat \<Rightarrow> lease_type \<Rightarrow> system \<Rightarrow> system" where
  "sys_release i lt s =
     (let a' = release i lt False (arb s)
      in s\<lparr>arb := a', once_done := (once_done s)(i := True),
           armed := (armed s)(i := armed s i \<and> isActive i lt a')\<rparr>)"

definition sys_fire :: "nat \<Rightarrow> system \<Rightarrow> system" where
  "sys_fire i s = s\<lparr>armed := (armed s)(i := False), fired := (fired s)(i := fired s i + 1)\<rparr>"

definition rearmed :: "nat \<Rightarrow> lease_type \<Rightarrow> int \<Rightarrow> arbiter \<Rightarrow> bool" where
  "rearmed i lt now a \<longleftrightarrow>
     (case findActive i lt a of
        None \<Rightarrow> False
      | Some l \<Rightarrow> timer l \<and> (case expiresAt l of None \<Rightarrow> False | Some e \<Rightarrow> e - now > 0))"

definition sys_expire :: "nat \<Rightarrow> lease_type \<Rightarrow> system \<Rightarrow> system" where
  "sys_expire i lt s =
     (let (recover, a') = expire i lt (clock s) (arb s)
      in s\<lparr>arb := a', fired := (fired s)(i := fired s i - 1),
           armed := (armed s)(i := armed s i \<or> rearmed i lt (clock s) (arb s)),
           recoveries := (if recover then (recoveries s)(i := recoveries s i + 1) else recoveries s)\<rparr>)"

definition sys_recovery :: "bool \<Rightarrow> nat \<Rightarrow> lease_type \<Rightarrow> system \<Rightarrow> system" where
  "sys_recovery ok i lt s =
     s\<lparr>arb := (if ok then releaseRecovered i lt (arb s) else recovery_failed i lt (arb s)),
       recoveries := (recoveries s)(i := recoveries s i - 1)\<rparr>"

inductive arb_step :: "system \<Rightarrow> system \<Rightarrow> bool" where
  acquire: "lt \<noteq> BarrierLease \<Longrightarrow> arb_step s (sys_acquire req lt s)"
| raise_barrier: "arb_step s (sys_barrier req policy s)"
| wake: "t \<in> set (queue (arb s)) \<Longrightarrow> awake s (t_id t) \<Longrightarrow> arb_step s (look t s)"
| cancel: "arb_step s (s\<lparr>arb := give_up i (arb s)\<rparr>)"
| tick: "0 < d \<Longrightarrow> arb_step s (s\<lparr>clock := clock s + d\<rparr>)"
| touching: "arb_step s (sys_touch i lt s)"
| releasing: "\<not> once_done s i \<Longrightarrow> isActive i lt (arb s) \<Longrightarrow> arb_step s (sys_release i lt s)"
| firing: "armed s i \<Longrightarrow> arb_step s (sys_fire i s)"
| expiring: "0 < fired s i \<Longrightarrow> arb_step s (sys_expire i lt s)"
| recovery: "0 < recoveries s i \<Longrightarrow> arb_step s (sys_recovery ok i lt s)"
| lift_barrier: "arb_step s (s\<lparr>arb := releaseBarrier i (arb s)\<rparr>)"
| barrier_owner_gone: "arb_step s (s\<lparr>arb := markBarrierSuspect i (arb s)\<rparr>)"

inductive arb_reachable :: "system \<Rightarrow> bool" where
  start: "arb_reachable (boot o' t0)"
| step: "arb_reachable s \<Longrightarrow> arb_step s s' \<Longrightarrow> arb_reachable s'"

inductive_cases arb_stepE: "arb_step s s'"

lemma look_inv:
  assumes "arb_inv (arb s)" and "t \<in> set (queue (arb s))"
  shows "arb_inv (arb (look t s))"
  using assms try_acquire_inv [OF assms] try_barrier_inv [OF assms]
  by (auto simp: look_def Let_def split: option.split wait_kind.split)

lemma sys_acquire_inv:
  assumes "arb_inv (arb s)" and "lt \<noteq> BarrierLease"
  shows "arb_inv (arb (sys_acquire req lt s))"
proof -
  obtain t a' where b: "begin_acquire req lt (clock s) (arb s) = (t, a')" by force
  have "t \<in> set (queue a')" using b by (auto simp: begin_acquire_def enqueue_def signal_def Let_def)
  moreover have "arb_inv a'" using begin_acquire_inv [OF assms, of req "clock s"] b by simp
  ultimately show ?thesis using look_inv [of "s\<lparr>arb := a'\<rparr>" t] by (simp add: sys_acquire_def b)
qed

lemma sys_barrier_inv:
  assumes "arb_inv (arb s)"
  shows "arb_inv (arb (sys_barrier req policy s))"
proof -
  obtain t a' where b: "begin_barrier req policy (clock s) (arb s) = (t, a')" by force
  have "t \<in> set (queue a')" using b by (auto simp: begin_barrier_def enqueue_def signal_def Let_def)
  moreover have "arb_inv a'" using begin_barrier_inv [OF assms, of req policy "clock s"] b by simp
  ultimately show ?thesis using look_inv [of "s\<lparr>arb := a'\<rparr>" t] by (simp add: sys_barrier_def b)
qed

lemma arb_sys_touch: "arb (sys_touch i lt s) = snd (touch i lt (clock s) (arb s))"
  by (simp add: sys_touch_def split: prod.split)

lemma arb_sys_expire: "arb (sys_expire i lt s) = snd (expire i lt (clock s) (arb s))"
  by (simp add: sys_expire_def Let_def split: prod.split)

lemma arb_inv_step:
  assumes "arb_step s s'" and "arb_inv (arb s)"
  shows "arb_inv (arb s')"
  using assms
proof (induction rule: arb_step.induct)
  case (touching s i lt)
  then show ?case using arb_sys_touch arb_inv_fewer fewer_touch by metis
next
  case (expiring s i lt)
  then show ?case using arb_sys_expire arb_inv_fewer fewer_expire by metis
qed (auto simp: sys_release_def sys_fire_def sys_recovery_def Let_def
      intro: sys_acquire_inv sys_barrier_inv look_inv arb_inv_fewer fewer_ops)

lemma arb_inv_reachable: "arb_reachable s \<Longrightarrow> arb_inv (arb s)"
  by (induction rule: arb_reachable.induct) (simp_all add: boot_def arb_inv_New arb_inv_step)

text \<open>Property C11: in every state that the goroutines can reach, the leases exclude one another as
  documented: sessions, the one-shot and transports never hold the card together, sessions and QMI
  channels stay within their limits, transports are alone or on different QMI channels, and no
  lease of a class is held that an active barrier blocks.\<close>

theorem card_access_is_exclusive:
  assumes "arb_reachable s"
  shows "exclusive_use (opts (arb s)) (sessions_of (arb s)) (oneshot_of (arb s)) (transports_of (arb s))
    (barriers_of (arb s))"
  using arb_inv_reachable [OF assms] by (simp add: arb_inv_def)

section \<open>Waiting\<close>

subsection \<open>Somebody can always go on\<close>

lemma no_barrier_ahead: "t \<in> set (takeWhile (\<lambda>q. t_kind q \<noteq> WaitBarrier) q) \<Longrightarrow> \<not> pending_barrier_ahead q t"
  by (induction q) (auto split: if_splits)

lemma select_loop_keeps: "oldestEligible c = Some t \<Longrightarrow> oldestEligible (select_loop a now q c) = Some t"
  by (induction a now q c rule: select_loop.induct) (auto simp: Let_def or_first_def split: option.splits)

definition nothing_active :: "arbiter \<Rightarrow> bool" where
  "nothing_active a \<longleftrightarrow>
     activeSessions a = [] \<and> activeOneshot a = None \<and> activeTransports a = [] \<and> activeBarriers a = []"

definition can_go :: "arbiter \<Rightarrow> int \<Rightarrow> ticket \<Rightarrow> bool" where
  "can_go a now t \<longleftrightarrow> canAcquireLease a now t \<or> canAcquireBarrier a t"

lemma somebody_can_go:
  assumes "arb_inv a" and "nothing_active a" and "queue a \<noteq> []"
  shows "\<exists>t \<in> set (queue a). can_go a now t"
proof -
  obtain q qs where q: "queue a = q # qs" using assms(3) by (cases "queue a") auto
  note free = assms(2) [unfolded nothing_active_def]
  have max: "1 \<le> MaxSessions (opts a)" "1 \<le> MaxQMITransports (opts a)"
    and wf: "t_kind q = WaitBarrier \<longleftrightarrow> t_lease q = BarrierLease"
    using assms(1) q by (simp_all add: arb_inv_def)
  have unblocked: "\<not> isBlockedByActiveBarrier a cls" for cls
    using free by (simp add: isBlockedByActiveBarrier_def)
  show ?thesis
  proof (cases "t_kind q")
    case WaitBarrier
    then have "canAcquireBarrier a q"
      using free q by (simp add: canAcquireBarrier_def hasActiveTransport_def selectedBarrier_def)
    then show ?thesis using q by (auto simp: can_go_def)
  next
    case WaitLease
    then consider "t_lease q = SessionLease" | "t_lease q = OneShotLease" | "t_lease q = TransportLease"
      using wf by (cases "t_lease q") auto
    then show ?thesis
    proof cases
      case 3
      have now: "canAcquireTransportNow a q"
        using free max 3
        by (simp add: canAcquireTransportNow_def hasSuspectTransport_def hasActiveTransport_def
            hasActiveExclusiveTransport_def activeQMITransportCount_def hasActiveTransportOnChannel_def)
      let ?c = "\<lparr>oldestEligible = None, oldestAgedNonAKA = None, oldestAKA = None\<rparr>"
      have "oldestEligible (select_loop a now (queue a) ?c) = Some q"
        using WaitLease 3 now unblocked unfolding q by (simp add: Let_def or_first_def select_loop_keeps)
      then have "best_choice (select_loop a now (queue a) ?c) \<noteq> None"
        by (simp add: best_choice_def split: option.split)
      then obtain t where t: "best_choice (select_loop a now (queue a) ?c) = Some t" by blast
      then have "t \<in> choices (select_loop a now (queue a) ?c)" by (rule best_choice_in)
      then have go: "may_go a (queue a) t"
        using select_loop_choices [of a now "queue a" ?c] by (auto simp: choices_def)
      have "selectedTransport a now = t_id t" using t by (simp add: selectedTransport_def)
      then have "canAcquireLease a now t"
        using go free unblocked no_barrier_ahead by (auto simp: canAcquireLease_def may_go_def)
      then show ?thesis using go set_takeWhileD by (fastforce simp: may_go_def can_go_def)
    qed (use WaitLease free max q unblocked in \<open>auto simp: can_go_def canAcquireLease_def queueHeadIs_def hasActiveTransport_def\<close>)
  qed
qed

subsection \<open>What a decision depends on\<close>

definition arbitration where
  "arbitration a = (opts a, queue a, activeSessions a = [], length (activeSessions a), activeOneshot a = None,
     map (\<lambda>l. (held l, suspect l)) (activeTransports a), barriers_of a)"

lemma arbitration_cong:
  assumes "arbitration a = arbitration a'"
  shows "can_go a now t = can_go a' now t"
proof -
  let ?hs = "\<lambda>a. map (\<lambda>l. (held l, suspect l)) (activeTransports a)"
  have hs: "?hs a = ?hs a'" and same: "opts a = opts a'" "queue a = queue a'"
    "activeSessions a = [] \<longleftrightarrow> activeSessions a' = []" "length (activeSessions a) = length (activeSessions a')"
    "activeOneshot a = None \<longleftrightarrow> activeOneshot a' = None" "barriers_of a = barriers_of a'"
    using assms by (simp_all add: arbitration_def)
  have ex: "list_ex (\<lambda>l. P (held l) (suspect l)) (activeTransports a) =
      list_ex (\<lambda>l. P (held l) (suspect l)) (activeTransports a')" for P
  proof -
    have "list_ex (\<lambda>l. P (held l) (suspect l)) (activeTransports x) = list_ex (\<lambda>(h, u). P h u) (?hs x)" for x
      by (auto simp: list_ex_iff)
    from this [of a] this [of a'] hs show ?thesis by (simp only:)
  qed
  have count: "activeQMITransportCount a = activeQMITransportCount a'"
  proof -
    have "activeQMITransportCount x = length (filter (\<lambda>(h, u). t_scope h = ScopeQMIChannel) (?hs x))" for x
      by (simp add: activeQMITransportCount_def filter_map comp_def)
    from this [of a] this [of a'] hs show ?thesis by (simp only:)
  qed
  have active: "hasActiveTransport a = hasActiveTransport a'"
    using hs by (auto simp: hasActiveTransport_def)
  have blocked: "isBlockedByActiveBarrier a = isBlockedByActiveBarrier a'"
    by (intro ext) (simp add: blocked_iff same)
  have now: "canAcquireTransportNow a = canAcquireTransportNow a'"
    "transportWaitGatesQueue a = transportWaitGatesQueue a'"
    using ex [of "\<lambda>h u. u"] ex [of "\<lambda>h u. t_scope h \<noteq> ScopeQMIChannel"]
      ex [of "\<lambda>h u. t_scope h = ScopeQMIChannel \<and> t_channel h = c" for c] count active
    by (intro ext; simp add: canAcquireTransportNow_def transportWaitGatesQueue_def hasSuspectTransport_def
        hasActiveExclusiveTransport_def hasActiveTransportOnChannel_def same)+
  have "select_loop a now q c = select_loop a' now q c" for q c
    by (induction q arbitrary: c) (simp_all add: blocked now Let_def)
  then have "selectedTransport a now = selectedTransport a' now"
    by (simp add: selectedTransport_def same)
  then show ?thesis
    using same by (cases "t_lease t") (simp_all add: can_go_def canAcquireLease_def canAcquireBarrier_def
        blocked active queueHeadIs_def selectedBarrier_def)
qed

text \<open>Every change of what decisions depend on is signalled.\<close>

definition signalled :: "arbiter \<Rightarrow> arbiter \<Rightarrow> bool" where
  "signalled a a' \<longleftrightarrow> signals a < signals a' \<or> signals a = signals a' \<and> arbitration a = arbitration a'"

lemma signalled_trans: "signalled a b \<Longrightarrow> signalled b c \<Longrightarrow> signalled a c"
  by (auto simp: signalled_def)

lemma signalled_refl [simp]: "signalled a a"
  by (simp add: signalled_def)

lemma signalled_signal: "signals a \<le> signals a' \<Longrightarrow> signalled a (signal a')"
  by (simp add: signalled_def signal_def)

lemma signals_ops [simp]:
  "signals (updateActive f i lt a) = signals a" "signals (removeActive i lt a) = signals a"
  "signals (addActive l a) = signals a" "signals (snd (removeTicket i a)) = signals a"
  by (simp_all add: updateActive_def removeActive_def addActive_def removeTicket_def
      split: lease_type.split option.split)

lemma remove_first_none: "\<not> list_ex P xs \<Longrightarrow> remove_first P xs = xs"
  by (induction xs) auto

lemma length_update_first [simp]: "length (update_first P f xs) = length xs"
  by (induction xs) auto

lemma update_first_Nil [simp]: "update_first P f xs = [] \<longleftrightarrow> xs = []"
  by (cases xs) auto

lemma arbitration_update:
  assumes "\<And>l. held (f l) = held l" and "\<And>l. suspect (f l) = suspect l"
  shows "arbitration (updateActive f i lt a) = arbitration a"
  by (auto simp: arbitration_def updateActive_def barriers_of_def map_update_first assms
      split: lease_type.split)

lemma signalled_update:
  assumes "\<And>l. held (f l) = held l" and "\<And>l. suspect (f l) = suspect l"
  shows "signalled a (updateActive f i lt a)"
  by (simp add: signalled_def arbitration_update assms)

lemma signalled_give_up: "signalled a (give_up i a)"
  by (auto simp: give_up_def removeTicket_def signal_def signalled_def arbitration_def remove_first_none
      barriers_of_def)

lemma signalled_touch: "signalled a (snd (touch i lt now a))"
  by (auto simp: touch_def signalled_update split: option.split)

lemma signalled_release: "signalled a (release i lt forced a)"
  by (auto simp: release_def Let_def intro!: signalled_signal split: option.split)

lemma signalled_expire: "signalled a (snd (expire i lt now a))"
  by (auto simp: expire_def intro!: signalled_signal split: option.split)

lemma signalled_recovery: "signalled a (recovery_failed i lt a)" "signalled a (releaseRecovered i lt a)"
  by (auto simp: recovery_failed_def releaseRecovered_def signalled_update intro!: signalled_signal split: option.split)

lemma signalled_barriers: "signalled a (releaseBarrier i a)" "signalled a (markBarrierSuspect i a)"
  by (auto simp: releaseBarrier_def markBarrierSuspect_def intro!: signalled_signal)

lemmas signalled_ops = signalled_give_up signalled_touch signalled_release signalled_expire signalled_recovery
  signalled_barriers

lemma try_signals:
  "try_acquire t now a = Some a' \<Longrightarrow> signals a < signals a'"
  "try_barrier t now a = Some a' \<Longrightarrow> signals a < signals a'"
  by (auto simp: try_acquire_def try_barrier_def signal_def Let_def split: if_splits)

lemma try_iff:
  "try_acquire t now a = None \<longleftrightarrow> \<not> canAcquireLease a now t" "try_barrier t now a = None \<longleftrightarrow> \<not> canAcquireBarrier a t"
  by (simp_all add: try_acquire_def try_barrier_def Let_def)

lemma wrong_kind: "t_kind t = WaitLease \<Longrightarrow> \<not> canAcquireBarrier a t" "t_kind t = WaitBarrier \<Longrightarrow> \<not> canAcquireLease a now t"
  by (simp_all add: canAcquireBarrier_def canAcquireLease_def)

subsection \<open>A goroutine sleeps only where it cannot go on\<close>

definition sleeps_rightly :: "system \<Rightarrow> ticket \<Rightarrow> bool" where
  "sleeps_rightly s t \<longleftrightarrow>
     (\<exists>g tm. asleep s (t_id t) = Some (g, tm) \<and> g \<le> signals (arb s) \<and>
        (g = signals (arb s) \<longrightarrow> \<not> can_go (arb s) tm t))"

definition sleep_inv :: "system \<Rightarrow> bool" where
  "sleep_inv s \<longleftrightarrow> (\<forall>t \<in> set (queue (arb s)). sleeps_rightly s t)"

lemma sleeps_rightly_frame:
  assumes "sleeps_rightly s t" and "asleep s' (t_id t) = asleep s (t_id t)" and "signalled (arb s) (arb s')"
  shows "sleeps_rightly s' t"
  using assms arbitration_cong [of "arb s" "arb s'"] unfolding sleeps_rightly_def signalled_def by fastforce

lemma sleep_inv_frame:
  assumes "sleep_inv s" and "asleep s' = asleep s" and "signalled (arb s) (arb s')"
    and "set (queue (arb s')) \<subseteq> set (queue (arb s))"
  shows "sleep_inv s'"
  using assms sleeps_rightly_frame [of s _ s'] by (auto simp: sleep_inv_def)

lemma look_cases:
  obtains "arb (look t s) = arb s" and "\<not> can_go (arb s) (clock s) t"
      and "asleep (look t s) = (asleep s)(t_id t := Some (signals (arb s), clock s))"
  | "signals (arb s) < signals (arb (look t s))" and "asleep (look t s) = asleep s"
      and "queue (arb (look t s)) = remove_first (\<lambda>q. t_id q = t_id t) (queue (arb s))"
proof (cases "t_kind t")
  case WaitLease
  then show ?thesis
  proof (cases "try_acquire t (clock s) (arb s)")
    case None
    then have "\<not> canAcquireLease (arb s) (clock s) t" using try_iff(1) [of t "clock s" "arb s"] by simp
    then show ?thesis using that(1) WaitLease None wrong_kind(1) by (simp add: look_def can_go_def)
  next
    case (Some a')
    then have "canAcquireLease (arb s) (clock s) t" using try_iff(1) [of t "clock s" "arb s"] by auto
    then have "t_lease t \<noteq> BarrierLease" by (auto simp: canAcquireLease_def split: if_splits)
    then show ?thesis
      using that(2) WaitLease Some try_signals(1) try_acquire_views(4) by (simp add: look_def)
  qed
next
  case WaitBarrier
  then show ?thesis
  proof (cases "try_barrier t (clock s) (arb s)")
    case None
    then have "\<not> canAcquireBarrier (arb s) t" using try_iff(2) [of t "clock s" "arb s"] by simp
    then show ?thesis using that(1) WaitBarrier None wrong_kind(2) by (simp add: look_def can_go_def)
  next
    case (Some a')
    then show ?thesis
      using that(2) WaitBarrier try_signals(2) try_barrier_views(4) by (simp add: look_def)
  qed
qed

lemma sleep_inv_look:
  assumes "arb_inv (arb s)" and "t \<in> set (queue (arb s))"
    and "\<forall>u \<in> set (queue (arb s)). u \<noteq> t \<longrightarrow> sleeps_rightly s u"
  shows "sleep_inv (look t s)"
proof (cases rule: look_cases [of t s])
  case 1
  have "sleeps_rightly (look t s) u" if u: "u \<in> set (queue (arb s))" for u
  proof (cases "u = t")
    case True
    then show ?thesis using 1 by (simp add: sleeps_rightly_def)
  next
    case False
    then have "t_id u \<noteq> t_id t" using queue_unique [OF assms(1) u assms(2)] by auto
    then have "asleep (look t s) (t_id u) = asleep s (t_id u)" using 1(3) by simp
    then show ?thesis using sleeps_rightly_frame assms(3) u False 1(1) signalled_refl by metis
  qed
  then show ?thesis by (simp add: sleep_inv_def 1(1))
next
  case 2
  have sig: "signalled (arb s) (arb (look t s))" using 2(1) by (simp add: signalled_def)
  have d: "distinct (map t_id (queue (arb s)))"
    using assms(1) by (simp add: arb_inv_def well_numbered_def all_tickets_def)
  have rest: "u \<in> set (queue (arb s)) \<and> u \<noteq> t" if "u \<in> set (queue (arb (look t s)))" for u
  proof -
    have "distinct (t # remove_first (\<lambda>q. t_id q = t_id t) (queue (arb s)))"
      using mset_remove_first [OF assms(2) d] d mset_eq_imp_distinct_iff
      by (metis distinct_map mset.simps(2))
    moreover have "set (remove_first (\<lambda>q. t_id q = t_id t) (queue (arb s))) \<subseteq> set (queue (arb s))"
      by (rule subseq_facts(1)) simp
    ultimately show ?thesis using that 2(3) by auto
  qed
  show ?thesis
    unfolding sleep_inv_def using rest assms(3) sleeps_rightly_frame [OF _ _ sig] 2(2) by auto
qed

lemma enqueue_look:
  assumes "arb_inv (enqueue t a)" and "\<forall>u \<in> set (queue a). sleeps_rightly (s\<lparr>arb := a\<rparr>) u"
  shows "sleep_inv (look t (s\<lparr>arb := enqueue t a\<rparr>))"
proof -
  have q: "queue (enqueue t a) = queue a @ [t]" "signals a < signals (enqueue t a)"
    by (simp_all add: enqueue_def signal_def)
  have "\<forall>u \<in> set (queue (enqueue t a)). u \<noteq> t \<longrightarrow> sleeps_rightly (s\<lparr>arb := enqueue t a\<rparr>) u"
  proof (intro ballI impI)
    fix u assume "u \<in> set (queue (enqueue t a))" "u \<noteq> t"
    then have "sleeps_rightly (s\<lparr>arb := a\<rparr>) u" using assms(2) q by simp
    then show "sleeps_rightly (s\<lparr>arb := enqueue t a\<rparr>) u"
      by (rule sleeps_rightly_frame) (use q in \<open>simp_all add: signalled_def\<close>)
  qed
  then show ?thesis using sleep_inv_look [of "s\<lparr>arb := enqueue t a\<rparr>" t] assms(1) q by simp
qed

lemma sleeps_seq_id: "sleeps_rightly (s\<lparr>arb := (arb s)\<lparr>seq_id := n\<rparr>\<rparr>) u = sleeps_rightly s u"
proof -
  have "can_go ((arb s)\<lparr>seq_id := n\<rparr>) tm u = can_go (arb s) tm u" for tm
    by (rule arbitration_cong) (simp add: arbitration_def barriers_of_def)
  then show ?thesis by (simp add: sleeps_rightly_def)
qed

lemma sleep_inv_acquire:
  assumes "arb_inv (arb s)" and "sleep_inv s" and "lt \<noteq> BarrierLease"
  shows "sleep_inv (sys_acquire req lt s)"
proof -
  define t where "t = lease_ticket (seq_id (arb s) + 1) (normalizeRequest req lt) lt (clock s)"
  let ?a = "(arb s)\<lparr>seq_id := seq_id (arb s) + 1\<rparr>"
  have b: "begin_acquire req lt (clock s) (arb s) = (t, enqueue t ?a)"
    by (simp add: begin_acquire_def t_def Let_def)
  have "arb_inv (enqueue t ?a)" using begin_acquire_inv [OF assms(1,3), of req "clock s"] b by simp
  then have "sleep_inv (look t (s\<lparr>arb := enqueue t ?a\<rparr>))"
    using assms(2) by (intro enqueue_look) (simp_all add: sleep_inv_def sleeps_seq_id)
  then show ?thesis by (simp add: sys_acquire_def b)
qed

lemma sleep_inv_barrier:
  assumes "arb_inv (arb s)" and "sleep_inv s"
  shows "sleep_inv (sys_barrier req policy s)"
proof -
  obtain t where b: "begin_barrier req policy (clock s) (arb s) =
      (t, enqueue t ((arb s)\<lparr>seq_id := seq_id (arb s) + 1\<rparr>))"
    by (simp add: begin_barrier_def Let_def)
  let ?a = "(arb s)\<lparr>seq_id := seq_id (arb s) + 1\<rparr>"
  have "arb_inv (enqueue t ?a)" using begin_barrier_inv [OF assms(1), of req policy "clock s"] b by simp
  then have "sleep_inv (look t (s\<lparr>arb := enqueue t ?a\<rparr>))"
    using assms(2) by (intro enqueue_look) (simp_all add: sleep_inv_def sleeps_seq_id)
  then show ?thesis by (simp add: sys_barrier_def b)
qed

lemma fewer_queue: "same_but_fewer a' a \<Longrightarrow> set (queue a') \<subseteq> set (queue a)"
  by (auto simp: same_but_fewer_def dest: subseq_facts(1))

lemma sleep_inv_op:
  assumes "sleep_inv s" and "asleep s' = asleep s" and "arb s' = a'" and "signalled (arb s) a'"
    and "same_but_fewer a' (arb s)"
  shows "sleep_inv s'"
  by (rule sleep_inv_frame [OF assms(1,2)]) (simp_all only: assms(3,4) fewer_queue [OF assms(5)])

lemma sleep_inv_step:
  assumes "arb_step s s'" and "arb_inv (arb s)" and "sleep_inv s"
  shows "sleep_inv s'"
  using assms
proof (induction rule: arb_step.induct)
  case (acquire lt s req)
  then show ?case by (simp add: sleep_inv_acquire)
next
  case (raise_barrier s req policy)
  then show ?case by (simp add: sleep_inv_barrier)
next
  case (wake t s)
  then show ?case by (intro sleep_inv_look) (simp_all add: sleep_inv_def)
next
  case (cancel s i)
  show ?case
    by (rule sleep_inv_op [OF cancel(2) _ _ signalled_give_up fewer_give_up]) simp_all
next
  case (tick d s)
  show ?case by (rule sleep_inv_op [OF tick(3) _ _ signalled_refl fewer_refl]) simp_all
next
  case (touching s i lt)
  show ?case
    by (rule sleep_inv_op [OF touching(2) _ arb_sys_touch signalled_touch fewer_touch])
      (simp add: sys_touch_def split: prod.split)
next
  case (releasing s i lt)
  show ?case
    by (rule sleep_inv_op [OF releasing(4) _ _ signalled_release fewer_release]) (simp_all add: sys_release_def Let_def)
next
  case (firing s i)
  show ?case by (rule sleep_inv_op [OF firing(3) _ _ signalled_refl fewer_refl]) (simp_all add: sys_fire_def)
next
  case (expiring s i lt)
  show ?case
    by (rule sleep_inv_op [OF expiring(3) _ arb_sys_expire signalled_expire fewer_expire])
      (simp add: sys_expire_def Let_def split: prod.split)
next
  case (recovery s i ok lt)
  show ?case
  proof (cases ok)
    case True
    show ?thesis
      by (rule sleep_inv_op [OF recovery(3) _ _ signalled_recovery(2) fewer_recovery(2)])
        (simp_all add: sys_recovery_def True)
  next
    case False
    show ?thesis
      by (rule sleep_inv_op [OF recovery(3) _ _ signalled_recovery(1) fewer_recovery(1)])
        (simp_all add: sys_recovery_def False)
  qed
next
  case (lift_barrier s i)
  show ?case
    by (rule sleep_inv_op [OF lift_barrier(2) _ _ signalled_barriers(1) fewer_barriers(1)]) simp_all
next
  case (barrier_owner_gone s i)
  show ?case
    by (rule sleep_inv_op [OF barrier_owner_gone(2) _ _ signalled_barriers(2) fewer_barriers(2)]) simp_all
qed

lemma sleep_inv_reachable: "arb_reachable s \<Longrightarrow> sleep_inv s"
proof (induction rule: arb_reachable.induct)
  case (start o' t0)
  then show ?case by (simp add: sleep_inv_def boot_def New_def)
next
  case (step s s')
  then show ?case using sleep_inv_step arb_inv_reachable by blast
qed

subsection \<open>Who waits, and for what\<close>

definition aged :: "int \<Rightarrow> ticket \<Rightarrow> bool" where
  "aged now t \<longleftrightarrow> transportPriorityAging \<le> now - t_enqueued t"

definition last_look :: "system \<Rightarrow> ticket \<Rightarrow> int" where
  "last_look s t = (case asleep s (t_id t) of Some (_, tm) \<Rightarrow> tm | None \<Rightarrow> 0)"

lemma select_loop_aged:
  "\<forall>t \<in> set q. aged n t = aged m t \<Longrightarrow> select_loop a n q c = select_loop a m q c"
  by (induction q arbitrary: c) (auto simp: aged_def Let_def)

lemma can_go_aged:
  assumes "\<forall>t \<in> set (queue a). aged n t = aged m t"
  shows "can_go a n t = can_go a m t"
proof -
  have "selectedTransport a n = selectedTransport a m"
    using select_loop_aged [OF assms] by (simp add: selectedTransport_def)
  then show ?thesis by (cases "t_lease t") (simp_all add: can_go_def canAcquireLease_def)
qed

text \<open>Property C24: the card is never free while everybody sleeps, except where the two waiters looked at
  the queue at times between which some ticket became old enough to change the priorities.\<close>

theorem free_card_wakes_somebody:
  assumes "arb_reachable s" and "nothing_active (arb s)" and "queue (arb s) \<noteq> []"
    and "\<forall>t u v. t \<in> set (queue (arb s)) \<and> u \<in> set (queue (arb s)) \<and> v \<in> set (queue (arb s)) \<longrightarrow>
      aged (last_look s u) t = aged (last_look s v) t"
  shows "\<exists>t \<in> set (queue (arb s)). awake s (t_id t)"
proof (rule ccontr)
  assume "\<not> ?thesis"
  then have asleep: "\<forall>t \<in> set (queue (arb s)). \<not> awake s (t_id t)" by blast
  obtain q qs where q: "queue (arb s) = q # qs" using assms(3) by (cases "queue (arb s)") auto
  obtain t where t: "t \<in> set (queue (arb s))" "can_go (arb s) (last_look s q) t"
    using somebody_can_go [OF arb_inv_reachable [OF assms(1)] assms(2,3)] by blast
  obtain g tm where g: "asleep s (t_id t) = Some (g, tm)" "g \<le> signals (arb s)"
    "g = signals (arb s) \<longrightarrow> \<not> can_go (arb s) tm t"
    using sleep_inv_reachable [OF assms(1)] t(1) by (auto simp: sleep_inv_def sleeps_rightly_def)
  have "g = signals (arb s)" using asleep t(1) g(1,2) by (auto simp: awake_def)
  then have "\<not> can_go (arb s) (last_look s t) t" using g by (simp add: last_look_def)
  moreover have "can_go (arb s) (last_look s t) t = can_go (arb s) (last_look s q) t"
  proof (rule can_go_aged, rule ballI)
    fix x assume "x \<in> set (queue (arb s))"
    moreover have "q \<in> set (queue (arb s))" by (simp add: q)
    ultimately show "aged (last_look s t) x = aged (last_look s q) x" using assms(4) t(1) by blast
  qed
  ultimately show False using t(2) by simp
qed

text \<open>A run in which it happens.  A transport holds the card, another transport and an authentication
  wait.  The holder releases when the transport has waited for 499 ms; its goroutine looks at once
  and yields to the authentication, whose goroutine is scheduled a millisecond later, finds the
  transport aged and yields to it.\<close>

definition at_ms :: "int \<Rightarrow> system \<Rightarrow> system" where
  "at_ms ms s = s\<lparr>clock := clock s + ms * millisecond\<rparr>"

definition exclusive_request :: "string \<Rightarrow> request" where
  "exclusive_request cls = \<lparr>ReqOwner = ''o'', ReqMode = ''AT'', ReqClass = cls, ReqChannel = 0, ReqScope = []\<rparr>"

definition no_options :: options where
  "no_options = \<lparr>MaxLeaseHold = 0, MaxSessions = 0, MaxQMITransports = 0, CanRecover = False, RecoveryTimeout = 0\<rparr>"

definition waiting_two :: system where
  "waiting_two = at_ms 499 (sys_acquire (exclusive_request ClassUSIMAKA) TransportLease
     (sys_acquire (exclusive_request ClassEUICCWrite) TransportLease
       (sys_acquire (exclusive_request ClassEUICCWrite) TransportLease (boot no_options 0))))"

definition released_two :: system where
  "released_two = sys_release 1 TransportLease waiting_two"




lemma reachable_at_ms: "arb_reachable s \<Longrightarrow> 0 < ms \<Longrightarrow> arb_reachable (at_ms ms s)"
  unfolding at_ms_def by (intro arb_reachable.step [OF _ arb_step.tick]) (simp_all add: millisecond_def)

lemma reachable_acquire: "arb_reachable s \<Longrightarrow> lt \<noteq> BarrierLease \<Longrightarrow> arb_reachable (sys_acquire req lt s)"
  by (intro arb_reachable.step [OF _ arb_step.acquire])



definition may_release :: "nat \<Rightarrow> lease_type \<Rightarrow> system \<Rightarrow> bool" where
  "may_release i lt s \<longleftrightarrow> \<not> once_done s i \<and> isActive i lt (arb s)"

lemma reachable_release: "arb_reachable s \<Longrightarrow> may_release i lt s \<Longrightarrow> arb_reachable (sys_release i lt s)"
  unfolding may_release_def by (intro arb_reachable.step [OF _ arb_step.releasing]) simp_all

lemma waiting_two_reachable: "arb_reachable waiting_two"
  unfolding waiting_two_def
  by (intro reachable_at_ms reachable_acquire arb_reachable.start) simp_all

lemma released_two_reachable: "arb_reachable released_two"
  unfolding released_two_def by (rule reachable_release [OF waiting_two_reachable]) code_simp





definition free_and_unaged :: "system \<Rightarrow> bool" where
  "free_and_unaged s \<longleftrightarrow>
     nothing_active (arb s) \<and> queue (arb s) \<noteq> [] \<and>
     list_all (\<lambda>t. list_all (\<lambda>u. list_all (\<lambda>v. aged (last_look s u) t = aged (last_look s v) t)
       (queue (arb s))) (queue (arb s))) (queue (arb s))"

theorem free_card_wakes_somebody_witness:
  "list_ex (\<lambda>t. awake released_two (t_id t)) (queue (arb released_two))"
proof -
  have "free_and_unaged released_two" by code_simp
  then show ?thesis
    using free_card_wakes_somebody [OF released_two_reachable]
    unfolding free_and_unaged_def list_all_iff list_ex_iff by blast
qed

theorem card_access_is_exclusive_witness:
  "exclusive_use (opts (arb waiting_two)) (sessions_of (arb waiting_two)) (oneshot_of (arb waiting_two))
     (transports_of (arb waiting_two)) (barriers_of (arb waiting_two)) \<and>
   length (transports_of (arb waiting_two)) = 1"
proof
  show "exclusive_use (opts (arb waiting_two)) (sessions_of (arb waiting_two)) (oneshot_of (arb waiting_two))
     (transports_of (arb waiting_two)) (barriers_of (arb waiting_two))"
    by (rule card_access_is_exclusive [OF waiting_two_reachable])
qed code_simp

section \<open>A lease that nobody gives back\<close>

text \<open>The owner released while the recovery was running, and the recovery then failed.\<close>

definition wedged :: "nat \<Rightarrow> system \<Rightarrow> bool" where
  "wedged i s \<longleftrightarrow>
     (case findActive i TransportLease (arb s) of
        None \<Rightarrow> False
      | Some l \<Rightarrow> suspect l \<and> \<not> recovering l) \<and>
     once_done s i \<and> \<not> armed s i \<and> fired s i = 0 \<and> recoveries s i = 0"

definition transport_of :: "nat \<Rightarrow> arbiter \<Rightarrow> active_lease option" where
  "transport_of i a = findActive i TransportLease a"

lemma find_update_first:
  assumes "\<And>l. held (f l) = held l" and "i \<noteq> j"
  shows "find (\<lambda>l. t_id (held l) = i) (update_first (\<lambda>l. t_id (held l) = j) f ls) = find (\<lambda>l. t_id (held l) = i) ls"
  using assms by (induction ls) auto

lemma find_remove_first:
  "i \<noteq> j \<Longrightarrow> find (\<lambda>l. t_id (held l) = i) (remove_first (\<lambda>l. t_id (held l) = j) ls) = find (\<lambda>l. t_id (held l) = i) ls"
  by (induction ls) auto

lemma find_append: "find P xs = Some y \<Longrightarrow> find P (xs @ ys) = Some y"
  by (induction xs) auto

lemma transport_of_signal [simp]: "transport_of i (signal a) = transport_of i a"
  by (simp add: transport_of_def findActive_def signal_def)

lemma transport_of_update:
  "(\<And>l. held (f l) = held l) \<Longrightarrow> i \<noteq> j \<Longrightarrow> transport_of i (updateActive f j lt a) = transport_of i a"
  by (simp add: transport_of_def findActive_def updateActive_def find_update_first split: lease_type.split)

lemma transport_of_remove: "i \<noteq> j \<Longrightarrow> transport_of i (removeActive j lt a) = transport_of i a"
  by (auto simp: transport_of_def findActive_def removeActive_def find_remove_first split: lease_type.split option.split)

lemma transport_of_ops:
  assumes "i \<noteq> j"
  shows "transport_of i (snd (touch j lt now a)) = transport_of i a"
    "transport_of i (release j lt forced a) = transport_of i a"
    "transport_of i (snd (expire j lt now a)) = transport_of i a"
    "transport_of i (recovery_failed j lt a) = transport_of i a"
    "transport_of i (releaseRecovered j lt a) = transport_of i a"
proof -
  have u: "transport_of i (updateActive f j lt a) = transport_of i a" if "\<And>l. held (f l) = held l" for f
    using transport_of_update [OF that assms] .
  have r: "transport_of i (removeActive j lt a) = transport_of i a" using transport_of_remove [OF assms] .
  have c: "transport_of i (a'\<lparr>forcedReleases := n\<rparr>) = transport_of i a'" for a' n
    by (simp add: transport_of_def findActive_def)
  show "transport_of i (snd (touch j lt now a)) = transport_of i a"
    by (simp add: touch_def u split: option.split)
  show "transport_of i (release j lt forced a) = transport_of i a"
    by (simp add: release_def u r c Let_def split: option.split)
  show "transport_of i (snd (expire j lt now a)) = transport_of i a"
    by (simp add: expire_def u split: option.split)
  show "transport_of i (recovery_failed j lt a) = transport_of i a"
    by (simp add: recovery_failed_def u split: option.split)
  show "transport_of i (releaseRecovered j lt a) = transport_of i a"
    by (simp add: releaseRecovered_def r split: option.split)
qed

lemma transport_of_frame: "activeTransports a' = activeTransports a \<Longrightarrow> transport_of i a' = transport_of i a"
  by (simp add: transport_of_def findActive_def)

lemma transports_same:
  "activeTransports (give_up j a) = activeTransports a" "activeTransports (releaseBarrier j a) = activeTransports a"
  "activeTransports (markBarrierSuspect j a) = activeTransports a" "activeTransports (enqueue t a) = activeTransports a"
  by (simp_all add: give_up_def removeTicket_def releaseBarrier_def markBarrierSuspect_def enqueue_def signal_def)

lemma transport_of_in:
  assumes "transport_of i a = Some l"
  shows "l \<in> set (activeTransports a)" "t_id (held l) = i"
  using assms by (auto simp: transport_of_def findActive_def find_Some_iff)

lemma grant_transports:
  "try_acquire t now a = Some a' \<Longrightarrow> \<exists>ls. activeTransports a' = activeTransports a @ ls"
  "try_barrier t now a = Some a' \<Longrightarrow> \<exists>ls. activeTransports a' = activeTransports a @ ls"
  by (auto simp: try_acquire_def try_barrier_def removeTicket_def signal_def addActive_def Let_def
      split: if_splits lease_type.split)

lemma transport_of_grant:
  assumes "transport_of i a = Some l" and "try_acquire t now a = Some a' \<or> try_barrier t now a = Some a'"
  shows "transport_of i a' = Some l"
proof -
  obtain ls where "activeTransports a' = activeTransports a @ ls" using assms(2) grant_transports by metis
  then show ?thesis using assms(1) by (simp add: transport_of_def findActive_def find_append)
qed

lemma transport_of_look:
  assumes "transport_of i (arb s) = Some l"
  shows "transport_of i (arb (look t s)) = Some l"
proof -
  have "transport_of i a' = Some l"
    if "(case t_kind t of WaitLease \<Rightarrow> try_acquire t (clock s) (arb s)
        | WaitBarrier \<Rightarrow> try_barrier t (clock s) (arb s)) = Some a'" for a'
    using transport_of_grant [OF assms, of t "clock s" a'] that by (cases "t_kind t") simp_all
  then show ?thesis using assms by (simp add: look_def split: option.split)
qed

lemma look_frame:
  "once_done (look t s) = once_done s" "fired (look t s) = fired s" "recoveries (look t s) = recoveries s"
  "j \<noteq> t_id t \<Longrightarrow> armed (look t s) j = armed s j"
  by (simp_all add: look_def Let_def split: option.split)

text \<open>The ids of the tickets that wait and of the leases differ, and the leases of one id have one kind.\<close>

lemma ids_differ:
  assumes "arb_inv a" and "transport_of i a = Some l"
  shows "t \<in> set (queue a) \<Longrightarrow> t_id t \<noteq> i" and "lt \<noteq> TransportLease \<Longrightarrow> findActive i lt a = None"
    and "i \<le> seq_id a"
proof -
  have d: "distinct (map t_id (all_tickets a))" and le: "\<forall>t \<in> set (all_tickets a). t_id t \<le> seq_id a"
    using assms(1) by (simp_all add: arb_inv_def well_numbered_def)
  have l: "i \<in> t_id ` held ` set (activeTransports a)" using transport_of_in [OF assms(2)] by auto
  then show "t \<in> set (queue a) \<Longrightarrow> t_id t \<noteq> i"
    using d by (auto simp: arb_views image_image)
  show "i \<le> seq_id a" using l le by (auto simp: arb_views)
  have "\<forall>m \<in> set (activeSessions a). t_id (held m) \<noteq> i"
    using l d by (force simp: arb_views image_image)
  moreover have "\<forall>m. activeOneshot a = Some m \<longrightarrow> t_id (held m) \<noteq> i"
    using l d by (auto simp: arb_views image_image)
  ultimately show "lt \<noteq> TransportLease \<Longrightarrow> findActive i lt a = None"
    by (cases lt) (auto simp: findActive_def find_None_iff split: option.split)
qed

lemma wedged_alt:
  "wedged i s \<longleftrightarrow> (\<exists>l. transport_of i (arb s) = Some l \<and> suspect l \<and> \<not> recovering l) \<and>
     once_done s i \<and> \<not> armed s i \<and> fired s i = 0 \<and> recoveries s i = 0"
  by (simp add: wedged_def transport_of_def split: option.split)

lemma wedged_frame:
  assumes "wedged i s" and "transport_of i (arb s') = transport_of i (arb s)"
    and "once_done s' i = once_done s i" and "armed s' i = armed s i" and "fired s' i = fired s i"
    and "recoveries s' i = recoveries s i"
  shows "wedged i s'"
  using assms by (simp add: wedged_alt)

lemma wedged_look:
  assumes "wedged i s" and "t_id t \<noteq> i"
  shows "wedged i (look t s)"
  using assms transport_of_look [of i s _ t] by (auto simp: wedged_alt look_frame)

lemma wedged_enqueue:
  assumes "wedged i s" and "t_id t \<noteq> i"
  shows "wedged i (look t (s\<lparr>arb := enqueue t ((arb s)\<lparr>seq_id := n\<rparr>)\<rparr>))"
  using assms transports_same(4) [of t "(arb s)\<lparr>seq_id := n\<rparr>"]
  by (intro wedged_look wedged_frame [OF assms(1)] transport_of_frame) simp_all

lemma wedged_touch:
  assumes "wedged i s" and "arb_inv (arb s)"
  shows "wedged i (sys_touch j lt s)"
proof (cases "i = j")
  case True
  obtain l where l: "transport_of i (arb s) = Some l" "suspect l" using assms(1) by (auto simp: wedged_alt)
  have "\<not> fst (touch i lt (clock s) (arb s)) \<or> MaxLeaseHold (opts (arb s)) \<le> 0"
    and same: "snd (touch i lt (clock s) (arb s)) = arb s"
    using ids_differ(2) [OF assms(2) l(1), of lt] l
    by (cases "lt = TransportLease"; auto simp: touch_def transport_of_def)+
  then show ?thesis
    unfolding True [symmetric]
    by (intro wedged_frame [OF assms(1)]) (auto simp: sys_touch_def split: prod.split)
next
  case False
  then show ?thesis
    using transport_of_ops(1) [OF False, of lt "clock s" "arb s"]
    by (intro wedged_frame [OF assms(1)]) (auto simp: sys_touch_def split: prod.split)
qed

lemma wedged_step:
  assumes "arb_step s s'" and "wedged i s" and "arb_inv (arb s)"
  shows "wedged i s'"
  using assms
proof (induction rule: arb_step.induct)
  case (acquire lt s req)
  then have "i \<le> seq_id (arb s)" using ids_differ(3) by (auto simp: wedged_alt)
  with acquire show ?case
    by (auto simp: sys_acquire_def begin_acquire_def lease_ticket_def Let_def intro: wedged_enqueue)
next
  case (raise_barrier s req policy)
  then have "i \<le> seq_id (arb s)" using ids_differ(3) by (auto simp: wedged_alt)
  with raise_barrier show ?case
    by (auto simp: sys_barrier_def begin_barrier_def Let_def intro: wedged_enqueue)
next
  case (wake t s)
  then have "t_id t \<noteq> i" using ids_differ(1) by (auto simp: wedged_alt)
  with wake show ?case by (intro wedged_look)
next
  case (touching s j lt)
  then show ?case by (intro wedged_touch)
next
  case (releasing s j lt)
  then have "i \<noteq> j" by (auto simp: wedged_alt)
  with releasing show ?case
    by (intro wedged_frame [OF releasing(3)]) (simp_all add: sys_release_def Let_def transport_of_ops)
next
  case (firing s j)
  then have "i \<noteq> j" by (auto simp: wedged_alt)
  with firing show ?case by (intro wedged_frame [OF firing(2)]) (simp_all add: sys_fire_def)
next
  case (expiring s j lt)
  then have "i \<noteq> j" by (auto simp: wedged_alt)
  with expiring show ?case
    using transport_of_ops(3) [of i j lt "clock s" "arb s"]
    by (intro wedged_frame [OF expiring(2)]) (auto simp: sys_expire_def Let_def split: prod.split)
next
  case (recovery s j ok lt)
  then have "i \<noteq> j" by (auto simp: wedged_alt)
  with recovery show ?case
    by (intro wedged_frame [OF recovery(2)]) (simp_all add: sys_recovery_def transport_of_ops)
next
  case (cancel s j)
  then show ?case by (intro wedged_frame [OF cancel(1)] transport_of_frame) (simp_all add: transports_same)
next
  case (tick d s)
  then show ?case by (intro wedged_frame [OF tick(2)] transport_of_frame) simp_all
next
  case (lift_barrier s j)
  then show ?case by (intro wedged_frame [OF lift_barrier(1)] transport_of_frame) (simp_all add: transports_same)
next
  case (barrier_owner_gone s j)
  then show ?case
    by (intro wedged_frame [OF barrier_owner_gone(1)] transport_of_frame) (simp_all add: transports_same)
qed

text \<open>While the lease is there nothing that waits can go.\<close>

lemma wedged_blocks:
  assumes "wedged i s" and "arb_inv (arb s)" and "t \<in> set (queue (arb s))"
  shows "\<not> can_go (arb s) now t"
proof -
  obtain l where l: "l \<in> set (activeTransports (arb s))" "suspect l"
    using assms(1) transport_of_in(1) by (auto simp: wedged_alt)
  then have busy: "hasActiveTransport (arb s)" "hasSuspectTransport (arb s)"
    by (auto simp: hasActiveTransport_def hasSuspectTransport_def list_ex_iff)
  then have "\<not> may_go (arb s) (queue (arb s)) t" by (simp add: may_go_def canAcquireTransportNow_def)
  then have "selectedTransport (arb s) now \<noteq> t_id t" using selected_ticket [OF assms(2,3)] by blast
  then show ?thesis
    using busy by (auto simp: can_go_def canAcquireLease_def canAcquireBarrier_def split: lease_type.splits)
qed

definition all_blocked :: "system \<Rightarrow> bool" where
  "all_blocked s \<longleftrightarrow> list_all (\<lambda>t. \<not> can_go (arb s) (clock s) t) (queue (arb s))"

text \<open>Property C25: the flag \<^verbatim>\<open>ownerDone\<close> that a release during a recovery sets is never read.  When the
  owner of a transport has released while the recovery ran and the recovery then failed, the lease
  stays for ever: whatever the goroutines do from there on, nobody that waits can go.\<close>

theorem card_stays_locked:
  assumes "arb_reachable s" and "wedged i s" and "arb_step\<^sup>*\<^sup>* s s'"
  shows "wedged i s' \<and> all_blocked s'"
proof -
  have inv: "arb_inv (arb s)" using assms(1) by (rule arb_inv_reachable)
  have "wedged i s' \<and> arb_inv (arb s')"
    using assms(3) by (induction rule: rtranclp_induct) (auto simp: assms(2) inv wedged_step arb_inv_step)
  then show ?thesis using wedged_blocks [of i s'] by (auto simp: all_blocked_def list_all_iff)
qed

text \<open>How it comes to that: a transport holds the card past the limit, its watchdog starts the
  recovery, the owner releases, the recovery fails.\<close>

definition with_recovery :: options where
  "with_recovery = no_options\<lparr>CanRecover := True\<rparr>"

definition in_recovery :: system where
  "in_recovery = sys_expire 1 TransportLease (sys_fire 1 (at_ms 200000
     (sys_acquire (exclusive_request ClassEUICCWrite) TransportLease (boot with_recovery 0))))"

definition abandoned :: system where
  "abandoned = sys_recovery False 1 TransportLease (sys_release 1 TransportLease in_recovery)"

definition later_request :: system where
  "later_request = sys_acquire (exclusive_request ClassUSIMAKA) TransportLease abandoned"

lemma in_recovery_reachable: "arb_reachable in_recovery"
  unfolding in_recovery_def
  by (intro arb_reachable.step [OF _ arb_step.expiring] arb_reachable.step [OF _ arb_step.firing]
      reachable_at_ms reachable_acquire arb_reachable.start) (simp, simp, code_simp, code_simp)

lemma abandoned_reachable: "arb_reachable abandoned"
  unfolding abandoned_def
  by (intro arb_reachable.step [OF _ arb_step.recovery] reachable_release in_recovery_reachable)
    (code_simp, code_simp)

theorem card_stays_locked_witness:
  "wedged 1 abandoned \<and> length (queue (arb later_request)) = 1 \<and> wedged 1 later_request \<and>
   all_blocked later_request"
proof -
  have w: "wedged 1 abandoned" by code_simp
  have "arb_step\<^sup>*\<^sup>* abandoned later_request"
    unfolding later_request_def by (intro r_into_rtranclp arb_step.acquire) simp
  then have "wedged 1 later_request \<and> all_blocked later_request"
    using card_stays_locked [OF abandoned_reachable w] by blast
  moreover have "length (queue (arb later_request)) = 1" by code_simp
  ultimately show ?thesis using w by blast
qed

end
