(* ===== verification/VoWifiStore.thy ===== *)
theory VoWifiStore
  imports GoText "HOL-Library.AList"
begin

section \<open>The store of VoWiFi runtimes\<close>

text \<open>
  \<^verbatim>\<open>internal/vowifihost/store.go\<close>, \<^verbatim>\<open>recover_state.go\<close> and the store's part of
  \<^verbatim>\<open>apdu_busy_recover.go\<close> and \<^verbatim>\<open>manager.go\<close>: per device the running instance, the start that is in
  progress, the life-cycle command that runs and the recovery that is planned.  Every method holds
  \<^verbatim>\<open>s.mu\<close> throughout, so a method is one function from store to store.

  An instance is a number that stands for its address, and what \<^verbatim>\<open>inst.State()\<close> answers is an
  argument.  A context or channel that a method creates gets a number of its own from \<open>fresh\<close>; the
  cancel function of a context is that number, and a method that calls cancel functions returns the
  numbers.  A channel with one place that a subscriber reads is whether it is full.  A time is an
  integer and the zero time is 0; \<open>now\<close> is what \<^verbatim>\<open>time.Now\<close> answers.  The counters are of 64 bits in
  the code and do not wrap here.
\<close>

datatype LifecycleCommandKind = Enable | Disable | Restart | Recover | SwitchBegin | SwitchEnd

record rt_state =
  LastErrorClass :: string
  LastError :: string
  LastReason :: string
  NetworkMode :: string
  DataplaneMode :: string
  StateDeviceID :: string
  Phase :: string
  SIMReady :: bool
  AccessReady :: bool
  TunnelReady :: bool
  IMSReady :: bool
  SMSReady :: bool
  RegStatus :: int
  RegStatusText :: string
  UpdatedAt :: int
  IMSI :: string
  PhoneNumber :: string

definition zero_state :: rt_state where
  "zero_state =
     \<lparr>LastErrorClass = [], LastError = [], LastReason = [], NetworkMode = [], DataplaneMode = [],
      StateDeviceID = [], Phase = [], SIMReady = False, AccessReady = False, TunnelReady = False,
      IMSReady = False, SMSReady = False, RegStatus = 0, RegStatusText = [], UpdatedAt = 0, IMSI = [],
      PhoneNumber = []\<rparr>"

record slot =
  running :: "nat option"
  starting :: bool
  epoch :: nat
  lifecycleGeneration :: nat
  runCancel :: "nat option"
  runCancelSequence :: nat
  runKind :: "LifecycleCommandKind option"
  runRecoverGeneration :: nat
  recoverGeneration :: nat
  recoverAttempt :: nat
  recoverNextAt :: int
  recoverInFlight :: bool
  recoverDelay :: int
  recoverPresent :: bool
  recoverScheduleCancel :: "nat option"
  recoverScheduleDone :: "nat option"
  slot_state :: rt_state
  updatedAt :: int

definition zero_slot :: slot where
  "zero_slot =
     \<lparr>running = None, starting = False, epoch = 0, lifecycleGeneration = 0, runCancel = None,
      runCancelSequence = 0, runKind = None, runRecoverGeneration = 0, recoverGeneration = 0,
      recoverAttempt = 0, recoverNextAt = 0, recoverInFlight = False, recoverDelay = 0,
      recoverPresent = False, recoverScheduleCancel = None, recoverScheduleDone = None,
      slot_state = zero_state, updatedAt = 0\<rparr>"

record store =
  slots :: "(string \<times> slot) list"
  nextSubscriberID :: nat
  subscribers :: "(string \<times> nat \<times> bool) list"
  fresh :: nat

definition NewRuntimeStore :: store where
  "NewRuntimeStore = \<lparr>slots = [], nextSubscriberID = 0, subscribers = [], fresh = 0\<rparr>"

definition the_slot :: "store \<Rightarrow> string \<Rightarrow> slot" where
  "the_slot s d = (case map_of (slots s) d of Some sl \<Rightarrow> sl | None \<Rightarrow> zero_slot)"

definition has_slot :: "store \<Rightarrow> string \<Rightarrow> bool" where
  "has_slot s d \<longleftrightarrow> map_of (slots s) d \<noteq> None"

definition put_slot :: "string \<Rightarrow> slot \<Rightarrow> store \<Rightarrow> store" where
  "put_slot d sl s = s\<lparr>slots := AList.update d sl (slots s)\<rparr>"

definition drop_slot :: "string \<Rightarrow> store \<Rightarrow> store" where
  "drop_slot d s = s\<lparr>slots := AList.delete d (slots s)\<rparr>"

definition ensureSlot :: "string \<Rightarrow> store \<Rightarrow> store" where
  "ensureSlot d s = put_slot d (the_slot s d) s"

definition notify :: "string \<Rightarrow> store \<Rightarrow> store" where
  "notify d s = s\<lparr>subscribers := map (\<lambda>(d', i, full). (d', i, full \<or> d' = d)) (subscribers s)\<rparr>"

subsection \<open>Subscribers\<close>

definition SubscribeUpdates :: "string \<Rightarrow> store \<Rightarrow> nat option \<times> store" where
  "SubscribeUpdates deviceID s =
     (let d = TrimSpace deviceID; i = nextSubscriberID s + 1 in
      if d = [] then (None, s)
      else (Some i, s\<lparr>nextSubscriberID := i, subscribers := subscribers s @ [(d, i, False)]\<rparr>))"

definition unsubscribe :: "string \<Rightarrow> nat \<Rightarrow> store \<Rightarrow> store" where
  "unsubscribe deviceID i s =
     s\<lparr>subscribers := filter (\<lambda>(d', j, _). \<not> (d' = TrimSpace deviceID \<and> j = i)) (subscribers s)\<rparr>"

definition SubscriberCount :: "string \<Rightarrow> store \<Rightarrow> nat" where
  "SubscriberCount deviceID s =
     (let d = TrimSpace deviceID in
      if d = [] then 0 else length (filter (\<lambda>(d', _). d' = d) (subscribers s)))"

definition Broadcast :: "string \<Rightarrow> store \<Rightarrow> store" where
  "Broadcast deviceID s = (let d = TrimSpace deviceID in if d = [] then s else notify d s)"

subsection \<open>Admission of life-cycle commands\<close>

definition admitLifecycle :: "string \<Rightarrow> LifecycleCommandKind \<Rightarrow> store \<Rightarrow> (nat \<times> bool) \<times> store" where
  "admitLifecycle deviceID kind s =
     (let d = TrimSpace deviceID; sl = the_slot s d; g = lifecycleGeneration sl + 1 in
      if d = [] then ((0, False), s)
      else if kind = Enable \<and> (running sl \<noteq> None \<or> starting sl)
      then ((lifecycleGeneration sl, False), ensureSlot d s)
      else ((g, True), put_slot d (sl\<lparr>lifecycleGeneration := g\<rparr>) s))"

definition preemptLifecycle :: "string \<Rightarrow> store \<Rightarrow> (nat \<times> nat option) \<times> store" where
  "preemptLifecycle deviceID s =
     (let d = TrimSpace deviceID; sl = the_slot s d; g = lifecycleGeneration sl + 1 in
      if d = [] then ((0, None), s)
      else ((g, runCancel sl),
        put_slot d (sl\<lparr>lifecycleGeneration := g, runCancel := None, runKind := None, runRecoverGeneration := 0\<rparr>) s))"

definition currentLifecycleGeneration :: "string \<Rightarrow> store \<Rightarrow> nat" where
  "currentLifecycleGeneration deviceID s =
     (let d = TrimSpace deviceID in if d = [] then 0 else lifecycleGeneration (the_slot s d))"

text \<open>The number of the context and of the run, when the command is still current.\<close>

definition bindLifecycleRun ::
  "string \<Rightarrow> nat \<Rightarrow> LifecycleCommandKind \<Rightarrow> nat \<Rightarrow> store \<Rightarrow> (nat \<times> nat) option \<times> store" where
  "bindLifecycleRun deviceID generation kind recoverGen s =
     (let d = TrimSpace deviceID; sl = the_slot s d; n = runCancelSequence sl + 1; c = fresh s in
      if d = [] \<or> generation = 0 then (None, s)
      else if \<not> has_slot s d \<or> lifecycleGeneration sl \<noteq> generation then (None, s)
      else (Some (c, n),
        put_slot d (sl\<lparr>runCancelSequence := n, runCancel := Some c, runKind := Some kind,
          runRecoverGeneration := recoverGen\<rparr>) (s\<lparr>fresh := c + 1\<rparr>)))"

definition release_run :: "string \<Rightarrow> nat \<Rightarrow> store \<Rightarrow> store" where
  "release_run deviceID sequence s =
     (let d = TrimSpace deviceID; sl = the_slot s d in
      if has_slot s d \<and> runCancelSequence sl = sequence
      then put_slot d (sl\<lparr>runCancel := None, runKind := None, runRecoverGeneration := 0\<rparr>) s
      else s)"

text \<open>\<^verbatim>\<open>SubmitLifecycle\<close> up to the controller: the generation, whether the command is accepted, and
  the context that is cancelled.\<close>

definition submit_admission ::
  "string \<Rightarrow> LifecycleCommandKind \<Rightarrow> store \<Rightarrow> (nat \<times> bool \<times> nat option) \<times> store" where
  "submit_admission deviceID kind s =
     (if kind = Disable \<or> kind = Restart \<or> kind = SwitchBegin then
        let ((g, c), s') = preemptLifecycle deviceID s in ((g, g \<noteq> 0, c), s')
      else
        let ((g, ok), s') = admitLifecycle deviceID kind s in ((g, ok, None), s'))"

subsection \<open>Starts\<close>

record StartClaim =
  ClaimEpoch :: nat
  Accepted :: bool
  Active :: bool
  Starting :: bool

definition BeginStart :: "string \<Rightarrow> int \<Rightarrow> store \<Rightarrow> StartClaim \<times> store" where
  "BeginStart deviceID now s =
     (let d = TrimSpace deviceID; sl = the_slot s d in
      if d = [] then (\<lparr>ClaimEpoch = 0, Accepted = False, Active = False, Starting = False\<rparr>, s)
      else if running sl \<noteq> None
      then (\<lparr>ClaimEpoch = epoch sl, Accepted = False, Active = True, Starting = False\<rparr>, ensureSlot d s)
      else if starting sl
      then (\<lparr>ClaimEpoch = epoch sl, Accepted = False, Active = False, Starting = True\<rparr>, ensureSlot d s)
      else (\<lparr>ClaimEpoch = epoch sl, Accepted = True, Active = False, Starting = False\<rparr>,
        put_slot d (sl\<lparr>starting := True, updatedAt := now\<rparr>) s))"

definition resetDesiredRecover :: "slot \<Rightarrow> slot" where
  "resetDesiredRecover sl =
     sl\<lparr>recoverAttempt := 0, recoverNextAt := 0, recoverInFlight := False, recoverDelay := 0, recoverPresent := False\<rparr>"

text \<open>Whether it claims, and the contexts that it cancels.\<close>

definition ClaimStarted ::
  "string \<Rightarrow> nat \<Rightarrow> nat option \<Rightarrow> rt_state \<Rightarrow> int \<Rightarrow> store \<Rightarrow> (bool \<times> nat option) \<times> store" where
  "ClaimStarted deviceID e inst inst_state now s =
     (let d = TrimSpace deviceID; sl = the_slot s d in
      if d = [] \<or> inst = None then ((False, None), s)
      else if epoch sl \<noteq> e \<or> \<not> starting sl then ((False, None), ensureSlot d s)
      else if running sl \<noteq> None then ((False, None), ensureSlot d s)
      else
        let currentAPDUScheduleRun =
              (recoverScheduleDone sl \<noteq> None \<or> recoverInFlight sl) \<and> runKind sl = Some Recover \<and>
              runRecoverGeneration sl = recoverGeneration sl;
            supersedes =
              (recoverPresent sl \<or> recoverInFlight sl \<or> recoverScheduleDone sl \<noteq> None) \<and>
              \<not> currentAPDUScheduleRun;
            sl1 = sl\<lparr>running := inst, starting := False\<rparr>;
            sl2 = (if supersedes
              then resetDesiredRecover (sl1\<lparr>recoverGeneration := recoverGeneration sl1 + 1\<rparr>) else sl1)
        in ((True, if supersedes then recoverScheduleCancel sl else None),
            notify d (put_slot d (sl2\<lparr>slot_state := inst_state, updatedAt := now\<rparr>) s)))"

definition stamped :: "int \<Rightarrow> rt_state \<Rightarrow> rt_state" where
  "stamped now st = (if UpdatedAt st = 0 then st\<lparr>UpdatedAt := now\<rparr> else st)"

definition FailStart :: "string \<Rightarrow> nat \<Rightarrow> rt_state \<Rightarrow> int \<Rightarrow> store \<Rightarrow> bool \<times> store" where
  "FailStart deviceID e st now s =
     (let d = TrimSpace deviceID; sl = the_slot s d in
      if d = [] then (False, s)
      else if epoch sl \<noteq> e \<or> \<not> starting sl then (False, ensureSlot d s)
      else (True, notify d (put_slot d
        (sl\<lparr>starting := False, slot_state := stamped now st, updatedAt := now\<rparr>) s)))"

text \<open>A state that is older than the one the slot holds.\<close>

definition outdated :: "rt_state \<Rightarrow> slot \<Rightarrow> bool" where
  "outdated st sl \<longleftrightarrow> UpdatedAt (slot_state sl) \<noteq> 0 \<and> UpdatedAt st < UpdatedAt (slot_state sl)"

definition RecordStartupState :: "string \<Rightarrow> rt_state \<Rightarrow> int \<Rightarrow> store \<Rightarrow> bool \<times> store" where
  "RecordStartupState deviceID st now s =
     (let d = TrimSpace deviceID; sl = the_slot s d; st = stamped now st in
      if d = [] then (False, s)
      else if running sl \<noteq> None \<or> \<not> starting sl then (False, ensureSlot d s)
      else if outdated st sl then (False, ensureSlot d s)
      else (True, notify d (put_slot d (sl\<lparr>slot_state := st, updatedAt := UpdatedAt st\<rparr>) s)))"

definition second :: int where "second = 1000000000"

definition DesiredRecoverDelay :: "nat \<Rightarrow> int" where
  "DesiredRecoverDelay attempt =
     (if attempt = 0 then 30 * second else if attempt = 1 then 60 * second else 120 * second)"

definition publishRuntimeState :: "string \<Rightarrow> nat \<Rightarrow> nat option \<Rightarrow> rt_state \<Rightarrow> int \<Rightarrow> store \<Rightarrow> bool \<times> store" where
  "publishRuntimeState deviceID e inst st now s =
     (let d = TrimSpace deviceID; sl = the_slot s d; st = stamped now st;
          written = sl\<lparr>slot_state := st, updatedAt := UpdatedAt st\<rparr> in
      if d = [] \<or> inst = None then (False, s)
      else if \<not> has_slot s d \<or> epoch sl \<noteq> e then (False, s)
      else if running sl \<noteq> None then
        if running sl \<noteq> inst then (False, s)
        else if outdated st sl then (False, s)
        else
          let alreadyFailed = (LastErrorClass (slot_state sl) \<noteq> []);
              sl' = (if IMSReady st then resetDesiredRecover written
                else if \<not> alreadyFailed \<and> LastErrorClass st \<noteq> [] \<and> LastErrorClass st \<noteq> ''canceled'' \<and>
                  \<not> recoverInFlight sl
                then written\<lparr>recoverPresent := True, recoverDelay := DesiredRecoverDelay (recoverAttempt sl),
                  recoverAttempt := recoverAttempt sl + 1,
                  recoverNextAt := now + DesiredRecoverDelay (recoverAttempt sl)\<rparr>
                else written)
          in (True, notify d (put_slot d sl' s))
      else if \<not> starting sl then (False, s)
      else if outdated st sl then (False, s)
      else (True, notify d (put_slot d written s)))"

definition ClearStartupState :: "string \<Rightarrow> int \<Rightarrow> store \<Rightarrow> bool \<times> store" where
  "ClearStartupState deviceID now s =
     (let d = TrimSpace deviceID; sl = the_slot s d in
      if d = [] then (False, s)
      else if \<not> has_slot s d \<or> UpdatedAt (slot_state sl) = 0 then (False, s)
      else
        let s1 = notify d (put_slot d (sl\<lparr>starting := False, slot_state := zero_state, updatedAt := now\<rparr>) s)
        in (True, if running sl = None \<and> recoverGeneration sl = 0 then drop_slot d s1 else s1))"

text \<open>The new epoch, whether there was a state, and the context that is cancelled.\<close>

definition Invalidate :: "string \<Rightarrow> int \<Rightarrow> store \<Rightarrow> (nat \<times> bool \<times> nat option) \<times> store" where
  "Invalidate deviceID now s =
     (let d = TrimSpace deviceID; sl = the_slot s d; e = epoch sl + 1;
          hadState = (UpdatedAt (slot_state sl) \<noteq> 0);
          s1 = put_slot d (sl\<lparr>runCancel := None, runKind := None, runRecoverGeneration := 0, epoch := e,
            starting := False, slot_state := zero_state, updatedAt := now\<rparr>) s in
      if d = [] then ((0, False, None), s)
      else ((e, hadState, runCancel sl), if hadState then notify d s1 else s1))"

subsection \<open>Instances and state\<close>



definition Instance :: "string \<Rightarrow> store \<Rightarrow> nat option" where
  "Instance deviceID s = (let d = TrimSpace deviceID in if d = [] then None else running (the_slot s d))"


definition SetInstance :: "string \<Rightarrow> nat option \<Rightarrow> int \<Rightarrow> store \<Rightarrow> store" where
  "SetInstance deviceID inst now s =
     (let d = TrimSpace deviceID; sl = the_slot s d;
          sl1 = sl\<lparr>running := inst, starting := False\<rparr>;
          sl2 = (if recoverPresent sl \<or> recoverInFlight sl
            then resetDesiredRecover (sl1\<lparr>recoverGeneration := recoverGeneration sl1 + 1\<rparr>) else sl1) in
      if d = [] then s
      else notify d (put_slot d (sl2\<lparr>slot_state := zero_state, updatedAt := now\<rparr>) s))"

definition DeleteInstance :: "string \<Rightarrow> nat option \<Rightarrow> int \<Rightarrow> store \<Rightarrow> bool \<times> store" where
  "DeleteInstance deviceID inst now s =
     (let d = TrimSpace deviceID; sl = the_slot s d in
      if d = [] then (False, s)
      else if \<not> has_slot s d \<or> running sl = None then (False, s)
      else if inst \<noteq> None \<and> running sl \<noteq> inst then (False, s)
      else
        let s1 = notify d (put_slot d
              (sl\<lparr>running := None, starting := False, slot_state := zero_state, updatedAt := now\<rparr>) s)
        in (True, if epoch sl = 0 \<and> recoverGeneration sl = 0 then drop_slot d s1 else s1))"

definition State :: "string \<Rightarrow> (nat \<Rightarrow> rt_state) \<Rightarrow> store \<Rightarrow> rt_state \<times> bool" where
  "State deviceID inst_state s =
     (let d = TrimSpace deviceID; sl = the_slot s d in
      if d = [] \<or> \<not> has_slot s d then (zero_state, False)
      else case running sl of
        Some i \<Rightarrow> (inst_state i, True)
      | None \<Rightarrow>
          if UpdatedAt (slot_state sl) \<noteq> 0 \<or> Phase (slot_state sl) \<noteq> [] \<or> starting sl
          then (slot_state sl, True) else (zero_state, False))"

definition Instances :: "store \<Rightarrow> (string \<times> nat) list" where
  "Instances s = List.map_filter (\<lambda>(d, sl). map_option (Pair d) (running sl)) (slots s)"

definition InstanceIDs :: "store \<Rightarrow> string list" where
  "InstanceIDs s = map fst (filter (\<lambda>(d, sl). running sl \<noteq> None) (slots s))"

subsection \<open>Recovery\<close>

record DesiredRecoverSnapshot =
  Attempt :: nat
  NextAt :: int
  InFlight :: bool
  Delay :: int

datatype desiredRecoverResult = desiredRecoverSucceeded | desiredRecoverPolicyBlocked | desiredRecoverFailed

definition desiredRecoverSnapshot :: "slot \<Rightarrow> DesiredRecoverSnapshot" where
  "desiredRecoverSnapshot sl =
     \<lparr>Attempt = recoverAttempt sl, NextAt = recoverNextAt sl, InFlight = recoverInFlight sl, Delay = recoverDelay sl\<rparr>"

definition no_recover :: DesiredRecoverSnapshot where
  "no_recover = \<lparr>Attempt = 0, NextAt = 0, InFlight = False, Delay = 0\<rparr>"

definition desiredRecoverableSlot :: "slot \<Rightarrow> bool" where
  "desiredRecoverableSlot sl \<longleftrightarrow>
     \<not> starting sl \<and>
     (running sl = None \<or>
      LastErrorClass (slot_state sl) \<noteq> [] \<and> LastErrorClass (slot_state sl) \<noteq> ''canceled'' \<and>
      \<not> IMSReady (slot_state sl))"

definition DesiredRecoverable :: "string \<Rightarrow> store \<Rightarrow> bool" where
  "DesiredRecoverable deviceID s =
     (let d = TrimSpace deviceID in if d = [] then False else desiredRecoverableSlot (the_slot s d))"

text \<open>The generation of the recovery that may begin, or \<open>None\<close>.\<close>

definition beginDesiredRecover :: "string \<Rightarrow> int \<Rightarrow> store \<Rightarrow> nat option \<times> store" where
  "beginDesiredRecover deviceID now s =
     (let d = TrimSpace deviceID; sl = the_slot s d; g = recoverGeneration sl + 1 in
      if d = [] then (None, s)
      else if \<not> desiredRecoverableSlot sl then (None, ensureSlot d s)
      else if recoverScheduleDone sl \<noteq> None \<or> recoverInFlight sl \<or> now < recoverNextAt sl
      then (None, ensureSlot d s)
      else (Some g, put_slot d
        (sl\<lparr>recoverGeneration := g, recoverInFlight := True, recoverPresent := True, recoverDelay := 0\<rparr>) s))"

definition finishDesiredRecover ::
  "string \<Rightarrow> nat \<Rightarrow> int \<Rightarrow> desiredRecoverResult \<Rightarrow> store \<Rightarrow> DesiredRecoverSnapshot option \<times> store" where
  "finishDesiredRecover deviceID generation now result0 s =
     (let d = TrimSpace deviceID; sl = the_slot s d;
          unready = (result0 = desiredRecoverSucceeded \<and> running sl \<noteq> None \<and> \<not> IMSReady (slot_state sl)) in
      if d = [] \<or> generation = 0 then (None, s)
      else if \<not> has_slot s d \<or> \<not> recoverInFlight sl \<or> recoverGeneration sl \<noteq> generation then (None, s)
      else if unready \<and> LastErrorClass (slot_state sl) = [] then
        let sl' = sl\<lparr>recoverInFlight := False\<rparr> in (Some (desiredRecoverSnapshot sl'), put_slot d sl' s)
      else
        (case (if unready then desiredRecoverFailed else result0) of
          desiredRecoverFailed \<Rightarrow>
            let delay = DesiredRecoverDelay (recoverAttempt sl);
                sl' = sl\<lparr>recoverAttempt := recoverAttempt sl + 1, recoverNextAt := now + delay,
                  recoverInFlight := False, recoverPresent := True, recoverDelay := delay\<rparr>
            in (Some (desiredRecoverSnapshot sl'), put_slot d sl' s)
        | _ \<Rightarrow> (Some no_recover, put_slot d (resetDesiredRecover sl) s)))"

text \<open>The contexts of the schedule and of the run that it cancels, and the channel it then waits for.\<close>

definition forgetDesiredRecover :: "string \<Rightarrow> store \<Rightarrow> (nat option \<times> nat option \<times> nat option) \<times> store" where
  "forgetDesiredRecover deviceID s =
     (let d = TrimSpace deviceID; sl = the_slot s d in
      if d = [] then ((None, None, None), s)
      else if \<not> has_slot s d \<or>
        \<not> recoverPresent sl \<and> \<not> recoverInFlight sl \<and> recoverScheduleDone sl = None
      then ((None, None, None), s)
      else
        let mine = (runKind sl = Some Recover \<and> runRecoverGeneration sl = recoverGeneration sl);
            sl1 = (resetDesiredRecover (sl\<lparr>recoverGeneration := recoverGeneration sl + 1\<rparr>))
              \<lparr>recoverScheduleCancel := None, recoverScheduleDone := None\<rparr>;
            sl2 = (if mine then sl1\<lparr>runCancel := None, runKind := None, runRecoverGeneration := 0\<rparr> else sl1)
        in ((recoverScheduleCancel sl, if mine then runCancel sl else None, recoverScheduleDone sl),
            put_slot d sl2 s))"

definition desiredRecoverCurrent :: "string \<Rightarrow> nat \<Rightarrow> store \<Rightarrow> bool" where
  "desiredRecoverCurrent deviceID generation s =
     (let d = TrimSpace deviceID; sl = the_slot s d in
      if d = [] \<or> generation = 0 then False
      else has_slot s d \<and> recoverPresent sl \<and> recoverInFlight sl \<and> recoverGeneration sl = generation)"

definition desiredRecoverState :: "string \<Rightarrow> store \<Rightarrow> DesiredRecoverSnapshot option" where
  "desiredRecoverState deviceID s =
     (let d = TrimSpace deviceID; sl = the_slot s d in
      if d = [] then None
      else if \<not> has_slot s d \<or> \<not> recoverPresent sl then None
      else Some (desiredRecoverSnapshot sl))"

text \<open>The context, the generation and the channel of the schedule.\<close>

definition beginAPDUBusyRecoverSchedule ::
  "string \<Rightarrow> int \<Rightarrow> int \<Rightarrow> store \<Rightarrow> (nat \<times> nat \<times> nat) option \<times> store" where
  "beginAPDUBusyRecoverSchedule deviceID now firstDelay s =
     (let d = TrimSpace deviceID; sl = the_slot s d; g = recoverGeneration sl + 1; c = fresh s; done_c = fresh s + 1 in
      if d = [] \<or> firstDelay \<le> 0 then (None, s)
      else if running sl \<noteq> None \<or> recoverPresent sl \<or> recoverInFlight sl \<or> recoverScheduleDone sl \<noteq> None
      then (None, ensureSlot d s)
      else (Some (c, g, done_c), put_slot d
        (sl\<lparr>recoverGeneration := g, recoverAttempt := 0, recoverNextAt := now + firstDelay,
          recoverInFlight := False, recoverDelay := firstDelay, recoverPresent := True,
          recoverScheduleCancel := Some c, recoverScheduleDone := Some done_c\<rparr>)
        (s\<lparr>fresh := fresh s + 2\<rparr>)))"

definition beginAPDUBusyRecoverAttempt :: "string \<Rightarrow> nat \<Rightarrow> store \<Rightarrow> bool \<times> store" where
  "beginAPDUBusyRecoverAttempt deviceID generation s =
     (let d = TrimSpace deviceID; sl = the_slot s d in
      if d = [] \<or> generation = 0 then (False, s)
      else if \<not> has_slot s d \<or> running sl \<noteq> None \<or> \<not> recoverPresent sl \<or> recoverInFlight sl \<or>
        recoverGeneration sl \<noteq> generation \<or> recoverScheduleDone sl = None
      then (False, s)
      else (True, put_slot d (sl\<lparr>recoverInFlight := True, recoverNextAt := 0, recoverDelay := 0\<rparr>) s))"

definition deferAPDUBusyRecoverAttempt :: "string \<Rightarrow> nat \<Rightarrow> int \<Rightarrow> int \<Rightarrow> store \<Rightarrow> bool \<times> store" where
  "deferAPDUBusyRecoverAttempt deviceID generation now nextAt s =
     (let d = TrimSpace deviceID; sl = the_slot s d in
      if d = [] \<or> generation = 0 \<or> nextAt = 0 then (False, s)
      else if \<not> has_slot s d \<or> \<not> recoverPresent sl \<or> \<not> recoverInFlight sl \<or>
        recoverGeneration sl \<noteq> generation \<or> recoverScheduleDone sl = None
      then (False, s)
      else (True, put_slot d
        (sl\<lparr>recoverInFlight := False, recoverNextAt := nextAt, recoverDelay := max 0 (nextAt - now)\<rparr>) s))"

definition releaseAPDUBusyRecoverSchedule :: "string \<Rightarrow> nat \<Rightarrow> nat option \<Rightarrow> bool \<Rightarrow> store \<Rightarrow> store" where
  "releaseAPDUBusyRecoverSchedule deviceID generation done_c clearState s =
     (let d = TrimSpace deviceID; sl = the_slot s d;
          sl1 = sl\<lparr>recoverScheduleCancel := None, recoverScheduleDone := None\<rparr> in
      if d = [] \<or> generation = 0 \<or> done_c = None then s
      else if \<not> has_slot s d \<or> recoverScheduleDone sl \<noteq> done_c then s
      else put_slot d
        (if clearState \<and> recoverGeneration sl = generation
         then resetDesiredRecover (sl1\<lparr>recoverGeneration := recoverGeneration sl1 + 1\<rparr>) else sl1) s)"

text \<open>\<^verbatim>\<open>runAdmittedLifecycleCommand\<close> of \<^verbatim>\<open>lifecycle_run.go\<close> up to the command itself: the context and the
  run, or nothing for a command that is out of date.\<close>

definition runAdmitted ::
  "string \<Rightarrow> nat \<Rightarrow> LifecycleCommandKind \<Rightarrow> nat \<Rightarrow> store \<Rightarrow> (nat \<times> nat) option \<times> store" where
  "runAdmitted deviceID generation kind recoverGen s =
     (if generation = 0 then (None, s)
      else if recoverGen \<noteq> 0 \<and> \<not> desiredRecoverCurrent deviceID recoverGen s then (None, s)
      else bindLifecycleRun deviceID generation kind recoverGen s)"

text \<open>\<^verbatim>\<open>InvalidateRuntime\<close> of \<^verbatim>\<open>teardown.go\<close>: what is planned is forgotten, then the epoch advances.  Other
  goroutines may come in between; here it is the two calls one after the other.\<close>

definition InvalidateRuntime :: "string \<Rightarrow> int \<Rightarrow> store \<Rightarrow> nat \<times> nat list \<times> store" where
  "InvalidateRuntime deviceID now s =
     (if TrimSpace deviceID = [] then (0, [], s)
      else
        let ((c1, c2, _), s1) = forgetDesiredRecover deviceID s;
            ((e, _, c3), s2) = Invalidate deviceID now s1
        in (e, List.map_filter id [c1, c2, c3], s2))"

section \<open>Any operation\<close>

text \<open>The operations that change the store, as values, so that a history is a list of them.  The first
  group is what the host uses; \<open>Clear\<close> and \<open>Set\<close> are exported but nothing in the program calls them.\<close>

datatype store_op =
    OpSubscribe string
  | OpUnsubscribe string nat
  | OpBroadcast string
  | OpSubmit string LifecycleCommandKind
  | OpBind string nat LifecycleCommandKind nat
  | OpReleaseRun string nat
  | OpRecordStartup string rt_state int
  | OpPublish string nat "nat option" rt_state int
  | OpDelete string "nat option" int
  | OpBeginRecover string int
  | OpFinishRecover string nat int desiredRecoverResult
  | OpForgetRecover string
  | OpSchedule string int int
  | OpAttempt string nat
  | OpDefer string nat int int
  | OpReleaseSchedule string nat "nat option" bool

fun apply_op :: "store_op \<Rightarrow> store \<Rightarrow> store" where
  "apply_op (OpSubscribe d) = snd \<circ> SubscribeUpdates d"
| "apply_op (OpUnsubscribe d i) = unsubscribe d i"
| "apply_op (OpBroadcast d) = Broadcast d"
| "apply_op (OpSubmit d k) = snd \<circ> submit_admission d k"
| "apply_op (OpBind d g k r) = snd \<circ> bindLifecycleRun d g k r"
| "apply_op (OpReleaseRun d n) = release_run d n"
| "apply_op (OpRecordStartup d st now) = snd \<circ> RecordStartupState d st now"
| "apply_op (OpPublish d e i st now) = snd \<circ> publishRuntimeState d e i st now"
| "apply_op (OpDelete d i now) = snd \<circ> DeleteInstance d i now"
| "apply_op (OpBeginRecover d now) = snd \<circ> beginDesiredRecover d now"
| "apply_op (OpFinishRecover d g now r) = snd \<circ> finishDesiredRecover d g now r"
| "apply_op (OpForgetRecover d) = snd \<circ> forgetDesiredRecover d"
| "apply_op (OpSchedule d now delay) = snd \<circ> beginAPDUBusyRecoverSchedule d now delay"
| "apply_op (OpAttempt d g) = snd \<circ> beginAPDUBusyRecoverAttempt d g"
| "apply_op (OpDefer d g now next_at) = snd \<circ> deferAPDUBusyRecoverAttempt d g now next_at"
| "apply_op (OpReleaseSchedule d g c clear) = releaseAPDUBusyRecoverSchedule d g c clear"

datatype start_op =
    Quiet store_op
  | OpBegin string int
  | OpClaim string nat "nat option" rt_state int
  | OpFail string nat rt_state int
  | OpInvalidate string int
  | OpClear string int
  | OpSet string "nat option" int

fun apply_start :: "start_op \<Rightarrow> store \<Rightarrow> store" where
  "apply_start (Quiet x) = apply_op x"
| "apply_start (OpBegin d now) = snd \<circ> BeginStart d now"
| "apply_start (OpClaim d e i st now) = snd \<circ> ClaimStarted d e i st now"
| "apply_start (OpFail d e st now) = snd \<circ> FailStart d e st now"
| "apply_start (OpInvalidate d now) = snd \<circ> Invalidate d now"
| "apply_start (OpClear d now) = snd \<circ> ClearStartupState d now"
| "apply_start (OpSet d i now) = SetInstance d i now"

definition run_ops :: "start_op list \<Rightarrow> store \<Rightarrow> store" where
  "run_ops = fold apply_start"

subsection \<open>Slots\<close>

named_theorems slot_simps

lemma the_slot_put [slot_simps]: "the_slot (put_slot d sl s) d' = (if d' = d then sl else the_slot s d')"
  by (simp add: the_slot_def put_slot_def update_conv)

lemma the_slot_drop [slot_simps]: "the_slot (drop_slot d s) d' = (if d' = d then zero_slot else the_slot s d')"
  by (simp add: the_slot_def drop_slot_def delete_conv)

lemma the_slot_ensure [slot_simps]: "the_slot (ensureSlot d s) d' = the_slot s d'"
  by (simp add: ensureSlot_def the_slot_put)

lemma the_slot_other [slot_simps]:
  "the_slot (notify d s) d' = the_slot s d'" "the_slot (s\<lparr>fresh := n\<rparr>) d' = the_slot s d'"
  "the_slot (s\<lparr>subscribers := l\<rparr>) d' = the_slot s d'" "the_slot (s\<lparr>nextSubscriberID := n\<rparr>) d' = the_slot s d'"
  by (simp_all add: the_slot_def notify_def)

lemmas quiet_defs =
  SubscribeUpdates_def unsubscribe_def Broadcast_def submit_admission_def preemptLifecycle_def admitLifecycle_def
  bindLifecycleRun_def release_run_def RecordStartupState_def publishRuntimeState_def
  beginDesiredRecover_def finishDesiredRecover_def forgetDesiredRecover_def beginAPDUBusyRecoverSchedule_def
  beginAPDUBusyRecoverAttempt_def deferAPDUBusyRecoverAttempt_def releaseAPDUBusyRecoverSchedule_def

lemma zero_slot_simps [simp]:
  "epoch zero_slot = 0" "starting zero_slot = False" "running zero_slot = None" "recoverGeneration zero_slot = 0"
  "recoverInFlight zero_slot = False" "recoverScheduleDone zero_slot = None"
  by (simp_all add: zero_slot_def)

lemma reset_simps [simp]:
  "epoch (resetDesiredRecover sl) = epoch sl" "starting (resetDesiredRecover sl) = starting sl"
  "running (resetDesiredRecover sl) = running sl"
  "recoverGeneration (resetDesiredRecover sl) = recoverGeneration sl"
  "recoverScheduleDone (resetDesiredRecover sl) = recoverScheduleDone sl"
  "recoverInFlight (resetDesiredRecover sl) = False"
  by (simp_all add: resetDesiredRecover_def)


section \<open>Who may finish a start\<close>


















lemma the_slot_New [simp]: "the_slot NewRuntimeStore d = zero_slot"
  by (simp add: the_slot_def NewRuntimeStore_def)




















section \<open>Recoveries\<close>

text \<open>A recovery of generation \<open>g\<close> that can no longer act on the slot.\<close>

definition forgotten :: "nat \<Rightarrow> slot \<Rightarrow> bool" where
  "forgotten g sl \<longleftrightarrow>
     g < recoverGeneration sl \<or>
     g \<le> recoverGeneration sl \<and> \<not> recoverInFlight sl \<and> recoverScheduleDone sl = None"

lemma generation_grows:
  "recoverGeneration (the_slot s d) \<le> recoverGeneration (the_slot (apply_op x s) d)"
  by (cases x; simp add: quiet_defs DeleteInstance_def Let_def slot_simps
      split: prod.split desiredRecoverResult.split)

lemma forgotten_quiet:
  assumes "0 < g" and "forgotten g (the_slot s d)"
  shows "forgotten g (the_slot (apply_op x s) d)"
  using assms
  by (cases x; auto simp: forgotten_def quiet_defs DeleteInstance_def Let_def slot_simps
      split: prod.split desiredRecoverResult.split)

lemmas start_defs = BeginStart_def ClaimStarted_def FailStart_def Invalidate_def ClearStartupState_def SetInstance_def

lemma generation_grows_start:
  "recoverGeneration (the_slot s d) \<le> recoverGeneration (the_slot (apply_start x s) d)"
proof (cases x)
  case (Quiet y)
  then show ?thesis using generation_grows by simp
qed (auto simp: start_defs Let_def slot_simps)

lemma forgotten_start:
  assumes "0 < g" and "forgotten g (the_slot s d)"
  shows "forgotten g (the_slot (apply_start x s) d)"
proof (cases x)
  case (Quiet y)
  then show ?thesis using forgotten_quiet [OF assms] by simp
qed (use assms in \<open>auto simp: forgotten_def start_defs Let_def slot_simps\<close>)

lemma run_ops_grows: "recoverGeneration (the_slot s d) \<le> recoverGeneration (the_slot (run_ops xs s) d)"
proof (induction xs arbitrary: s)
  case (Cons x xs)
  then show ?case using generation_grows_start [of s d x] le_trans by (fastforce simp: run_ops_def)
qed (simp add: run_ops_def)

lemma forgotten_run:
  "0 < g \<Longrightarrow> forgotten g (the_slot s d) \<Longrightarrow> forgotten g (the_slot (run_ops xs s) d)"
  by (induction xs arbitrary: s) (simp_all add: run_ops_def forgotten_start)

lemma forget_forgets:
  assumes "TrimSpace d \<noteq> []" and "g \<le> recoverGeneration (the_slot s (TrimSpace d))"
  shows "forgotten g (the_slot (snd (forgetDesiredRecover d s)) (TrimSpace d))"
proof (cases "has_slot s (TrimSpace d)")
  case True
  then show ?thesis using assms by (auto simp: forgetDesiredRecover_def Let_def slot_simps forgotten_def)
next
  case False
  then have "the_slot s (TrimSpace d) = zero_slot" by (simp add: has_slot_def the_slot_def)
  then show ?thesis using assms False by (simp add: forgetDesiredRecover_def Let_def forgotten_def)
qed

lemma begin_generation:
  "beginDesiredRecover d now s = (Some g, s') \<Longrightarrow>
     TrimSpace d \<noteq> [] \<and> 0 < g \<and> g = recoverGeneration (the_slot s' (TrimSpace d))"
  "beginAPDUBusyRecoverSchedule d now delay s = (Some (c, g, ch), s') \<Longrightarrow>
     TrimSpace d \<noteq> [] \<and> 0 < g \<and> g = recoverGeneration (the_slot s' (TrimSpace d))"
  by (auto simp: beginDesiredRecover_def beginAPDUBusyRecoverSchedule_def Let_def slot_simps split: if_splits)

lemma forgotten_no_effect:
  assumes "forgotten g (the_slot s (TrimSpace d))"
  shows "\<not> desiredRecoverCurrent d g s" "finishDesiredRecover d g now r s = (None, s)"
    "beginAPDUBusyRecoverAttempt d g s = (False, s)" "deferAPDUBusyRecoverAttempt d g now next_at s = (False, s)"
  using assms
  by (auto simp: forgotten_def desiredRecoverCurrent_def finishDesiredRecover_def beginAPDUBusyRecoverAttempt_def
      deferAPDUBusyRecoverAttempt_def Let_def)

text \<open>The generation that a recovery was given.\<close>

definition recovery_begun :: "string \<Rightarrow> nat \<Rightarrow> store \<Rightarrow> store \<Rightarrow> bool" where
  "recovery_begun d g s s' \<longleftrightarrow>
     (\<exists>now. beginDesiredRecover d now s = (Some g, s')) \<or>
     (\<exists>now delay c ch. beginAPDUBusyRecoverSchedule d now delay s = (Some (c, g, ch), s'))"

text \<open>once a recovery that began was forgotten, neither it nor anything that carries its
  generation can act on the store again, whatever operations ran before and after, those included
  that delete the slot.\<close>

theorem forgotten_recovery_stays_forgotten:
  assumes "recovery_begun d g s s1"
  defines "s3 \<equiv> \<lambda>xs ys. run_ops ys (snd (forgetDesiredRecover d (run_ops xs s1)))"
  shows "\<not> desiredRecoverCurrent d g (s3 xs ys) \<and>
    runAdmitted d lg kind g (s3 xs ys) = (None, s3 xs ys) \<and>
    finishDesiredRecover d g now r (s3 xs ys) = (None, s3 xs ys) \<and>
    beginAPDUBusyRecoverAttempt d g (s3 xs ys) = (False, s3 xs ys) \<and>
    deferAPDUBusyRecoverAttempt d g now next_at (s3 xs ys) = (False, s3 xs ys)"
proof -
  have g: "TrimSpace d \<noteq> []" "0 < g" "g = recoverGeneration (the_slot s1 (TrimSpace d))"
    using assms(1) begin_generation unfolding recovery_begun_def by blast+
  then have "g \<le> recoverGeneration (the_slot (run_ops xs s1) (TrimSpace d))" using run_ops_grows by simp
  then have "forgotten g (the_slot (s3 xs ys) (TrimSpace d))"
    unfolding s3_def by (intro forgotten_run g(2) forget_forgets g(1))
  note no_effect = forgotten_no_effect [OF this]
  then have "runAdmitted d lg kind g (s3 xs ys) = (None, s3 xs ys)" using g(2) by (simp add: runAdmitted_def)
  then show ?thesis using no_effect by blast
qed

text \<open>A recovery begins, the user switches the device off, and the answer of the recovery comes late.\<close>

definition recovering_store :: store where
  "recovering_store = snd (beginDesiredRecover ''wwan0'' 5 NewRuntimeStore)"

lemma recovering_begun: "recovery_begun ''wwan0'' 1 NewRuntimeStore recovering_store"
proof -
  have "beginDesiredRecover ''wwan0'' 5 NewRuntimeStore = (Some 1, recovering_store)" by code_simp
  then show ?thesis unfolding recovery_begun_def by blast
qed

theorem forgotten_recovery_stays_forgotten_witness:
  "fst (finishDesiredRecover ''wwan0'' 1 9 desiredRecoverFailed recovering_store) \<noteq> None \<and>
   fst (finishDesiredRecover ''wwan0'' 1 9 desiredRecoverFailed
     (run_ops [OpBegin ''wwan0'' 8] (snd (forgetDesiredRecover ''wwan0'' recovering_store)))) = None"
proof
  show "fst (finishDesiredRecover ''wwan0'' 1 9 desiredRecoverFailed recovering_store) \<noteq> None" by code_simp
  show "fst (finishDesiredRecover ''wwan0'' 1 9 desiredRecoverFailed
     (run_ops [OpBegin ''wwan0'' 8] (snd (forgetDesiredRecover ''wwan0'' recovering_store)))) = None"
    using forgotten_recovery_stays_forgotten [OF recovering_begun, where xs = "[]" and ys = "[OpBegin ''wwan0'' 8]" and now = 9
        and r = desiredRecoverFailed]
    by (simp add: run_ops_def)
qed

section \<open>Cancelling a run\<close>

text \<open>Property C27: when the device is invalidated, the context of the life-cycle command that runs for it is
  cancelled.  But when that command first tears down the instance and the counters of the slot are
  still zero, the teardown deletes the slot and with it the cancel function: then neither
  invalidating nor preempting cancels anything, and the generations start again at 1.\<close>

theorem teardown_forgets_the_run:
  fixes t :: int
  assumes "TrimSpace d \<noteq> []" and "has_slot s (TrimSpace d)" and "runCancel (the_slot s (TrimSpace d)) = Some c"
    and "running (the_slot s (TrimSpace d)) = Some i"
  defines "torn \<equiv> snd (DeleteInstance d (Some i) t s)"
  shows "c \<in> set (fst (snd (InvalidateRuntime d now s))) \<and>
    (epoch (the_slot s (TrimSpace d)) = 0 \<longrightarrow> recoverGeneration (the_slot s (TrimSpace d)) = 0 \<longrightarrow>
       fst (snd (InvalidateRuntime d now torn)) = [] \<and>
       fst (preemptLifecycle d (snd (snd (InvalidateRuntime d now torn)))) = (1, None))"
proof (intro conjI impI)
  show "c \<in> set (fst (snd (InvalidateRuntime d now s)))"
    using assms(1-3)
    by (auto simp: InvalidateRuntime_def forgetDesiredRecover_def Invalidate_def Let_def slot_simps
        resetDesiredRecover_def List.map_filter_def)
next
  assume z: "epoch (the_slot s (TrimSpace d)) = 0" "recoverGeneration (the_slot s (TrimSpace d)) = 0"
  define s2 where "s2 = notify (TrimSpace d) (put_slot (TrimSpace d)
    ((the_slot s (TrimSpace d))\<lparr>running := None, starting := False, slot_state := zero_state, updatedAt := t\<rparr>) s)"
  have torn: "torn = drop_slot (TrimSpace d) s2"
    using assms(1,2,4) z by (simp add: torn_def DeleteInstance_def s2_def Let_def)
  have none: "\<not> has_slot torn (TrimSpace d)" "the_slot torn (TrimSpace d) = zero_slot"
    unfolding torn by (simp add: has_slot_def drop_slot_def delete_conv, simp add: slot_simps)
  then have f: "forgetDesiredRecover d torn = ((None, None, None), torn)"
    by (simp add: forgetDesiredRecover_def Let_def)
  have i: "fst (Invalidate d now torn) = (1, False, None)"
    "runCancel (the_slot (snd (Invalidate d now torn)) (TrimSpace d)) = None"
    "lifecycleGeneration (the_slot (snd (Invalidate d now torn)) (TrimSpace d)) = 0"
    using assms(1) none by (simp_all add: Invalidate_def Let_def slot_simps zero_slot_def zero_state_def)
  show "fst (snd (InvalidateRuntime d now torn)) = []"
    using assms(1) f i(1) by (simp add: InvalidateRuntime_def case_prod_unfold List.map_filter_def)
  show "fst (preemptLifecycle d (snd (snd (InvalidateRuntime d now torn)))) = (1, None)"
    using assms(1) f i by (simp add: InvalidateRuntime_def case_prod_unfold preemptLifecycle_def Let_def)
qed

text \<open>The history: enabled, failed, recovered by a command that is not a planned recovery; the user
  disables the device while the recovery starts it anew.\<close>

definition failed_state :: rt_state where
  "failed_state = zero_state\<lparr>LastErrorClass := ''network''\<rparr>"

definition enabled_store :: store where
  "enabled_store = run_ops
     [Quiet (OpSubmit ''wwan0'' Enable), Quiet (OpBind ''wwan0'' 1 Enable 0), OpBegin ''wwan0'' 10,
      OpClaim ''wwan0'' 0 (Some 7) zero_state 20, Quiet (OpReleaseRun ''wwan0'' 1),
      Quiet (OpPublish ''wwan0'' 0 (Some 7) failed_state 30)] NewRuntimeStore"

definition recover_running :: store where
  "recover_running = run_ops
     [Quiet (OpSubmit ''wwan0'' Recover), Quiet (OpBind ''wwan0'' 2 Recover 0)] enabled_store"

definition torn_down :: store where
  "torn_down = snd (DeleteInstance ''wwan0'' (Some 7) 40 recover_running)"

text \<open>What the recovery still does after the user disabled the device.\<close>

definition started_after_disable :: store where
  "started_after_disable = run_ops [OpBegin ''wwan0'' 60, OpClaim ''wwan0'' 1 (Some 8) zero_state 70]
     (snd (submit_admission ''wwan0'' Disable (snd (snd (InvalidateRuntime ''wwan0'' 50 torn_down)))))"

definition recover_ready :: bool where
  "recover_ready \<longleftrightarrow>
     has_slot recover_running ''wwan0'' \<and> runCancel (the_slot recover_running ''wwan0'') = Some 1 \<and>
     running (the_slot recover_running ''wwan0'') = Some 7 \<and> epoch (the_slot recover_running ''wwan0'') = 0 \<and>
     recoverGeneration (the_slot recover_running ''wwan0'') = 0 \<and> DesiredRecoverable ''wwan0'' recover_running"

theorem teardown_forgets_the_run_witness:
  "fst (snd (InvalidateRuntime ''wwan0'' 50 torn_down)) = [] \<and>
   Instance ''wwan0'' started_after_disable = Some 8"
proof
  have r: recover_ready by code_simp
  have w: "TrimSpace ''wwan0'' = ''wwan0''" by code_simp
  show "fst (snd (InvalidateRuntime ''wwan0'' 50 torn_down)) = []"
    using teardown_forgets_the_run [of "''wwan0''" recover_running 1 7 50 40] r
    unfolding w recover_ready_def torn_down_def by simp
  show "Instance ''wwan0'' started_after_disable = Some 8" by code_simp
qed

section \<open>A slot that is deleted\<close>

text \<open>\<^verbatim>\<open>ClearStartupState\<close>, which the host exports, deletes a slot whatever its epoch: the epochs start
  again at 0, and the first of three starts gets the device although it was invalidated.\<close>

definition cleared_store :: store where
  "cleared_store = run_ops
     [OpBegin ''wwan0'' 10, OpInvalidate ''wwan0'' 20, OpBegin ''wwan0'' 30,
      Quiet (OpRecordStartup ''wwan0'' zero_state 35), OpClear ''wwan0'' 40, OpBegin ''wwan0'' 50] NewRuntimeStore"

lemma cleared_slot_lets_stale_start_win:
  "fst (fst (ClaimStarted ''wwan0'' 0 (Some 7) zero_state 60 cleared_store)) \<and>
   \<not> fst (fst (ClaimStarted ''wwan0'' 1 (Some 8) zero_state 60 cleared_store))"
  by code_simp

end
