(* ===== verification/IkeCodec.thy ===== *)
theory IkeCodec
  imports GoPrelude
begin

unbundle bit_operations_syntax

section \<open>IKEv2 messages\<close>

text \<open>
  \<^verbatim>\<open>vowifi-go/runtimehost/ikev2\<close> (the \<^verbatim>\<open>swu-go\<close> library holds the same code): header, payload chain
  and the payloads of an IKEv2 message, encoders and decoders.  Every index and slice expression of
  the decoders is \<open>ike_at\<close> or \<open>ike_slice\<close>, which yield the error \<open>IkePanic\<close> where Go panics, whatever
  the code tested before.  An offset into a buffer is the rest of the buffer.
\<close>

datatype ike_error =
    IkePanic
  | IkeHeaderShort
  | PayloadHeaderShort
  | PayloadBodyShort
  | PayloadShort string
  | BadSelector
  | DecodeFailed byte ike_error

type_synonym 'a ike = "ike_error + 'a"

definition ike_at :: "byte list \<Rightarrow> nat \<Rightarrow> byte ike" where
  "ike_at xs i = (if i < length xs then Inr (xs ! i) else Inl IkePanic)"

definition ike_slice :: "byte list \<Rightarrow> nat \<Rightarrow> nat \<Rightarrow> byte list ike" where
  "ike_slice xs i j = (case subslice_at xs i j of None \<Rightarrow> Inl IkePanic | Some ys \<Rightarrow> Inr ys)"

definition ike_u16 :: "byte list \<Rightarrow> nat \<Rightarrow> u16 ike" where
  "ike_u16 xs i = res_bind (ike_slice xs i (i + 2)) (\<lambda>b. Inr (get16 b))"

named_theorems ike_reads \<open>reads within the buffer\<close>

lemma ike_at_in [simp, ike_reads]: "i < length xs \<Longrightarrow> ike_at xs i = Inr (xs ! i)"
  by (simp add: ike_at_def)

lemma ike_slice_in [simp, ike_reads]: "i \<le> j \<Longrightarrow> j \<le> length xs \<Longrightarrow> ike_slice xs i j = Inr (subslice xs i j)"
  by (simp add: ike_slice_def subslice_at_def)


lemma ike_u16_in [simp, ike_reads]: "i + 2 \<le> length xs \<Longrightarrow> ike_u16 xs i = Inr (u16_at xs i)"
  by (simp add: ike_u16_def u16_at_def)

subsection \<open>Constants\<close>

definition NoNextPayload :: byte where "NoNextPayload = 0"
definition SA :: byte where "SA = 33"
definition KE :: byte where "KE = 34"
definition IDi :: byte where "IDi = 35"
definition IDr :: byte where "IDr = 36"
definition AUTH :: byte where "AUTH = 39"
definition NiNr :: byte where "NiNr = 40"
definition N_payload :: byte where "N_payload = 41"
definition D_payload :: byte where "D_payload = 42"
definition TSI :: byte where "TSI = 44"
definition TSR :: byte where "TSR = 45"
definition CP :: byte where "CP = 47"
definition EAP :: byte where "EAP = 48"

lemmas payload_types = NoNextPayload_def SA_def KE_def IDi_def IDr_def AUTH_def NiNr_def N_payload_def D_payload_def
  TSI_def TSR_def CP_def EAP_def

definition IKE_HEADER_LEN :: nat where "IKE_HEADER_LEN = 28"
definition PAYLOAD_HEADER_LEN :: nat where "PAYLOAD_HEADER_LEN = 4"
definition PROPOSAL_HEADER_LEN :: nat where "PROPOSAL_HEADER_LEN = 8"
definition TRANSFORM_HEADER_LEN :: nat where "TRANSFORM_HEADER_LEN = 8"
definition TS_IPV4_ADDR_RANGE :: byte where "TS_IPV4_ADDR_RANGE = 7"
definition TS_IPV6_ADDR_RANGE :: byte where "TS_IPV6_ADDR_RANGE = 8"

lemmas ike_lengths [simp] = IKE_HEADER_LEN_def PAYLOAD_HEADER_LEN_def PROPOSAL_HEADER_LEN_def TRANSFORM_HEADER_LEN_def

subsection \<open>Headers\<close>

record ike_header =
  SPIi :: u64
  SPIr :: u64
  NextPayload :: byte
  Version :: byte
  ExchangeType :: byte
  Flags :: byte
  MessageID :: u32
  Length :: u32

definition encode_header :: "ike_header \<Rightarrow> byte list" where
  "encode_header h =
     put64 (SPIi h) @ put64 (SPIr h) @ [NextPayload h, Version h, ExchangeType h, Flags h] @
     put32 (MessageID h) @ put32 (Length h)"

definition DecodeHeader :: "byte list \<Rightarrow> ike_header ike" where
  "DecodeHeader data =
     (if length data < IKE_HEADER_LEN then Inl IkeHeaderShort
      else
        res_bind (ike_slice data 0 8) (\<lambda>i. res_bind (ike_slice data 8 16) (\<lambda>r.
        res_bind (ike_at data 16) (\<lambda>np. res_bind (ike_at data 17) (\<lambda>v.
        res_bind (ike_at data 18) (\<lambda>x. res_bind (ike_at data 19) (\<lambda>f.
        res_bind (ike_slice data 20 24) (\<lambda>m. res_bind (ike_slice data 24 28) (\<lambda>l.
        Inr \<lparr>SPIi = get64 i, SPIr = get64 r, NextPayload = np, Version = v, ExchangeType = x, Flags = f,
             MessageID = get32 m, Length = get32 l\<rparr>)))))))))"

record payload_header =
  Next :: byte
  Critical :: bool
  Reserved :: byte
  PayloadLength :: u16

definition encode_payload_header :: "payload_header \<Rightarrow> byte list" where
  "encode_payload_header h = [Next h, if Critical h then 0x80 else 0] @ put16 (PayloadLength h)"

definition DecodePayloadHeader :: "byte list \<Rightarrow> payload_header ike" where
  "DecodePayloadHeader data =
     (if length data < PAYLOAD_HEADER_LEN then Inl PayloadHeaderShort
      else
        res_bind (ike_at data 0) (\<lambda>np. res_bind (ike_at data 1) (\<lambda>b. res_bind (ike_u16 data 2) (\<lambda>l.
        Inr \<lparr>Next = np, Critical = (b AND 0x80 \<noteq> 0), Reserved = b AND 0x7F, PayloadLength = l\<rparr>))))"

subsection \<open>Proposals\<close>

record transform_attribute =
  AttrType :: u16
  AttrValue :: "byte list"
  AttrVal :: u16

record transform =
  LastTransform :: bool
  TransformType :: byte
  TransformID :: u16
  Attributes :: "transform_attribute list"

record proposal =
  LastProposal :: bool
  ProposalNum :: byte
  ProposalProtocol :: byte
  ProposalSPI :: "byte list"
  Transforms :: "transform list"

definition encode_attribute :: "transform_attribute \<Rightarrow> byte list" where
  "encode_attribute a =
     (if length (AttrValue a) > 0
      then put16 (AttrType a AND 0x7FFF) @ put16 (of_nat (length (AttrValue a))) @ AttrValue a
      else put16 (AttrType a OR 0x8000) @ put16 (AttrVal a))"

definition encode_transform :: "transform \<Rightarrow> byte list" where
  "encode_transform t =
     (let attrs = concat (map encode_attribute (Attributes t)) in
      [if LastTransform t then 0 else 3, 0] @ put16 (of_nat (TRANSFORM_HEADER_LEN + length attrs)) @
      [TransformType t, 0] @ put16 (TransformID t) @ attrs)"

text \<open>The encoders write the mark of the last element into the elements first.\<close>

fun mark_last :: "(bool \<Rightarrow> 'a \<Rightarrow> 'a) \<Rightarrow> 'a list \<Rightarrow> 'a list" where
  "mark_last f [] = []"
| "mark_last f (x # xs) = f (xs = []) x # mark_last f xs"

definition mark_transforms :: "transform list \<Rightarrow> transform list" where
  "mark_transforms = mark_last (\<lambda>b t. t\<lparr>LastTransform := b\<rparr>)"

definition mark_proposals :: "proposal list \<Rightarrow> proposal list" where
  "mark_proposals = mark_last (\<lambda>b p. p\<lparr>LastProposal := b\<rparr>)"

definition encode_proposal :: "proposal \<Rightarrow> byte list" where
  "encode_proposal p =
     (let body = concat (map encode_transform (mark_transforms (Transforms p))) in
      [if LastProposal p then 0 else 2, 0] @
      put16 (of_nat (PROPOSAL_HEADER_LEN + length (ProposalSPI p) + length body)) @
      [ProposalNum p, ProposalProtocol p, of_nat (length (ProposalSPI p)), of_nat (length (Transforms p))] @
      ProposalSPI p @ body)"

definition encode_sa :: "proposal list \<Rightarrow> byte list" where
  "encode_sa ps = concat (map encode_proposal (mark_proposals ps))"

text \<open>One turn of the loop over the attributes: the attribute and its length.\<close>

definition decode_attribute :: "byte list \<Rightarrow> (transform_attribute \<times> nat) ike" where
  "decode_attribute data =
     (if 4 > length data then Inl (PayloadShort ''Transform attribute header'')
      else
        res_bind (ike_u16 data 0) (\<lambda>attrType. res_bind (ike_u16 data 2) (\<lambda>v.
          if attrType AND 0x8000 \<noteq> 0
          then Inr (\<lparr>AttrType = attrType AND 0x7FFF, AttrValue = [], AttrVal = v\<rparr>, 4)
          else if 4 + unat v > length data then Inl (PayloadShort ''Transform attribute value'')
          else res_bind (ike_slice data 4 (4 + unat v)) (\<lambda>val.
            Inr (\<lparr>AttrType = attrType AND 0x7FFF, AttrValue = val, AttrVal = 0\<rparr>, 4 + unat v)))))"

lemma decode_attribute_length: "decode_attribute data = Inr (a, n) \<Longrightarrow> 4 \<le> n \<and> n \<le> length data"
  by (auto simp: decode_attribute_def res_bind_eq_Inr split: if_splits)

function decode_attributes :: "byte list \<Rightarrow> transform_attribute list ike" where
  "decode_attributes data =
     (if data = [] then Inr []
      else case decode_attribute data of
        Inl e \<Rightarrow> Inl e
      | Inr (a, n) \<Rightarrow>
          (case decode_attributes (drop n data) of
             Inl e \<Rightarrow> Inl e
           | Inr as \<Rightarrow> Inr (a # as)))"
  by pat_completeness auto

termination
  by (relation "measure length") (auto dest!: decode_attribute_length simp del: length_drop intro!: drop_shrinks)

definition DecodeTransform :: "byte list \<Rightarrow> transform ike" where
  "DecodeTransform data =
     (if length data < TRANSFORM_HEADER_LEN then Inl (PayloadShort ''Transform'')
      else
        res_bind (ike_at data 0) (\<lambda>b0. res_bind (ike_at data 4) (\<lambda>ty. res_bind (ike_u16 data 6) (\<lambda>tid.
        res_bind (decode_attributes (drop TRANSFORM_HEADER_LEN data)) (\<lambda>as.
        Inr \<lparr>LastTransform = (b0 = 0), TransformType = ty, TransformID = tid, Attributes = as\<rparr>)))))"

text \<open>The loop over the declared number of transforms.\<close>

fun decode_transforms :: "nat \<Rightarrow> byte list \<Rightarrow> transform list ike" where
  "decode_transforms 0 data = Inr []"
| "decode_transforms (Suc k) data =
     (if data = [] then Inl (PayloadShort ''Transforms'')
      else if 4 > length data then Inl (PayloadShort ''Transform header'')
      else
        res_bind (ike_u16 data 2) (\<lambda>l.
          if unat l > length data then Inl (PayloadShort ''Transform body'')
          else
            res_bind (ike_slice data 0 (unat l)) (\<lambda>d. res_bind (DecodeTransform d) (\<lambda>t.
            res_bind (decode_transforms k (drop (unat l) data)) (\<lambda>ts. Inr (t # ts))))))"

definition DecodeProposal :: "byte list \<Rightarrow> proposal ike" where
  "DecodeProposal data =
     (if length data < PROPOSAL_HEADER_LEN then Inl (PayloadShort ''Proposal'')
      else
        res_bind (ike_at data 0) (\<lambda>b0. res_bind (ike_at data 4) (\<lambda>num. res_bind (ike_at data 5) (\<lambda>proto.
        res_bind (ike_at data 6) (\<lambda>spiSize. res_bind (ike_at data 7) (\<lambda>count.
          if length data < PROPOSAL_HEADER_LEN + unat spiSize then Inl (PayloadShort ''SPI'')
          else
            res_bind (ike_slice data PROPOSAL_HEADER_LEN (PROPOSAL_HEADER_LEN + unat spiSize)) (\<lambda>spi.
            res_bind (decode_transforms (unat count) (drop (PROPOSAL_HEADER_LEN + unat spiSize) data)) (\<lambda>ts.
            Inr \<lparr>LastProposal = (b0 = 0), ProposalNum = num, ProposalProtocol = proto, ProposalSPI = spi,
                 Transforms = ts\<rparr>))))))))"

text \<open>One turn of the loop over the proposals: the proposal and its length.\<close>

definition decode_one_proposal :: "byte list \<Rightarrow> (proposal \<times> nat) ike" where
  "decode_one_proposal data =
     (if 4 > length data then Inl (PayloadShort ''Proposal header'')
      else
        res_bind (ike_u16 data 2) (\<lambda>l.
          if unat l > length data then Inl (PayloadShort ''Proposal body'')
          else
            res_bind (ike_slice data 0 (unat l)) (\<lambda>d. res_bind (DecodeProposal d) (\<lambda>p. Inr (p, unat l)))))"

lemma decode_one_proposal_length: "decode_one_proposal data = Inr (p, n) \<Longrightarrow> 8 \<le> n \<and> n \<le> length data"
  by (auto simp: decode_one_proposal_def DecodeProposal_def res_bind_eq_Inr split: if_splits)

function DecodePayloadSA :: "byte list \<Rightarrow> proposal list ike" where
  "DecodePayloadSA data =
     (if data = [] then Inr []
      else case decode_one_proposal data of
        Inl e \<Rightarrow> Inl e
      | Inr (p, n) \<Rightarrow>
          if LastProposal p then Inr [p]
          else if data ! 0 = 0 then Inr [p]
          else (case DecodePayloadSA (drop n data) of
             Inl e \<Rightarrow> Inl e
           | Inr ps \<Rightarrow> Inr (p # ps)))"
  by pat_completeness auto

termination
  by (relation "measure length")
    (auto dest!: decode_one_proposal_length simp del: length_drop intro!: drop_shrinks)

declare decode_attributes.simps [simp del] DecodePayloadSA.simps [simp del]

subsection \<open>Traffic selectors\<close>

record traffic_selector =
  TSType :: byte
  IPProtocol :: byte
  StartPort :: u16
  EndPort :: u16
  StartAddr :: "byte list"
  EndAddr :: "byte list"

text \<open>\<^verbatim>\<open>copy\<close> of an address into a field of zeros.\<close>

definition copy_field :: "nat \<Rightarrow> byte list \<Rightarrow> byte list" where
  "copy_field n addr = take n (addr @ replicate n 0)"

text \<open>The buffer has 40 bytes for IPv6 ranges and 16 for every other type, but every type other than
  IPv4 writes up to byte 40.\<close>

definition encode_selector :: "traffic_selector \<Rightarrow> byte list ike" where
  "encode_selector t =
     (let header = (\<lambda>n. [TSType t, IPProtocol t] @ put16 n @ put16 (StartPort t) @ put16 (EndPort t)) in
      if TSType t = TS_IPV4_ADDR_RANGE
      then Inr (header 16 @ copy_field 4 (StartAddr t) @ copy_field 4 (EndAddr t))
      else if TSType t = TS_IPV6_ADDR_RANGE
      then Inr (header 40 @ copy_field 16 (StartAddr t) @ copy_field 16 (EndAddr t))
      else Inl IkePanic)"

fun encode_selectors :: "traffic_selector list \<Rightarrow> byte list ike" where
  "encode_selectors [] = Inr []"
| "encode_selectors (t # ts) =
     res_bind (encode_selector t) (\<lambda>b. res_bind (encode_selectors ts) (\<lambda>bs. Inr (b @ bs)))"

definition decode_selector :: "byte list \<Rightarrow> (traffic_selector \<times> nat) ike" where
  "decode_selector data =
     (if 8 > length data then Inl (PayloadShort ''TS header'')
      else
        res_bind (ike_at data 0) (\<lambda>tType. res_bind (ike_at data 1) (\<lambda>ipProto. res_bind (ike_u16 data 2) (\<lambda>l.
          if unat l < 8 \<or> unat l > length data then Inl (PayloadShort ''TS body'')
          else
            res_bind (ike_u16 data 4) (\<lambda>startPort. res_bind (ike_u16 data 6) (\<lambda>endPort.
            res_bind (ike_slice data 8 (unat l)) (\<lambda>rest.
              if tType = TS_IPV4_ADDR_RANGE then
                if unat l \<noteq> 16 \<or> length rest \<noteq> 8 then Inl BadSelector
                else
                  res_bind (ike_slice rest 0 4) (\<lambda>a. res_bind (ike_slice rest 4 8) (\<lambda>b.
                  Inr (\<lparr>TSType = tType, IPProtocol = ipProto, StartPort = startPort, EndPort = endPort,
                        StartAddr = a, EndAddr = b\<rparr>, unat l)))
              else if tType = TS_IPV6_ADDR_RANGE then
                if unat l \<noteq> 40 \<or> length rest \<noteq> 32 then Inl BadSelector
                else
                  res_bind (ike_slice rest 0 16) (\<lambda>a. res_bind (ike_slice rest 16 32) (\<lambda>b.
                  Inr (\<lparr>TSType = tType, IPProtocol = ipProto, StartPort = startPort, EndPort = endPort,
                        StartAddr = a, EndAddr = b\<rparr>, unat l)))
              else Inl BadSelector)))))))"

fun decode_selectors :: "nat \<Rightarrow> byte list \<Rightarrow> traffic_selector list ike" where
  "decode_selectors 0 data = Inr []"
| "decode_selectors (Suc k) data =
     res_bind (decode_selector data) (\<lambda>(t, n).
     res_bind (decode_selectors k (drop n data)) (\<lambda>ts. Inr (t # ts)))"

definition DecodePayloadTS :: "byte list \<Rightarrow> traffic_selector list ike" where
  "DecodePayloadTS data =
     (if length data < 4 then Inl (PayloadShort ''TS'')
      else res_bind (ike_at data 0) (\<lambda>tsCount. decode_selectors (unat tsCount) (drop 4 data)))"

subsection \<open>Configuration\<close>

record cp_attribute =
  CPType :: u16
  CPValue :: "byte list"

definition encode_cp_attribute :: "cp_attribute \<Rightarrow> byte list" where
  "encode_cp_attribute a = put16 (CPType a) @ put16 (of_nat (length (CPValue a))) @ CPValue a"

definition decodeCPAttribute :: "byte list \<Rightarrow> (cp_attribute \<times> nat) ike" where
  "decodeCPAttribute data =
     (if length data < 4 then Inl (PayloadShort ''CP attribute'')
      else
        res_bind (ike_u16 data 0) (\<lambda>rawType.
          if rawType AND 0x8000 \<noteq> 0
          then res_bind (ike_slice data 2 4) (\<lambda>v. Inr (\<lparr>CPType = rawType AND 0x7fff, CPValue = v\<rparr>, 4))
          else
            res_bind (ike_u16 data 2) (\<lambda>l.
              if length data < 4 + unat l then Inl (PayloadShort ''CP attribute value'')
              else res_bind (ike_slice data 4 (4 + unat l)) (\<lambda>v.
                Inr (\<lparr>CPType = rawType AND 0x7fff, CPValue = v\<rparr>, 4 + unat l)))))"

lemma decodeCPAttribute_length: "decodeCPAttribute data = Inr (a, n) \<Longrightarrow> 4 \<le> n \<and> n \<le> length data"
  by (auto simp: decodeCPAttribute_def res_bind_eq_Inr split: if_splits)

function decode_cp_attributes :: "byte list \<Rightarrow> cp_attribute list ike" where
  "decode_cp_attributes data =
     (if data = [] then Inr []
      else case decodeCPAttribute data of
        Inl e \<Rightarrow> Inl e
      | Inr (a, n) \<Rightarrow>
          (case decode_cp_attributes (drop n data) of
             Inl e \<Rightarrow> Inl e
           | Inr as \<Rightarrow> Inr (a # as)))"
  by pat_completeness auto

termination
  by (relation "measure length") (auto dest!: decodeCPAttribute_length simp del: length_drop intro!: drop_shrinks)

declare decode_cp_attributes.simps [simp del]

subsection \<open>Payloads\<close>

datatype payload =
    PayloadSA "proposal list"
  | PayloadKE u16 "byte list"
  | PayloadNonce "byte list"
  | PayloadID bool byte "byte list"
  | PayloadAuth byte "byte list"
  | PayloadEAP "byte list"
  | PayloadNotify byte "byte list" u16 "byte list"
  | PayloadDelete byte byte u16 "byte list"
  | PayloadTS bool "traffic_selector list"
  | PayloadCP byte "cp_attribute list"
  | RawPayload byte "byte list"

fun payload_type :: "payload \<Rightarrow> byte" where
  "payload_type (PayloadSA ps) = SA"
| "payload_type (PayloadKE g d) = KE"
| "payload_type (PayloadNonce d) = NiNr"
| "payload_type (PayloadID initiator t d) = (if initiator then IDi else IDr)"
| "payload_type (PayloadAuth m d) = AUTH"
| "payload_type (PayloadEAP d) = EAP"
| "payload_type (PayloadNotify p spi t d) = N_payload"
| "payload_type (PayloadDelete p sz n spis) = D_payload"
| "payload_type (PayloadTS initiator ts) = (if initiator then TSI else TSR)"
| "payload_type (PayloadCP t as) = CP"
| "payload_type (RawPayload t d) = t"

definition encode_ke :: "u16 \<Rightarrow> byte list \<Rightarrow> byte list" where
  [simp]: "encode_ke g d = put16 g @ put16 0 @ d"

definition encode_id :: "byte \<Rightarrow> byte list \<Rightarrow> byte list" where
  [simp]: "encode_id t d = [t, 0, 0, 0] @ d"

definition encode_auth :: "byte \<Rightarrow> byte list \<Rightarrow> byte list" where
  [simp]: "encode_auth m d = [m, 0, 0, 0] @ d"

definition encode_notify :: "byte \<Rightarrow> byte list \<Rightarrow> u16 \<Rightarrow> byte list \<Rightarrow> byte list" where
  [simp]: "encode_notify p spi t d = [p, of_nat (length spi)] @ put16 t @ spi @ d"

definition encode_delete :: "byte \<Rightarrow> byte \<Rightarrow> u16 \<Rightarrow> byte list \<Rightarrow> byte list" where
  [simp]: "encode_delete p sz n spis = [p, sz] @ put16 n @ spis"

definition encode_ts :: "traffic_selector list \<Rightarrow> byte list ike" where
  [simp]: "encode_ts ts = res_bind (encode_selectors ts) (\<lambda>b. Inr ([of_nat (length ts), 0, 0, 0] @ b))"

definition encode_cp :: "byte \<Rightarrow> cp_attribute list \<Rightarrow> byte list" where
  [simp]: "encode_cp t as = [t, 0, 0, 0] @ concat (map encode_cp_attribute as)"

text \<open>The method \<^verbatim>\<open>Encode\<close> of the interface.\<close>

fun encode_payload :: "payload \<Rightarrow> byte list ike" where
  "encode_payload (PayloadSA ps) = Inr (encode_sa ps)"
| "encode_payload (PayloadKE g d) = Inr (encode_ke g d)"
| "encode_payload (PayloadNonce d) = Inr d"
| "encode_payload (PayloadID initiator t d) = Inr (encode_id t d)"
| "encode_payload (PayloadAuth m d) = Inr (encode_auth m d)"
| "encode_payload (PayloadEAP d) = Inr d"
| "encode_payload (PayloadNotify p spi t d) = Inr (encode_notify p spi t d)"
| "encode_payload (PayloadDelete p sz n spis) = Inr (encode_delete p sz n spis)"
| "encode_payload (PayloadTS initiator ts) = encode_ts ts"
| "encode_payload (PayloadCP t as) = Inr (encode_cp t as)"
| "encode_payload (RawPayload t d) = Inr d"

definition DecodePayloadKE :: "byte list \<Rightarrow> payload ike" where
  "DecodePayloadKE data =
     (if length data < 4 then Inl (PayloadShort ''KE'')
      else res_bind (ike_u16 data 0) (\<lambda>g. Inr (PayloadKE g (drop 4 data))))"

definition DecodePayloadID :: "byte list \<Rightarrow> bool \<Rightarrow> payload ike" where
  "DecodePayloadID data isInitiator =
     (if length data < 4 then Inl (PayloadShort ''ID'')
      else res_bind (ike_at data 0) (\<lambda>t. Inr (PayloadID isInitiator t (drop 4 data))))"

definition DecodePayloadAuth :: "byte list \<Rightarrow> payload ike" where
  "DecodePayloadAuth data =
     (if length data < 4 then Inl (PayloadShort ''AUTH'')
      else res_bind (ike_at data 0) (\<lambda>m. Inr (PayloadAuth m (drop 4 data))))"

definition DecodePayloadNotify :: "byte list \<Rightarrow> payload ike" where
  "DecodePayloadNotify data =
     (if length data < 4 then Inl (PayloadShort ''N'')
      else
        res_bind (ike_at data 0) (\<lambda>p. res_bind (ike_at data 1) (\<lambda>spiLen. res_bind (ike_u16 data 2) (\<lambda>t.
          if length data < 4 + unat spiLen then Inl (PayloadShort ''N SPI'')
          else res_bind (ike_slice data 4 (4 + unat spiLen)) (\<lambda>spi.
            Inr (PayloadNotify p spi t (drop (4 + unat spiLen) data)))))))"

definition DecodePayloadDelete :: "byte list \<Rightarrow> payload ike" where
  "DecodePayloadDelete data =
     (if length data < 4 then Inl (PayloadShort ''D'')
      else
        res_bind (ike_at data 0) (\<lambda>p. res_bind (ike_at data 1) (\<lambda>sz. res_bind (ike_u16 data 2) (\<lambda>n.
          let expectedLen = 4 + unat sz * unat n in
          if length data < expectedLen then Inl (PayloadShort ''D SPIs'')
          else res_bind (ike_slice data 4 expectedLen) (\<lambda>spis. Inr (PayloadDelete p sz n spis))))))"

definition DecodePayloadCP :: "byte list \<Rightarrow> payload ike" where
  "DecodePayloadCP data =
     (if length data < 4 then Inl (PayloadShort ''CP'')
      else
        res_bind (ike_at data 0) (\<lambda>t.
        res_bind (decode_cp_attributes (drop 4 data)) (\<lambda>as. Inr (PayloadCP t as))))"

text \<open>The switch over the type of a payload.\<close>

definition decode_body :: "byte \<Rightarrow> byte list \<Rightarrow> payload ike" where
  "decode_body t body =
     (if t = SA then res_bind (DecodePayloadSA body) (\<lambda>ps. Inr (PayloadSA ps))
      else if t = KE then DecodePayloadKE body
      else if t = NiNr then Inr (PayloadNonce body)
      else if t = IDi then DecodePayloadID body True
      else if t = IDr then DecodePayloadID body False
      else if t = AUTH then DecodePayloadAuth body
      else if t = EAP then Inr (PayloadEAP body)
      else if t = N_payload then DecodePayloadNotify body
      else if t = D_payload then DecodePayloadDelete body
      else if t = TSI then res_bind (DecodePayloadTS body) (\<lambda>ts. Inr (PayloadTS True ts))
      else if t = TSR then res_bind (DecodePayloadTS body) (\<lambda>ts. Inr (PayloadTS False ts))
      else if t = CP then DecodePayloadCP body
      else Inr (RawPayload t body))"

subsection \<open>Packets\<close>

record ike_packet =
  Header :: ike_header
  Payloads :: "payload list"

definition first_type :: "payload list \<Rightarrow> byte" where
  "first_type ps = (case ps of [] \<Rightarrow> NoNextPayload | p # _ \<Rightarrow> payload_type p)"

fun encode_payloads :: "payload list \<Rightarrow> byte list ike" where
  "encode_payloads [] = Inr []"
| "encode_payloads (p # ps) =
     res_bind (encode_payload p) (\<lambda>body.
       let header = encode_payload_header
             \<lparr>Next = first_type ps, Critical = False, Reserved = 0,
              PayloadLength = of_nat (PAYLOAD_HEADER_LEN + length body)\<rparr>
       in res_bind (encode_payloads ps) (\<lambda>bs. Inr (header @ body @ bs)))"

text \<open>The header that is sent, which the encoder also leaves in the packet.\<close>

definition sent_header :: "ike_packet \<Rightarrow> nat \<Rightarrow> ike_header" where
  "sent_header p n =
     (Header p)\<lparr>NextPayload := first_type (Payloads p), Length := of_nat (IKE_HEADER_LEN + n)\<rparr>"

definition EncodePacket :: "ike_packet \<Rightarrow> byte list ike" where
  "EncodePacket p =
     res_bind (encode_payloads (Payloads p)) (\<lambda>data. Inr (encode_header (sent_header p (length data)) @ data))"

text \<open>A failed payload is reported with its type; a panic is not an error value and passes through.\<close>

definition named :: "byte \<Rightarrow> ike_error \<Rightarrow> ike_error" where
  "named t e = (if e = IkePanic then IkePanic else DecodeFailed t e)"

lemma ike_slice_ordered: "ike_slice xs i j = Inr ys \<Longrightarrow> i \<le> j \<and> j \<le> length xs"
  by (auto simp: ike_slice_def subslice_at_def split: if_splits)

function decode_payloads :: "byte \<Rightarrow> byte list \<Rightarrow> payload list ike" where
  "decode_payloads t data =
     (if t = NoNextPayload \<or> data = [] then Inr []
      else if PAYLOAD_HEADER_LEN > length data then Inl PayloadHeaderShort
      else case DecodePayloadHeader (take PAYLOAD_HEADER_LEN data) of
        Inl e \<Rightarrow> Inl e
      | Inr h \<Rightarrow>
          if unat (PayloadLength h) > length data then Inl PayloadBodyShort
          else (case ike_slice data PAYLOAD_HEADER_LEN (unat (PayloadLength h)) of
            Inl e \<Rightarrow> Inl e
          | Inr body \<Rightarrow>
              (case decode_body t body of
                Inl e \<Rightarrow> Inl (named t e)
              | Inr p \<Rightarrow>
                  (case decode_payloads (Next h) (drop (unat (PayloadLength h)) data) of
                     Inl e \<Rightarrow> Inl e
                   | Inr ps \<Rightarrow> Inr (p # ps)))))"
  by pat_completeness auto

termination
  by (relation "measure (\<lambda>(t, data). length data)")
    (auto dest!: ike_slice_ordered simp del: length_drop intro!: drop_shrinks)

declare decode_payloads.simps [simp del]

definition DecodePacket :: "byte list \<Rightarrow> ike_packet ike" where
  "DecodePacket data =
     res_bind (DecodeHeader data) (\<lambda>h.
     res_bind (decode_payloads (NextPayload h) (drop IKE_HEADER_LEN data)) (\<lambda>ps.
     Inr \<lparr>Header = h, Payloads = ps\<rparr>))"

section \<open>Where the decoder panics\<close>

definition ike_safe :: "'a ike \<Rightarrow> bool" where
  "ike_safe r \<longleftrightarrow> r \<noteq> Inl IkePanic"

lemma ike_safe_simps [simp]: "ike_safe (Inr v)" "ike_safe (Inl e) = (e \<noteq> IkePanic)"
  by (simp_all add: ike_safe_def)

lemma ike_safe_bind: "ike_safe r \<Longrightarrow> (\<And>v. r = Inr v \<Longrightarrow> ike_safe (f v)) \<Longrightarrow> ike_safe (res_bind r f)"
  by (cases r) (simp_all add: ike_safe_def)

lemma safe_attribute [simp]: "ike_safe (decode_attribute data)"
  by (simp add: decode_attribute_def)

lemma safe_attributes [simp]: "ike_safe (decode_attributes data)"
proof (induction data rule: decode_attributes.induct)
  case (1 data)
  show ?case
  proof (cases "data = []")
    case True
    then show ?thesis by (simp add: decode_attributes.simps)
  next
    case False
    then show ?thesis
      using 1 safe_attribute [of data] unfolding ike_safe_def
      by (subst decode_attributes.simps) (auto split: sum.splits prod.splits)
  qed
qed

lemma safe_transform [simp]: "ike_safe (DecodeTransform data)"
  by (cases "data = []") (simp_all add: DecodeTransform_def ike_safe_bind)

lemma safe_transforms [simp]: "ike_safe (decode_transforms k data)"
  by (induction k arbitrary: data) (auto intro!: ike_safe_bind)

lemma safe_proposal [simp]: "ike_safe (DecodeProposal data)"
  by (cases "data = []") (auto simp: DecodeProposal_def intro!: ike_safe_bind)

lemma safe_one_proposal [simp]: "ike_safe (decode_one_proposal data)"
  by (auto simp: decode_one_proposal_def intro!: ike_safe_bind)

lemma safe_SA [simp]: "ike_safe (DecodePayloadSA data)"
proof (induction data rule: DecodePayloadSA.induct)
  case (1 data)
  show ?case
  proof (cases "data = []")
    case True
    then show ?thesis by (simp add: DecodePayloadSA.simps)
  next
    case False
    then show ?thesis
      using 1 safe_one_proposal [of data] unfolding ike_safe_def
      by (subst DecodePayloadSA.simps) (auto split: sum.splits prod.splits)
  qed
qed

lemma safe_selector [simp]: "ike_safe (decode_selector data)"
  by (cases "data = []") (auto simp: decode_selector_def intro!: ike_safe_bind)

lemma safe_selectors [simp]: "ike_safe (decode_selectors k data)"
  by (induction k arbitrary: data) (auto intro!: ike_safe_bind split: prod.splits)

lemma safe_cp_attribute [simp]: "ike_safe (decodeCPAttribute data)"
  by (auto simp: decodeCPAttribute_def intro!: ike_safe_bind)

lemma safe_cp_attributes [simp]: "ike_safe (decode_cp_attributes data)"
proof (induction data rule: decode_cp_attributes.induct)
  case (1 data)
  show ?case
  proof (cases "data = []")
    case True
    then show ?thesis by (simp add: decode_cp_attributes.simps)
  next
    case False
    then show ?thesis
      using 1 safe_cp_attribute [of data] unfolding ike_safe_def
      by (subst decode_cp_attributes.simps) (auto split: sum.splits prod.splits)
  qed
qed

lemma safe_payloads [simp]:
  "ike_safe (DecodePayloadKE data)" "ike_safe (DecodePayloadID data i)" "ike_safe (DecodePayloadAuth data)"
  "ike_safe (DecodePayloadNotify data)" "ike_safe (DecodePayloadDelete data)" "ike_safe (DecodePayloadTS data)"
  "ike_safe (DecodePayloadCP data)"
  by (cases "data = []"; auto simp: DecodePayloadKE_def DecodePayloadID_def DecodePayloadAuth_def
      DecodePayloadNotify_def DecodePayloadDelete_def DecodePayloadTS_def DecodePayloadCP_def Let_def
      intro!: ike_safe_bind)+




lemma payload_header_read:
  "length data = 4 \<Longrightarrow> DecodePayloadHeader data = Inr \<lparr>Next = data ! 0, Critical = (data ! 1 AND 0x80 \<noteq> 0),
     Reserved = data ! 1 AND 0x7F, PayloadLength = u16_at data 2\<rparr>"
  by (simp add: DecodePayloadHeader_def)

lemma u16_at_take: "i + 2 \<le> n \<Longrightarrow> u16_at (take n data) i = u16_at data i"
  by (simp add: u16_at_def subslice_def drop_take min_def)





section \<open>Encoding and decoding\<close>

text \<open>The two bytes of a 16-bit field.\<close>

definition hi8 :: "u16 \<Rightarrow> byte" where "hi8 w = of_nat (unat w div 256)"
definition lo8 :: "u16 \<Rightarrow> byte" where "lo8 w = of_nat (unat w)"

named_theorems ike_wire \<open>reading back what was written\<close>

lemma put16_bytes [ike_wire]: "put16 w = [hi8 w, lo8 w]"
  by (simp add: be_bytes_2 hi8_def lo8_def)

lemma be_bytes_two [ike_wire]: "be_bytes 2 n = [hi8 (of_nat n), lo8 (of_nat n)]"
proof -
  have "n mod 65536 div 256 mod 256 = n div 256 mod 256"
    using mod_mult2_eq [of n 256 256] by simp
  then have "(of_nat (n mod 65536 div 256) :: byte) = of_nat (n div 256)"
    by (simp add: word_unat_eq_iff)
  moreover have "(of_nat (n mod 65536) :: byte) = of_nat n"
    by (simp add: word_unat_eq_iff mod_mod_cancel)
  ultimately show ?thesis by (simp only: be_bytes_2 hi8_def lo8_def unat_of_nat_u16)
qed

lemma get16_bytes [ike_wire]: "get16 [hi8 w, lo8 w] = w"
  using get16_put16 [of w] by (simp only: put16_bytes)

lemma u16_at_0 [ike_wire]: "u16_at (a # b # xs) 0 = get16 [a, b]"
  by (simp add: u16_at_def subslice_def eval_nat_numeral)

lemma u16_at_2 [ike_wire]: "u16_at (a # b # c # d # xs) 2 = get16 [c, d]"
  by (simp add: u16_at_def subslice_def eval_nat_numeral)

lemma u16_at_4 [ike_wire]: "u16_at (a # b # c # d # e # f # xs) 4 = get16 [e, f]"
  by (simp add: u16_at_def subslice_def eval_nat_numeral)

lemma u16_at_6 [ike_wire]: "u16_at (a # b # c # d # e # f # g # h # xs) 6 = get16 [g, h]"
  by (simp add: u16_at_def subslice_def eval_nat_numeral)

lemma subslice_4 [ike_wire]: "subslice (a # b # c # d # xs @ ys) 4 (4 + length xs) = xs"
  by (simp add: subslice_def)

lemma drop_4 [ike_wire]: "drop (4 + n) (a # b # c # d # xs) = drop n xs"
  by (simp add: eval_nat_numeral)

lemma drop_8 [ike_wire]: "drop (8 + n) (a # b # c # d # e # f # g # h # xs) = drop n xs"
  by (simp add: eval_nat_numeral)

lemma subslice_8 [ike_wire]: "subslice (a # b # c # d # e # f # g # h # xs @ ys) 8 (8 + length xs) = xs"
  by (simp add: subslice_def)

interpretation ike_header_codec: wire_codec encode_header DecodeHeader "\<lambda>_. True"
proof
  fix h :: ike_header
  let ?w = "encode_header h"
  have s: "subslice ?w 0 8 = put64 (SPIi h)" "subslice ?w 8 16 = put64 (SPIr h)"
    "subslice ?w 20 24 = put32 (MessageID h)" "subslice ?w 24 28 = put32 (Length h)"
    by (simp_all add: encode_header_def subslice_def)
  have i: "?w ! 16 = NextPayload h" "?w ! 17 = Version h" "?w ! 18 = ExchangeType h" "?w ! 19 = Flags h"
    by (simp_all add: encode_header_def nth_append)
  have l: "length ?w = 28" by (simp add: encode_header_def)
  show "DecodeHeader ?w = Inr h" by (simp add: DecodeHeader_def s i l)
qed

subsection \<open>Proposals\<close>

definition attribute_fits :: "transform_attribute \<Rightarrow> bool" where
  "attribute_fits a \<longleftrightarrow>
     AttrType a AND 0x8000 = 0 \<and> length (AttrValue a) < 65536 \<and> (AttrValue a \<noteq> [] \<longrightarrow> AttrVal a = 0)"

definition transform_fits :: "transform \<Rightarrow> bool" where
  "transform_fits t \<longleftrightarrow> list_all attribute_fits (Attributes t) \<and> length (encode_transform t) < 65536"

definition proposal_fits :: "proposal \<Rightarrow> bool" where
  "proposal_fits p \<longleftrightarrow>
     list_all transform_fits (Transforms p) \<and> length (Transforms p) < 256 \<and> length (ProposalSPI p) < 256 \<and>
     length (encode_proposal p) < 65536"

lemma af_bit:
  fixes w :: u16
  assumes "w AND 0x8000 = 0"
  shows "w AND 0x7FFF = w" "(w OR 0x8000) AND 0x8000 \<noteq> 0" "(w OR 0x8000) AND 0x7FFF = w"
proof -
  have "w = w AND (0x7FFF OR 0x8000)"
  proof -
    have "(0x7FFF OR 0x8000 :: u16) = - 1" by simp
    then show ?thesis by (simp only: and.right_neutral)
  qed
  then have "w = (w AND 0x7FFF) OR (w AND 0x8000)" by (simp only: bit.conj_disj_distrib)
  then show a: "w AND 0x7FFF = w" using assms by simp
  show "(w OR 0x8000) AND 0x8000 \<noteq> 0"
    by (simp add: word_ao_absorbs)
  have "(w OR 0x8000) AND 0x7FFF = (w AND 0x7FFF) OR (0x8000 AND 0x7FFF)"
    by (rule bit.conj_disj_distrib2)
  then show "(w OR 0x8000) AND 0x7FFF = w" using a by simp
qed

lemma decode_encode_attribute:
  assumes "attribute_fits a"
  shows "decode_attribute (encode_attribute a @ rest) = Inr (a, length (encode_attribute a))"
proof -
  have f: "AttrType a AND 0x8000 = 0" "length (AttrValue a) < 65536" "AttrValue a \<noteq> [] \<longrightarrow> AttrVal a = 0"
    using assms by (simp_all add: attribute_fits_def)
  note b = af_bit [OF f(1)]
  show ?thesis
  proof (cases "AttrValue a = []")
    case True
    then show ?thesis
      using b by (simp add: decode_attribute_def encode_attribute_def ike_wire)
  next
    case False
    then show ?thesis
      using b f by (simp add: decode_attribute_def encode_attribute_def ike_wire)
  qed
qed

lemma decode_encode_attributes:
  "list_all attribute_fits as \<Longrightarrow> decode_attributes (concat (map encode_attribute as)) = Inr as"
proof (induction as)
  case Nil
  then show ?case by (simp add: decode_attributes.simps)
next
  case (Cons a as)
  have "encode_attribute a \<noteq> []" by (simp add: encode_attribute_def ike_wire)
  then show ?case using Cons decode_encode_attribute [of a "concat (map encode_attribute as)"]
    by (subst decode_attributes.simps) simp
qed

lemma decode_encode_transform:
  assumes "transform_fits t"
  shows "DecodeTransform (encode_transform t) = Inr t"
proof -
  have "list_all attribute_fits (Attributes t)" using assms by (simp add: transform_fits_def)
  then show ?thesis
    by (simp add: DecodeTransform_def encode_transform_def Let_def ike_wire decode_encode_attributes)
qed

lemma encode_transform_length:
  "length (encode_transform t) = 8 + length (concat (map encode_attribute (Attributes t)))"
  by (simp add: encode_transform_def Let_def)

text \<open>The length field of a transform or a proposal is the length of its encoding.\<close>

lemma length_field:
  assumes "xs = [a, b] @ put16 (of_nat n) @ r" and "n < 65536"
  shows "unat (u16_at (xs @ rest) 2) = n"
  using assms by (simp add: ike_wire)

lemma transform_length_field:
  assumes "transform_fits t"
  shows "unat (u16_at (encode_transform t @ rest) 2) = length (encode_transform t)"
proof (rule length_field)
  show "encode_transform t = [if LastTransform t then 0 else 3, 0] @ put16 (of_nat (length (encode_transform t))) @
    [TransformType t, 0] @ put16 (TransformID t) @ concat (map encode_attribute (Attributes t))"
    unfolding encode_transform_length by (simp add: encode_transform_def Let_def)
  show "length (encode_transform t) < 65536" using assms by (simp add: transform_fits_def)
qed

lemma subslice_0 [ike_wire]: "subslice (xs @ ys) 0 (length xs) = xs"
  by (simp add: subslice_def)

lemma decode_encode_transforms:
  "list_all transform_fits ts \<Longrightarrow>
     decode_transforms (length ts) (concat (map encode_transform ts) @ rest) = Inr ts"
proof (induction ts)
  case (Cons t ts)
  then have t: "transform_fits t" by simp
  note l = transform_length_field [OF t, of "concat (map encode_transform ts) @ rest"]
  have "8 \<le> length (encode_transform t)" by (simp add: encode_transform_length)
  moreover from this have "encode_transform t \<noteq> []" by auto
  ultimately show ?case
    using Cons l by (simp add: ike_wire decode_encode_transform)
qed simp

definition normal_proposal :: "proposal \<Rightarrow> proposal" where
  "normal_proposal p = p\<lparr>Transforms := mark_transforms (Transforms p)\<rparr>"

lemma mark_last_list_all: "(\<And>b x. P (f b x) = P x) \<Longrightarrow> list_all P (mark_last f xs) = list_all P xs"
  by (induction xs) simp_all

lemma length_mark_last [simp]: "length (mark_last f xs) = length xs"
  by (induction xs) simp_all

lemma transform_fits_mark: "transform_fits (t\<lparr>LastTransform := b\<rparr>) = transform_fits t"
  by (simp add: transform_fits_def encode_transform_length)

lemma transforms_fit_mark: "list_all transform_fits (mark_transforms ts) = list_all transform_fits ts"
  unfolding mark_transforms_def by (rule mark_last_list_all) (rule transform_fits_mark)

lemma encode_proposal_length:
  "length (encode_proposal p) =
     8 + length (ProposalSPI p) + length (concat (map encode_transform (mark_transforms (Transforms p))))"
  by (simp add: encode_proposal_def Let_def)

lemma decode_encode_proposal:
  assumes "proposal_fits p"
  shows "DecodeProposal (encode_proposal p) = Inr (normal_proposal p)"
proof -
  let ?ts = "mark_transforms (Transforms p)"
  have f: "list_all transform_fits ?ts" "length (Transforms p) < 256" "length (ProposalSPI p) < 256"
    using assms by (simp_all add: proposal_fits_def transforms_fit_mark)
  have l: "length ?ts = length (Transforms p)" by (simp add: mark_transforms_def)
  have "decode_transforms (length (Transforms p)) (concat (map encode_transform ?ts)) = Inr ?ts"
    using decode_encode_transforms [OF f(1), of "[]"] by (simp add: l)
  then show ?thesis
    using f(2,3) by (simp add: DecodeProposal_def encode_proposal_def Let_def ike_wire normal_proposal_def)
qed

lemma proposal_length_field:
  assumes "proposal_fits p"
  shows "unat (u16_at (encode_proposal p @ rest) 2) = length (encode_proposal p)"
proof (rule length_field)
  show "encode_proposal p = [if LastProposal p then 0 else 2, 0] @ put16 (of_nat (length (encode_proposal p))) @
    [ProposalNum p, ProposalProtocol p, of_nat (length (ProposalSPI p)), of_nat (length (Transforms p))] @
    ProposalSPI p @ concat (map encode_transform (mark_transforms (Transforms p)))"
    unfolding encode_proposal_length by (simp add: encode_proposal_def Let_def)
  show "length (encode_proposal p) < 65536" using assms by (simp add: proposal_fits_def)
qed

lemma decode_one_encoded:
  assumes "proposal_fits p"
  shows "decode_one_proposal (encode_proposal p @ rest) = Inr (normal_proposal p, length (encode_proposal p))"
proof -
  have "8 \<le> length (encode_proposal p)" by (simp add: encode_proposal_length)
  then show ?thesis
    using decode_encode_proposal [OF assms] proposal_length_field [OF assms, of rest]
    by (simp add: decode_one_proposal_def ike_wire)
qed

definition normal_proposals :: "proposal list \<Rightarrow> proposal list" where
  "normal_proposals ps = map normal_proposal (mark_proposals ps)"

lemma proposal_fits_mark: "proposal_fits (p\<lparr>LastProposal := b\<rparr>) = proposal_fits p"
  by (simp add: proposal_fits_def encode_proposal_length)

lemma decode_encode_sa:
  "list_all proposal_fits ps \<Longrightarrow> DecodePayloadSA (encode_sa ps) = Inr (normal_proposals ps)"
proof (induction ps)
  case Nil
  then show ?case
    by (simp add: DecodePayloadSA.simps encode_sa_def normal_proposals_def mark_proposals_def)
next
  case (Cons p ps)
  define q where "q = p\<lparr>LastProposal := (ps = [])\<rparr>"
  have q: "proposal_fits q" using Cons.prems by (simp add: q_def proposal_fits_mark)
  have e: "encode_sa (p # ps) = encode_proposal q @ encode_sa ps"
    and n: "normal_proposals (p # ps) = normal_proposal q # normal_proposals ps"
    by (simp_all add: encode_sa_def normal_proposals_def mark_proposals_def q_def)
  have last: "LastProposal (normal_proposal q) = (ps = [])" by (simp add: normal_proposal_def q_def)
  have first: "(encode_proposal q @ encode_sa ps) ! 0 = (if ps = [] then 0 else 2)"
    "encode_proposal q \<noteq> []"
    by (simp_all add: encode_proposal_def Let_def q_def)
  have IH: "DecodePayloadSA (encode_sa ps) = Inr (normal_proposals ps)" using Cons by simp
  have "DecodePayloadSA (encode_proposal q @ encode_sa ps) = Inr (normal_proposal q # normal_proposals ps)"
  proof (cases "ps = []")
    case True
    then show ?thesis
      using first last decode_one_encoded [OF q, of "encode_sa ps"]
      by (subst DecodePayloadSA.simps) (simp add: normal_proposals_def mark_proposals_def)
  next
    case False
    then show ?thesis
      using first last IH decode_one_encoded [OF q, of "encode_sa ps"]
      by (subst DecodePayloadSA.simps) simp
  qed
  then show ?case by (simp only: e n)
qed

subsection \<open>Selectors and configuration\<close>

definition selector_fits :: "traffic_selector \<Rightarrow> bool" where
  "selector_fits t \<longleftrightarrow>
     TSType t = TS_IPV4_ADDR_RANGE \<and> length (StartAddr t) = 4 \<and> length (EndAddr t) = 4 \<or>
     TSType t = TS_IPV6_ADDR_RANGE \<and> length (StartAddr t) = 16 \<and> length (EndAddr t) = 16"

lemma copy_field_fits: "length a = n \<Longrightarrow> copy_field n a = a"
  by (simp add: copy_field_def)

lemma subslice_mid: "length xs = i \<Longrightarrow> i + length ys = j \<Longrightarrow> subslice (xs @ ys @ zs) i j = ys"
  by (auto simp: subslice_def)

lemma subslice_front: "length xs = j \<Longrightarrow> subslice (xs @ ys) 0 j = xs"
  by (auto simp: subslice_def)

definition address_length :: "traffic_selector \<Rightarrow> nat" where
  "address_length t = (if TSType t = TS_IPV4_ADDR_RANGE then 4 else 16)"

lemma encode_selector_fits:
  assumes "selector_fits t"
  shows "encode_selector t = Inr ([TSType t, IPProtocol t] @ put16 (of_nat (8 + 2 * address_length t)) @
    put16 (StartPort t) @ put16 (EndPort t) @ StartAddr t @ EndAddr t)"
  using assms
  by (auto simp: selector_fits_def encode_selector_def address_length_def copy_field_fits Let_def
      TS_IPV4_ADDR_RANGE_def TS_IPV6_ADDR_RANGE_def)

lemma decode_encode_selector:
  assumes "selector_fits t" and "encode_selector t = Inr b"
  shows "decode_selector (b @ rest) = Inr (t, length b)"
proof -
  define hdr where "hdr = [TSType t, IPProtocol t] @ put16 (of_nat (8 + 2 * address_length t)) @
    put16 (StartPort t) @ put16 (EndPort t)"
  have b0: "b = hdr @ StartAddr t @ EndAddr t"
    using assms(2) unfolding encode_selector_fits [OF assms(1)] by (simp add: hdr_def)
  then have b: "b @ rest = hdr @ (StartAddr t @ EndAddr t) @ rest" "length hdr = 8"
    by (simp_all add: hdr_def)
  have reads: "(b @ rest) ! 0 = TSType t" "(b @ rest) ! 1 = IPProtocol t"
    "u16_at (b @ rest) 2 = of_nat (8 + 2 * address_length t)"
    "u16_at (b @ rest) 4 = StartPort t" "u16_at (b @ rest) 6 = EndPort t"
    unfolding b(1) hdr_def by (simp_all add: ike_wire)
  define xs where "xs = b @ rest"
  note reads = reads [folded xs_def]
  define a where "a = StartAddr t @ EndAddr t"
  consider "TSType t = 7" "length (StartAddr t) = 4" "length (EndAddr t) = 4"
    | "TSType t = 8" "length (StartAddr t) = 16" "length (EndAddr t) = 16"
    using assms(1) by (auto simp: selector_fits_def TS_IPV4_ADDR_RANGE_def TS_IPV6_ADDR_RANGE_def)
  then show ?thesis
  proof cases
    case 1
    have l: "length b = 16" "16 \<le> length xs" "xs \<noteq> []" using b0 b(2) 1 by (auto simp: xs_def)
    have s: "subslice xs 8 16 = a" unfolding xs_def b(1) a_def by (rule subslice_mid) (simp_all add: b(2) 1)
    have s1: "subslice a 0 4 = StartAddr t" "subslice a 4 8 = EndAddr t" "length a = 8"
      using 1 by (simp_all add: a_def subslice_def)
    have "unat (u16_at xs 2) = 16" unfolding reads(3) by (simp add: address_length_def TS_IPV4_ADDR_RANGE_def 1)
    then show ?thesis
      unfolding xs_def [symmetric] using 1(1) l s s1 reads(1,2,4,5)
      by (simp add: decode_selector_def TS_IPV4_ADDR_RANGE_def)
  next
    case 2
    have l: "length b = 40" "40 \<le> length xs" "xs \<noteq> []" using b0 b(2) 2 by (auto simp: xs_def)
    have s: "subslice xs 8 40 = a" unfolding xs_def b(1) a_def by (rule subslice_mid) (simp_all add: b(2) 2)
    have s1: "subslice a 0 16 = StartAddr t" "subslice a 16 32 = EndAddr t" "length a = 32"
      using 2 by (simp_all add: a_def subslice_def)
    have "unat (u16_at xs 2) = 40" unfolding reads(3) by (simp add: address_length_def TS_IPV4_ADDR_RANGE_def 2)
    then show ?thesis
      unfolding xs_def [symmetric] using 2(1) l s s1 reads(1,2,4,5)
      by (simp add: decode_selector_def TS_IPV4_ADDR_RANGE_def TS_IPV6_ADDR_RANGE_def)
  qed
qed

lemma decode_encode_selectors:
  "list_all selector_fits ts \<Longrightarrow> encode_selectors ts = Inr b \<Longrightarrow> decode_selectors (length ts) b = Inr ts"
proof (induction ts arbitrary: b)
  case (Cons t ts)
  then obtain b1 b2 where b: "encode_selector t = Inr b1" "encode_selectors ts = Inr b2" "b = b1 @ b2"
    by (auto simp: res_bind_eq_Inr)
  then show ?case using Cons decode_encode_selector [of t b1 b2] by simp
qed simp

definition cp_fits :: "cp_attribute \<Rightarrow> bool" where
  "cp_fits a \<longleftrightarrow> CPType a AND 0x8000 = 0 \<and> length (CPValue a) < 65536"

lemma decode_encode_cp:
  assumes "cp_fits a"
  shows "decodeCPAttribute (encode_cp_attribute a @ rest) = Inr (a, length (encode_cp_attribute a))"
  using assms af_bit(1) [of "CPType a"]
  by (simp add: cp_fits_def decodeCPAttribute_def encode_cp_attribute_def ike_wire)

lemma decode_encode_cps:
  "list_all cp_fits as \<Longrightarrow> decode_cp_attributes (concat (map encode_cp_attribute as)) = Inr as"
proof (induction as)
  case Nil
  then show ?case by (simp add: decode_cp_attributes.simps)
next
  case (Cons a as)
  have "encode_cp_attribute a \<noteq> []" by (simp add: encode_cp_attribute_def ike_wire)
  then show ?case using Cons decode_encode_cp [of a "concat (map encode_cp_attribute as)"]
    by (subst decode_cp_attributes.simps) simp
qed

subsection \<open>Payloads and packets\<close>

fun content_fits :: "payload \<Rightarrow> bool" where
  "content_fits (PayloadSA ps) = list_all proposal_fits ps"
| "content_fits (PayloadNotify p spi t d) = (length spi < 256)"
| "content_fits (PayloadDelete p sz n spis) = (length spis = unat sz * unat n)"
| "content_fits (PayloadTS initiator ts) = (list_all selector_fits ts \<and> length ts < 256)"
| "content_fits (PayloadCP t as) = list_all cp_fits as"
| "content_fits (RawPayload t d) =
     (t \<notin> {NoNextPayload, SA, KE, NiNr, IDi, IDr, AUTH, EAP, N_payload, D_payload, TSI, TSR, CP})"
| "content_fits _ = True"

definition payload_fits :: "payload \<Rightarrow> bool" where
  "payload_fits p \<longleftrightarrow>
     content_fits p \<and> (case encode_payload p of Inl _ \<Rightarrow> False | Inr b \<Rightarrow> length b < 65532)"

text \<open>The encoder marks the last proposals and transforms; otherwise a payload is read back as it was.\<close>

fun normal_payload :: "payload \<Rightarrow> payload" where
  "normal_payload (PayloadSA ps) = PayloadSA (normal_proposals ps)"
| "normal_payload p = p"

lemma decode_encode_payload:
  assumes "content_fits p" and "encode_payload p = Inr body"
  shows "decode_body (payload_type p) body = Inr (normal_payload p)"
proof (cases p)
  case (PayloadSA ps)
  then show ?thesis using assms decode_encode_sa [of ps] by (auto simp: decode_body_def payload_types)
next
  case (PayloadKE g d)
  then show ?thesis using assms by (auto simp: decode_body_def payload_types DecodePayloadKE_def ike_wire)
next
  case (PayloadNonce d)
  then show ?thesis using assms by (simp add: decode_body_def payload_types)
next
  case (PayloadID i t d)
  then show ?thesis using assms by (auto simp: decode_body_def payload_types DecodePayloadID_def)
next
  case (PayloadAuth m d)
  then show ?thesis using assms by (auto simp: decode_body_def payload_types DecodePayloadAuth_def)
next
  case (PayloadEAP d)
  then show ?thesis using assms by (simp add: decode_body_def payload_types)
next
  case (PayloadNotify pr spi t d)
  then show ?thesis using assms
    by (auto simp: decode_body_def payload_types DecodePayloadNotify_def ike_wire)
next
  case (PayloadDelete pr sz n spis)
  then show ?thesis using assms subslice_4 [of _ _ _ _ spis "[]"]
    by (auto simp: decode_body_def payload_types DecodePayloadDelete_def Let_def ike_wire)
next
  case (PayloadTS i ts)
  then show ?thesis using assms decode_encode_selectors [of ts]
    by (auto simp: decode_body_def payload_types DecodePayloadTS_def res_bind_eq_Inr)
next
  case (PayloadCP t as)
  then show ?thesis using assms
    by (auto simp: decode_body_def payload_types DecodePayloadCP_def decode_encode_cps)
next
  case (RawPayload t d)
  then show ?thesis using assms by (simp add: decode_body_def)
qed

lemma payload_type_known: "content_fits p \<Longrightarrow> payload_type p \<noteq> NoNextPayload"
  by (cases p) (auto simp: payload_types)

lemma decode_encode_payloads:
  "list_all payload_fits ps \<Longrightarrow> encode_payloads ps = Inr data \<Longrightarrow>
     decode_payloads (first_type ps) data = Inr (map normal_payload ps)"
proof (induction ps arbitrary: data)
  case Nil
  then show ?case by (simp add: decode_payloads.simps first_type_def)
next
  case (Cons p ps)
  then have p: "content_fits p" by (simp add: payload_fits_def)
  obtain body rest where body: "encode_payload p = Inr body" and rest: "encode_payloads ps = Inr rest"
    and data: "data = [first_type ps, 0] @ put16 (of_nat (4 + length body)) @ body @ rest"
    using Cons.prems by (auto simp: res_bind_eq_Inr encode_payload_header_def Let_def)
  have small: "length body < 65532" using Cons.prems body by (simp add: payload_fits_def)
  have n: "u16_at data 2 = of_nat (4 + length body)" unfolding data by (simp add: ike_wire)
  have un: "unat (u16_at data 2) = 4 + length body" unfolding n using small by (simp only: unat_of_nat_u16) simp
  have len: "length data = 4 + length body + length rest" unfolding data by simp
  have h: "DecodePayloadHeader (take 4 data) = Inr \<lparr>Next = first_type ps, Critical = (data ! 1 AND 0x80 \<noteq> 0),
      Reserved = data ! 1 AND 0x7F, PayloadLength = u16_at data 2\<rparr>"
  proof -
    have "data ! 0 = first_type ps" by (simp add: data)
    then show ?thesis using payload_header_read [of "take 4 data"] len by (simp add: u16_at_take)
  qed
  have slice: "ike_slice data 4 (4 + length body) = Inr body"
    using len by (simp add: data ike_wire)
  have drop: "drop (4 + length body) data = rest" unfolding data by (simp add: ike_wire)
  have t: "first_type (p # ps) = payload_type p" "payload_type p \<noteq> NoNextPayload" "data \<noteq> []"
    using payload_type_known [OF p] by (simp_all add: first_type_def data)
  have IH: "decode_payloads (first_type ps) rest = Inr (map normal_payload ps)" using Cons rest by simp
  show ?case
    using t h slice drop IH len un decode_encode_payload [OF p body]
    by (subst decode_payloads.simps) simp
qed

text \<open>Property C19: an IKE packet whose parts fit their length fields is read back from its encoding: the
  header with the type of the first payload and the length filled in, and every payload, the last
  proposals and transforms marked as such.\<close>

theorem ike_packet_round_trip:
  assumes "list_all payload_fits (Payloads p)" and "EncodePacket p = Inr data"
  shows "DecodePacket data =
    Inr \<lparr>Header = sent_header p (length data - 28), Payloads = map normal_payload (Payloads p)\<rparr>"
proof -
  obtain body where body: "encode_payloads (Payloads p) = Inr body"
    and data: "data = encode_header (sent_header p (length body)) @ body"
    using assms(2) by (auto simp: EncodePacket_def res_bind_eq_Inr)
  let ?h = "sent_header p (length body)"
  have l: "length (encode_header ?h) = 28" for h by (simp add: encode_header_def)
  have "DecodeHeader data = DecodeHeader (encode_header ?h)"
    unfolding data DecodeHeader_def using l by (simp add: nth_append subslice_append_left)
  then have h: "DecodeHeader data = Inr ?h" using ike_header_codec.dec_enc by simp
  have "NextPayload ?h = first_type (Payloads p)" by (simp add: sent_header_def)
  then have "decode_payloads (NextPayload ?h) (drop 28 data) = Inr (map normal_payload (Payloads p))"
    using decode_encode_payloads [OF assms(1) body] l by (simp add: data)
  then show ?thesis using h l by (simp add: DecodePacket_def data)
qed

text \<open>The first message of an exchange: proposals, key exchange, nonce, a notification.\<close>

definition plain_transform :: "byte \<Rightarrow> u16 \<Rightarrow> nat \<Rightarrow> transform" where
  "plain_transform ty tid keyLen =
     \<lparr>LastTransform = False, TransformType = ty, TransformID = tid,
      Attributes = (if keyLen > 0 then [\<lparr>AttrType = 14, AttrValue = [], AttrVal = of_nat keyLen\<rparr>] else [])\<rparr>"

definition init_packet :: ike_packet where
  "init_packet =
     \<lparr>Header = \<lparr>SPIi = 77, SPIr = 0, NextPayload = 0, Version = 0x20, ExchangeType = 34, Flags = 8, MessageID = 0,
        Length = 0\<rparr>,
      Payloads =
        [PayloadSA [\<lparr>LastProposal = False, ProposalNum = 1, ProposalProtocol = 1, ProposalSPI = [],
           Transforms = [plain_transform 1 12 128, plain_transform 2 5 0, plain_transform 3 12 0, plain_transform 4 14 0]\<rparr>],
         PayloadKE 14 [1, 2, 3], PayloadNonce [4, 5], PayloadNotify 1 [] 16388 [6],
         PayloadTS True [\<lparr>TSType = 7, IPProtocol = 0, StartPort = 0, EndPort = 65535, StartAddr = [10, 0, 0, 1],
           EndAddr = [10, 0, 0, 9]\<rparr>], PayloadCP 1 [\<lparr>CPType = 20, CPValue = []\<rparr>]]\<rparr>"

definition init_data :: "byte list" where
  "init_data = (case EncodePacket init_packet of Inl _ \<Rightarrow> [] | Inr b \<Rightarrow> b)"

theorem ike_packet_round_trip_witness:
  "length init_data = 138 \<and> DecodePacket init_data =
     Inr \<lparr>Header = sent_header init_packet 110, Payloads = map normal_payload (Payloads init_packet)\<rparr>"
proof -
  have "list_all payload_fits (Payloads init_packet)" by code_simp
  moreover have "EncodePacket init_packet = Inr init_data" by code_simp
  moreover have "length init_data = 138" by code_simp
  ultimately show ?thesis using ike_packet_round_trip [of init_packet init_data] by simp
qed

end
