(* ===== verification/IkeProposal.thy ===== *)
theory IkeProposal
  imports IkeCodec
begin

section \<open>Matching of proposals\<close>

text \<open>
  \<^verbatim>\<open>vowifi-go/runtimehost/ikev2/proposal_match.go\<close>: the choice of a proposal and of its algorithms, and
  the proposals that this end makes.
\<close>

definition ProtoIKE :: byte where "ProtoIKE = 1"
definition ProtoESP :: byte where "ProtoESP = 3"

definition TransformTypeEncr :: byte where "TransformTypeEncr = 1"
definition TransformTypePRF :: byte where "TransformTypePRF = 2"
definition TransformTypeInteg :: byte where "TransformTypeInteg = 3"
definition TransformTypeDH :: byte where "TransformTypeDH = 4"
definition TransformTypeESN :: byte where "TransformTypeESN = 5"

definition ENCR_3DES :: u16 where "ENCR_3DES = 3"
definition ENCR_AES_CBC :: u16 where "ENCR_AES_CBC = 12"
definition ENCR_AES_CTR :: u16 where "ENCR_AES_CTR = 13"
definition ENCR_AES_CCM_8 :: u16 where "ENCR_AES_CCM_8 = 14"
definition ENCR_AES_CCM_12 :: u16 where "ENCR_AES_CCM_12 = 15"
definition ENCR_AES_CCM_16 :: u16 where "ENCR_AES_CCM_16 = 16"
definition ENCR_AES_GCM_8 :: u16 where "ENCR_AES_GCM_8 = 18"
definition ENCR_AES_GCM_12 :: u16 where "ENCR_AES_GCM_12 = 19"
definition ENCR_AES_GCM_16 :: u16 where "ENCR_AES_GCM_16 = 20"

definition PRF_HMAC_SHA1 :: u16 where "PRF_HMAC_SHA1 = 2"
definition PRF_AES128_XCBC :: u16 where "PRF_AES128_XCBC = 4"
definition PRF_HMAC_SHA2_256 :: u16 where "PRF_HMAC_SHA2_256 = 5"
definition PRF_HMAC_SHA2_384 :: u16 where "PRF_HMAC_SHA2_384 = 6"
definition PRF_HMAC_SHA2_512 :: u16 where "PRF_HMAC_SHA2_512 = 7"

definition AUTH_NONE :: u16 where "AUTH_NONE = 0"
definition AUTH_HMAC_SHA1_96 :: u16 where "AUTH_HMAC_SHA1_96 = 2"
definition AUTH_AES_XCBC_96 :: u16 where "AUTH_AES_XCBC_96 = 5"
definition AUTH_HMAC_SHA2_256_128 :: u16 where "AUTH_HMAC_SHA2_256_128 = 12"
definition AUTH_HMAC_SHA2_384_192 :: u16 where "AUTH_HMAC_SHA2_384_192 = 13"
definition AUTH_HMAC_SHA2_512_256 :: u16 where "AUTH_HMAC_SHA2_512_256 = 14"

definition MODP_1024_bit :: u16 where "MODP_1024_bit = 2"
definition MODP_1536_bit :: u16 where "MODP_1536_bit = 5"
definition MODP_2048_bit :: u16 where "MODP_2048_bit = 14"
definition MODP_3072_bit :: u16 where "MODP_3072_bit = 15"
definition MODP_4096_bit :: u16 where "MODP_4096_bit = 16"

definition AttributeKeyLength :: u16 where "AttributeKeyLength = 14"

record proposal_matcher =
  SupportedEncr :: "u16 list"
  SupportedInteg :: "u16 list"
  SupportedPRF :: "u16 list"
  SupportedDH :: "u16 list"

definition DefaultProposalMatcher :: proposal_matcher where
  "DefaultProposalMatcher =
     \<lparr>SupportedEncr = [ENCR_AES_GCM_16, ENCR_AES_GCM_12, ENCR_AES_GCM_8, ENCR_AES_CCM_16, ENCR_AES_CBC,
        ENCR_AES_CTR, ENCR_3DES],
      SupportedInteg = [AUTH_NONE, AUTH_HMAC_SHA2_512_256, AUTH_HMAC_SHA2_384_192, AUTH_HMAC_SHA2_256_128,
        AUTH_AES_XCBC_96, AUTH_HMAC_SHA1_96],
      SupportedPRF = [PRF_HMAC_SHA2_512, PRF_HMAC_SHA2_384, PRF_HMAC_SHA2_256, PRF_AES128_XCBC, PRF_HMAC_SHA1],
      SupportedDH = [MODP_4096_bit, MODP_3072_bit, MODP_2048_bit, MODP_1536_bit, MODP_1024_bit]\<rparr>"

record matched_algorithms =
  MatchedNum :: byte
  MatchedProtocol :: byte
  MatchedSPI :: "byte list"
  Encr :: u16
  EncrKeyLen :: u16
  Integ :: u16
  PRF :: u16
  DH :: u16

definition containsAlg :: "u16 list \<Rightarrow> u16 \<Rightarrow> bool" where
  "containsAlg algs alg \<longleftrightarrow> list_ex (\<lambda>a. a = alg) algs"

definition isAEAD :: "u16 \<Rightarrow> bool" where
  "isAEAD encr \<longleftrightarrow>
     encr \<in> {ENCR_AES_GCM_8, ENCR_AES_GCM_12, ENCR_AES_GCM_16, ENCR_AES_CCM_8, ENCR_AES_CCM_12, ENCR_AES_CCM_16}"

text \<open>What the loop over the transforms carries.\<close>

record match_state =
  best :: matched_algorithms
  encrFound :: bool
  integFound :: bool
  prfFound :: bool
  dhFound :: bool

definition last_key_length :: "transform_attribute list \<Rightarrow> u16 \<Rightarrow> u16" where
  "last_key_length attrs old = fold (\<lambda>a l. if AttrType a = AttributeKeyLength then AttrVal a else l) attrs old"

definition match_transform :: "proposal_matcher \<Rightarrow> transform \<Rightarrow> match_state \<Rightarrow> match_state" where
  "match_transform pm t st =
     (let r = best st in
      if TransformType t = TransformTypeEncr then
        if containsAlg (SupportedEncr pm) (TransformID t)
        then st\<lparr>best := r\<lparr>Encr := TransformID t, EncrKeyLen := last_key_length (Attributes t) (EncrKeyLen r)\<rparr>,
               encrFound := True\<rparr>
        else st
      else if TransformType t = TransformTypeInteg then
        if containsAlg (SupportedInteg pm) (TransformID t)
        then st\<lparr>best := r\<lparr>Integ := TransformID t\<rparr>, integFound := True\<rparr> else st
      else if TransformType t = TransformTypePRF then
        if containsAlg (SupportedPRF pm) (TransformID t)
        then st\<lparr>best := r\<lparr>PRF := TransformID t\<rparr>, prfFound := True\<rparr> else st
      else if TransformType t = TransformTypeDH then
        if containsAlg (SupportedDH pm) (TransformID t)
        then st\<lparr>best := r\<lparr>DH := TransformID t\<rparr>, dhFound := True\<rparr> else st
      else st)"

definition start_match :: "proposal \<Rightarrow> match_state" where
  "start_match p =
     \<lparr>best = \<lparr>MatchedNum = ProposalNum p, MatchedProtocol = ProposalProtocol p, MatchedSPI = ProposalSPI p,
        Encr = 0, EncrKeyLen = 0, Integ = 0, PRF = 0, DH = 0\<rparr>,
      encrFound = False, integFound = False, prfFound = False, dhFound = False\<rparr>"

definition matchProposal :: "proposal_matcher \<Rightarrow> proposal \<Rightarrow> matched_algorithms option" where
  "matchProposal pm p =
     (let st = fold (match_transform pm) (Transforms p) (start_match p); r = best st in
      if ProposalProtocol p = ProtoIKE then
        if encrFound st \<and> prfFound st \<and> dhFound st \<and> (isAEAD (Encr r) \<or> integFound st) then Some r else None
      else if ProposalProtocol p = ProtoESP then
        if encrFound st \<and> (isAEAD (Encr r) \<or> integFound st) then Some r else None
      else None)"

fun SelectBestProposal :: "proposal_matcher \<Rightarrow> proposal list \<Rightarrow> matched_algorithms option" where
  "SelectBestProposal pm [] = None"
| "SelectBestProposal pm (p # ps) =
     (case matchProposal pm p of Some m \<Rightarrow> Some m | None \<Rightarrow> SelectBestProposal pm ps)"

subsection \<open>Own proposals\<close>

definition NewProposal :: "byte \<Rightarrow> byte \<Rightarrow> byte list \<Rightarrow> proposal" where
  "NewProposal num proto spi =
     \<lparr>LastProposal = False, ProposalNum = num, ProposalProtocol = proto, ProposalSPI = spi, Transforms = []\<rparr>"

text \<open>\<^verbatim>\<open>AddTransform\<close> and \<^verbatim>\<open>AddTransformWithKeyLen\<close> append the same transform.\<close>

definition AddTransform :: "byte \<Rightarrow> u16 \<Rightarrow> nat \<Rightarrow> proposal \<Rightarrow> proposal" where
  "AddTransform tType tID keyLen p =
     p\<lparr>Transforms := Transforms p @ [\<lparr>LastTransform = False, TransformType = tType, TransformID = tID,
       Attributes = (if keyLen > 0 then [\<lparr>AttrType = AttributeKeyLength, AttrValue = [], AttrVal = of_nat keyLen\<rparr>]
         else [])\<rparr>]\<rparr>"

definition CreateMultiProposalIKE :: "byte list \<Rightarrow> proposal list" where
  "CreateMultiProposalIKE spi =
     [AddTransform TransformTypeDH MODP_3072_bit 0 (AddTransform TransformTypePRF PRF_HMAC_SHA2_384 0
        (AddTransform TransformTypeEncr ENCR_AES_GCM_16 256 (NewProposal 1 ProtoIKE spi))),
      AddTransform TransformTypeDH MODP_2048_bit 0 (AddTransform TransformTypePRF PRF_HMAC_SHA2_256 0
        (AddTransform TransformTypeEncr ENCR_AES_GCM_16 128 (NewProposal 2 ProtoIKE spi))),
      AddTransform TransformTypeDH MODP_2048_bit 0 (AddTransform TransformTypePRF PRF_HMAC_SHA2_256 0
        (AddTransform TransformTypeInteg AUTH_HMAC_SHA2_256_128 0
          (AddTransform TransformTypeEncr ENCR_AES_CBC 256 (NewProposal 3 ProtoIKE spi)))),
      AddTransform TransformTypeDH MODP_2048_bit 0 (AddTransform TransformTypePRF PRF_HMAC_SHA2_256 0
        (AddTransform TransformTypeInteg AUTH_HMAC_SHA2_256_128 0
          (AddTransform TransformTypeEncr ENCR_AES_CBC 128 (NewProposal 4 ProtoIKE spi)))),
      AddTransform TransformTypeDH MODP_1024_bit 0 (AddTransform TransformTypePRF PRF_HMAC_SHA1 0
        (AddTransform TransformTypeInteg AUTH_HMAC_SHA1_96 0
          (AddTransform TransformTypeEncr ENCR_AES_CBC 128 (NewProposal 5 ProtoIKE spi))))]"

definition CreateMultiProposalESP :: "byte list \<Rightarrow> proposal list" where
  "CreateMultiProposalESP spi =
     [AddTransform TransformTypeESN 0 0
        (AddTransform TransformTypeEncr ENCR_AES_GCM_16 256 (NewProposal 1 ProtoESP spi)),
      AddTransform TransformTypeESN 0 0
        (AddTransform TransformTypeEncr ENCR_AES_GCM_16 128 (NewProposal 2 ProtoESP spi)),
      AddTransform TransformTypeESN 0 0 (AddTransform TransformTypeInteg AUTH_HMAC_SHA2_256_128 0
        (AddTransform TransformTypeEncr ENCR_AES_CBC 128 (NewProposal 3 ProtoESP spi))),
      AddTransform TransformTypeESN 0 0 (AddTransform TransformTypeInteg AUTH_HMAC_SHA1_96 0
        (AddTransform TransformTypeEncr ENCR_AES_CBC 128 (NewProposal 4 ProtoESP spi)))]"


section \<open>What a match is\<close>

text \<open>The identifiers of one type that a proposal offers and this end supports, in the order offered.\<close>

definition offered :: "byte \<Rightarrow> u16 list \<Rightarrow> transform list \<Rightarrow> u16 list" where
  "offered typ algs ts = [TransformID t. t \<leftarrow> ts, TransformType t = typ, TransformID t \<in> set algs]"

definition last_or :: "'a \<Rightarrow> 'a list \<Rightarrow> 'a" where
  "last_or d xs = (if xs = [] then d else last xs)"

lemma offered_simps [simp]:
  "offered typ algs [] = []"
  "offered typ algs (ts @ [t]) =
     offered typ algs ts @ (if TransformType t = typ \<and> TransformID t \<in> set algs then [TransformID t] else [])"
  by (simp_all add: offered_def)

lemma last_or_simps [simp]:
  "last_or d [] = d"
  "last_or d (xs @ [x]) = x"
  by (simp_all add: last_or_def)

lemma last_or_mem: "xs \<noteq> [] \<Longrightarrow> last_or d xs \<in> set xs"
  by (simp add: last_or_def)

lemma containsAlg_set [simp]: "containsAlg algs a \<longleftrightarrow> a \<in> set algs"
  by (auto simp: containsAlg_def list_ex_iff)

lemma offered_mem: "a \<in> set (offered typ algs ts) \<Longrightarrow> a \<in> set algs \<and> (\<exists>t\<in>set ts. TransformType t = typ \<and> TransformID t = a)"
  by (auto simp: offered_def split: if_splits)

lemmas transform_types =
  TransformTypeEncr_def TransformTypePRF_def TransformTypeInteg_def TransformTypeDH_def TransformTypeESN_def

lemma fold_match_transform:
  "let st = fold (match_transform pm) ts (start_match p) in
     encrFound st = (offered TransformTypeEncr (SupportedEncr pm) ts \<noteq> []) \<and>
     integFound st = (offered TransformTypeInteg (SupportedInteg pm) ts \<noteq> []) \<and>
     prfFound st = (offered TransformTypePRF (SupportedPRF pm) ts \<noteq> []) \<and>
     dhFound st = (offered TransformTypeDH (SupportedDH pm) ts \<noteq> []) \<and>
     Encr (best st) = last_or 0 (offered TransformTypeEncr (SupportedEncr pm) ts) \<and>
     Integ (best st) = last_or 0 (offered TransformTypeInteg (SupportedInteg pm) ts) \<and>
     PRF (best st) = last_or 0 (offered TransformTypePRF (SupportedPRF pm) ts) \<and>
     DH (best st) = last_or 0 (offered TransformTypeDH (SupportedDH pm) ts) \<and>
     MatchedNum (best st) = ProposalNum p \<and> MatchedProtocol (best st) = ProposalProtocol p \<and>
     MatchedSPI (best st) = ProposalSPI p"
proof (induction ts rule: rev_induct)
  case Nil
  show ?case by (simp add: start_match_def)
next
  case (snoc t ts)
  show ?case
    using snoc.IH by (simp add: match_transform_def Let_def transform_types)
qed

text \<open>
  What a proposal must offer: a supported cipher, a supported integrity algorithm unless the cipher that is
  taken is an AEAD one, and for an IKE SA a supported PRF and group.
\<close>

definition acceptable :: "proposal_matcher \<Rightarrow> proposal \<Rightarrow> bool" where
  "acceptable pm p \<longleftrightarrow>
     (let es = offered TransformTypeEncr (SupportedEncr pm) (Transforms p) in
      es \<noteq> [] \<and>
      (isAEAD (last es) \<or> offered TransformTypeInteg (SupportedInteg pm) (Transforms p) \<noteq> []) \<and>
      (ProposalProtocol p = ProtoESP \<or>
       ProposalProtocol p = ProtoIKE \<and> offered TransformTypePRF (SupportedPRF pm) (Transforms p) \<noteq> [] \<and>
         offered TransformTypeDH (SupportedDH pm) (Transforms p) \<noteq> []))"

lemma matchProposal_acceptable: "matchProposal pm p \<noteq> None \<longleftrightarrow> acceptable pm p"
  using fold_match_transform [of pm "Transforms p" p]
  by (auto simp: matchProposal_def acceptable_def Let_def last_or_def ProtoIKE_def ProtoESP_def)

lemma matchProposal_fields:
  assumes "matchProposal pm p = Some m"
  shows "MatchedNum m = ProposalNum p" "MatchedProtocol m = ProposalProtocol p" "MatchedSPI m = ProposalSPI p"
    "Encr m = last_or 0 (offered TransformTypeEncr (SupportedEncr pm) (Transforms p))"
    "Integ m = last_or 0 (offered TransformTypeInteg (SupportedInteg pm) (Transforms p))"
    "PRF m = last_or 0 (offered TransformTypePRF (SupportedPRF pm) (Transforms p))"
    "DH m = last_or 0 (offered TransformTypeDH (SupportedDH pm) (Transforms p))"
proof -
  have "m = best (fold (match_transform pm) (Transforms p) (start_match p))"
    using assms by (auto simp: matchProposal_def Let_def split: if_splits)
  then show "MatchedNum m = ProposalNum p" "MatchedProtocol m = ProposalProtocol p" "MatchedSPI m = ProposalSPI p"
    "Encr m = last_or 0 (offered TransformTypeEncr (SupportedEncr pm) (Transforms p))"
    "Integ m = last_or 0 (offered TransformTypeInteg (SupportedInteg pm) (Transforms p))"
    "PRF m = last_or 0 (offered TransformTypePRF (SupportedPRF pm) (Transforms p))"
    "DH m = last_or 0 (offered TransformTypeDH (SupportedDH pm) (Transforms p))"
    using fold_match_transform [of pm "Transforms p" p] by (simp_all add: Let_def)
qed

lemma SelectBestProposal_find: "SelectBestProposal pm ps = Option.bind (find (acceptable pm) ps) (matchProposal pm)"
  by (induction ps) (auto simp flip: matchProposal_acceptable split: option.splits)


subsection \<open>The chosen algorithms\<close>

text \<open>The key length of the last key length attribute of a supported cipher, of whichever cipher it is.\<close>

definition offered_key_length :: "u16 list \<Rightarrow> transform list \<Rightarrow> u16" where
  "offered_key_length algs ts =
     last_or 0 [AttrVal a. t \<leftarrow> ts, TransformType t = TransformTypeEncr, TransformID t \<in> set algs,
       a \<leftarrow> Attributes t, AttrType a = AttributeKeyLength]"

definition chosen :: "proposal_matcher \<Rightarrow> proposal \<Rightarrow> matched_algorithms" where
  "chosen pm p =
     \<lparr>MatchedNum = ProposalNum p, MatchedProtocol = ProposalProtocol p, MatchedSPI = ProposalSPI p,
      Encr = last_or 0 (offered TransformTypeEncr (SupportedEncr pm) (Transforms p)),
      EncrKeyLen = offered_key_length (SupportedEncr pm) (Transforms p),
      Integ = last_or 0 (offered TransformTypeInteg (SupportedInteg pm) (Transforms p)),
      PRF = last_or 0 (offered TransformTypePRF (SupportedPRF pm) (Transforms p)),
      DH = last_or 0 (offered TransformTypeDH (SupportedDH pm) (Transforms p))\<rparr>"

lemma last_or_append: "last_or d (xs @ ys) = last_or (last_or d xs) ys"
  by (simp add: last_or_def)

lemma last_key_length_last_or:
  "last_key_length as d = last_or d [AttrVal a. a \<leftarrow> as, AttrType a = AttributeKeyLength]"
  by (induction as rule: rev_induct) (simp_all add: last_key_length_def)

lemma fold_key_length:
  "EncrKeyLen (best (fold (match_transform pm) ts (start_match p))) = offered_key_length (SupportedEncr pm) ts"
proof (induction ts rule: rev_induct)
  case Nil
  show ?case by (simp add: start_match_def offered_key_length_def)
next
  case (snoc t ts)
  show ?case
    using snoc.IH
    by (simp add: match_transform_def Let_def transform_types offered_key_length_def last_or_append
        last_key_length_last_or)
qed

lemma matchProposal_chosen: "matchProposal pm p = (if acceptable pm p then Some (chosen pm p) else None)"
proof (cases "matchProposal pm p")
  case None
  then show ?thesis by (simp flip: matchProposal_acceptable)
next
  case (Some m)
  then have m: "m = best (fold (match_transform pm) (Transforms p) (start_match p))"
    by (auto simp: matchProposal_def Let_def split: if_splits)
  have "EncrKeyLen m = EncrKeyLen (chosen pm p)"
    unfolding m by (simp add: fold_key_length chosen_def)
  with matchProposal_fields [OF Some] have "m = chosen pm p"
    by (simp add: chosen_def)
  moreover have "acceptable pm p" using Some by (simp flip: matchProposal_acceptable)
  ultimately show ?thesis using Some by simp
qed

text \<open>
  Property C30: SelectBestProposal returns the first acceptable proposal of the list with the last supported
  algorithm of each type that it offers, and nothing when no proposal is acceptable.
\<close>

theorem best_proposal_is_first_acceptable:
  "SelectBestProposal pm ps = map_option (chosen pm) (find (acceptable pm) ps)"
  by (induction ps) (simp_all add: matchProposal_chosen)

subsection \<open>A cipher without integrity\<close>

text \<open>
  The default algorithms accept an ESP proposal with CBC encryption and the integrity algorithm
  NONE: what such a proposal selects is neither an AEAD cipher nor has an integrity algorithm.
\<close>

theorem unauthenticated_proposal_is_selected:
  assumes "ProposalProtocol p = ProtoESP"
    and "map (\<lambda>t. (TransformType t, TransformID t)) (Transforms p) =
      [(TransformTypeEncr, ENCR_AES_CBC), (TransformTypeInteg, AUTH_NONE)]"
  shows "\<exists>m. SelectBestProposal DefaultProposalMatcher (p # ps) = Some m \<and>
    \<not> isAEAD (Encr m) \<and> Integ m = AUTH_NONE"
proof -
  obtain t u where ts: "Transforms p = [t, u]"
    and t: "TransformType t = TransformTypeEncr" "TransformID t = ENCR_AES_CBC"
    and u: "TransformType u = TransformTypeInteg" "TransformID u = AUTH_NONE"
    using assms(2) by (auto simp: map_eq_Cons_conv)
  have e: "offered TransformTypeEncr (SupportedEncr DefaultProposalMatcher) (Transforms p) = [ENCR_AES_CBC]"
    and i: "offered TransformTypeInteg (SupportedInteg DefaultProposalMatcher) (Transforms p) = [AUTH_NONE]"
    by (simp_all add: offered_def ts t u DefaultProposalMatcher_def) (simp_all add: transform_types)
  have "acceptable DefaultProposalMatcher p"
    by (simp add: acceptable_def e i assms(1))
  moreover have "\<not> isAEAD (Encr (chosen DefaultProposalMatcher p))" "Integ (chosen DefaultProposalMatcher p) = AUTH_NONE"
    by (simp_all add: chosen_def e i last_or_def)
      (simp add: isAEAD_def ENCR_AES_CBC_def ENCR_AES_GCM_8_def ENCR_AES_GCM_12_def ENCR_AES_GCM_16_def
        ENCR_AES_CCM_8_def ENCR_AES_CCM_12_def ENCR_AES_CCM_16_def)
  ultimately show ?thesis by (simp add: matchProposal_chosen)
qed

definition bare_transform :: "byte \<Rightarrow> u16 \<Rightarrow> transform" where
  "bare_transform typ i = \<lparr>LastTransform = False, TransformType = typ, TransformID = i, Attributes = []\<rparr>"

theorem unauthenticated_proposal_is_selected_witness:
  "\<exists>m. SelectBestProposal DefaultProposalMatcher
      [\<lparr>LastProposal = True, ProposalNum = 1, ProposalProtocol = ProtoESP, ProposalSPI = [1, 2, 3, 4],
        Transforms = [bare_transform TransformTypeEncr ENCR_AES_CBC, bare_transform TransformTypeInteg AUTH_NONE]\<rparr>]
      = Some m \<and> \<not> isAEAD (Encr m) \<and> Integ m = AUTH_NONE"
  by (rule unauthenticated_proposal_is_selected) (simp_all add: bare_transform_def)

subsection \<open>What this end offers\<close>

lemmas offer_defs =
  CreateMultiProposalIKE_def CreateMultiProposalESP_def NewProposal_def AddTransform_def

lemma own_transform_fits:
  "transform_fits \<lparr>LastTransform = b, TransformType = typ, TransformID = i, Attributes = []\<rparr>"
  "transform_fits \<lparr>LastTransform = b, TransformType = typ, TransformID = i,
     Attributes = [\<lparr>AttrType = AttributeKeyLength, AttrValue = [], AttrVal = v\<rparr>]\<rparr>"
  by (simp_all add: transform_fits_def attribute_fits_def encode_transform_length encode_attribute_def
      AttributeKeyLength_def)

lemma own_transform_length:
  "length (encode_transform \<lparr>LastTransform = b, TransformType = typ, TransformID = i, Attributes = []\<rparr>) = 8"
  "length (encode_transform \<lparr>LastTransform = b, TransformType = typ, TransformID = i,
     Attributes = [\<lparr>AttrType = AttributeKeyLength, AttrValue = [], AttrVal = v\<rparr>]\<rparr>) = 12"
  by (simp_all add: encode_transform_length encode_attribute_def)

lemma own_offer_fits:
  assumes "length spi < 256"
  shows "list_all proposal_fits (CreateMultiProposalIKE spi)" "list_all proposal_fits (CreateMultiProposalESP spi)"
  using assms
  by (simp_all add: offer_defs proposal_fits_def own_transform_fits encode_proposal_length mark_transforms_def
      own_transform_length)

lemma own_first_acceptable:
  "acceptable DefaultProposalMatcher (hd (normal_proposals (CreateMultiProposalIKE spi)))"
  "acceptable DefaultProposalMatcher (hd (normal_proposals (CreateMultiProposalESP spi)))"
  by (simp_all add: offer_defs normal_proposals_def mark_proposals_def normal_proposal_def mark_transforms_def
      acceptable_def offered_def transform_types DefaultProposalMatcher_def ProtoIKE_def ProtoESP_def isAEAD_def)

lemma own_first_chosen:
  "chosen DefaultProposalMatcher (hd (normal_proposals (CreateMultiProposalIKE spi))) =
     \<lparr>MatchedNum = 1, MatchedProtocol = ProtoIKE, MatchedSPI = spi, Encr = ENCR_AES_GCM_16,
      EncrKeyLen = 256, Integ = 0, PRF = PRF_HMAC_SHA2_384, DH = MODP_3072_bit\<rparr>"
  "chosen DefaultProposalMatcher (hd (normal_proposals (CreateMultiProposalESP spi))) =
     \<lparr>MatchedNum = 1, MatchedProtocol = ProtoESP, MatchedSPI = spi, Encr = ENCR_AES_GCM_16,
      EncrKeyLen = 256, Integ = 0, PRF = 0, DH = 0\<rparr>"
  by (simp_all add: offer_defs normal_proposals_def mark_proposals_def normal_proposal_def mark_transforms_def
      chosen_def offered_def offered_key_length_def last_or_def transform_types DefaultProposalMatcher_def)

lemma SelectBestProposal_first:
  "ps \<noteq> [] \<Longrightarrow> acceptable pm (hd ps) \<Longrightarrow> SelectBestProposal pm ps = Some (chosen pm (hd ps))"
  by (cases ps) (simp_all add: matchProposal_chosen)

text \<open>
  What this end offers survives the wire: a peer with the default algorithms that reads it
  chooses the first proposal, AES-GCM with 256 bits, and for an IKE SA SHA2-384 and the 3072 bit group.
\<close>

theorem own_offer_is_chosen:
  assumes "length spi < 256"
  shows "\<exists>ike esp.
    DecodePayloadSA (encode_sa (CreateMultiProposalIKE spi)) = Inr ike \<and>
    SelectBestProposal DefaultProposalMatcher ike =
      Some \<lparr>MatchedNum = 1, MatchedProtocol = ProtoIKE, MatchedSPI = spi, Encr = ENCR_AES_GCM_16,
        EncrKeyLen = 256, Integ = 0, PRF = PRF_HMAC_SHA2_384, DH = MODP_3072_bit\<rparr> \<and>
    DecodePayloadSA (encode_sa (CreateMultiProposalESP spi)) = Inr esp \<and>
    SelectBestProposal DefaultProposalMatcher esp =
      Some \<lparr>MatchedNum = 1, MatchedProtocol = ProtoESP, MatchedSPI = spi, Encr = ENCR_AES_GCM_16,
        EncrKeyLen = 256, Integ = 0, PRF = 0, DH = 0\<rparr>"
proof -
  have ne: "normal_proposals (CreateMultiProposalIKE spi) \<noteq> []" "normal_proposals (CreateMultiProposalESP spi) \<noteq> []"
    by (simp_all add: normal_proposals_def mark_proposals_def offer_defs)
  show ?thesis
    using own_offer_fits [OF assms, THEN decode_encode_sa]
      SelectBestProposal_first [OF ne(1) own_first_acceptable(1)]
      SelectBestProposal_first [OF ne(2) own_first_acceptable(2)]
    by (simp add: own_first_chosen)
qed

theorem own_offer_is_chosen_witness:
  "\<exists>ike esp.
    DecodePayloadSA (encode_sa (CreateMultiProposalIKE [])) = Inr ike \<and>
    SelectBestProposal DefaultProposalMatcher ike =
      Some \<lparr>MatchedNum = 1, MatchedProtocol = ProtoIKE, MatchedSPI = [], Encr = ENCR_AES_GCM_16,
        EncrKeyLen = 256, Integ = 0, PRF = PRF_HMAC_SHA2_384, DH = MODP_3072_bit\<rparr> \<and>
    DecodePayloadSA (encode_sa (CreateMultiProposalESP [])) = Inr esp \<and>
    SelectBestProposal DefaultProposalMatcher esp =
      Some \<lparr>MatchedNum = 1, MatchedProtocol = ProtoESP, MatchedSPI = [], Encr = ENCR_AES_GCM_16,
        EncrKeyLen = 256, Integ = 0, PRF = 0, DH = 0\<rparr>"
  by (rule own_offer_is_chosen) simp

section \<open>NAT detection\<close>

text \<open>
  \<^verbatim>\<open>vowifi-go/runtimehost/ikev2/nat_detection.go\<close>.  SHA-1 of the standard library is the argument \<open>sha1\<close>.
\<close>

definition nat_detection_input :: "u64 \<Rightarrow> u64 \<Rightarrow> byte list \<Rightarrow> u16 \<Rightarrow> byte list" where
  "nat_detection_input spiI spiR ip port = put64 spiI @ put64 spiR @ ip @ put16 port"

definition CalculateNATDetectionHash ::
  "(byte list \<Rightarrow> byte list) \<Rightarrow> u64 \<Rightarrow> u64 \<Rightarrow> byte list \<Rightarrow> u16 \<Rightarrow> byte list" where
  "CalculateNATDetectionHash sha1 spiI spiR ip port = sha1 (nat_detection_input spiI spiR ip port)"

definition CreateNATDetectionNotify :: "u16 \<Rightarrow> byte list \<Rightarrow> payload" where
  "CreateNATDetectionNotify notifyType hash = PayloadNotify ProtoIKE [] notifyType hash"

lemma put64_inj: "put64 a = put64 b \<longleftrightarrow> a = b"
  by (metis get64_put64)

lemma put16_inj: "put16 a = put16 b \<longleftrightarrow> a = b"
  by (metis get16_put16)

text \<open>Different endpoints or SPIs are never hashed as the same bytes, whatever the lengths of the addresses.\<close>

lemma nat_detection_input_inj:
  "nat_detection_input i r ip port = nat_detection_input i' r' ip' port' \<longleftrightarrow>
     i = i' \<and> r = r' \<and> ip = ip' \<and> port = port'"
  by (auto simp: nat_detection_input_def put64_inj put16_inj simp flip: append_assoc)

lemma nat_notify_read_back:
  assumes "encode_payload (CreateNATDetectionNotify t h) = Inr body"
  shows "decode_body N_payload body = Inr (CreateNATDetectionNotify t h)"
  using assms
  by (auto simp: CreateNATDetectionNotify_def payload_types decode_body_def DecodePayloadNotify_def ike_wire)

end
