(* ===== verification/SimAka.thy ===== *)
theory SimAka
  imports SmsCodec MbimServices
begin

section \<open>Authentication with the card\<close>

text \<open>
  \<^verbatim>\<open>internal/sim\<close> (\<^verbatim>\<open>apdu.go\<close>, \<^verbatim>\<open>aka_provider.go\<close>, \<^verbatim>\<open>factory.go\<close>) and
  \<^verbatim>\<open>vowifi-go/engine/swu/akabridge\<close>: the AKA challenge of the network goes to the USIM or the ISIM of the
  card over a logical channel, or to the authentication service of an MBIM modem; what comes back is
  handed to the IKE daemon through the bridge.  The modem is an interface: any function of the state
  \<open>'s\<close>.  A Go function that returns a value and an error returns a pair here, because callers use the
  value of a failed call (the token of a synchronisation failure).  Log lines and the source labels
  that only appear in them are left out.
\<close>

subsection \<open>Types\<close>

record aka_result =
  RES :: "byte list"
  CK :: "byte list"
  IK :: "byte list"
  AUTS :: "byte list"

definition no_result :: aka_result where
  "no_result = \<lparr>RES = [], CK = [], IK = [], AUTS = []\<rparr>"

text \<open>An error of the modem either is a \<^verbatim>\<open>*mbim.StatusError\<close> or is not.\<close>

datatype modem_error = MbimStatus u32 | OtherModemError

datatype aka_error =
    RandLength nat
  | AutnLength nat
  | NotSuccess byte byte
  | ResponseTooShort nat
  | BodyTooShort
  | LengthMismatch
  | SuccessNotParsed
  | ErrSyncFailure
  | MacFailure
  | UnknownTag byte
  | AidNotReady
  | AidEmpty
  | AidPrefix
  | AidNotFull
  | OpenFailed modem_error
  | TransmitFailed modem_error
  | HexFailed
  | GetResponseTooShort nat
  | BothVariantsFailed aka_error aka_error
  | BackendFailed modem_error

type_synonym aka = "aka_result \<times> aka_error option"

text \<open>What Go's \<^verbatim>\<open>errors.As\<close> finds: wrapping with \<^verbatim>\<open>%w\<close> keeps the cause, formatting with \<^verbatim>\<open>%v\<close> loses it.\<close>

fun status_of :: "aka_error \<Rightarrow> u32 option" where
  "status_of (OpenFailed (MbimStatus s)) = Some s"
| "status_of (TransmitFailed (MbimStatus s)) = Some s"
| "status_of (BackendFailed (MbimStatus s)) = Some s"
| "status_of e = None"

subsection \<open>Commands and responses of the card\<close>

definition BuildUSIMAuthAPDU :: "byte list \<Rightarrow> byte list \<Rightarrow> bool \<Rightarrow> aka_error + byte list" where
  "BuildUSIMAuthAPDU rand16 autn16 includeLe =
     (if length rand16 \<noteq> 16 then Inl (RandLength (length rand16))
      else if length autn16 \<noteq> 16 then Inl (AutnLength (length autn16))
      else
        let authData = [0x10] @ rand16 @ [0x10] @ autn16 in
        Inr ([0x00, 0x88, 0x00, 0x81, of_nat (length authData)] @ authData @ (if includeLe then [0x00] else [])))"

definition parseTLVData :: "byte list \<Rightarrow> aka_error + byte list" where
  "parseTLVData body =
     (case body of
        tag # l # rest \<Rightarrow> if length rest < unat l then Inl LengthMismatch else Inr (take (unat l) rest)
      | _ \<Rightarrow> Inl BodyTooShort)"

text \<open>A position in the body is the rest of the body; the last two cases of an empty rest are excluded
  by the test before.\<close>

definition parseUSIMAuthDB :: "byte list \<Rightarrow> aka_result option" where
  "parseUSIMAuthDB body =
     (case body of
        tag # resLen # rest \<Rightarrow>
          if tag \<noteq> 0xDB then None
          else if unat resLen = 0 \<or> length rest < unat resLen + 1 then None
          else
            let res = take (unat resLen) rest; remain = drop (unat resLen) rest in
            if length remain = 32
            then Some \<lparr>RES = res, CK = take 16 remain, IK = drop 16 remain, AUTS = []\<rparr>
            else (case remain of
                ckLen # rest \<Rightarrow>
                  if unat ckLen = 0 \<or> length rest < unat ckLen + 1 then None
                  else (case drop (unat ckLen) rest of
                      ikLen # rest' \<Rightarrow>
                        if unat ikLen = 0 \<or> length rest' < unat ikLen then None
                        else Some \<lparr>RES = res, CK = take (unat ckLen) rest, IK = take (unat ikLen) rest', AUTS = []\<rparr>
                    | [] \<Rightarrow> None)
              | [] \<Rightarrow> None)
      | _ \<Rightarrow> None)"

definition ParseUSIMAuthResponse :: "byte list \<Rightarrow> aka" where
  "ParseUSIMAuthResponse resp =
     (let n = length resp; failed = (\<lambda>e. (no_result, Some e)) in
      if n = 2 then failed (NotSuccess (resp ! 0) (resp ! 1))
      else if n < 4 then failed (ResponseTooShort n)
      else
        let sw1 = resp ! (n - 2); sw2 = resp ! (n - 1); body = take (n - 2) resp in
        if sw1 \<noteq> 0x90 \<or> sw2 \<noteq> 0x00 then failed (NotSuccess sw1 sw2)
        else if length body < 2 then failed BodyTooShort
        else
          let tag = body ! 0 in
          if tag = 0xDB then
            (case parseUSIMAuthDB body of
               Some out \<Rightarrow> (out, None)
             | None \<Rightarrow>
                 (case parseTLVData body of
                    Inl e \<Rightarrow> failed e
                  | Inr data \<Rightarrow>
                      (case parseUSIMAuthDB (0xDB # data) of
                         Some out \<Rightarrow> (out, None)
                       | None \<Rightarrow> failed SuccessNotParsed)))
          else if tag = 0xDC then
            (case parseTLVData body of
               Inl e \<Rightarrow> failed e
             | Inr data \<Rightarrow> (no_result\<lparr>AUTS := data\<rparr>, Some ErrSyncFailure))
          else if tag = 0xDD then failed MacFailure
          else
            (case parseTLVData body of
               Inl e \<Rightarrow> failed e
             | Inr _ \<Rightarrow> failed (UnknownTag tag)))"

subsection \<open>The modem\<close>

text \<open>The methods of \<^verbatim>\<open>ATModem\<close> that are used here; a modem that is no \<^verbatim>\<open>LogicalChannelAIDResolver\<close> has
  no resolver.\<close>

record 's modem =
  OpenLogicalChannel :: "string \<Rightarrow> 's \<Rightarrow> (modem_error + int) \<times> 's"
  CloseLogicalChannel :: "int \<Rightarrow> 's \<Rightarrow> 's"
  TransmitAPDU :: "int \<Rightarrow> string \<Rightarrow> 's \<Rightarrow> (modem_error + string) \<times> 's"
  ResolveLogicalChannelAID :: "(string \<Rightarrow> string \<Rightarrow> 's \<Rightarrow> (modem_error + string) \<times> 's) option"

definition usimAIDPrefix :: string where "usimAIDPrefix = ''A0000000871002''"
definition isimAIDPrefix :: string where "isimAIDPrefix = ''A0000000871004''"

definition validateFullAID :: "string \<Rightarrow> string \<Rightarrow> aka_error + string" where
  "validateFullAID aid expectedPrefix =
     (let aid = ToUpper (TrimSpace aid) in
      if aid = [] then Inl AidEmpty
      else if \<not> prefix expectedPrefix aid then Inl AidPrefix
      else if length aid \<le> length expectedPrefix then Inl AidNotFull
      else Inr aid)"

definition resolveLogicalChannelAID ::
    "'s modem \<Rightarrow> string \<Rightarrow> string \<Rightarrow> string \<Rightarrow> 's \<Rightarrow> (aka_error + string) \<times> 's" where
  "resolveLogicalChannelAID m app fallbackAID expectedPrefix st =
     (let fallback = ToUpper (TrimSpace fallbackAID) in
      case ResolveLogicalChannelAID m of
        None \<Rightarrow> (Inl AidNotReady, st)
      | Some resolve \<Rightarrow>
          (case resolve app fallback st of
             (Inl e, st') \<Rightarrow> (Inl AidNotReady, st')
           | (Inr aid, st') \<Rightarrow>
               (case validateFullAID aid expectedPrefix of
                  Inl e \<Rightarrow> (Inl AidNotReady, st')
                | Inr full \<Rightarrow> (Inr full, st'))))"

definition openLogicalChannelWithCandidates :: "'s modem \<Rightarrow> string \<Rightarrow> 's \<Rightarrow> (modem_error + int) \<times> 's" where
  "openLogicalChannelWithCandidates m primaryAID st = OpenLogicalChannel m (ToUpper (TrimSpace primaryAID)) st"

definition send_apdu :: "'s modem \<Rightarrow> int \<Rightarrow> byte list \<Rightarrow> 's \<Rightarrow> (aka_error + byte list) \<times> 's" where
  "send_apdu m channel cmd st =
     (case TransmitAPDU m channel (hex_encode cmd) st of
        (Inl e, st') \<Rightarrow> (Inl (TransmitFailed e), st')
      | (Inr respHex, st') \<Rightarrow>
          (case hex_decode respHex of None \<Rightarrow> (Inl HexFailed, st') | Some resp \<Rightarrow> (Inr resp, st')))"

text \<open>Body and status of a response; a status \<^verbatim>\<open>61xx\<close> asks for the response to be fetched.\<close>

definition sendAPDUOnLogicalChannel ::
    "'s modem \<Rightarrow> int \<Rightarrow> byte list \<Rightarrow> 's \<Rightarrow> (aka_error + byte list \<times> byte \<times> byte) \<times> 's" where
  "sendAPDUOnLogicalChannel m channel apdu st =
     (case send_apdu m channel apdu st of
        (Inl e, st) \<Rightarrow> (Inl e, st)
      | (Inr resp, st) \<Rightarrow>
          let n = length resp in
          if n < 2 then (Inl (ResponseTooShort n), st)
          else
            let sw1 = resp ! (n - 2); sw2 = resp ! (n - 1); body = take (n - 2) resp in
            if sw1 = 0x61 \<and> sw2 \<noteq> 0x00 then
              (case send_apdu m channel [0x00, 0xC0, 0x00, 0x00, sw2] st of
                 (Inl e, st) \<Rightarrow> (Inl e, st)
               | (Inr resp2, st) \<Rightarrow>
                   let k = length resp2 in
                   if k < 2 then (Inl (GetResponseTooShort k), st)
                   else (Inr (take (k - 2) resp2, resp2 ! (k - 2), resp2 ! (k - 1)), st))
            else (Inr (body, sw1, sw2), st))"

definition sendLogicalAuth :: "'s modem \<Rightarrow> int \<Rightarrow> byte list \<Rightarrow> 's \<Rightarrow> aka \<times> 's" where
  "sendLogicalAuth m channel apdu st =
     (case sendAPDUOnLogicalChannel m channel apdu st of
        (Inl e, st') \<Rightarrow> ((no_result, Some e), st')
      | (Inr (body, sw1, sw2), st') \<Rightarrow> (ParseUSIMAuthResponse (body @ [sw1, sw2]), st'))"

text \<open>What both applications do on the open channel: the command without \<^verbatim>\<open>Le\<close>, then with it.\<close>

definition auth_on_channel :: "'s modem \<Rightarrow> int \<Rightarrow> byte list \<Rightarrow> byte list \<Rightarrow> 's \<Rightarrow> aka \<times> 's" where
  "auth_on_channel m ch rand16 autn16 st =
     (case BuildUSIMAuthAPDU rand16 autn16 False of
        Inl e \<Rightarrow> ((no_result, Some e), st)
      | Inr apdu \<Rightarrow>
          (case sendLogicalAuth m ch apdu st of
             ((res, None), st) \<Rightarrow> ((res, None), st)
           | ((res, Some err), st) \<Rightarrow>
               if err = ErrSyncFailure then ((res, Some err), st)
               else
                 (case BuildUSIMAuthAPDU rand16 autn16 True of
                    Inl e \<Rightarrow> ((no_result, Some e), st)
                  | Inr apdu2 \<Rightarrow>
                      (case sendLogicalAuth m ch apdu2 st of
                         ((res2, None), st) \<Rightarrow> ((res2, None), st)
                       | ((res2, Some err2), st) \<Rightarrow>
                           if err2 = ErrSyncFailure then ((res2, Some err2), st)
                           else ((no_result, Some (BothVariantsFailed err err2)), st)))))"

text \<open>The deferred call closes the channel on every path after it was opened; its error is only logged.\<close>

definition calculateAKAOnUSIM :: "'s modem \<Rightarrow> byte list \<Rightarrow> byte list \<Rightarrow> 's \<Rightarrow> aka \<times> 's" where
  "calculateAKAOnUSIM m rand16 autn16 st =
     (case resolveLogicalChannelAID m ''usim'' usimAIDPrefix usimAIDPrefix st of
        (Inl e, st) \<Rightarrow> ((no_result, Some e), st)
      | (Inr usimAID, st) \<Rightarrow>
          (case openLogicalChannelWithCandidates m usimAID st of
             (Inl e, st) \<Rightarrow> ((no_result, Some (OpenFailed e)), st)
           | (Inr ch, st) \<Rightarrow>
               (case auth_on_channel m ch rand16 autn16 st of
                  (r, st) \<Rightarrow> (r, CloseLogicalChannel m ch st))))"

definition calculateAKAOnISIMLogicalChannel :: "'s modem \<Rightarrow> byte list \<Rightarrow> byte list \<Rightarrow> 's \<Rightarrow> aka \<times> 's" where
  "calculateAKAOnISIMLogicalChannel m rand16 autn16 st =
     (case resolveLogicalChannelAID m ''isim'' isimAIDPrefix isimAIDPrefix st of
        (Inl e, st) \<Rightarrow> ((no_result, Some e), st)
      | (Inr isimAID, st) \<Rightarrow>
          (case OpenLogicalChannel m isimAID st of
             (Inl e, st) \<Rightarrow> ((no_result, Some (OpenFailed e)), st)
           | (Inr ch, st) \<Rightarrow>
               (case auth_on_channel m ch rand16 autn16 st of
                  (r, st) \<Rightarrow> (r, CloseLogicalChannel m ch st))))"

subsection \<open>The choice of the application\<close>

record aka_path_profile =
  SelectedApp :: string
  Preference :: string
  Fallback :: bool

definition no_profile :: aka_path_profile where
  "no_profile = \<lparr>SelectedApp = [], Preference = [], Fallback = False\<rparr>"

definition AKAAppPreferenceUSIM :: string where "AKAAppPreferenceUSIM = ''usim''"
definition AKAAppPreferenceAuto :: string where "AKAAppPreferenceAuto = ''auto''"
definition AKAAppPreferenceISIM :: string where "AKAAppPreferenceISIM = ''isim''"
definition AKAAppPreferenceISIMStrict :: string where "AKAAppPreferenceISIMStrict = ''isim_strict''"

definition normal_preference :: "string \<Rightarrow> string" where
  "normal_preference preference =
     (let pref = ToLower (TrimSpace preference);
          pref = (if pref = [] then AKAAppPreferenceUSIM else pref) in
      if pref \<noteq> AKAAppPreferenceAuto \<and> pref \<noteq> AKAAppPreferenceISIM \<and> pref \<noteq> AKAAppPreferenceISIMStrict
      then AKAAppPreferenceUSIM else pref)"

definition CalculateAKAWithPreference ::
    "'s modem \<Rightarrow> byte list \<Rightarrow> byte list \<Rightarrow> string \<Rightarrow> 's \<times> aka_path_profile \<Rightarrow> aka \<times> 's \<times> aka_path_profile" where
  "CalculateAKAWithPreference m rand16 autn16 preference st0 =
     (let pref = normal_preference preference; st = fst st0; profile = snd st0 in
      if pref = AKAAppPreferenceUSIM then
        (case calculateAKAOnUSIM m rand16 autn16 st of
           ((res, Some err), st) \<Rightarrow>
             if err = ErrSyncFailure then ((res, Some err), st, profile)
             else ((no_result, Some err), st, profile)
         | ((res, None), st) \<Rightarrow>
             ((res, None), st, \<lparr>SelectedApp = ''USIM'', Preference = pref, Fallback = False\<rparr>))
      else
        (case calculateAKAOnISIMLogicalChannel m rand16 autn16 st of
           ((res, None), st) \<Rightarrow>
             ((res, None), st, \<lparr>SelectedApp = ''ISIM'', Preference = pref, Fallback = False\<rparr>)
         | ((res, Some err), st) \<Rightarrow>
             if err = ErrSyncFailure then ((res, Some err), st, profile)
             else if pref = AKAAppPreferenceISIMStrict then ((no_result, Some err), st, profile)
             else
               (case calculateAKAOnUSIM m rand16 autn16 st of
                  ((res, Some err), st) \<Rightarrow>
                    if err = ErrSyncFailure then ((res, Some err), st, profile)
                    else ((no_result, Some err), st, profile)
                | ((res, None), st) \<Rightarrow>
                    ((res, None), st, \<lparr>SelectedApp = ''USIM'', Preference = pref, Fallback = True\<rparr>))))"

subsection \<open>Providers\<close>

text \<open>\<^verbatim>\<open>AKAProvider\<close>, an interface with one method.\<close>

type_synonym 's aka_provider = "byte list \<Rightarrow> byte list \<Rightarrow> 's \<Rightarrow> aka \<times> 's"

definition CalculateAKA :: "'s modem \<Rightarrow> ('s \<times> aka_path_profile) aka_provider" where
  "CalculateAKA m rand16 autn16 st = CalculateAKAWithPreference m rand16 autn16 AKAAppPreferenceUSIM st"

definition CalculateISIMAKA :: "'s modem \<Rightarrow> ('s \<times> aka_path_profile) aka_provider" where
  "CalculateISIMAKA m rand16 autn16 st = CalculateAKAWithPreference m rand16 autn16 AKAAppPreferenceISIMStrict st"

definition WrapPreferredAKAProvider :: "'s modem \<Rightarrow> string \<Rightarrow> ('s \<times> aka_path_profile) aka_provider" where
  "WrapPreferredAKAProvider m preference rand16 autn16 st =
     CalculateAKAWithPreference m rand16 autn16 (TrimSpace preference) st"

text \<open>The authentication service of a backend returns RES, IK, CK and AUTS in this order, and an error.\<close>

type_synonym 's backend_aka =
  "byte list \<Rightarrow> byte list \<Rightarrow> 's \<Rightarrow> (byte list \<times> byte list \<times> byte list \<times> byte list \<times> modem_error option) \<times> 's"

definition mbimAuthSyncFailure :: u32 where "mbimAuthSyncFailure = 35"

definition backendAKAProvider :: "'s backend_aka \<Rightarrow> ('s \<times> aka_path_profile) aka_provider" where
  "backendAKAProvider backend rand16 autn16 st =
     (case backend rand16 autn16 (fst st) of
        ((res, ik, ck, auts, Some err), st') \<Rightarrow>
          if err = MbimStatus mbimAuthSyncFailure \<or> length auts > 0
          then ((no_result\<lparr>AUTS := auts\<rparr>, Some ErrSyncFailure), st', snd st)
          else ((no_result, Some (BackendFailed err)), st', snd st)
      | ((res, ik, ck, auts, None), st') \<Rightarrow> ((\<lparr>RES = res, CK = ck, IK = ik, AUTS = auts\<rparr>, None), st', snd st))"

definition StatusMSNoLogicalChannels :: u32 where "StatusMSNoLogicalChannels = 0x87430001"
definition StatusMSSelectFailed :: u32 where "StatusMSSelectFailed = 0x87430002"
definition StatusMSInvalidLogicalChannel :: u32 where "StatusMSInvalidLogicalChannel = 0x87430003"

definition isUICCChannelOpenError :: "aka_error \<Rightarrow> bool" where
  "isUICCChannelOpenError err =
     (case status_of err of
        None \<Rightarrow> False
      | Some s \<Rightarrow> s \<in> {StatusMSSelectFailed, StatusMSNoLogicalChannels, StatusMSInvalidLogicalChannel})"

definition channelOrAuthAKAProvider :: "'s aka_provider \<Rightarrow> 's aka_provider \<Rightarrow> 's aka_provider" where
  "channelOrAuthAKAProvider channel auth rand16 autn16 st =
     (case channel rand16 autn16 st of
        ((res, None), st) \<Rightarrow> ((res, None), st)
      | ((res, Some err), st) \<Rightarrow>
          if isUICCChannelOpenError err then auth rand16 autn16 st
          else ((no_result, Some err), st))"

text \<open>A worker that cannot return its modem has none.\<close>

record 's aka_worker =
  BackendMode :: string
  MBIMAKAProvider :: "'s backend_aka option"
  MBIMCapability :: "capabilities option"
  RuntimeModem :: "'s modem option"

definition BuildAKAProvider :: "'s aka_worker \<Rightarrow> ('s \<times> aka_path_profile) aka_provider option" where
  "BuildAKAProvider w =
     (if EqualFold (TrimSpace (BackendMode w)) ''mbim'' then
        let mbimAuth = (if AuthAKAUsable (MBIMCapability w)
              then map_option backendAKAProvider (MBIMAKAProvider w) else None) in
        (case RuntimeModem w of
           Some modem \<Rightarrow>
             (case mbimAuth of
                Some auth \<Rightarrow> Some (channelOrAuthAKAProvider (CalculateAKA modem) auth)
              | None \<Rightarrow> Some (CalculateAKA modem))
         | None \<Rightarrow> mbimAuth)
      else map_option CalculateAKA (RuntimeModem w))"

subsection \<open>The bridge to the IKE daemon\<close>

record bridge_request =
  Identity :: "byte list"
  RandField :: "byte list"
  AutnField :: "byte list"

definition readRequest :: "byte list \<Rightarrow> bridge_request option" where
  "readRequest input =
     (case input of
        version # idLen # rest \<Rightarrow>
          if version \<noteq> 1 then None
          else
            let n = unat idLen in
            if length rest < n + 16 + 16 then None
            else Some \<lparr>Identity = take n rest, RandField = take 16 (drop n rest), AutnField = take 16 (drop (n + 16) rest)\<rparr>
      | _ \<Rightarrow> None)"

definition fixedLen :: "byte list \<Rightarrow> nat \<Rightarrow> byte list" where
  "fixedLen b n = take n (b @ replicate n 0)"

definition bridge_success :: "aka_result \<Rightarrow> byte list" where
  "bridge_success result =
     (let res = (if length (RES result) > 16 then take 16 (RES result) else RES result) in
      [0, of_nat (length res)] @ res @ fixedLen (CK result) 16 @ fixedLen (IK result) 16)"

definition bridge_sync_failure :: "aka_result \<Rightarrow> byte list" where
  "bridge_sync_failure result = [1] @ fixedLen (AUTS result) 14"

definition bridge_reply :: "aka \<Rightarrow> byte list" where
  "bridge_reply r =
     (case snd r of
        None \<Rightarrow> bridge_success (fst r)
      | Some err \<Rightarrow> if err = ErrSyncFailure then bridge_sync_failure (fst r) else [2])"

text \<open>The providers registered, and what one connection gets: nothing for a request it cannot read.\<close>

type_synonym 's bridge = "byte list \<Rightarrow> 's aka_provider option"

definition bridge_register :: "byte list \<Rightarrow> 's aka_provider \<Rightarrow> 's bridge \<Rightarrow> 's bridge" where
  "bridge_register identity p b = b(identity \<mapsto> p)"

definition bridge_unregister :: "byte list \<Rightarrow> 's bridge \<Rightarrow> 's bridge" where
  "bridge_unregister identity b = b(identity := None)"

definition bridge_handle :: "'s bridge \<Rightarrow> byte list \<Rightarrow> 's \<Rightarrow> byte list \<times> 's" where
  "bridge_handle b input st =
     (case readRequest input of
        None \<Rightarrow> ([], st)
      | Some req \<Rightarrow>
          (case b (Identity req) of
             None \<Rightarrow> ([3], st)
           | Some p \<Rightarrow> (case p (RandField req) (AutnField req) st of (r, st) \<Rightarrow> (bridge_reply r, st))))"

section \<open>Responses of the card are read back\<close>

text \<open>RES, CK and IK behind their lengths, and what may follow (\<^verbatim>\<open>Kc\<close> of a 2G context).\<close>

definition triple_fields :: "byte list \<Rightarrow> byte list \<Rightarrow> byte list \<Rightarrow> byte list \<Rightarrow> byte list" where
  "triple_fields res ck ik extra =
     [of_nat (length res)] @ res @ [of_nat (length ck)] @ ck @ [of_nat (length ik)] @ ik @ extra"

definition field_fits :: "byte list \<Rightarrow> bool" where
  "field_fits b \<longleftrightarrow> 0 < length b \<and> length b < 256"

lemma parse_triple:
  assumes "field_fits res" "field_fits ck" "field_fits ik" "length ck + length ik + length extra \<noteq> 30"
  shows "parseUSIMAuthDB (0xDB # triple_fields res ck ik extra) = Some \<lparr>RES = res, CK = ck, IK = ik, AUTS = []\<rparr>"
  using assms by (simp add: parseUSIMAuthDB_def triple_fields_def field_fits_def Let_def)

lemma parse_response_parts:
  assumes "2 \<le> length body"
  shows "ParseUSIMAuthResponse (body @ [0x90, 0x00]) =
    (let tag = body ! 0; failed = (\<lambda>e. (no_result, Some e)) in
     if tag = 0xDB then
       (case parseUSIMAuthDB body of
          Some out \<Rightarrow> (out, None)
        | None \<Rightarrow>
            (case parseTLVData body of
               Inl e \<Rightarrow> failed e
             | Inr data \<Rightarrow>
                 (case parseUSIMAuthDB (0xDB # data) of
                    Some out \<Rightarrow> (out, None)
                  | None \<Rightarrow> failed SuccessNotParsed)))
     else if tag = 0xDC then
       (case parseTLVData body of
          Inl e \<Rightarrow> failed e
        | Inr data \<Rightarrow> (no_result\<lparr>AUTS := data\<rparr>, Some ErrSyncFailure))
     else if tag = 0xDD then failed MacFailure
     else (case parseTLVData body of Inl e \<Rightarrow> failed e | Inr _ \<Rightarrow> failed (UnknownTag tag)))"
proof -
  obtain a b rest where "body = a # b # rest"
    using assms by (cases body; cases "tl body") auto
  then show ?thesis by (simp add: ParseUSIMAuthResponse_def Let_def nth_append cong: option.case_cong)
qed

text \<open>
  a success response is read back, with and without an outer length, and so is the token of
  a synchronisation failure.
\<close>

theorem usim_response_round_trip:
  assumes "field_fits res" "field_fits ck" "field_fits ik" "length ck + length ik + length extra \<noteq> 30"
    and "length (triple_fields res ck ik extra) < 256" and "length auts < 256"
  shows "ParseUSIMAuthResponse ([0xDB] @ triple_fields res ck ik extra @ [0x90, 0x00]) =
      (\<lparr>RES = res, CK = ck, IK = ik, AUTS = []\<rparr>, None) \<and>
    ParseUSIMAuthResponse ([0xDB, of_nat (length (triple_fields res ck ik extra))] @ triple_fields res ck ik extra @ [0x90, 0x00]) =
      (\<lparr>RES = res, CK = ck, IK = ik, AUTS = []\<rparr>, None) \<and>
    ParseUSIMAuthResponse ([0xDC, of_nat (length auts)] @ auts @ [0x90, 0x00]) =
      (no_result\<lparr>AUTS := auts\<rparr>, Some ErrSyncFailure)"
proof (intro conjI)
  let ?t = "triple_fields res ck ik extra"
  note triple = parse_triple [OF assms(1-4)]
  have two: "2 \<le> length (0xDB # ?t)" by (simp add: triple_fields_def)
  show "ParseUSIMAuthResponse ([0xDB] @ ?t @ [0x90, 0x00]) = (\<lparr>RES = res, CK = ck, IK = ik, AUTS = []\<rparr>, None)"
    using parse_response_parts [OF two] triple by simp
  have none: "parseUSIMAuthDB (0xDB # of_nat (length ?t) # ?t) = None"
    using assms(5) by (simp add: parseUSIMAuthDB_def)
  have tlv: "parseTLVData (0xDB # of_nat (length ?t) # ?t) = Inr ?t"
    using assms(5) by (simp add: parseTLVData_def)
  show "ParseUSIMAuthResponse ([0xDB, of_nat (length ?t)] @ ?t @ [0x90, 0x00]) =
      (\<lparr>RES = res, CK = ck, IK = ik, AUTS = []\<rparr>, None)"
    using parse_response_parts [of "0xDB # of_nat (length ?t) # ?t"] none tlv triple by simp
  show "ParseUSIMAuthResponse ([0xDC, of_nat (length auts)] @ auts @ [0x90, 0x00]) =
      (no_result\<lparr>AUTS := auts\<rparr>, Some ErrSyncFailure)"
    using assms(6) parse_response_parts [of "0xDC # of_nat (length auts) # auts"] by (simp add: parseTLVData_def)
qed

theorem usim_response_round_trip_witness:
  "ParseUSIMAuthResponse ([0xDB, 43] @ triple_fields (replicate 8 7) (replicate 16 1) (replicate 16 2) [] @ [0x90, 0x00]) =
     (\<lparr>RES = replicate 8 7, CK = replicate 16 1, IK = replicate 16 2, AUTS = []\<rparr>, None)"
  using usim_response_round_trip [of "replicate 8 7" "replicate 16 1" "replicate 16 2" "[]" "replicate 14 9"]
  by (simp add: field_fits_def triple_fields_def)

section \<open>Channels\<close>

text \<open>A modem that records what it is asked; its answers may depend on everything before.\<close>

datatype modem_event =
    Resolved string
  | Opened string "int option"
  | Sent int string
  | Closed int

record modem_script =
  open_answer :: "modem_event list \<Rightarrow> string \<Rightarrow> modem_error + int"
  transmit_answer :: "modem_event list \<Rightarrow> int \<Rightarrow> string \<Rightarrow> modem_error + string"
  resolve_answer :: "(modem_event list \<Rightarrow> string \<Rightarrow> modem_error + string) option"

definition recorded_modem :: "modem_script \<Rightarrow> modem_event list modem" where
  "recorded_modem s =
     \<lparr>OpenLogicalChannel = (\<lambda>aid es.
        let r = open_answer s es aid in (r, es @ [Opened aid (case r of Inl e \<Rightarrow> None | Inr ch \<Rightarrow> Some ch)])),
      CloseLogicalChannel = (\<lambda>ch es. es @ [Closed ch]),
      TransmitAPDU = (\<lambda>ch cmd es. (transmit_answer s es ch cmd, es @ [Sent ch cmd])),
      ResolveLogicalChannelAID =
        map_option (\<lambda>f app fallback es. (f es app, es @ [Resolved app])) (resolve_answer s)\<rparr>"

definition exchanged :: "int \<Rightarrow> nat \<Rightarrow> modem_event list \<Rightarrow> modem_event list \<Rightarrow> bool" where
  "exchanged ch n es es' \<longleftrightarrow> (\<exists>cmds. es' = es @ map (Sent ch) cmds \<and> length cmds \<le> n)"

lemma exchanged_none: "exchanged ch 0 es es"
  by (simp add: exchanged_def)

lemma exchanged_trans:
  assumes "exchanged ch n es es'" and "exchanged ch k es' es''"
  shows "exchanged ch (n + k) es es''"
proof -
  obtain c d where "es' = es @ map (Sent ch) c" "length c \<le> n" "es'' = es' @ map (Sent ch) d" "length d \<le> k"
    using assms by (auto simp: exchanged_def)
  then show ?thesis unfolding exchanged_def by (intro exI [of _ "c @ d"]) simp
qed

lemma exchanged_mono: "exchanged ch n es es' \<Longrightarrow> n \<le> k \<Longrightarrow> exchanged ch k es es'"
  by (auto simp: exchanged_def)

lemma recorded_send: "send_apdu (recorded_modem s) ch cmd es = (r, es') \<Longrightarrow> exchanged ch 1 es es'"
  unfolding exchanged_def
  by (intro exI [of _ "[hex_encode cmd]"]) (auto simp: send_apdu_def recorded_modem_def split: sum.splits option.splits)

lemma recorded_apdu:
  assumes "sendAPDUOnLogicalChannel (recorded_modem s) ch apdu es = (r, es')"
  shows "exchanged ch 2 es es'"
proof -
  obtain r1 es1 where a: "send_apdu (recorded_modem s) ch apdu es = (r1, es1)" by fastforce
  have one: "exchanged ch 1 es es1" using recorded_send [OF a] .
  have "es' = es1 \<or> (\<exists>get r2. send_apdu (recorded_modem s) ch get es1 = (r2, es'))"
    using assms by (auto simp: sendAPDUOnLogicalChannel_def a Let_def split: sum.splits prod.splits if_splits)
  then show ?thesis
    using one exchanged_mono [OF one, of 2] exchanged_trans [OF one recorded_send]
    by (auto simp: numeral_2_eq_2)
qed

lemma recorded_auth:
  assumes "sendLogicalAuth (recorded_modem s) ch apdu es = (r, es')"
  shows "exchanged ch 2 es es'"
proof -
  obtain r1 es1 where a: "sendAPDUOnLogicalChannel (recorded_modem s) ch apdu es = (r1, es1)" by fastforce
  then have "es' = es1" using assms by (auto simp: sendLogicalAuth_def split: sum.splits prod.splits)
  then show ?thesis using recorded_apdu [OF a] by simp
qed

lemma recorded_on_channel:
  assumes "auth_on_channel (recorded_modem s) ch rand16 autn16 es = (r, es')"
  shows "exchanged ch 4 es es'"
proof (cases "\<exists>apdu apdu2. BuildUSIMAuthAPDU rand16 autn16 False = Inr apdu \<and> BuildUSIMAuthAPDU rand16 autn16 True = Inr apdu2")
  case False
  then have "es' = es"
    using assms by (auto simp: auth_on_channel_def BuildUSIMAuthAPDU_def Let_def split: if_splits)
  then show ?thesis using exchanged_mono [OF exchanged_none] by simp
next
  case True
  then obtain apdu apdu2 where b: "BuildUSIMAuthAPDU rand16 autn16 False = Inr apdu"
    "BuildUSIMAuthAPDU rand16 autn16 True = Inr apdu2" by blast
  obtain r1 es1 where a: "sendLogicalAuth (recorded_modem s) ch apdu es = (r1, es1)" by fastforce
  have one: "exchanged ch 2 es es1" using recorded_auth [OF a] .
  have "es' = es1 \<or> (\<exists>r2. sendLogicalAuth (recorded_modem s) ch apdu2 es1 = (r2, es'))"
    using assms by (auto simp: auth_on_channel_def a b split: prod.splits option.splits if_splits)
  then show ?thesis
    using exchanged_mono [OF one, of 4] exchanged_trans [OF one recorded_auth] by auto
qed

text \<open>What one application may do: resolve its identifier, open a channel for it, at most four commands on
  that channel, close it.\<close>

definition app_session :: "string \<Rightarrow> string \<Rightarrow> modem_event list \<Rightarrow> bool" where
  "app_session app pre es \<longleftrightarrow>
     es = [] \<or> es = [Resolved app] \<or>
     (\<exists>aid. prefix pre aid \<and>
        (es = [Resolved app, Opened (ToUpper (TrimSpace aid)) None] \<or> es = [Resolved app, Opened aid None] \<or>
         (\<exists>name ch cmds. name \<in> {aid, ToUpper (TrimSpace aid)} \<and> length cmds \<le> 4 \<and>
            es = [Resolved app, Opened name (Some ch)] @ map (Sent ch) cmds @ [Closed ch])))"

lemma resolved_aid:
  assumes "resolveLogicalChannelAID (recorded_modem s) app f pre es = (r, es')"
  shows "(es' = es \<or> es' = es @ [Resolved app]) \<and> (\<forall>aid. r = Inr aid \<longrightarrow> prefix pre aid \<and> es' = es @ [Resolved app])"
  using assms
  by (auto simp: resolveLogicalChannelAID_def recorded_modem_def validateFullAID_def Let_def
      split: option.splits sum.splits if_splits)

lemma opened_session:
  assumes "prefix pre aid" and "name \<in> {aid, ToUpper (TrimSpace aid)}"
    and "OpenLogicalChannel (recorded_modem s) name (es @ [Resolved app]) = (r, es1)"
    and "(case r of Inl e \<Rightarrow> es' = es1
      | Inr ch \<Rightarrow> \<exists>res es2. auth_on_channel (recorded_modem s) ch rand16 autn16 es1 = (res, es2) \<and> es' = es2 @ [Closed ch])"
  shows "\<exists>d. es' = es @ d \<and> app_session app pre d"
proof (cases r)
  case (Inl e)
  then have "es' = es @ [Resolved app, Opened name None]"
    using assms(3,4) by (auto simp: recorded_modem_def Let_def)
  then show ?thesis using assms(1,2) by (auto simp: app_session_def)
next
  case (Inr ch)
  then have es1: "es1 = es @ [Resolved app, Opened name (Some ch)]"
    using assms(3) by (auto simp: recorded_modem_def Let_def)
  obtain res es2 where a: "auth_on_channel (recorded_modem s) ch rand16 autn16 es1 = (res, es2)" and e: "es' = es2 @ [Closed ch]"
    using assms(4) Inr by auto
  obtain cmds where "es2 = es1 @ map (Sent ch) cmds" "length cmds \<le> 4"
    using recorded_on_channel [OF a] by (auto simp: exchanged_def)
  then show ?thesis
    using assms(1,2)
    by (intro exI [of _ "[Resolved app, Opened name (Some ch)] @ map (Sent ch) cmds @ [Closed ch]"])
      (auto simp: app_session_def e es1)
qed

lemma recorded_close: "CloseLogicalChannel (recorded_modem s) ch es = es @ [Closed ch]"
  by (simp add: recorded_modem_def)

lemma app_session_short: "app_session app pre []" "app_session app pre [Resolved app]"
  by (simp_all add: app_session_def)

lemma usim_session:
  assumes "calculateAKAOnUSIM (recorded_modem s) rand16 autn16 es = (res, es')"
  shows "\<exists>d. es' = es @ d \<and> app_session ''usim'' usimAIDPrefix d"
proof -
  obtain r es1 where a: "resolveLogicalChannelAID (recorded_modem s) ''usim'' usimAIDPrefix usimAIDPrefix es = (r, es1)"
    by fastforce
  show ?thesis
  proof (cases r)
    case (Inl e)
    then have "es' = es1" using assms by (simp add: calculateAKAOnUSIM_def a)
    then show ?thesis using resolved_aid [OF a] app_session_short by fastforce
  next
    case (Inr aid)
    then have p: "prefix usimAIDPrefix aid" and es1: "es1 = es @ [Resolved ''usim'']"
      using resolved_aid [OF a] by simp_all
    obtain ro eo where o: "OpenLogicalChannel (recorded_modem s) (ToUpper (TrimSpace aid)) (es @ [Resolved ''usim'']) = (ro, eo)"
      by fastforce
    have "case ro of Inl e \<Rightarrow> es' = eo
      | Inr ch \<Rightarrow> \<exists>res es2. auth_on_channel (recorded_modem s) ch rand16 autn16 eo = (res, es2) \<and> es' = es2 @ [Closed ch]"
      using assms
      by (auto simp: calculateAKAOnUSIM_def a Inr es1 o openLogicalChannelWithCandidates_def recorded_close
          split: sum.splits prod.splits)
    then show ?thesis using opened_session [OF p _ o] by blast
  qed
qed

lemma isim_session:
  assumes "calculateAKAOnISIMLogicalChannel (recorded_modem s) rand16 autn16 es = (res, es')"
  shows "\<exists>d. es' = es @ d \<and> app_session ''isim'' isimAIDPrefix d"
proof -
  obtain r es1 where a: "resolveLogicalChannelAID (recorded_modem s) ''isim'' isimAIDPrefix isimAIDPrefix es = (r, es1)"
    by fastforce
  show ?thesis
  proof (cases r)
    case (Inl e)
    then have "es' = es1" using assms by (simp add: calculateAKAOnISIMLogicalChannel_def a)
    then show ?thesis using resolved_aid [OF a] app_session_short by fastforce
  next
    case (Inr aid)
    then have p: "prefix isimAIDPrefix aid" and es1: "es1 = es @ [Resolved ''isim'']"
      using resolved_aid [OF a] by simp_all
    obtain ro eo where o: "OpenLogicalChannel (recorded_modem s) aid (es @ [Resolved ''isim'']) = (ro, eo)"
      by fastforce
    have "case ro of Inl e \<Rightarrow> es' = eo
      | Inr ch \<Rightarrow> \<exists>res es2. auth_on_channel (recorded_modem s) ch rand16 autn16 eo = (res, es2) \<and> es' = es2 @ [Closed ch]"
      using assms
      by (auto simp: calculateAKAOnISIMLogicalChannel_def a Inr es1 o recorded_close split: sum.splits prod.splits)
    then show ?thesis using opened_session [OF p _ o] by blast
  qed
qed

text \<open>
  Property C14: whatever the modem answers, an authentication is at most one session with the ISIM followed by
  at most one with the USIM, each with at most four commands, and every channel that was opened is
  closed, after its last command and before another is opened; without a preference for the ISIM it is not
  touched, and under the strict preference the USIM is not.
\<close>

theorem channels_closed_and_bounded:
  "\<exists>isim usim. fst (snd (CalculateAKAWithPreference (recorded_modem s) rand16 autn16 preference ([], profile))) = isim @ usim \<and>
     app_session ''isim'' isimAIDPrefix isim \<and> app_session ''usim'' usimAIDPrefix usim \<and>
     (if normal_preference preference = AKAAppPreferenceUSIM then isim = []
      else if normal_preference preference = AKAAppPreferenceISIMStrict then usim = [] else True)"
proof -
  let ?m = "recorded_modem s" and ?p = "normal_preference preference"
  obtain ri ei where i: "calculateAKAOnISIMLogicalChannel ?m rand16 autn16 [] = (ri, ei)" by fastforce
  obtain ru eu where u: "calculateAKAOnUSIM ?m rand16 autn16 [] = (ru, eu)" by fastforce
  obtain rf ef where f: "calculateAKAOnUSIM ?m rand16 autn16 ei = (rf, ef)" by fastforce
  have si: "app_session ''isim'' isimAIDPrefix ei" using isim_session [OF i] by simp
  have su: "app_session ''usim'' usimAIDPrefix eu" using usim_session [OF u] by simp
  obtain d where d: "ef = ei @ d" "app_session ''usim'' usimAIDPrefix d" using usim_session [OF f] by blast
  show ?thesis
  proof (cases "?p = AKAAppPreferenceUSIM")
    case True
    then have "fst (snd (CalculateAKAWithPreference ?m rand16 autn16 preference ([], profile))) = eu"
      by (auto simp: CalculateAKAWithPreference_def Let_def u split: prod.splits option.splits)
    then show ?thesis using True su app_session_short by (intro exI [of _ "[]"] exI [of _ eu]) simp
  next
    case False
    then have "fst (snd (CalculateAKAWithPreference ?m rand16 autn16 preference ([], profile))) \<in>
        (if ?p = AKAAppPreferenceISIMStrict then {ei} else {ei, ef})"
      by (auto simp: CalculateAKAWithPreference_def Let_def i f split: prod.splits option.splits)
    then consider "fst (snd (CalculateAKAWithPreference ?m rand16 autn16 preference ([], profile))) = ei"
      | "fst (snd (CalculateAKAWithPreference ?m rand16 autn16 preference ([], profile))) = ef"
        "?p \<noteq> AKAAppPreferenceISIMStrict"
      by (auto split: if_splits)
    then show ?thesis
    proof cases
      case 1
      then show ?thesis using False si app_session_short by (intro exI [of _ ei] exI [of _ "[]"]) simp
    next
      case 2
      then show ?thesis using False si d by (intro exI [of _ ei] exI [of _ d]) simp
    qed
  qed
qed

section \<open>The token of a synchronisation failure\<close>

definition bridge_input :: "byte list \<Rightarrow> byte list \<Rightarrow> byte list \<Rightarrow> byte list" where
  "bridge_input identity rand16 autn16 = [1, of_nat (length identity)] @ identity @ rand16 @ autn16"

lemma read_bridge_input:
  assumes "length identity < 256" "length rand16 = 16" "length autn16 = 16"
  shows "readRequest (bridge_input identity rand16 autn16) =
    Some \<lparr>Identity = identity, RandField = rand16, AutnField = autn16\<rparr>"
  using assms by (simp add: readRequest_def bridge_input_def Let_def)

lemma bridge_serves:
  assumes "length identity < 256" "length rand16 = 16" "length autn16 = 16"
  shows "bridge_handle (bridge_register identity p b) (bridge_input identity rand16 autn16) st =
    (bridge_reply (fst (p rand16 autn16 st)), snd (p rand16 autn16 st))"
  using read_bridge_input [OF assms]
  by (simp add: bridge_handle_def bridge_register_def split: prod.split)

text \<open>The provider of a worker is wrapped when the modem also has an authentication service.\<close>

definition wraps_channel :: "'s aka_worker \<Rightarrow> bool" where
  "wraps_channel w \<longleftrightarrow>
     EqualFold (TrimSpace (BackendMode w)) ''mbim'' \<and> AuthAKAUsable (MBIMCapability w) \<and> MBIMAKAProvider w \<noteq> None"

text \<open>
  Property C13: when the card answers the challenge with a synchronisation failure, the IKE daemon gets the
  card's token, except on an MBIM modem that also has an authentication service: there it gets 14 zeros.
\<close>

theorem resync_token_lost:
  assumes "RuntimeModem w = Some modem"
    and "CalculateAKA modem rand16 autn16 st = ((result, Some ErrSyncFailure), st')"
    and "length identity < 256" "length rand16 = 16" "length autn16 = 16"
  shows "\<exists>p. BuildAKAProvider w = Some p \<and>
    bridge_handle (bridge_register identity p b) (bridge_input identity rand16 autn16) st =
      ([1] @ (if wraps_channel w then replicate 14 0 else fixedLen (AUTS result) 14), st')"
proof (cases "wraps_channel w")
  case True
  then obtain backend where "BuildAKAProvider w =
      Some (channelOrAuthAKAProvider (CalculateAKA modem) (backendAKAProvider backend))"
    using assms(1) by (auto simp: wraps_channel_def BuildAKAProvider_def)
  then show ?thesis
    using True assms(2)
    by (simp add: bridge_serves [OF assms(3-5)] channelOrAuthAKAProvider_def isUICCChannelOpenError_def
        bridge_reply_def bridge_sync_failure_def fixedLen_def no_result_def)
next
  case False
  then have "BuildAKAProvider w = Some (CalculateAKA modem)"
    using assms(1) by (auto simp: wraps_channel_def BuildAKAProvider_def Let_def split: option.splits)
  then show ?thesis
    using False assms(2)
    by (simp add: bridge_serves [OF assms(3-5)] bridge_reply_def bridge_sync_failure_def)
qed

text \<open>A modem whose card answers every challenge with one token.\<close>

definition resync_modem :: "byte list \<Rightarrow> unit modem" where
  "resync_modem auts =
     \<lparr>OpenLogicalChannel = (\<lambda>aid st. (Inr 1, st)), CloseLogicalChannel = (\<lambda>ch st. st),
      TransmitAPDU = (\<lambda>ch cmd st. (Inr (hex_encode ([0xDC, of_nat (length auts)] @ auts @ [0x90, 0x00])), st)),
      ResolveLogicalChannelAID = Some (\<lambda>app f st. (Inr (f @ ''FF49''), st))\<rparr>"

lemma resync_modem_answer:
  assumes "length rand16 = 16" "length autn16 = 16" "length auts < 256"
  shows "CalculateAKA (resync_modem auts) rand16 autn16 ((), profile) =
    ((no_result\<lparr>AUTS := auts\<rparr>, Some ErrSyncFailure), (), profile)"
proof -
  have v: "validateFullAID (usimAIDPrefix @ ''FF49'') usimAIDPrefix = Inr (usimAIDPrefix @ ''FF49'')"
    "ToUpper (TrimSpace usimAIDPrefix) = usimAIDPrefix"
    by code_simp+
  have "resolveLogicalChannelAID (resync_modem auts) ''usim'' usimAIDPrefix usimAIDPrefix () =
      (Inr (usimAIDPrefix @ ''FF49''), ())"
    by (simp add: resolveLogicalChannelAID_def resync_modem_def v Let_def)
  moreover have "sendLogicalAuth (resync_modem auts) 1 apdu () = ((no_result\<lparr>AUTS := auts\<rparr>, Some ErrSyncFailure), ())" for apdu
  proof -
    let ?body = "[0xDC, of_nat (length auts)] @ auts"
    have "send_apdu (resync_modem auts) 1 apdu () = (Inr (?body @ [0x90, 0x00]), ())"
      by (simp add: send_apdu_def resync_modem_def flip: append_Cons append_assoc)
    then have "sendAPDUOnLogicalChannel (resync_modem auts) 1 apdu () = (Inr (?body, 0x90, 0x00), ())"
      by (simp add: sendAPDUOnLogicalChannel_def Let_def nth_append)
    then show ?thesis
      using assms(3) parse_response_parts [of ?body]
      by (simp add: sendLogicalAuth_def parseTLVData_def)
  qed
  ultimately have "calculateAKAOnUSIM (resync_modem auts) rand16 autn16 () = ((no_result\<lparr>AUTS := auts\<rparr>, Some ErrSyncFailure), ())"
    using assms(1,2)
    by (simp add: calculateAKAOnUSIM_def openLogicalChannelWithCandidates_def auth_on_channel_def BuildUSIMAuthAPDU_def
        Let_def resync_modem_def)
  moreover have "normal_preference AKAAppPreferenceUSIM = AKAAppPreferenceUSIM" by code_simp
  ultimately show ?thesis by (simp add: CalculateAKA_def CalculateAKAWithPreference_def Let_def)
qed

definition resync_worker :: "string \<Rightarrow> unit aka_worker" where
  "resync_worker mode =
     \<lparr>BackendMode = mode, MBIMAKAProvider = Some (\<lambda>rand autn st. (([], [], [], [], Some OtherModemError), st)),
      MBIMCapability = Some \<lparr>Services = \<lparr>MaxDssSessions = 0, Elements = [\<lparr>ElemService = UUIDAuth, CIDs = [1]\<rparr>]\<rparr>, MBIMExOK = False,
        QMIOverMBIMOK = False, UICCReadOK = False, UICCRecordOK = False, UICCChannelOK = True, AppListOK = True,
        authAKADead = False\<rparr>,
      RuntimeModem = Some (resync_modem (replicate 14 7))\<rparr>"

theorem resync_token_lost_witness:
  "(\<exists>p. BuildAKAProvider (resync_worker ''mbim'') = Some p \<and>
     bridge_handle (bridge_register [65] p Map.empty) (bridge_input [65] (replicate 16 1) (replicate 16 2)) ((), no_profile) =
       (1 # replicate 14 0, (), no_profile)) \<and>
   (\<exists>p. BuildAKAProvider (resync_worker ''qmi'') = Some p \<and>
     bridge_handle (bridge_register [65] p Map.empty) (bridge_input [65] (replicate 16 1) (replicate 16 2)) ((), no_profile) =
       (1 # replicate 14 7, (), no_profile))"
proof -
  have w: "RuntimeModem (resync_worker mode) = Some (resync_modem (replicate 14 7))" for mode
    by (simp add: resync_worker_def)
  have a: "CalculateAKA (resync_modem (replicate 14 7)) (replicate 16 1) (replicate 16 2) ((), no_profile) =
      ((no_result\<lparr>AUTS := replicate 14 7\<rparr>, Some ErrSyncFailure), (), no_profile)"
    by (rule resync_modem_answer) simp_all
  have m: "wraps_channel (resync_worker ''mbim'')" "\<not> wraps_channel (resync_worker ''qmi'')" by code_simp+
  have f: "fixedLen (replicate 14 7) 14 = replicate 14 7" by (simp add: fixedLen_def)
  show ?thesis
    using resync_token_lost [OF w [of "''mbim''"] a, where identity = "[65]" and b = Map.empty]
      resync_token_lost [OF w [of "''qmi''"] a, where identity = "[65]" and b = Map.empty]
    by (simp add: m f)
qed

section \<open>The wire format of the bridge\<close>

datatype bridge_answer =
    Answered "byte list" "byte list" "byte list"
  | Resync "byte list"
  | Refused
  | NoProvider

text \<open>How the comment of the package tells the other side to read a response.\<close>

definition read_answer :: "byte list \<Rightarrow> bridge_answer option" where
  "read_answer b =
     (case b of
        [] \<Rightarrow> None
      | status # rest \<Rightarrow>
          if status = 0 then
            (case rest of
               [] \<Rightarrow> None
             | n # rest \<Rightarrow>
                 if length rest = unat n + 32
                 then Some (Answered (take (unat n) rest) (take 16 (drop (unat n) rest)) (drop (unat n + 16) rest)) else None)
          else if status = 1 then if length rest = 14 then Some (Resync rest) else None
          else if status = 2 then Some Refused
          else if status = 3 then Some NoProvider else None)"

lemma length_fixedLen [simp]: "length (fixedLen b n) = n"
  by (simp add: fixedLen_def)

text \<open>
  Every request the daemon writes is read back and gets a response that has the documented form:
  RES, cut to 16 bytes, with CK and IK, or AUTS, padded or cut to their sizes, or a refusal.
\<close>

theorem bridge_round_trip:
  assumes "length identity < 256" "length rand16 = 16" "length autn16 = 16"
  shows "read_answer (fst (bridge_handle b (bridge_input identity rand16 autn16) st)) =
    Some (case b identity of
       None \<Rightarrow> NoProvider
     | Some p \<Rightarrow>
         (case fst (p rand16 autn16 st) of
            (r, None) \<Rightarrow> Answered (take 16 (RES r)) (fixedLen (CK r) 16) (fixedLen (IK r) 16)
          | (r, Some err) \<Rightarrow> if err = ErrSyncFailure then Resync (fixedLen (AUTS r) 14) else Refused))"
  using assms
  by (auto simp: bridge_handle_def read_bridge_input bridge_reply_def bridge_success_def bridge_sync_failure_def
      read_answer_def Let_def split: option.split prod.split)

theorem bridge_round_trip_witness:
  "read_answer (fst (bridge_handle (bridge_register [65] (backendAKAProvider (\<lambda>r a st. ((replicate 8 3, replicate 16 4, replicate 16 5, [], None), st))) Map.empty)
      (bridge_input [65] (replicate 16 1) (replicate 16 2)) ((), no_profile))) =
    Some (Answered (replicate 8 3) (replicate 16 5) (replicate 16 4))"
  using bridge_round_trip [of "[65]" "replicate 16 1" "replicate 16 2"
      "bridge_register [65] (backendAKAProvider (\<lambda>r a st. ((replicate 8 3, replicate 16 4, replicate 16 5, [], None), st))) Map.empty"
      "((), no_profile)"]
  by (simp add: bridge_register_def backendAKAProvider_def fixedLen_def)

end
