(* ===== verification/SimFiles.thy ===== *)
theory SimFiles
  imports SimAka
begin

unbundle bit_operations_syntax

section \<open>Files of the card\<close>

text \<open>
  \<^verbatim>\<open>internal/simaid\<close> and \<^verbatim>\<open>internal/sim/efdir.go\<close>: the applications of a card are listed in the file
  EF_DIR, as BER-TLV objects; two readers of it, one over a function that transmits commands, one over a
  logical channel of a modem.  A position in a buffer is the rest of the buffer, except in
  \<open>ParseLinearFixedMetaFromFCP\<close>, where the arithmetic on positions can wrap around.
\<close>

subsection \<open>TLV objects\<close>

text \<open>The further bytes of a tag of several bytes, and what follows them.\<close>

fun more_tag :: "byte list \<Rightarrow> byte list \<times> byte list" where
  "more_tag [] = ([], [])"
| "more_tag (b # bs) = (if b AND 0x80 = 0 then ([b], bs) else (case more_tag bs of (t, r) \<Rightarrow> (b # t, r)))"

lemma more_tag_length: "more_tag bs = (t, r) \<Longrightarrow> length r \<le> length bs"
  by (induction bs arbitrary: t r) (auto split: if_splits prod.splits)

text \<open>The length field: the length and the rest, or nothing where the loop ends.\<close>

definition tlv_length :: "byte list \<Rightarrow> (nat \<times> byte list) option" where
  "tlv_length bs =
     (case bs of
        [] \<Rightarrow> None
      | lengthByte # rest \<Rightarrow>
          if lengthByte AND 0x80 \<noteq> 0 then
            let n = unat (lengthByte AND 0x7F) in
            if n = 0 \<or> n > 3 \<or> n > length rest then None
            else Some (be_nat (take n rest), drop n rest)
          else Some (unat lengthByte, rest))"

lemma tlv_length_shrinks: "tlv_length bs = Some (l, rest) \<Longrightarrow> length rest < length bs"
  by (auto simp: tlv_length_def Let_def split: list.splits if_splits)

text \<open>One turn of the loop: tag, value and rest of the buffer.\<close>

definition next_object :: "byte list \<Rightarrow> (byte list \<times> byte list \<times> byte list) option" where
  "next_object data =
     (case dropWhile (\<lambda>b. b = 0x00 \<or> b = 0xFF) data of
        [] \<Rightarrow> None
      | b # rest \<Rightarrow>
          (case (if b AND 0x1F = 0x1F then more_tag rest else ([], rest)) of
             (tail_tag, rest) \<Rightarrow>
               (case tlv_length rest of
                  None \<Rightarrow> None
                | Some (l, rest) \<Rightarrow>
                    if l > length rest then None else Some (b # tail_tag, take l rest, drop l rest))))"

lemma next_object_shrinks:
  assumes "next_object data = Some (tag, value, rest)"
  shows "length value < length data \<and> length rest < length data"
proof -
  obtain b r where d: "dropWhile (\<lambda>b. b = 0x00 \<or> b = 0xFF) data = b # r"
    using assms by (auto simp: next_object_def split: list.splits)
  obtain tail_tag r' where m: "(if b AND 0x1F = 0x1F then more_tag r else ([], r)) = (tail_tag, r')" by fastforce
  have r': "length r' \<le> length r" using m more_tag_length by (auto split: if_splits)
  obtain l r'' where l: "tlv_length r' = Some (l, r'')" "l \<le> length r''"
      "value = take l r''" "rest = drop l r''"
    using assms by (auto simp: next_object_def d m split: option.splits if_splits)
  have "length (b # r) \<le> length data" using length_dropWhile_le [of _ data] d by metis
  then show ?thesis using r' tlv_length_shrinks [OF l(1)] l(2-4) by simp
qed

function CollectTLVValues :: "byte list \<Rightarrow> byte \<Rightarrow> byte list list" where
  "CollectTLVValues data want =
     (case next_object data of
        None \<Rightarrow> []
      | Some (tag, value, rest) \<Rightarrow>
          (if tag = [want] then [value] else []) @
          (if tag \<noteq> [] \<and> hd tag AND 0x20 \<noteq> 0 then CollectTLVValues value want else []) @
          CollectTLVValues rest want)"
  by pat_completeness auto

termination
  by (relation "measure (\<lambda>(data, want). length data)") (auto dest: next_object_shrinks)

declare CollectTLVValues.simps [simp del]

subsection \<open>Status words and applications\<close>

definition APDUStatus :: "byte list \<Rightarrow> (byte \<times> byte) option" where
  "APDUStatus rsp =
     (if length rsp < 2 then None else Some (rsp ! (length rsp - 2), rsp ! (length rsp - 1)))"

definition IsSuccess :: "byte \<Rightarrow> byte \<Rightarrow> bool" where
  "IsSuccess sw1 sw2 \<longleftrightarrow> sw1 = 0x90 \<or> sw1 = 0x62 \<or> sw1 = 0x63"

definition IsSelectSuccess :: "byte \<Rightarrow> byte \<Rightarrow> bool" where
  "IsSelectSuccess sw1 sw2 \<longleftrightarrow> sw1 = 0x90 \<or> sw1 = 0x61 \<or> sw1 = 0x62 \<or> sw1 = 0x63"

datatype 'e file_error =
    TransmitError 'e
  | ShortResponse "byte list"
  | BadStatus byte byte
  | NoAid "'e file_error option"
  | FilePanic

definition ExtractSuccessData :: "byte list \<Rightarrow> 'e file_error + byte list" where
  "ExtractSuccessData rsp =
     (case APDUStatus rsp of
        None \<Rightarrow> Inl (ShortResponse rsp)
      | Some (sw1, sw2) \<Rightarrow>
          if \<not> IsSuccess sw1 sw2 then Inl (BadStatus sw1 sw2) else Inr (take (length rsp - 2) rsp))"

definition usimPrefix :: "byte list" where "usimPrefix = [0xA0, 0x00, 0x00, 0x00, 0x87, 0x10, 0x02]"
definition isimPrefix :: "byte list" where "isimPrefix = [0xA0, 0x00, 0x00, 0x00, 0x87, 0x10, 0x04]"

definition NormalizeHexAID :: "string \<Rightarrow> string" where
  "NormalizeHexAID aid = ToUpper (TrimSpace aid)"

definition IsUSIM :: "byte list \<Rightarrow> bool" where
  "IsUSIM aid \<longleftrightarrow> length aid \<ge> length usimPrefix \<and> take (length usimPrefix) aid = usimPrefix"

definition IsISIM :: "byte list \<Rightarrow> bool" where
  "IsISIM aid \<longleftrightarrow> length aid \<ge> length isimPrefix \<and> take (length isimPrefix) aid = isimPrefix"

definition IsUSIMHex :: "string \<Rightarrow> bool" where
  "IsUSIMHex aid = (case hex_decode (NormalizeHexAID aid) of None \<Rightarrow> False | Some b \<Rightarrow> IsUSIM b)"

definition IsISIMHex :: "string \<Rightarrow> bool" where
  "IsISIMHex aid = (case hex_decode (NormalizeHexAID aid) of None \<Rightarrow> False | Some b \<Rightarrow> IsISIM b)"

definition append_aid :: "byte list \<Rightarrow> byte list list \<Rightarrow> byte list list" where
  "append_aid aid dst = (if aid = [] \<or> list_ex (\<lambda>existing. existing = aid) dst then dst else dst @ [aid])"

definition AppendUniqueAIDs :: "byte list list \<Rightarrow> byte list list \<Rightarrow> byte list list" where
  "AppendUniqueAIDs dst src = fold append_aid src dst"

definition FilterUSIM :: "byte list list \<Rightarrow> byte list list" where
  "FilterUSIM aids = fold (\<lambda>aid out. if IsUSIM aid then AppendUniqueAIDs out [aid] else out) aids []"

definition FilterISIM :: "byte list list \<Rightarrow> byte list list" where
  "FilterISIM aids = fold (\<lambda>aid out. if IsISIM aid then AppendUniqueAIDs out [aid] else out) aids []"

subsection \<open>File control parameters\<close>

text \<open>The length of an object, in a 64-bit integer.\<close>

definition fcp_length :: "byte list \<Rightarrow> u64" where
  "fcp_length bs = fold (\<lambda>b l. push_bit 8 l OR ucast b) bs 0"

text \<open>One turn of the loop from position \<open>i\<close>: \<open>FcpEnd\<close> leaves the loop, \<open>FcpPanic\<close> is a slice whose end is
  before its start or beyond the buffer.\<close>

datatype fcp_step = FcpEnd | FcpPanic | FcpObject byte "byte list" nat

definition fcp_field :: "byte list \<Rightarrow> nat \<Rightarrow> (u64 \<times> nat) option" where
  "fcp_field data i =
     (let first = unat (data ! i); i = i + 1 in
      if first \<ge> 128 then
        let n = first - 128 in
        if n = 0 \<or> i + n > length data then None else Some (fcp_length (subslice data i (i + n)), i + n)
      else Some (of_nat first, i))"

definition fcp_next :: "byte list \<Rightarrow> nat \<Rightarrow> fcp_step" where
  "fcp_next data i =
     (if i + 2 > length data then FcpEnd
      else case fcp_field data (i + 1) of
        None \<Rightarrow> FcpEnd
      | Some (l, k) \<Rightarrow>
          let e = sint (of_nat k + l) in
          if e > int (length data) then FcpEnd
          else if e < int k then FcpPanic
          else FcpObject (data ! i) (subslice data k (nat e)) (nat e))"

lemma fcp_field_progress: "fcp_field data i = Some (l, k) \<Longrightarrow> i < length data \<Longrightarrow> i < k \<and> k \<le> length data"
  by (auto simp: fcp_field_def Let_def split: if_splits)

lemma fcp_next_progress:
  assumes "fcp_next data i = FcpObject tag v j"
  shows "i < j \<and> j \<le> length data"
proof -
  obtain l k where k: "fcp_field data (i + 1) = Some (l, k)" and i: "i + 1 < length data"
    and j: "\<not> sint (of_nat k + l) < int k" "j = nat (sint (of_nat k + l))" "\<not> int (length data) < sint (of_nat k + l)"
    using assms by (auto simp: fcp_next_def Let_def split: if_splits option.splits)
  show ?thesis using fcp_field_progress [OF k i] j by linarith
qed

function fcp_loop :: "byte list \<Rightarrow> nat \<Rightarrow> nat \<times> nat \<Rightarrow> (nat \<times> nat) option" where
  "fcp_loop data i meta =
     (if i \<ge> length data then Some meta
      else case fcp_next data i of
        FcpEnd \<Rightarrow> Some meta
      | FcpPanic \<Rightarrow> None
      | FcpObject tag v j \<Rightarrow>
          if tag = 0x82 \<and> length v \<ge> 5 then
            let m = (be_nat [v ! (length v - 3), v ! (length v - 2)], unat (v ! (length v - 1))) in
            if fst m > 0 then Some m else fcp_loop data j m
          else fcp_loop data j meta)"
  by pat_completeness auto

termination
  by (relation "measure (\<lambda>(data, i, meta). length data - i)") (auto dest: fcp_next_progress)

declare fcp_loop.simps [simp del]

definition ParseLinearFixedMetaFromFCP :: "byte list \<Rightarrow> (nat \<times> nat) option" where
  "ParseLinearFixedMetaFromFCP fcp =
     (if length fcp < 2 then Some (0, 0)
      else
        let total = min (unat (fcp ! 1)) (length fcp - 2);
            data = (if fcp ! 0 = 0x62 then subslice fcp 2 (2 + total) else fcp) in
        fcp_loop data 0 (0, 0))"

subsection \<open>Reading EF_DIR over a transmit function\<close>

type_synonym ('s, 'e) transmit = "byte list \<Rightarrow> 's \<Rightarrow> ('e + byte list) \<times> 's"

definition selectFileWithTransmit ::
    "('s, 'e) transmit \<Rightarrow> byte list \<Rightarrow> 's \<Rightarrow> ('e file_error + byte list) \<times> 's" where
  "selectFileWithTransmit transmit apdu st =
     (case transmit apdu st of
        (Inl e, st) \<Rightarrow> (Inl (TransmitError e), st)
      | (Inr rsp, st) \<Rightarrow>
          (case APDUStatus rsp of
             None \<Rightarrow> (Inl (ShortResponse rsp), st)
           | Some (sw1, sw2) \<Rightarrow>
               if \<not> IsSelectSuccess sw1 sw2 then (Inl (BadStatus sw1 sw2), st) else (Inr rsp, st)))"

definition read_command :: "nat \<Rightarrow> nat \<Rightarrow> byte list" where
  "read_command recordLen rec = [0x00, 0xB2, of_nat rec, 0x04, of_nat recordLen]"

text \<open>The loop over the records, from \<open>record\<close> with \<open>k\<close> records to go.\<close>

fun read_records ::
    "('s, 'e) transmit \<Rightarrow> nat \<Rightarrow> nat \<Rightarrow> nat \<Rightarrow> byte list list \<Rightarrow> 'e file_error option \<Rightarrow> 's \<Rightarrow>
      (byte list list \<times> 'e file_error option) \<times> 's" where
  "read_records transmit recordLen 0 rec aids lastErr st = ((aids, lastErr), st)"
| "read_records transmit recordLen (Suc k) rec aids lastErr st =
     (case transmit (read_command recordLen rec) st of
        (Inl e, st) \<Rightarrow> read_records transmit recordLen k (rec + 1) aids (Some (TransmitError e)) st
      | (Inr rsp, st) \<Rightarrow>
          (case APDUStatus rsp of
             None \<Rightarrow> read_records transmit recordLen k (rec + 1) aids (Some (ShortResponse rsp)) st
           | Some (sw1, sw2) \<Rightarrow>
               if sw1 = 0x6A \<and> (sw2 = 0x83 \<or> sw2 = 0x82) then ((aids, lastErr), st)
               else if \<not> IsSuccess sw1 sw2
               then read_records transmit recordLen k (rec + 1) aids (Some (BadStatus sw1 sw2)) st
               else read_records transmit recordLen k (rec + 1)
                 (AppendUniqueAIDs aids (CollectTLVValues (take (length rsp - 2) rsp) 0x4F)) lastErr st))"

definition selectMF :: "byte list" where "selectMF = [0x00, 0xA4, 0x00, 0x04, 0x02, 0x3F, 0x00]"
definition selectEFDir :: "byte list" where "selectEFDir = [0x00, 0xA4, 0x00, 0x04, 0x02, 0x2F, 0x00]"

definition ReadDirectoryAIDs :: "('s, 'e) transmit \<Rightarrow> 's \<Rightarrow> ('e file_error + byte list list) \<times> 's" where
  "ReadDirectoryAIDs transmit st =
     (case selectFileWithTransmit transmit selectMF st of
        (Inl e, st) \<Rightarrow> (Inl e, st)
      | (Inr _, st) \<Rightarrow>
          (case selectFileWithTransmit transmit selectEFDir st of
             (Inl e, st) \<Rightarrow> (Inl e, st)
           | (Inr rsp, st) \<Rightarrow>
               (case ExtractSuccessData rsp of
                  Inl e \<Rightarrow> (Inl e, st)
                | Inr fcpData \<Rightarrow>
                    (case ParseLinearFixedMetaFromFCP fcpData of
                       None \<Rightarrow> (Inl FilePanic, st)
                     | Some (recordLen, recordCount) \<Rightarrow>
                         let recordLen = (if recordLen > 0xFF then 0 else recordLen);
                             maxRecords = (if recordCount > 0 \<and> recordCount < 32 then recordCount else 32) in
                         (case read_records transmit recordLen maxRecords 1 [] None st of
                            ((aids, lastErr), st) \<Rightarrow>
                              if aids = [] then (Inl (NoAid lastErr), st) else (Inr aids, st))))))"

text \<open>The first application that matches and can be selected; errors on the way are not reported.\<close>

fun SelectAIDWithTransmit ::
    "byte list list \<Rightarrow> (byte list \<Rightarrow> bool) \<Rightarrow> ('s, 'e) transmit \<Rightarrow> 's \<Rightarrow> byte list option \<times> 's" where
  "SelectAIDWithTransmit [] matches transmit st = (None, st)"
| "SelectAIDWithTransmit (aid # aids) matches transmit st =
     (if \<not> matches aid \<or> length aid = 0 \<or> length aid > 0xFF then SelectAIDWithTransmit aids matches transmit st
      else
        (case selectFileWithTransmit transmit ([0x00, 0xA4, 0x04, 0x04, of_nat (length aid)] @ aid) st of
           (Inr _, st) \<Rightarrow> (Some aid, st)
         | (Inl _, st) \<Rightarrow>
             (case selectFileWithTransmit transmit ([0x00, 0xA4, 0x04, 0x00, of_nat (length aid)] @ aid) st of
                (Inr _, st) \<Rightarrow> (Some aid, st)
              | (Inl _, st) \<Rightarrow> SelectAIDWithTransmit aids matches transmit st)))"

subsection \<open>Reading EF_DIR over a logical channel\<close>

function extractAID4F :: "byte list \<Rightarrow> byte list" where
  "extractAID4F rec =
     (case rec of
        tag # ln # rest \<Rightarrow>
          if unat ln > length rest then []
          else
            let val = take (unat ln) rest; next = drop (unat ln) rest in
            if tag = 0x4F then val
            else if tag = 0x61 then (if extractAID4F val \<noteq> [] then extractAID4F val else extractAID4F next)
            else extractAID4F next
      | _ \<Rightarrow> [])"
  by pat_completeness auto

termination
  by (relation "measure length") auto

declare extractAID4F.simps [simp del]

definition selectFileAPDU :: "byte \<Rightarrow> u16 \<Rightarrow> byte list" where
  "selectFileAPDU cla fid = [cla, 0xA4, 0x00, 0x04, 0x02, ucast (drop_bit 8 fid), ucast fid]"

definition selectByAIDAPDU :: "byte \<Rightarrow> byte list \<Rightarrow> byte list" where
  "selectByAIDAPDU cla aid = [cla, 0xA4, 0x04, 0x00, of_nat (length aid)] @ aid"

definition readRecordAPDU :: "byte \<Rightarrow> byte \<Rightarrow> byte list" where
  "readRecordAPDU cla rec = [cla, 0xB2, rec, 0x04, 0x00]"

definition isAPDUSuccess :: "byte \<Rightarrow> byte \<Rightarrow> bool" where
  "isAPDUSuccess sw1 sw2 \<longleftrightarrow> sw1 \<in> {0x90, 0x91, 0x61} \<or> sw2 \<in> {0x90, 0x91, 0x61}"

definition isRecordNotFound :: "byte \<Rightarrow> byte \<Rightarrow> bool" where
  "isRecordNotFound sw1 sw2 \<longleftrightarrow>
     sw1 = 0x6A \<and> (sw2 = 0x83 \<or> sw2 = 0x82) \<or> sw2 = 0x6A \<and> (sw1 = 0x83 \<or> sw1 = 0x82)"

definition efdirTransmit :: "'s modem \<Rightarrow> int \<Rightarrow> byte list \<Rightarrow> 's \<Rightarrow> (aka_error + byte list \<times> byte \<times> byte) \<times> 's" where
  "efdirTransmit m ch apdu st =
     (case TransmitAPDU m ch (ToUpper (hex_encode apdu)) st of
        (Inl e, st) \<Rightarrow> (Inl (TransmitFailed e), st)
      | (Inr respHex, st) \<Rightarrow>
          (case hex_decode respHex of
             None \<Rightarrow> (Inl HexFailed, st)
           | Some resp \<Rightarrow>
               if length resp < 2 then (Inr (resp, 0, 0), st)
               else (Inr (take (length resp - 2) resp, resp ! (length resp - 2), resp ! (length resp - 1)), st)))"

datatype efdir_error =
    BootstrapFailed modem_error
  | SelectMFFailed
  | SelectDirFailed
  | ReadRecordFailed nat aka_error
  | NoApplication

fun efdir_records :: "'s modem \<Rightarrow> int \<Rightarrow> string \<Rightarrow> nat \<Rightarrow> nat \<Rightarrow> 's \<Rightarrow> (efdir_error + string) \<times> 's" where
  "efdir_records m ch want 0 rec st = (Inl NoApplication, st)"
| "efdir_records m ch want (Suc k) rec st =
     (case efdirTransmit m ch (readRecordAPDU 0x00 (of_nat rec)) st of
        (Inl e, st) \<Rightarrow> (Inl (ReadRecordFailed rec e), st)
      | (Inr (body, sw1, sw2), st) \<Rightarrow>
          if isRecordNotFound sw1 sw2 then (Inl NoApplication, st)
          else
            let aid = extractAID4F body; aidHex = ToUpper (hex_encode aid) in
            if length aid > 0 \<and> prefix want aidHex \<and> length aidHex > length want then (Inr aidHex, st)
            else efdir_records m ch want k (rec + 1) st)"

definition select_failed :: "aka_error + byte list \<times> byte \<times> byte \<Rightarrow> bool" where
  "select_failed r = (case r of Inl e \<Rightarrow> True | Inr (body, s1, s2) \<Rightarrow> \<not> isAPDUSuccess s1 s2)"

text \<open>What happens on the open channel; its closing is the deferred call.\<close>

definition efdir_session :: "'s modem \<Rightarrow> int \<Rightarrow> string \<Rightarrow> 's \<Rightarrow> (efdir_error + string) \<times> 's" where
  "efdir_session m ch expectedPrefix st =
     (case efdirTransmit m ch (selectByAIDAPDU 0x00 usimPrefix) st of
        (_, st) \<Rightarrow>
          (case efdirTransmit m ch (selectFileAPDU 0x00 0x3F00) st of
             (r, st) \<Rightarrow>
               if select_failed r then (Inl SelectMFFailed, st)
               else
                 (case efdirTransmit m ch (selectFileAPDU 0x00 0x2F00) st of
                    (r, st) \<Rightarrow>
                      if select_failed r then (Inl SelectDirFailed, st)
                      else efdir_records m ch (ToUpper (TrimSpace expectedPrefix)) 16 1 st)))"

definition ResolveAIDViaEFDIR :: "'s modem \<Rightarrow> string \<Rightarrow> string \<Rightarrow> 's \<Rightarrow> (efdir_error + string) \<times> 's" where
  "ResolveAIDViaEFDIR m bootstrapAID expectedPrefix st =
     (case OpenLogicalChannel m (ToUpper (TrimSpace bootstrapAID)) st of
        (Inl e, st) \<Rightarrow> (Inl (BootstrapFailed e), st)
      | (Inr ch, st) \<Rightarrow>
          (case efdir_session m ch expectedPrefix st of (r, st) \<Rightarrow> (r, CloseLogicalChannel m ch st)))"

subsection \<open>The basic channel of an AT modem\<close>

text \<open>
  \<^verbatim>\<open>internal/modem/commands.go\<close>: what \<^verbatim>\<open>TransmitBasicAPDU\<close> does with a response that asks for another
  command, and the resolver of applications built on it.  \<open>send\<close> stands for the exchange of one
  \<^verbatim>\<open>AT+CSIM\<close> command, which is a call of the modem.
\<close>

datatype 'e basic_error = SendFailed 'e | BadHex | NoLe

type_synonym ('s, 'e) send = "string \<Rightarrow> 's \<Rightarrow> ('e + string) \<times> 's"

fun followUpBasicAPDU ::
    "('s, 'e) send \<Rightarrow> string \<Rightarrow> string \<Rightarrow> nat \<Rightarrow> 's \<Rightarrow> ('e basic_error + string) \<times> 's" where
  "followUpBasicAPDU send originalAPDUHex rspHex remaining st =
     (case hex_decode (TrimSpace rspHex) of
        None \<Rightarrow> (Inl BadHex, st)
      | Some rsp \<Rightarrow>
          if length rsp < 2 then (Inr (TrimSpace rspHex), st)
          else
            (case remaining of
               0 \<Rightarrow> (Inr (TrimSpace rspHex), st)
             | Suc left \<Rightarrow>
                 let sw1 = rsp ! (length rsp - 2); sw2 = rsp ! (length rsp - 1) in
                 if sw1 = 0x61 then
                   let nextAPDU = ''00c00000'' @ ToUpper (hex_encode [sw2]) in
                   (case send nextAPDU st of
                      (Inl e, st) \<Rightarrow> (Inl (SendFailed e), st)
                    | (Inr nextRsp, st) \<Rightarrow> followUpBasicAPDU send nextAPDU nextRsp left st)
                 else if sw1 = 0x6C then
                   (case hex_decode originalAPDUHex of
                      None \<Rightarrow> (Inl BadHex, st)
                    | Some original \<Rightarrow>
                        if length original < 5 then (Inl NoLe, st)
                        else
                          let nextAPDU = ToLower (hex_encode (original[length original - 1 := sw2])) in
                          (case send nextAPDU st of
                             (Inl e, st) \<Rightarrow> (Inl (SendFailed e), st)
                           | (Inr nextRsp, st) \<Rightarrow> followUpBasicAPDU send nextAPDU nextRsp left st))
                 else (Inr (TrimSpace rspHex), st)))"

declare followUpBasicAPDU.simps [simp del]

definition TransmitBasicAPDU :: "('s, 'e) send \<Rightarrow> string \<Rightarrow> 's \<Rightarrow> ('e basic_error + string) \<times> 's" where
  "TransmitBasicAPDU send apduHex st =
     (case send apduHex st of
        (Inl e, st) \<Rightarrow> (Inl (SendFailed e), st)
      | (Inr parsed, st) \<Rightarrow> followUpBasicAPDU send apduHex parsed 3 st)"

definition basic_transmit :: "('s, 'e) send \<Rightarrow> ('s, 'e basic_error) transmit" where
  "basic_transmit send apdu st =
     (case TransmitBasicAPDU send (hex_encode apdu) st of
        (Inl e, st) \<Rightarrow> (Inl e, st)
      | (Inr respHex, st) \<Rightarrow> (case hex_decode respHex of None \<Rightarrow> (Inl BadHex, st) | Some b \<Rightarrow> (Inr b, st)))"

datatype 'e resolve_error =
    UnsupportedApp string
  | DirectoryFailed "'e basic_error file_error"
  | NotFullAid string
  | AppNotListed string

definition app_match :: "string \<Rightarrow> (byte list \<Rightarrow> bool) option" where
  "app_match app =
     (let a = ToLower (TrimSpace app) in
      if a = ''usim'' then Some IsUSIM else if a = ''isim'' then Some IsISIM else None)"

definition ResolveSIMAuthAID :: "('s, 'e) send \<Rightarrow> string \<Rightarrow> string \<Rightarrow> 's \<Rightarrow> ('e resolve_error + string) \<times> 's" where
  "ResolveSIMAuthAID send app fallbackAID st =
     (let fallback = NormalizeHexAID fallbackAID in
      case app_match app of
        None \<Rightarrow> (Inl (UnsupportedApp app), st)
      | Some match \<Rightarrow>
          (case ReadDirectoryAIDs (basic_transmit send) st of
             (Inl e, st) \<Rightarrow> (Inl (DirectoryFailed e), st)
           | (Inr aids, st) \<Rightarrow>
               (case find match aids of
                  None \<Rightarrow> (Inl (AppNotListed app), st)
                | Some aid \<Rightarrow>
                    let aidHex = ToUpper (hex_encode aid) in
                    if length aidHex \<le> length fallback then (Inl (NotFullAid aidHex), st) else (Inr aidHex, st))))"

section \<open>The tree of objects\<close>

text \<open>What a card stores: primitive objects and templates.  Lengths use the shortest form.\<close>

datatype tlv = Prim byte "byte list" | Template byte "tlv list"

definition length_field :: "nat \<Rightarrow> byte list" where
  "length_field n =
     (if n < 128 then [of_nat n]
      else if n < 256 then [0x81, of_nat n]
      else if n < 65536 then 0x82 # be_bytes 2 n
      else 0x83 # be_bytes 3 n)"

fun encode_tlv :: "tlv \<Rightarrow> byte list" where
  "encode_tlv (Prim t v) = t # length_field (length v) @ v"
| "encode_tlv (Template t ts) =
     (let v = concat (map encode_tlv ts) in t # length_field (length v) @ v)"

definition encode_tlvs :: "tlv list \<Rightarrow> byte list" where
  "encode_tlvs ts = concat (map encode_tlv ts)"

definition tag_fits :: "byte \<Rightarrow> bool" where
  "tag_fits t \<longleftrightarrow> t \<noteq> 0x00 \<and> t \<noteq> 0xFF \<and> t AND 0x1F \<noteq> 0x1F"

fun tlv_fits :: "tlv \<Rightarrow> bool" where
  "tlv_fits (Prim t v) \<longleftrightarrow> tag_fits t \<and> t AND 0x20 = 0 \<and> length v < 2 ^ 24"
| "tlv_fits (Template t ts) \<longleftrightarrow>
     tag_fits t \<and> t AND 0x20 \<noteq> 0 \<and> list_all tlv_fits ts \<and> length (encode_tlvs ts) < 2 ^ 24"

text \<open>The values of one tag, in the order of the tree.\<close>

fun values_of :: "byte \<Rightarrow> tlv \<Rightarrow> byte list list" where
  "values_of want (Prim t v) = (if t = want then [v] else [])"
| "values_of want (Template t ts) =
     (if t = want then [encode_tlvs ts] else []) @ concat (map (values_of want) ts)"

lemma be_nat_one [simp]: "be_nat [b] = unat b"
  using be_nat_snoc [of "[]" b] by simp

lemma byte_high_bit: "b AND 0x80 = 0 \<longleftrightarrow> unat (b :: byte) < 128"
proof -
  have "bit b 7 \<longleftrightarrow> odd (unat b div 128)"
    using bit_unsigned_iff [of b 7, where 'a = nat] bit_iff_odd [of "unat b" 7] by (auto dest: bit_imp_le_length)
  moreover have "unat b div 128 < 2" using unat_byte_less [of b] by (simp add: less_mult_imp_div_less)
  then have "odd (unat b div 128) \<longleftrightarrow> 128 \<le> unat b" by (auto simp: less_2_cases_iff div_eq_0_iff)
  moreover have "b AND 0x80 = 0 \<longleftrightarrow> \<not> bit b 7"
    using and_exp_eq_0_iff_not_bit [of b 7] by simp
  ultimately show ?thesis by auto
qed

lemma tlv_length_field:
  "n < 2 ^ 24 \<Longrightarrow> tlv_length (length_field n @ rest) = Some (n, rest)"
  by (auto simp: length_field_def tlv_length_def be_nat_be_bytes Let_def byte_high_bit)

lemma next_object_encoded:
  assumes "tag_fits t" and "length v < 2 ^ 24"
  shows "next_object (t # length_field (length v) @ v @ rest) = Some ([t], v, rest)"
  using assms tlv_length_field [OF assms(2), of "v @ rest"]
  by (simp add: next_object_def tag_fits_def)

lemma collect_object:
  assumes "tag_fits t" and "length v < 2 ^ 24"
  shows "CollectTLVValues (t # length_field (length v) @ v @ rest) want =
    (if t = want then [v] else []) @ (if t AND 0x20 \<noteq> 0 then CollectTLVValues v want else []) @
    CollectTLVValues rest want"
  by (subst CollectTLVValues.simps) (simp add: next_object_encoded [OF assms])

lemma collect_padding: "list_all (\<lambda>b. b = 0x00 \<or> b = 0xFF) pad \<Longrightarrow> CollectTLVValues pad want = []"
  by (subst CollectTLVValues.simps) (simp add: next_object_def list_all_iff dropWhile_eq_Nil_conv [THEN iffD2])

lemma collect_tlv:
  "tlv_fits t \<Longrightarrow> CollectTLVValues (encode_tlv t @ rest) want = values_of want t @ CollectTLVValues rest want"
proof (induction t arbitrary: rest)
  case (Prim t v)
  then show ?case using collect_object [of t v] by simp
next
  case (Template t ts)
  have all: "list_all tlv_fits ts" and fits: "tag_fits t" "length (encode_tlvs ts) < 2 ^ 24" and tpl: "t AND 0x20 \<noteq> 0"
    using Template.prems by simp_all
  have many: "list_all tlv_fits us \<Longrightarrow> set us \<subseteq> set ts \<Longrightarrow>
      CollectTLVValues (encode_tlvs us) want = concat (map (values_of want) us)" for us
    by (induction us) (simp_all add: encode_tlvs_def collect_padding Template.IH)
  show ?case
    using collect_object [OF fits, of rest want] many [OF all] tpl
    by (simp add: encode_tlvs_def Let_def)
qed

text \<open>
  Property C21: from a tree of objects, padded as card records are, CollectTLVValues reads the values of a tag,
  all of them, at every depth and in order.
\<close>

theorem collect_reads_tree:
  assumes "list_all tlv_fits ts" and "list_all (\<lambda>b. b = 0x00 \<or> b = 0xFF) pad"
  shows "CollectTLVValues (encode_tlvs ts @ pad) want = concat (map (values_of want) ts)"
  using assms(1)
  by (induction ts) (simp_all add: encode_tlvs_def collect_padding [OF assms(2)] collect_tlv)

definition demo_record :: "tlv list" where
  "demo_record = [Template 0x61 [Prim 0x4F (usimPrefix @ [0xFF, 0x49]), Prim 0x50 [0x55, 0x53, 0x49, 0x4D]]]"

theorem collect_reads_tree_witness:
  "CollectTLVValues (encode_tlvs demo_record @ [0xFF, 0xFF]) 0x4F = [usimPrefix @ [0xFF, 0x49]]"
proof -
  have a: "list_all tlv_fits demo_record" by code_simp
  have b: "list_all (\<lambda>b. b = 0x00 \<or> b = 0xFF) [0xFF, 0xFF :: byte]" by simp
  have c: "concat (map (values_of 0x4F) demo_record) = [usimPrefix @ [0xFF, 0x49]]" by code_simp
  show ?thesis unfolding collect_reads_tree [OF a b] by (rule c)
qed

section \<open>Where the reader of file control parameters panics\<close>

lemma be_nat_Cons: "be_nat (b # bs) = unat b * 256 ^ length bs + be_nat bs"
  by (induction bs rule: rev_induct) (simp_all flip: append_Cons add: algebra_simps)

lemma fcp_length_value: "fcp_length bs = of_nat (be_nat bs)"
proof (induction bs rule: rev_induct)
  case Nil
  show ?case by (simp add: fcp_length_def)
next
  case (snoc b bs)
  have "push_bit 8 l AND ucast b = 0" for l :: u64
    by (rule bit_eqI) (auto simp: bit_simps dest: bit_imp_le_length)
  then have "push_bit 8 l OR ucast b = l * 256 + ucast b" for l :: u64
    by (simp add: push_bit_eq_mult flip: disjunctive_add_eq_or)
  then show ?case
    using snoc.IH by (simp add: fcp_length_def)
qed

lemma fcp_field_small:
  assumes "fcp_field data i = Some (l, k)" and "i < length data" and "unat (data ! i) < 0x88"
  shows "unat l < 2 ^ 56"
proof (cases "unat (data ! i) \<ge> 128")
  case True
  define n where "n = unat (data ! i) - 128"
  have n: "n \<le> 7" "i + 1 + n \<le> length data" and l: "l = fcp_length (subslice data (i + 1) (i + 1 + n))"
    using assms True by (auto simp: fcp_field_def Let_def n_def split: if_splits)
  have "length (subslice data (i + 1) (i + 1 + n)) = n" using n by simp
  then have "be_nat (subslice data (i + 1) (i + 1 + n)) < 256 ^ n" using be_nat_bound by metis
  also have "(256::nat) ^ n \<le> 256 ^ 7" using n by (intro power_increasing) auto
  finally show ?thesis unfolding l fcp_length_value by simp
next
  case False
  define n where "n = unat (data ! i)"
  have "l = of_nat n" "n < 128" using assms False by (simp_all add: fcp_field_def Let_def n_def)
  then show ?thesis by simp
qed

lemma sint_small:
  assumes "unat (w :: u64) < 2 ^ 62"
  shows "sint w = int (unat w)"
proof -
  have u: "uint w = int (unat w)" by (rule uint_nat)
  have "uint w < 2 ^ 62" using assms by (metis u of_nat_less_iff of_nat_numeral of_nat_power)
  then have "uint w < 2 ^ 63" by simp
  have "sint w = signed_take_bit 63 (uint w)" by (simp add: sint_uint)
  also have "\<dots> = uint w"
  proof (rule signed_take_bit_int_eq_self)
    show "- (2 ^ 63) \<le> uint w" using unsigned_greater_eq [of w] by (rule order_trans [rotated]) simp
  qed fact
  finally show ?thesis unfolding u .
qed

lemma sint_big:
  assumes "2 ^ 63 \<le> unat (w :: u64)"
  shows "sint w < 0"
proof (rule ccontr)
  assume "\<not> sint w < 0"
  moreover have "sint w < 2 ^ 63" using sint_lt [of w] by simp
  moreover have "uint w = sint w mod 2 ^ 64" using uint_sint [of w] by (simp add: take_bit_eq_mod)
  ultimately have "uint w < 2 ^ 63" by simp
  then show False using assms by (metis uint_nat not_le of_nat_less_iff of_nat_numeral of_nat_power)
qed

lemma fcp_next_safe:
  assumes "length data < 2 ^ 61" and "fcp_next data i = FcpPanic"
  shows "\<exists>j < length data. 0x88 \<le> unat (data ! j)"
proof (rule ccontr)
  assume "\<not> ?thesis"
  then have small: "unat (data ! j) < 0x88" if "j < length data" for j using that by (meson not_le)
  obtain l k where f: "fcp_field data (i + 1) = Some (l, k)" and i: "i + 1 < length data"
    and e: "sint (of_nat k + l) < int k"
    using assms(2) by (auto simp: fcp_next_def Let_def split: if_splits option.splits)
  have k: "k \<le> length data" using fcp_field_progress [OF f i] by simp
  have l: "unat l < 2 ^ 56" using fcp_field_small [OF f i small [OF i]] .
  have "unat (of_nat k + l) = k + unat l"
    using k l assms(1) by (simp add: unat_word_ariths)
  moreover have "k + unat l < 2 ^ 62" using k l assms(1) by simp
  ultimately have "sint (of_nat k + l) = int (k + unat l)" using sint_small by metis
  then show False using e by simp
qed

lemma fcp_loop_safe:
  assumes "length data < 2 ^ 61" and "fcp_loop data i meta = None"
  shows "\<exists>j < length data. 0x88 \<le> unat (data ! j)"
  using assms
proof (induction data i meta rule: fcp_loop.induct)
  case (1 data i meta)
  have u: "None = (if i \<ge> length data then Some meta
      else case fcp_next data i of
        FcpEnd \<Rightarrow> Some meta
      | FcpPanic \<Rightarrow> None
      | FcpObject tag v j \<Rightarrow>
          if tag = 0x82 \<and> length v \<ge> 5 then
            let m = (be_nat [v ! (length v - 3), v ! (length v - 2)], unat (v ! (length v - 1))) in
            if fst m > 0 then Some m else fcp_loop data j m
          else fcp_loop data j meta)"
    using "1.prems"(2) fcp_loop.simps [of data i meta] by simp
  show ?case
  proof (cases "fcp_next data i")
    case FcpEnd
    then show ?thesis using u by (simp split: if_splits)
  next
    case FcpPanic
    then show ?thesis using "1.prems" fcp_next_safe by blast
  next
    case (FcpObject tag v j)
    show ?thesis
    proof (cases "tag = 0x82 \<and> length v \<ge> 5")
      case True
      then show ?thesis
        using u FcpObject "1.IH"(1) [OF _ FcpObject True refl] "1.prems"(1) by (auto simp: Let_def split: if_splits)
    next
      case False
      then show ?thesis
        using u FcpObject "1.IH"(2) [OF _ FcpObject False] "1.prems"(1) by (auto split: if_splits)
    qed
  qed
qed

lemma fcp_loop_panics:
  assumes a: "length bs = 8 \<and> 0x80 \<le> unat (bs ! 0)"
  shows "fcp_loop (tag # 0x88 # bs @ rest) 0 meta = None"
proof -
  let ?d = "tag # 0x88 # bs @ rest"
  have sub': "subslice ?d (Suc (Suc 0)) 10 = bs" using a by (simp add: subslice_def)
  have f: "fcp_field ?d 1 = Some (fcp_length bs, 10)"
    using a sub' by (simp add: fcp_field_def Let_def)
  obtain b rest' where b: "bs = b # rest'" "length rest' = 7" using a by (cases bs) auto
  define w where "w = of_nat 10 + fcp_length bs"
  have top: "2 ^ 63 \<le> be_nat bs" and bound: "be_nat bs < 2 ^ 64"
    using a b be_nat_Cons [of b rest'] be_nat_bound [of bs] by (simp_all add: trans_le_add1)
  have "sint w < 10"
  proof (cases "10 + be_nat bs < 2 ^ 64")
    case True
    then have "unat w = 10 + be_nat bs" by (simp add: w_def fcp_length_value unat_word_ariths)
    then show ?thesis using top sint_big [of w] by simp
  next
    case False
    then have "unat w = 10 + be_nat bs - 2 ^ 64"
      using bound by (simp add: w_def fcp_length_value unat_word_ariths mod_if)
    then have ten: "unat w < 10" using bound by simp
    have "sint w = int (unat w)" by (rule sint_small) (use ten in simp)
    also have "\<dots> < int 10" using ten by (simp only: of_nat_less_iff)
    finally show ?thesis by simp
  qed
  then have n: "fcp_next ?d 0 = FcpPanic"
    using a f by (simp add: fcp_next_def Let_def w_def)
  then show ?thesis by (simp add: fcp_loop.simps)
qed

text \<open>
  the reader of file control parameters panics on every first object whose length has eight bytes
  with the top bit set, inside a template or not; and only a byte above 87 (hexadecimal), a length of at
  least eight bytes, makes it panic.
\<close>

theorem fcp_reader_panics:
  "(length bs = 8 \<and> 0x80 \<le> unat (bs ! 0) \<and> tag \<noteq> 0x62 \<and> length rest < 246 \<longrightarrow>
      ParseLinearFixedMetaFromFCP (tag # 0x88 # bs @ rest) = None \<and>
      ParseLinearFixedMetaFromFCP ([0x62, of_nat (10 + length rest)] @ tag # 0x88 # bs @ rest) = None) \<and>
   (length fcp < 2 ^ 61 \<and> ParseLinearFixedMetaFromFCP fcp = None \<longrightarrow> (\<exists>j < length fcp. 0x88 \<le> unat (fcp ! j)))"
proof (intro conjI impI)
  assume a: "length bs = 8 \<and> 0x80 \<le> unat (bs ! 0) \<and> tag \<noteq> 0x62 \<and> length rest < 246"
  show "ParseLinearFixedMetaFromFCP (tag # 0x88 # bs @ rest) = None"
    using a fcp_loop_panics [of bs tag rest] by (simp add: ParseLinearFixedMetaFromFCP_def Let_def)
  define total where "total = 10 + length rest"
  have "total < 256" using a by (simp add: total_def)
  then have t: "unat (of_nat total :: byte) = total" "length (tag # 0x88 # bs @ rest) = total"
    using a by simp (simp add: total_def a)
  have "subslice ([0x62, of_nat total] @ tag # 0x88 # bs @ rest) 2 (2 + total) = tag # 0x88 # bs @ rest"
    using t(2) by (simp add: subslice_def)
  then show "ParseLinearFixedMetaFromFCP ([0x62, of_nat (10 + length rest)] @ tag # 0x88 # bs @ rest) = None"
    using a t fcp_loop_panics [of bs tag rest] by (simp add: ParseLinearFixedMetaFromFCP_def Let_def flip: total_def)
next
  assume a: "length fcp < 2 ^ 61 \<and> ParseLinearFixedMetaFromFCP fcp = None"
  define total where "total = min (unat (fcp ! 1)) (length fcp - 2)"
  define data where "data = (if fcp ! 0 = 0x62 then subslice fcp 2 (2 + total) else fcp)"
  have len: "2 \<le> length fcp" and p: "fcp_loop data 0 (0, 0) = None"
    using a by (auto simp: ParseLinearFixedMetaFromFCP_def Let_def data_def total_def split: if_splits)
  have "length data \<le> length fcp" using len by (auto simp: data_def total_def min_def)
  then obtain j where j: "j < length data" "0x88 \<le> unat (data ! j)"
    using fcp_loop_safe [OF _ p] a by auto
  show "\<exists>j < length fcp. 0x88 \<le> unat (fcp ! j)"
  proof (cases "fcp ! 0 = 0x62")
    case True
    then have "2 + j < length fcp" "data ! j = fcp ! (2 + j)"
      using j len by (auto simp: data_def total_def)
    then show ?thesis using j by metis
  next
    case False
    then show ?thesis using j by (auto simp: data_def)
  qed
qed

theorem fcp_reader_panics_witness:
  "ParseLinearFixedMetaFromFCP ([0x62, 12, 0x80, 0x88] @ replicate 8 0xFF @ [0x82, 0x05]) = None"
  using fcp_reader_panics [of "replicate 8 0xFF" "0x80" "[0x82, 0x05]"] by simp

section \<open>What reading the directory sends and finds\<close>

text \<open>A card that records the commands; its answers may depend on everything before.\<close>

definition recorded_card :: "(byte list list \<Rightarrow> byte list \<Rightarrow> 'e + byte list) \<Rightarrow> (byte list list, 'e) transmit" where
  "recorded_card answer apdu sent = (answer sent apdu, sent @ [apdu])"

definition aids_ok :: "byte list list \<Rightarrow> bool" where
  "aids_ok aids \<longleftrightarrow> distinct aids \<and> [] \<notin> set aids"

lemma append_aid_ok: "aids_ok dst \<Longrightarrow> aids_ok (append_aid aid dst)"
  by (auto simp: aids_ok_def append_aid_def list_ex_iff)

lemma AppendUniqueAIDs_ok: "aids_ok dst \<Longrightarrow> aids_ok (AppendUniqueAIDs dst src)"
  unfolding AppendUniqueAIDs_def by (induction src arbitrary: dst) (simp_all add: append_aid_ok)

lemma records_read:
  assumes "aids_ok aids"
  shows "\<exists>n \<le> k. snd (read_records (recorded_card answer) len k rec aids err sent) = sent @ map (read_command len) [rec..<rec + n]
    \<and> aids_ok (fst (fst (read_records (recorded_card answer) len k rec aids err sent)))"
  using assms
proof (induction k arbitrary: rec aids err sent)
  case 0
  then show ?case by simp
next
  case (Suc k)
  let ?cmd = "read_command len rec"
  have onward: "\<exists>n \<le> Suc k. snd (read_records (recorded_card answer) len k (rec + 1) aids' err' (sent @ [?cmd])) =
        sent @ map (read_command len) [rec..<rec + n] \<and>
      aids_ok (fst (fst (read_records (recorded_card answer) len k (rec + 1) aids' err' (sent @ [?cmd]))))"
    if ok: "aids_ok aids'" for aids' err'
  proof -
    obtain n where "n \<le> k" "snd (read_records (recorded_card answer) len k (rec + 1) aids' err' (sent @ [?cmd])) =
        sent @ [?cmd] @ map (read_command len) [rec + 1..<rec + 1 + n]"
      "aids_ok (fst (fst (read_records (recorded_card answer) len k (rec + 1) aids' err' (sent @ [?cmd]))))"
      using Suc.IH [OF ok, of "rec + 1" err' "sent @ [?cmd]"] by auto
    moreover have "[rec..<rec + Suc n] = rec # [rec + 1..<rec + 1 + n]"
      using upt_conv_Cons [of rec "rec + Suc n"] by (simp del: upt_Suc)
    ultimately show ?thesis
      by (intro exI [of _ "Suc n"]) (simp del: upt_Suc)
  qed
  have stop: "\<exists>n \<le> Suc k. sent @ [?cmd] = sent @ map (read_command len) [rec..<rec + n]"
    by (intro exI [of _ 1]) simp
  have here: "recorded_card answer ?cmd sent = (answer sent ?cmd, sent @ [?cmd])"
    by (simp add: recorded_card_def)
  show ?case
  proof (cases "answer sent ?cmd")
    case (Inl e)
    then show ?thesis
      using onward [OF Suc.prems] here by simp
  next
    case (Inr rsp)
    show ?thesis
    proof (cases "APDUStatus rsp")
      case None
      then show ?thesis using onward [OF Suc.prems] here Inr by simp
    next
      case (Some sw)
      then show ?thesis
        using onward [OF Suc.prems] onward [OF AppendUniqueAIDs_ok [OF Suc.prems]] stop Suc.prems here Inr
        by (cases sw) simp
    qed
  qed
qed

text \<open>
  whatever the card answers, reading the directory sends the two selections and at most 32 read
  commands for the records 1, 2, ..., and the applications it returns are distinct, not empty and at
  least one.
\<close>

theorem directory_read_is_bounded:
  "\<exists>n \<le> 32. \<exists>len. prefix (snd (ReadDirectoryAIDs (recorded_card answer) []))
      ([selectMF, selectEFDir] @ map (read_command len) [1..<1 + n]) \<and>
    (case fst (ReadDirectoryAIDs (recorded_card answer) []) of Inl e \<Rightarrow> True | Inr aids \<Rightarrow> aids \<noteq> [] \<and> aids_ok aids)"
proof -
  let ?t = "recorded_card answer"
  have sel: "snd (selectFileWithTransmit ?t apdu sent) = sent @ [apdu]" for apdu sent
    by (auto simp: selectFileWithTransmit_def recorded_card_def split: sum.split option.split)
  obtain r1 s1 where a: "selectFileWithTransmit ?t selectMF [] = (r1, s1)" by fastforce
  then have s1: "s1 = [selectMF]" using sel [of selectMF "[]"] by simp
  obtain r2 s2 where b: "selectFileWithTransmit ?t selectEFDir s1 = (r2, s2)" by fastforce
  then have s2: "s2 = [selectMF, selectEFDir]" using sel [of selectEFDir s1] s1 by simp
  have early: "\<exists>n \<le> 32. \<exists>len. prefix s ([selectMF, selectEFDir] @ map (read_command len) [1..<1 + n])"
    if "s = s1 \<or> s = s2" for s
    using that by (intro exI [of _ 0]) (auto simp: s1 s2)
  have stopped: ?thesis if "ReadDirectoryAIDs ?t [] = (Inl e, s)" "s = s1 \<or> s = s2" for e s
    using early [OF that(2)] by (simp add: that(1))
  show ?thesis
  proof (cases r1)
    case (Inl e)
    then show ?thesis by (intro stopped [where s = s1]) (simp_all add: ReadDirectoryAIDs_def a)
  next
    case r1: (Inr x)
    show ?thesis
    proof (cases r2)
      case (Inl e)
      then show ?thesis by (intro stopped [where s = s2]) (simp_all add: ReadDirectoryAIDs_def a b r1)
    next
      case r2: (Inr rsp)
      show ?thesis
      proof (cases "ExtractSuccessData rsp :: 'a file_error + byte list")
        case (Inl e)
        then show ?thesis by (intro stopped [where s = s2]) (simp_all add: ReadDirectoryAIDs_def a b r1 r2)
      next
        case r3: (Inr fcp)
        show ?thesis
        proof (cases "ParseLinearFixedMetaFromFCP fcp")
          case None
          then show ?thesis by (intro stopped [where s = s2]) (simp_all add: ReadDirectoryAIDs_def a b r1 r2 r3)
        next
          case (Some meta)
          obtain rl rc where m: "meta = (rl, rc)" by fastforce
          define len where "len = (if rl > 0xFF then 0 else rl)"
          define k where "k = (if rc > 0 \<and> rc < 32 then rc else (32::nat))"
          obtain aids err s3 where c: "read_records ?t len k 1 [] None s2 = ((aids, err), s3)" by (metis surj_pair)
          obtain n where n: "n \<le> k" "s3 = s2 @ map (read_command len) [1..<1 + n]" "aids_ok aids"
            using records_read [of "[]" k answer len 1 None s2] c by (auto simp: aids_ok_def)
          have "ReadDirectoryAIDs ?t [] = (if aids = [] then (Inl (NoAid err), s3) else (Inr aids, s3))"
            using c by (simp add: ReadDirectoryAIDs_def a b r1 r2 r3 Some m Let_def len_def k_def)
          moreover have "n \<le> 32" using n(1) by (simp add: k_def split: if_splits)
          ultimately show ?thesis
            using n by (intro exI [of _ n] conjI exI [of _ len]) (auto simp: s2)
        qed
      qed
    qed
  qed
qed

section \<open>Resolved applications\<close>

lemma upper_hex: "ToUpper (hex_encode (xs @ ys)) = ToUpper (hex_encode xs) @ ToUpper (hex_encode ys)"
  by (simp add: hex_encode_def ToUpper_def)

lemma upper_hex_stays: "ToUpper (TrimSpace (ToUpper (hex_encode bs))) = ToUpper (hex_encode bs)"
  using TrimSpace_printable [OF upper_hex_printable] by (simp add: ToUpper_idem)

lemma resolved_valid:
  assumes "fst (ResolveSIMAuthAID send app f st) = Inr aid" and "app_match app = Some ok" and "NormalizeHexAID f = f"
    and "\<And>b. ok b \<Longrightarrow> take (length p) b = p" and "ToUpper (hex_encode p) = f"
  shows "validateFullAID aid f = Inr aid"
proof -
  obtain b where b: "ok b" "aid = ToUpper (hex_encode b)" "length f < length aid"
    using assms(1-3)
    by (auto simp: ResolveSIMAuthAID_def Let_def find_Some_iff split: sum.splits option.splits prod.splits if_splits)
  have "aid = f @ ToUpper (hex_encode (drop (length p) b))"
    using upper_hex [of p "drop (length p) b"] assms(4) [OF b(1)] assms(5) b(2) append_take_drop_id [of "length p" b]
    by metis
  moreover have "ToUpper (TrimSpace aid) = aid" using upper_hex_stays [of b] by (simp add: b(2))
  ultimately show ?thesis using b(3) by (simp add: validateFullAID_def Let_def)
qed

text \<open>
  the identifier that an AT modem resolves for an application passes the check of the caller:
  it begins with the prefix of that application, is longer, and is unchanged by the check.
\<close>

theorem resolved_aid_is_valid:
  assumes "fst (ResolveSIMAuthAID send ''usim'' usimAIDPrefix st) = Inr aid"
    and "fst (ResolveSIMAuthAID send ''isim'' isimAIDPrefix st) = Inr aid'"
  shows "validateFullAID aid usimAIDPrefix = Inr aid \<and> validateFullAID aid' isimAIDPrefix = Inr aid'"
proof -
  have apps: "ToLower (TrimSpace ''usim'') = ''usim''" "ToLower (TrimSpace ''isim'') = ''isim''" by code_simp+
  have names: "app_match ''usim'' = Some IsUSIM" "app_match ''isim'' = Some IsISIM"
    by (simp_all add: app_match_def apps)
  have norm: "NormalizeHexAID usimAIDPrefix = usimAIDPrefix" "NormalizeHexAID isimAIDPrefix = isimAIDPrefix"
    by code_simp+
  have u: "ToUpper (hex_encode usimPrefix) = usimAIDPrefix" and i: "ToUpper (hex_encode isimPrefix) = isimAIDPrefix"
    by code_simp+
  show ?thesis
    using resolved_valid [OF assms(1) names(1) norm(1) _ u] resolved_valid [OF assms(2) names(2) norm(2) _ i]
    by (simp add: IsUSIM_def IsISIM_def)
qed

definition demo_card_record :: "byte list \<Rightarrow> string" where
  "demo_card_record aid = hex_encode ([0x61, of_nat (2 + length aid), 0x4F, of_nat (length aid)] @ aid @ [0x90, 0x00])"

definition demo_at_card :: "(unit, modem_error) send" where
  "demo_at_card cmd st =
     (Inr (if cmd = hex_encode (read_command 0 1) then demo_card_record (usimPrefix @ [0xFF, 0x49])
        else if cmd = hex_encode (read_command 0 2) then demo_card_record (isimPrefix @ [0xFF, 0x49])
        else if cmd = hex_encode (read_command 0 3) then ''6A83''
        else ''9000''), st)"

theorem resolved_aid_is_valid_witness:
  "validateFullAID ''A0000000871002FF49'' usimAIDPrefix = Inr ''A0000000871002FF49'' \<and>
   validateFullAID ''A0000000871004FF49'' isimAIDPrefix = Inr ''A0000000871004FF49''"
proof (rule resolved_aid_is_valid)
  show "fst (ResolveSIMAuthAID demo_at_card ''usim'' usimAIDPrefix ()) = Inr ''A0000000871002FF49''" by code_simp
  show "fst (ResolveSIMAuthAID demo_at_card ''isim'' isimAIDPrefix ()) = Inr ''A0000000871004FF49''" by code_simp
qed

section \<open>Commands that follow a response\<close>








section \<open>The reader over a logical channel\<close>

fun plain_object :: "tlv \<Rightarrow> bool" where
  "plain_object (Prim t v) \<longleftrightarrow> tag_fits t \<and> t AND 0x20 = 0 \<and> length v < 128 \<and> (if t = 0x4F then v \<noteq> [] else True)"
| "plain_object (Template t ts) \<longleftrightarrow> t = 0x61 \<and> list_all plain_object ts \<and> length (encode_tlvs ts) < 128"

definition first_value :: "byte list list \<Rightarrow> byte list" where
  "first_value vs = (case vs of [] \<Rightarrow> [] | v # _ \<Rightarrow> v)"

lemma first_value_append: "first_value (vs @ ws) = (if vs = [] then first_value ws else first_value vs)"
  by (cases vs) (simp_all add: first_value_def)

lemma plain_values: "plain_object t \<Longrightarrow> [] \<notin> set (values_of 0x4F t)"
  by (induction t) (auto simp: list_all_iff)

lemma extract_object:
  assumes "length v < 128"
  shows "extractAID4F (t # length_field (length v) @ v @ rest) =
    (if t = 0x4F then v
     else if t = 0x61 then (if extractAID4F v \<noteq> [] then extractAID4F v else extractAID4F rest)
     else extractAID4F rest)"
  using assms by (subst extractAID4F.simps) (simp add: length_field_def Let_def)

lemma extract_tlv:
  "plain_object t \<Longrightarrow> extractAID4F (encode_tlv t @ rest) =
    (if values_of 0x4F t = [] then extractAID4F rest else first_value (values_of 0x4F t))"
proof (induction t arbitrary: rest)
  case (Prim t v)
  have "t \<noteq> 0x61" using Prim by auto
  then show ?case using Prim extract_object [of v t rest] by (auto simp: first_value_def)
next
  case (Template t ts)
  have all: "list_all plain_object ts" using Template.prems by simp
  have "set us \<subseteq> set ts \<Longrightarrow> extractAID4F (encode_tlvs us) = first_value (concat (map (values_of 0x4F) us))" for us
  proof (induction us)
    case Nil
    show ?case by (subst extractAID4F.simps) (simp add: encode_tlvs_def first_value_def)
  next
    case (Cons u us)
    then have "plain_object u" using all by (simp add: list_all_iff)
    then show ?case
      using Cons Template.IH [of u "encode_tlvs us"] by (simp add: encode_tlvs_def first_value_append)
  qed
  then have v: "extractAID4F (encode_tlvs ts) = first_value (concat (map (values_of 0x4F) ts))" by simp
  define vs where "vs = concat (map (values_of 0x4F) ts)"
  have vals: "values_of 0x4F (Template t ts) = vs" using Template.prems by (simp add: vs_def)
  have ne: "first_value vs = [] \<longleftrightarrow> vs = []"
    using plain_values [OF Template.prems] unfolding vals by (cases vs) (auto simp: first_value_def)
  have "extractAID4F (encode_tlv (Template t ts) @ rest) =
      (if extractAID4F (encode_tlvs ts) \<noteq> [] then extractAID4F (encode_tlvs ts) else extractAID4F rest)"
    using Template.prems extract_object [of "encode_tlvs ts" t rest] by (simp add: encode_tlvs_def Let_def)
  then show ?case unfolding vals using v ne by (simp add: vs_def [symmetric])
qed

lemma plain_fits: "plain_object t \<Longrightarrow> tlv_fits t"
proof (induction t)
  case (Template t ts)
  then show ?case by (simp add: tag_fits_def list_all_iff)
qed simp

text \<open>
  On records with application templates and lengths below 128 the two readers of EF_DIR agree:
  the reader over a logical channel finds the first of the values that the other one collects.
\<close>

theorem directory_readers_agree:
  assumes "list_all plain_object ts"
  shows "extractAID4F (encode_tlvs ts) = first_value (CollectTLVValues (encode_tlvs ts) 0x4F)"
proof -
  have "list_all tlv_fits ts" using assms plain_fits by (auto simp: list_all_iff)
  then have "CollectTLVValues (encode_tlvs ts) 0x4F = concat (map (values_of 0x4F) ts)"
    using collect_reads_tree [of ts "[]"] by simp
  moreover have "extractAID4F (encode_tlvs ts) = first_value (concat (map (values_of 0x4F) ts))"
    using assms
  proof (induction ts)
    case Nil
    show ?case by (subst extractAID4F.simps) (simp add: encode_tlvs_def first_value_def)
  next
    case (Cons t ts)
    then show ?case using extract_tlv [of t "encode_tlvs ts"] by (simp add: encode_tlvs_def first_value_append)
  qed
  ultimately show ?thesis by simp
qed

theorem directory_readers_agree_witness:
  "extractAID4F (encode_tlvs demo_record) = first_value (CollectTLVValues (encode_tlvs demo_record) 0x4F)"
proof (rule directory_readers_agree)
  show "list_all plain_object demo_record" by code_simp
qed

lemma efdir_transmit_recorded:
  "efdirTransmit (recorded_modem s) ch apdu es = (r, es') \<Longrightarrow> exchanged ch 1 es es'"
  unfolding exchanged_def
  by (intro exI [of _ "[ToUpper (hex_encode apdu)]"])
    (auto simp: efdirTransmit_def recorded_modem_def Let_def split: sum.splits option.splits if_splits)

lemma efdir_records_recorded:
  "efdir_records (recorded_modem s) ch want k rec es = (r, es') \<Longrightarrow> exchanged ch k es es'"
proof (induction k arbitrary: rec es)
  case 0
  then show ?case by (simp add: exchanged_none)
next
  case (Suc k)
  obtain r1 es1 where a: "efdirTransmit (recorded_modem s) ch (readRecordAPDU 0x00 (of_nat rec)) es = (r1, es1)" by fastforce
  have one: "exchanged ch 1 es es1" using efdir_transmit_recorded [OF a] .
  have "es' = es1 \<or> efdir_records (recorded_modem s) ch want k (rec + 1) es1 = (r, es')"
    using Suc.prems by (auto simp: a Let_def split: sum.splits prod.splits if_splits)
  then show ?case
    using exchanged_mono [OF one, of "Suc k"] exchanged_trans [OF one Suc.IH] by auto
qed

lemma efdir_session_recorded:
  assumes "efdir_session (recorded_modem s) ch pre es = (r, es')"
  shows "exchanged ch 19 es es'"
proof -
  obtain r1 es1 where a: "efdirTransmit (recorded_modem s) ch (selectByAIDAPDU 0x00 usimPrefix) es = (r1, es1)" by fastforce
  obtain r2 es2 where b: "efdirTransmit (recorded_modem s) ch (selectFileAPDU 0x00 0x3F00) es1 = (r2, es2)" by fastforce
  obtain r3 es3 where c: "efdirTransmit (recorded_modem s) ch (selectFileAPDU 0x00 0x2F00) es2 = (r3, es3)" by fastforce
  have two: "exchanged ch 2 es es2"
    using exchanged_trans [OF efdir_transmit_recorded [OF a] efdir_transmit_recorded [OF b]] by (simp only: one_add_one)
  have three: "exchanged ch 3 es es3"
    using exchanged_trans [OF two efdir_transmit_recorded [OF c]] by simp
  have "es' = es2 \<or> es' = es3 \<or> efdir_records (recorded_modem s) ch (ToUpper (TrimSpace pre)) 16 1 es3 = (r, es')"
    using assms by (simp add: efdir_session_def a b c split: if_splits)
  then show ?thesis
    using exchanged_mono [OF two, of 19] exchanged_mono [OF three, of 19]
      exchanged_trans [OF three efdir_records_recorded [where k = 16]] by auto
qed

text \<open>
  Resolving an application over a bootstrap channel opens that channel, sends at most 19 commands
  on it and closes it, whatever the modem answers.
\<close>

theorem bootstrap_channel_closed:
  "\<exists>opened. case opened of
     None \<Rightarrow> snd (ResolveAIDViaEFDIR (recorded_modem s) boot pre []) = [Opened (ToUpper (TrimSpace boot)) None]
   | Some (ch, cmds) \<Rightarrow> length cmds \<le> 19 \<and>
       snd (ResolveAIDViaEFDIR (recorded_modem s) boot pre []) =
         [Opened (ToUpper (TrimSpace boot)) (Some ch)] @ map (Sent ch) cmds @ [Closed ch]"
proof (cases "open_answer s [] (ToUpper (TrimSpace boot))")
  case (Inl e)
  then show ?thesis
    by (intro exI [of _ None]) (simp add: ResolveAIDViaEFDIR_def recorded_modem_def)
next
  case (Inr ch)
  define name where "name = ToUpper (TrimSpace boot)"
  obtain r es where a: "efdir_session (recorded_modem s) ch pre [Opened name (Some ch)] = (r, es)" by fastforce
  obtain cmds where c: "es = [Opened name (Some ch)] @ map (Sent ch) cmds" "length cmds \<le> 19"
    using efdir_session_recorded [OF a] by (auto simp: exchanged_def)
  have o: "OpenLogicalChannel (recorded_modem s) name [] = (Inr ch, [Opened name (Some ch)])"
    using Inr by (simp add: recorded_modem_def name_def)
  have "snd (ResolveAIDViaEFDIR (recorded_modem s) boot pre []) = es @ [Closed ch]"
    unfolding ResolveAIDViaEFDIR_def by (simp add: o a recorded_close flip: name_def)
  then show ?thesis using c by (intro exI [of _ "Some (ch, cmds)"]) (simp add: name_def)
qed

end
