(* ===== verification/Wbxml.thy ===== *)
theory Wbxml
  imports GoNumbers SmsCodec "HOL-Library.AList"
begin

unbundle bit_operations_syntax

section \<open>WBXML provisioning documents\<close>

text \<open>
  \<^verbatim>\<open>pkg/smscodec/wbxml_omacp.go\<close>: the reader of WBXML tokens, the parser of OMA client
  provisioning documents and the search for a document in the user data of a message.  The reader's
  \<open>unread\<close> is the source's \<^verbatim>\<open>data[pos:]\<close>.  Elements and their contents call each other; the model
  gives the pair fuel, and twice the unread octets is enough.  A Go map of strings is an association list
  without duplicate keys, extended by \<^verbatim>\<open>AList.update\<close>.
\<close>

subsection \<open>Data\<close>

datatype characteristic =
  Characteristic (CharType: string) (Params: "(string \<times> string) list") (Subs: "characteristic list")

record omacp_config =
  Version :: string
  Characteristics :: "characteristic list"

record wbxml_reader =
  unread :: "byte list"
  strTable :: "byte list"
  tagPage :: nat
  attrPage :: nat

datatype wbxml_error =
    WbxmlEof | WbxmlEnd | WbxmlNumberTooLong | WbxmlShort nat nat | WbxmlNotOmaCP u32
  | WbxmlNoConfig | OmaCPTooShort nat | WbxmlNotFound

text \<open>Bytes as a Go string, \<^verbatim>\<open>%02X\<close>.\<close>

definition text_of :: "byte list \<Rightarrow> string" where
  "text_of bs = map (\<lambda>b. byte_char (unat b)) bs"

definition hex2 :: "byte \<Rightarrow> string" where
  "hex2 b = ToUpper (hex_encode [b])"

subsection \<open>Numbers of variable length\<close>

text \<open>\<open>mb_step\<close> shifts the value by seven bits in 32 bits.\<close>

definition mb_step :: "u32 \<Rightarrow> byte \<Rightarrow> u32" where
  "mb_step acc b = push_bit 7 acc OR ucast (b AND 0x7F)"

fun mb_at :: "nat \<Rightarrow> u32 \<Rightarrow> byte list \<Rightarrow> nat \<Rightarrow> (u32 \<times> nat) option" where
  "mb_at 0 acc bs pos = None"
| "mb_at (Suc n) acc bs pos =
     (if length bs \<le> pos then None
      else let b = bs ! pos; acc = mb_step acc b
           in if b AND 0x80 = 0 then Some (acc, pos + 1) else mb_at n acc bs (pos + 1))"

definition parseMBUint32At :: "byte list \<Rightarrow> nat \<Rightarrow> (u32 \<times> nat) option" where
  "parseMBUint32At bs start = (if length bs \<le> start then None else mb_at 5 0 bs start)"

definition isWBXMLHeader :: "byte list \<Rightarrow> bool" where
  "isWBXMLHeader bs =
     (if length bs < 4 then False
      else if bs ! 0 < 0x01 \<or> 0x03 < bs ! 0 then False
      else case parseMBUint32At bs 1 of
             None \<Rightarrow> False
           | Some (publicID, i) \<Rightarrow>
               if publicID \<noteq> 0x0B then False
               else case parseMBUint32At bs i of
                      None \<Rightarrow> False
                    | Some (_, i) \<Rightarrow>
                        (case parseMBUint32At bs i of
                           None \<Rightarrow> False
                         | Some (strTableLen, i) \<Rightarrow> i + unat strTableLen \<le> length bs))"

text \<open>The loop over offsets 1, 2, ... after the test at offset 0.\<close>

fun header_suffix :: "byte list \<Rightarrow> byte list option" where
  "header_suffix [] = None"
| "header_suffix (b # bs) = (if isWBXMLHeader (b # bs) then Some (b # bs) else header_suffix bs)"

definition findWBXMLStart :: "byte list \<Rightarrow> wbxml_error + byte list" where
  "findWBXMLStart bs =
     (if isWBXMLHeader bs then Inr bs
      else case header_suffix (tl bs) of None \<Rightarrow> Inl WbxmlNotFound | Some d \<Rightarrow> Inr d)"

subsection \<open>The reader\<close>

definition readByte :: "wbxml_reader \<Rightarrow> (wbxml_error + byte) \<times> wbxml_reader" where
  "readByte r =
     (case unread r of [] \<Rightarrow> (Inl WbxmlEof, r) | b # bs \<Rightarrow> (Inr b, r\<lparr>unread := bs\<rparr>))"

fun mb_read :: "nat \<Rightarrow> u32 \<Rightarrow> wbxml_reader \<Rightarrow> (wbxml_error + u32) \<times> wbxml_reader" where
  "mb_read 0 acc r = (Inl WbxmlNumberTooLong, r)"
| "mb_read (Suc n) acc r =
     (case readByte r of
        (Inl e, r) \<Rightarrow> (Inl e, r)
      | (Inr b, r) \<Rightarrow>
          let acc = mb_step acc b
          in if b AND 0x80 = 0 then (Inr acc, r) else mb_read n acc r)"

definition readMBUint32 :: "wbxml_reader \<Rightarrow> (wbxml_error + u32) \<times> wbxml_reader" where
  "readMBUint32 r = mb_read 5 0 r"

text \<open>\<^verbatim>\<open>n, _ := r.readMBUint32()\<close>: the value is 0 when there is an error.\<close>

definition readMB0 :: "wbxml_reader \<Rightarrow> u32 \<times> wbxml_reader" where
  "readMB0 r = (case readMBUint32 r of (Inl e, r) \<Rightarrow> (0, r) | (Inr v, r) \<Rightarrow> (v, r))"

definition readStrI :: "wbxml_reader \<Rightarrow> string \<times> wbxml_reader" where
  "readStrI r =
     (text_of (takeWhile (\<lambda>b. b \<noteq> 0) (unread r)),
      r\<lparr>unread := drop 1 (dropWhile (\<lambda>b. b \<noteq> 0) (unread r))\<rparr>)"

definition readStrT :: "u32 \<Rightarrow> wbxml_reader \<Rightarrow> string" where
  "readStrT off r =
     (if length (strTable r) \<le> unat off then []
      else text_of (takeWhile (\<lambda>b. b \<noteq> 0) (drop (unat off) (strTable r))))"

definition readBytes :: "nat \<Rightarrow> wbxml_reader \<Rightarrow> (wbxml_error + byte list) \<times> wbxml_reader" where
  "readBytes n r =
     (if length (unread r) < n then (Inl (WbxmlShort n (length (unread r))), r)
      else (Inr (take n (unread r)), r\<lparr>unread := drop n (unread r)\<rparr>))"

subsection \<open>Tokens\<close>

definition resolveTagName :: "nat \<Rightarrow> byte \<Rightarrow> string" where
  "resolveTagName page tag =
     (if page = 0 \<and> tag = 0x05 then ''wap-provisioningdoc''
      else if page \<le> 1 \<and> tag = 0x06 then ''characteristic''
      else if page \<le> 1 \<and> tag = 0x07 then ''parm''
      else ''tag_0x'' @ hex2 tag)"

definition omaCPAttrStartPage0_entries :: "(byte \<times> string \<times> string) list" where
  "omaCPAttrStartPage0_entries =
    [(0x05, ''name'', ''''), (0x06, ''value'', ''''), (0x07, ''name'', ''NAME''),
     (0x08, ''name'', ''NAP-ADDRESS''), (0x09, ''name'', ''NAP-ADDRTYPE''),
     (0x0A, ''name'', ''CALLTYPE''), (0x0B, ''name'', ''VALIDUNTIL''),
     (0x0C, ''name'', ''AUTHTYPE''), (0x0D, ''name'', ''AUTHNAME''),
     (0x0E, ''name'', ''AUTHSECRET''), (0x0F, ''name'', ''LINGER''), (0x10, ''name'', ''BEARER''),
     (0x11, ''name'', ''NAPID''), (0x12, ''name'', ''COUNTRY''), (0x13, ''name'', ''NETWORK''),
     (0x14, ''name'', ''INTERNET''), (0x15, ''name'', ''PROXY-ID''),
     (0x16, ''name'', ''PROXY-PROVIDER-ID''), (0x17, ''name'', ''DOMAIN''),
     (0x18, ''name'', ''PROVURL''), (0x19, ''name'', ''PXAUTH-TYPE''),
     (0x1A, ''name'', ''PXAUTH-ID''), (0x1B, ''name'', ''PXAUTH-PW''),
     (0x1C, ''name'', ''STARTPAGE''), (0x1D, ''name'', ''BASAUTH-ID''),
     (0x1E, ''name'', ''BASAUTH-PW''), (0x1F, ''name'', ''PUSHENABLED''),
     (0x20, ''name'', ''PXADDR''), (0x21, ''name'', ''PXADDRTYPE''),
     (0x22, ''name'', ''TO-NAPID''), (0x23, ''name'', ''PORTNBR''), (0x24, ''name'', ''SERVICE''),
     (0x25, ''name'', ''LINKSPEED''), (0x26, ''name'', ''DNLINKSPEED''),
     (0x27, ''name'', ''LOCAL-ADDR''), (0x28, ''name'', ''LOCAL-ADDRTYPE''),
     (0x29, ''name'', ''CONTEXT-ALLOW''), (0x2A, ''name'', ''TRUST''),
     (0x2B, ''name'', ''MASTER''), (0x2C, ''name'', ''SID''), (0x2D, ''name'', ''SOC''),
     (0x2E, ''name'', ''WSP-VERSION''), (0x2F, ''name'', ''PHYSICAL-PROXY-ID''),
     (0x30, ''name'', ''CLIENT-ID''), (0x31, ''name'', ''DELIVERY-ERR-SDU''),
     (0x32, ''name'', ''DELIVERY-ORDER''), (0x33, ''name'', ''TRAFFIC-CLASS''),
     (0x34, ''name'', ''MAX-SDU-SIZE''), (0x35, ''name'', ''MAX-BITRATE-UPLINK''),
     (0x36, ''name'', ''MAX-BITRATE-DNLINK''), (0x37, ''name'', ''RESIDUAL-BER''),
     (0x38, ''name'', ''SDU-ERROR-RATIO''), (0x39, ''name'', ''TRAFFIC-HANDL-PRIO''),
     (0x3A, ''name'', ''TRANSFER-DELAY''), (0x3B, ''name'', ''GUARANTEED-BITRATE-UPLINK''),
     (0x3C, ''name'', ''GUARANTEED-BITRATE-DNLINK''), (0x3D, ''name'', ''PXADDR-FQDN''),
     (0x3E, ''name'', ''PROXY-PW''), (0x3F, ''name'', ''PPGAUTH-TYPE'')]"

definition omaCPAttrValuePage0 :: "(byte \<times> string) list" where
  "omaCPAttrValuePage0 =
    [(0x45, ''IPV4''), (0x46, ''IPV6''), (0x47, ''E164''), (0x48, ''ALPHA''), (0x49, ''APN''),
     (0x4A, ''SCODE''), (0x4B, ''TETRA-ITSI''), (0x4C, ''MAN''), (0x50, ''ANALOG-MODEM''),
     (0x51, ''V.120''), (0x52, ''V.110''), (0x53, ''X.31''), (0x54, ''BIT-TRANSPARENT''),
     (0x55, ''DIRECT-ASYNCHRONOUS-DATA-SERVICE''), (0x60, ''PAP''), (0x61, ''CHAP''),
     (0x62, ''HTTP-BASIC''), (0x63, ''HTTP-DIGEST''), (0x64, ''WTLS-SS''), (0x65, ''MD5''),
     (0x6A, ''GSM-USSD''), (0x6B, ''GSM-SMS''), (0x6C, ''ANSI-136-GUTS''),
     (0x6D, ''IS-95-CDMA-SMS''), (0x6E, ''IS-95-CDMA-CSD''), (0x6F, ''IS-95-CDMA-PACKET''),
     (0x70, ''ANSI-136-CSD''), (0x71, ''ANSI-136-GPRS''), (0x72, ''GSM-CSD''),
     (0x73, ''GSM-GPRS''), (0x74, ''AMPS-CDPD''), (0x75, ''PDC-CSD''), (0x76, ''PDC-PACKET''),
     (0x77, ''IDEN-SMS''), (0x78, ''IDEN-CSD''), (0x79, ''IDEN-PACKET''), (0x7A, ''FLEX/REFLEX''),
     (0x7B, ''PHS-SMS''), (0x7C, ''PHS-CSD''), (0x7D, ''TETRA-SDS''), (0x7E, ''TETRA-PACKET''),
     (0x7F, ''ANSI-136-GHOST''), (0x80, ''MOBITEX-MPAK''), (0x81, ''CDMA2000-1X-SIMPLE-IP''),
     (0x82, ''CDMA2000-1X-MOBILE-IP''), (0x85, ''AUTOBAUDING''), (0x8A, ''CL-WSP''),
     (0x8B, ''CO-WSP''), (0x8C, ''CL-SEC-WSP''), (0x8D, ''CO-SEC-WSP''), (0x8E, ''CL-SEC-WTA''),
     (0x8F, ''CO-SEC-WTA''), (0x90, ''OTA-HTTP-TO''), (0x91, ''OTA-HTTP-TLS-TO''),
     (0x92, ''OTA-HTTP-PO''), (0x93, ''OTA-HTTP-TLS-PO''), (0xA0, ''PXLOGICAL''),
     (0xA1, ''PXPHYSICAL''), (0xA2, ''PORT''), (0xA3, ''VALIDITY''), (0xA4, ''NAPDEF''),
     (0xA5, ''BOOTSTRAP''), (0xA6, ''VENDORCONFIG''), (0xA7, ''CLIENTIDENTITY''),
     (0xA8, ''PXAUTHINFO''), (0xA9, ''NAPAUTHINFO''), (0xAA, ''ACCESS'')]"

definition omaCPAttrStartPage1_entries :: "(byte \<times> string \<times> string) list" where
  "omaCPAttrStartPage1_entries =
    [(0x05, ''name'', ''''), (0x06, ''value'', ''''), (0x07, ''name'', ''NAME''),
     (0x08, ''name'', ''INTERNET''), (0x10, ''name'', ''STARTPAGE''),
     (0x11, ''name'', ''TO-NAPID''), (0x12, ''name'', ''PORTNBR''), (0x13, ''name'', ''SERVICE''),
     (0x14, ''name'', ''AACCEPT''), (0x15, ''name'', ''AAUTHDATA''),
     (0x16, ''name'', ''AAUTHLEVEL''), (0x17, ''name'', ''AAUTHNAME''),
     (0x18, ''name'', ''AAUTHSECRET''), (0x19, ''name'', ''AAUTHTYPE''),
     (0x1A, ''name'', ''ADDR''), (0x1B, ''name'', ''ADDRTYPE''), (0x1C, ''name'', ''APPID''),
     (0x1D, ''name'', ''APROTOCOL''), (0x1E, ''name'', ''PROVIDER-ID''),
     (0x1F, ''name'', ''TO-PROXY''), (0x20, ''name'', ''URI''), (0x21, ''name'', ''RULE'')]"

definition omaCPAttrValuePage1 :: "(byte \<times> string) list" where
  "omaCPAttrValuePage1 =
    [(0x45, ''IPV4''), (0x46, ''IPV6''), (0x50, ''APSERVICE''), (0x51, ''OTA-HTTP-TO''),
     (0x52, ''OTA-HTTP-TLS-TO''), (0x53, ''OTA-HTTP-PO''), (0x54, ''OTA-HTTP-TLS-PO''),
     (0x55, ''25''), (0x56, ''143''), (0x57, ''993''), (0x58, ''110''), (0x59, ''995''),
     (0x5A, ''119''), (0x5B, ''563''), (0x5C, ''209''), (0x60, '',''), (0x61, ''HTTP-''),
     (0x62, ''BASIC''), (0x63, ''DIGEST''), (0x90, ''w2''), (0x91, ''w4''), (0x92, ''w5''),
     (0x93, ''w7''), (0xA0, ''PORT''), (0xA1, ''CLIENTIDENTITY''), (0xA2, ''APPADDR''),
     (0xA3, ''APPAUTH''), (0xA4, ''APPLICATION''), (0xA5, ''RESOURCE'')]"

text \<open>\<^verbatim>\<open>init\<close> adds the type values to the attribute starts of their page.\<close>

definition omaCPAttrStartPage0 :: "(byte \<times> string \<times> string) list" where
  "omaCPAttrStartPage0 = omaCPAttrStartPage0_entries @
     map (\<lambda>(t, v). (t, ''type'', v)) (filter (\<lambda>(t, v). 0xA0 \<le> t \<and> t \<le> 0xAA) omaCPAttrValuePage0)"

definition omaCPAttrStartPage1 :: "(byte \<times> string \<times> string) list" where
  "omaCPAttrStartPage1 = omaCPAttrStartPage1_entries @
     map (\<lambda>(t, v). (t, ''type'', v)) (filter (\<lambda>(t, v). 0xA0 \<le> t \<and> t \<le> 0xA5) omaCPAttrValuePage1)"

definition resolveAttrStart :: "nat \<Rightarrow> byte \<Rightarrow> string \<times> string" where
  "resolveAttrStart page token =
     (case (if page = 0 then map_of omaCPAttrStartPage0 token
            else if page = 1 then map_of omaCPAttrStartPage1 token else None) of
        Some e \<Rightarrow> e
      | None \<Rightarrow> (''attr_0x'' @ hex2 token, []))"

definition resolveAttrValue :: "nat \<Rightarrow> byte \<Rightarrow> string" where
  "resolveAttrValue page token =
     (case (if page = 0 then map_of omaCPAttrValuePage0 token
            else if page = 1 then map_of omaCPAttrValuePage1 token else None) of
        Some v \<Rightarrow> v
      | None \<Rightarrow> ''[0x'' @ hex2 token @ '']'')"

subsection \<open>Attributes\<close>

definition flushAttr :: "(string \<times> string) list \<Rightarrow> string \<Rightarrow> string \<Rightarrow> (string \<times> string) list" where
  "flushAttr attrs name val = (if name \<noteq> [] then AList.update name (TrimSpace val) attrs else attrs)"

definition known_value :: "nat \<Rightarrow> byte \<Rightarrow> bool" where
  "known_value page b \<longleftrightarrow>
     resolveAttrValue page b \<noteq> [] \<and> \<not> prefix ''[0x'' (resolveAttrValue page b)"

definition known_start :: "nat \<Rightarrow> byte \<Rightarrow> bool" where
  "known_start page b \<longleftrightarrow>
     fst (resolveAttrStart page b) \<noteq> [] \<and> \<not> prefix ''attr_'' (fst (resolveAttrStart page b))"

lemma readByte_length: "readByte r = (Inr b, r') \<Longrightarrow> length (unread r') < length (unread r)"
  by (auto simp: readByte_def split: list.splits)

lemma mb_read_length: "mb_read n acc r = (v, r') \<Longrightarrow> length (unread r') \<le> length (unread r)"
proof (induction n arbitrary: acc r)
  case (Suc n)
  show ?case
  proof (cases "unread r")
    case Nil
    then show ?thesis using Suc.prems by (auto simp: readByte_def)
  next
    case (Cons b bs)
    then show ?thesis
      using Suc.prems Suc.IH [of "mb_step acc b" "r\<lparr>unread := bs\<rparr>"]
      by (auto simp: readByte_def Let_def split: if_splits)
  qed
qed simp

lemma readMB0_length: "readMB0 r = (v, r') \<Longrightarrow> length (unread r') \<le> length (unread r)"
  by (auto simp: readMB0_def readMBUint32_def split: prod.splits sum.splits dest: mb_read_length)

lemma readStrI_length: "length (unread (snd (readStrI r))) \<le> length (unread r)"
  using length_dropWhile_le [of "\<lambda>b. b \<noteq> 0" "unread r"] by (simp add: readStrI_def)

lemma readBytes_length: "length (unread (snd (readBytes n r))) \<le> length (unread r)"
  by (simp add: readBytes_def)

lemma readByte_shrinks: "(Inr b, r') = readByte r \<Longrightarrow> length (unread r') < length (unread r)"
  using readByte_length by metis

lemma readStrI_shrinks: "(s, r') = readStrI r \<Longrightarrow> length (unread r') \<le> length (unread r)"
  using readStrI_length [of r] by (metis snd_conv)

lemma readMB0_shrinks: "(v, r') = readMB0 r \<Longrightarrow> length (unread r') \<le> length (unread r)"
  using readMB0_length by metis

lemmas reader_shrinks = readByte_shrinks readStrI_shrinks readMB0_shrinks readBytes_length

function attr_loop ::
  "(string \<times> string) list \<Rightarrow> string \<Rightarrow> string \<Rightarrow> wbxml_reader \<Rightarrow> (string \<times> string) list \<times> wbxml_reader" where
  "attr_loop attrs name val r =
     (case readByte r of
        (Inl e, r1) \<Rightarrow> (flushAttr attrs name val, r1)
      | (Inr b, r1) \<Rightarrow>
          if b = 0x01 then (flushAttr attrs name val, r1)
          else if b = 0x00 then
            (case readByte r1 of
               (Inl e, r2) \<Rightarrow> (flushAttr attrs name val, r2)
             | (Inr page, r2) \<Rightarrow> attr_loop attrs name val (r2\<lparr>attrPage := unat page\<rparr>))
          else if b = 0x03 then
            (case readStrI r1 of (s, r2) \<Rightarrow> attr_loop attrs name (val @ s) r2)
          else if b = 0x83 then
            (case readMB0 r1 of (off, r2) \<Rightarrow> attr_loop attrs name (val @ readStrT off r2) r2)
          else if b = 0xC3 then
            (case readMB0 r1 of (n, r2) \<Rightarrow> attr_loop attrs name val (snd (readBytes (unat n) r2)))
          else if name \<noteq> [] \<and> known_value (attrPage r1) b then
            attr_loop attrs name (val @ resolveAttrValue (attrPage r1) b) r1
          else if known_start (attrPage r1) b then
            attr_loop (flushAttr attrs name val) (fst (resolveAttrStart (attrPage r1) b))
              (snd (resolveAttrStart (attrPage r1) b)) r1
          else if known_value (attrPage r1) b then
            attr_loop attrs name (val @ resolveAttrValue (attrPage r1) b) r1
          else attr_loop attrs name val r1)"
  by pat_completeness auto
termination
  by (relation "measure (\<lambda>(attrs, name, val, r). length (unread r))")
    (auto dest!: readByte_shrinks readStrI_shrinks readMB0_shrinks
      intro: le_less_trans [OF readBytes_length])

declare attr_loop.simps [simp del]

definition parseAttributes :: "wbxml_reader \<Rightarrow> (string \<times> string) list \<times> wbxml_reader" where
  "parseAttributes r = attr_loop [] [] [] r"

subsection \<open>Elements\<close>

definition attr_value :: "string \<Rightarrow> (string \<times> string) list \<Rightarrow> string" where
  "attr_value k attrs = (case map_of attrs k of None \<Rightarrow> [] | Some v \<Rightarrow> v)"

abbreviation parm_type :: string where "parm_type \<equiv> ''__parm__''"

definition merge_params :: "characteristic list \<Rightarrow> (string \<times> string) list" where
  "merge_params children =
     foldl (\<lambda>ps c. if CharType c = parm_type
       then foldl (\<lambda>ps (k, v). AList.update k v ps) ps (Params c) else ps) [] children"

definition build_element ::
  "string \<Rightarrow> (string \<times> string) list \<Rightarrow> characteristic list \<Rightarrow> string \<Rightarrow> characteristic option" where
  "build_element tag attrs children txt =
     (if tag = ''characteristic'' then
        Some (Characteristic (attr_value ''type'' attrs) (merge_params children)
          (filter (\<lambda>c. CharType c \<noteq> parm_type) children))
      else if tag = ''parm'' then
        (let name = attr_value ''name'' attrs;
             name = (if name = [] \<and> txt \<noteq> [] then txt else name)
         in if TrimSpace name = [] then None
            else Some (Characteristic parm_type [(name, attr_value ''value'' attrs)] []))
      else if tag = ''wap-provisioningdoc'' then
        (if children \<noteq> [] then Some (Characteristic ''wap-provisioningdoc'' [] children) else None)
      else None)"

type_synonym element_result = "(wbxml_error + characteristic option) \<times> wbxml_reader"

fun parseElement :: "nat \<Rightarrow> wbxml_reader \<Rightarrow> element_result option"
  and parseContent ::
    "nat \<Rightarrow> characteristic list \<Rightarrow> string \<Rightarrow> wbxml_reader \<Rightarrow>
      (characteristic list \<times> string \<times> wbxml_reader) option"
where
  "parseElement 0 r = None"
| "parseElement (Suc n) r =
     (case readByte r of
        (Inl e, r) \<Rightarrow> Some (Inl e, r)
      | (Inr b, r) \<Rightarrow>
          if b = 0x00 then
            (case readByte r of
               (Inl e, r) \<Rightarrow> Some (Inl e, r)
             | (Inr page, r) \<Rightarrow> parseElement n (r\<lparr>tagPage := unat page\<rparr>))
          else if b = 0x01 then Some (Inl WbxmlEnd, r)
          else
            let tag = resolveTagName (tagPage r) (b AND 0x3F);
                (attrs, r) = (if b AND 0x80 \<noteq> 0 then parseAttributes r else ([], r))
            in if b AND 0x40 \<noteq> 0 then
                 (case parseContent n [] [] r of
                    None \<Rightarrow> None
                  | Some (children, txt, r) \<Rightarrow> Some (Inr (build_element tag attrs children txt), r))
               else Some (Inr (build_element tag attrs [] []), r))"
| "parseContent 0 children txt r = None"
| "parseContent (Suc n) children txt r =
     (case unread r of
        [] \<Rightarrow> Some (children, txt, r)
      | peek # bs \<Rightarrow>
          if peek = 0x01 then Some (children, txt, r\<lparr>unread := bs\<rparr>)
          else if peek = 0x03 then
            (case readStrI (r\<lparr>unread := bs\<rparr>) of (s, r) \<Rightarrow> parseContent n children (txt @ s) r)
          else if peek = 0x83 then
            (case readMB0 (r\<lparr>unread := bs\<rparr>) of
               (off, r) \<Rightarrow> parseContent n children (txt @ readStrT off r) r)
          else if peek = 0xC3 then
            (case readMB0 (r\<lparr>unread := bs\<rparr>) of
               (k, r) \<Rightarrow> parseContent n children txt (snd (readBytes (unat k) r)))
          else if peek = 0x00 then
            (case readByte (r\<lparr>unread := bs\<rparr>) of
               (Inl e, r) \<Rightarrow> parseContent n children txt (r\<lparr>tagPage := 0\<rparr>)
             | (Inr page, r) \<Rightarrow> parseContent n children txt (r\<lparr>tagPage := unat page\<rparr>))
          else
            (case parseElement n r of
               None \<Rightarrow> None
             | Some (Inl e, r) \<Rightarrow> Some (children, txt, r)
             | Some (Inr None, r) \<Rightarrow> parseContent n children txt r
             | Some (Inr (Some c), r) \<Rightarrow> parseContent n (children @ [c]) txt r))"

subsection \<open>Documents\<close>

fun decode_elements :: "nat \<Rightarrow> characteristic list \<Rightarrow> wbxml_reader \<Rightarrow> characteristic list option" where
  "decode_elements 0 cs r = None"
| "decode_elements (Suc n) cs r =
     (if unread r = [] then Some cs
      else case parseElement n r of
             None \<Rightarrow> None
           | Some (Inl e, r) \<Rightarrow> Some cs
           | Some (Inr None, r) \<Rightarrow> decode_elements n cs r
           | Some (Inr (Some c), r) \<Rightarrow> decode_elements n (cs @ [c]) r)"

definition body_fuel :: "wbxml_reader \<Rightarrow> nat" where
  "body_fuel r = 2 * length (unread r) + 3"

text \<open>\<^verbatim>\<open>readHeader\<close> is the part of \<^verbatim>\<open>decodeWBXML\<close> before the body: the version octet and the
  reader behind the string table.\<close>

definition read_header :: "byte list \<Rightarrow> wbxml_error + (byte \<times> wbxml_reader)" where
  "read_header bs =
     (case readByte \<lparr>unread = bs, strTable = [], tagPage = 0, attrPage = 0\<rparr> of
        (Inl e, _) \<Rightarrow> Inl e
      | (Inr version, r) \<Rightarrow>
          (case readMBUint32 r of
             (Inl e, _) \<Rightarrow> Inl e
           | (Inr publicID, r) \<Rightarrow>
               if publicID \<noteq> 0x0B then Inl (WbxmlNotOmaCP publicID)
               else
                 (case readMBUint32 r of
                    (Inl e, _) \<Rightarrow> Inl e
                  | (Inr charset, r) \<Rightarrow>
                      (case readMBUint32 r of
                         (Inl e, _) \<Rightarrow> Inl e
                       | (Inr strTableLen, r) \<Rightarrow>
                           if 0 < strTableLen then
                             (case readBytes (unat strTableLen) r of
                                (Inl e, _) \<Rightarrow> Inl e
                              | (Inr table, r) \<Rightarrow> Inr (version, r\<lparr>strTable := table\<rparr>))
                           else Inr (version, r)))))"

definition version_text :: "byte \<Rightarrow> string" where
  "version_text v = decimal (unat (drop_bit 4 v + 1)) @ ''.'' @ decimal (unat (v AND 0x0F))"

definition decodeWBXML :: "byte list \<Rightarrow> wbxml_error + omacp_config" where
  "decodeWBXML bs =
     res_bind (read_header bs) (\<lambda>(version, r).
       case decode_elements (body_fuel r) [] r of
         Some cs \<Rightarrow>
           if cs = [] then Inl WbxmlNoConfig
           else Inr \<lparr>Version = version_text version, Characteristics = cs\<rparr>
       | None \<Rightarrow> Inl WbxmlNoConfig)"

definition DecodeOmaCPFromTPDU :: "byte list \<Rightarrow> wbxml_error + omacp_config" where
  "DecodeOmaCPFromTPDU bs =
     (if length bs < 4 then Inl (OmaCPTooShort (length bs))
      else res_bind (findWBXMLStart bs) decodeWBXML)"

section \<open>The parser returns\<close>

lemma readMB0_le: "length (unread (snd (readMB0 r))) \<le> length (unread r)"
  by (rule readMB0_length) (rule prod.collapse [symmetric])

lemma readByte_le: "length (unread (snd (readByte r))) \<le> length (unread r)"
  by (simp add: readByte_def split: list.split)

lemma attr_loop_length: "length (unread (snd (attr_loop attrs name val r))) \<le> length (unread r)"
proof (induction "length (unread r)" arbitrary: attrs name val r rule: less_induct)
  case less
  have IH: "length (unread (snd (attr_loop a n v r'))) \<le> length (unread r)"
    if "length (unread r') < length (unread r)" for a n v r'
    using less [OF that, of a n v] that by linarith
  show ?case
  proof (cases "unread r")
    case Nil
    then show ?thesis by (subst attr_loop.simps) (simp add: readByte_def)
  next
    case (Cons b bs)
    define q where "q = r\<lparr>unread := bs\<rparr>"
    have r: "readByte r = (Inr b, q)" using Cons by (simp add: readByte_def q_def)
    have q: "length (unread q) < length (unread r)" using Cons by (simp add: q_def)
    have str: "length (unread (snd (attr_loop a n v (snd (readStrI q))))) \<le> length (unread r)" for a n v
      by (rule IH [OF le_less_trans [OF readStrI_length q]])
    have tbl: "length (unread (snd (attr_loop a n v (snd (readMB0 q))))) \<le> length (unread r)" for a n v
      by (rule IH [OF le_less_trans [OF readMB0_le q]])
    have opq: "length (unread (snd (attr_loop a n v (snd (readBytes k (snd (readMB0 q))))))) \<le> length (unread r)"
      for a n v k
      by (rule IH [OF le_less_trans [OF le_trans [OF readBytes_length readMB0_le] q]])
    have page: "length (unread (snd (attr_loop a n v (snd (readByte q)\<lparr>attrPage := p\<rparr>)))) \<le> length (unread r)"
      for a n v p
      using readByte_le [of q] q by (intro IH) simp
    have eof: "length (unread (snd (readByte q))) \<le> length (unread r)"
      using readByte_le [of q] q by linarith
    have plain: "length (unread (snd (attr_loop a n v q))) \<le> length (unread r)" for a n v
      by (rule IH [OF q])
    show ?thesis
      unfolding attr_loop.simps [of attrs name val r] r prod.case sum.case
      using q by (auto simp: str tbl opq page eof plain split_beta split: sum.split)
  qed
qed

lemma parseAttributes_le: "length (unread (snd (parseAttributes r))) \<le> length (unread r)"
  by (simp add: parseAttributes_def attr_loop_length)

lemma parse_length:
  "(\<forall>r res r'. parseElement n r = Some (res, r') \<longrightarrow> length (unread r') \<le> length (unread r) \<and>
      (\<not> isl res \<longrightarrow> length (unread r') < length (unread r))) \<and>
   (\<forall>cs tx r cs' tx' r'. parseContent n cs tx r = Some (cs', tx', r') \<longrightarrow>
      length (unread r') \<le> length (unread r))"
proof (induction n)
  case 0
  show ?case by simp
next
  case (Suc n)
  have E: "length (unread r') \<le> length (unread r) \<and> (\<not> isl res \<longrightarrow> length (unread r') < length (unread r))"
    if "parseElement n r = Some (res, r')" for r res r' using Suc that by blast
  have C: "length (unread r') \<le> length (unread r)"
    if "parseContent n cs tx r = Some (cs', tx', r')" for cs tx r cs' tx' r' using Suc that by blast
  have el: "length (unread r') \<le> length (unread r) \<and> (\<not> isl res \<longrightarrow> length (unread r') < length (unread r))"
    if p: "parseElement (Suc n) r = Some (res, r')" for r res r'
  proof (cases "unread r")
    case Nil
    then show ?thesis using p by (auto simp: readByte_def)
  next
    case (Cons b bs)
    define q where "q = r\<lparr>unread := bs\<rparr>"
    have r: "readByte r = (Inr b, q)" and q: "length (unread q) < length (unread r)"
      using Cons by (simp_all add: readByte_def q_def)
    show ?thesis
      using p q readByte_le [of q] parseAttributes_le [of q]
      by (auto simp: r split_beta Let_def split: if_splits sum.splits option.splits dest!: E C)
  qed
  moreover have "length (unread r') \<le> length (unread r)"
    if p: "parseContent (Suc n) cs tx r = Some (cs', tx', r')" for cs tx r cs' tx' r'
  proof (cases "unread r")
    case Nil
    then show ?thesis using p by simp
  next
    case (Cons b bs)
    define q where "q = r\<lparr>unread := bs\<rparr>"
    have q: "length (unread q) < length (unread r)" using Cons by (simp add: q_def)
    have page: "length (unread (snd (readByte q)\<lparr>tagPage := k\<rparr>)) \<le> length (unread q)" for k
      using readByte_le [of q] by simp
    have bytes: "length (unread (snd (readBytes k (snd (readMB0 q))))) \<le> length (unread q)" for k
      by (rule le_trans [OF readBytes_length readMB0_le])
    have bound: "length (unread r') \<le> length (unread r)"
      if "parseContent n cs tx s = Some (cs', tx', r')" "length (unread s) \<le> length (unread q)" for cs tx s
      using C [OF that(1)] that(2) q by linarith
    have child: "length (unread r') \<le> length (unread r)"
      if "parseElement n r = Some (Inr c, s)" "parseContent n cs tx s = Some (cs', tx', r')" for c s cs tx
      using E [OF that(1)] C [OF that(2)] by linarith
    have stop: "length (unread r') \<le> length (unread r)" if "parseElement n r = Some (Inl e, r')" for e
      using E [OF that] by simp
    note p' = p [unfolded parseContent.simps Cons list.case q_def [symmetric]]
    show ?thesis
      using p' less_imp_le [OF q]
      by (auto simp: split_beta intro: bound [OF _ readStrI_length] bound [OF _ readMB0_le]
          bound [OF _ page] bound [OF _ bytes] child stop split: if_splits sum.splits option.splits)
  qed
  ultimately show ?case by blast
qed

lemma element_length:
  assumes "parseElement n r = Some (res, r')"
  shows "length (unread r') \<le> length (unread r)" and "\<not> isl res \<Longrightarrow> length (unread r') < length (unread r)"
  using assms parse_length by blast+

lemma content_length:
  "parseContent n cs tx r = Some (cs', tx', r') \<Longrightarrow> length (unread r') \<le> length (unread r)"
  using parse_length by blast

text \<open>Twice the unread octets are fuel enough.\<close>

lemma parse_enough:
  "(\<forall>r. 2 * length (unread r) + 1 \<le> n \<longrightarrow> parseElement n r \<noteq> None) \<and>
   (\<forall>cs tx r. 2 * length (unread r) + 2 \<le> n \<longrightarrow> parseContent n cs tx r \<noteq> None)"
proof (induction n)
  case 0
  show ?case by simp
next
  case (Suc n)
  have E: "\<exists>y. parseElement n r = Some y" if "2 * length (unread r) + 1 \<le> n" for r
    using Suc that by blast
  have C: "\<exists>y. parseContent n cs tx r = Some y" if "2 * length (unread r) + 2 \<le> n" for cs tx r
    using Suc that by blast
  have "parseElement (Suc n) r \<noteq> None" if f: "2 * length (unread r) + 1 \<le> Suc n" for r
  proof (cases "unread r")
    case Nil
    then show ?thesis by (simp add: readByte_def)
  next
    case (Cons b bs)
    define q where "q = r\<lparr>unread := bs\<rparr>"
    have r: "readByte r = (Inr b, q)" and q: "Suc (length (unread q)) = length (unread r)"
      using Cons by (simp_all add: readByte_def q_def)
    have page: "\<exists>y. parseElement n (q'\<lparr>tagPage := k\<rparr>) = Some y" if "readByte q = (x, q')" for k x q'
      using readByte_le [of q] that q f by (intro E) simp
    have content: "\<exists>y. parseContent n [] [] (snd (parseAttributes q)) = Some y"
        "\<exists>y. parseContent n [] [] q = Some y"
      using parseAttributes_le [of q] q f by (intro C; simp)+
    show ?thesis
      using content by (auto simp: r split_beta Let_def page split: sum.split option.split prod.split)
        (use page prod.collapse in metis)+
  qed
  moreover have "parseContent (Suc n) cs tx r \<noteq> None" if f: "2 * length (unread r) + 2 \<le> Suc n" for cs tx r
  proof (cases "unread r")
    case Nil
    then show ?thesis by simp
  next
    case (Cons b bs)
    define q where "q = r\<lparr>unread := bs\<rparr>"
    have q: "Suc (length (unread q)) = length (unread r)" using Cons by (simp add: q_def)
    have go: "\<exists>y. parseContent n cs tx s = Some y" if "length (unread s) \<le> length (unread q)" for cs tx s
      using that q f by (intro C) linarith
    have bytes: "length (unread (snd (readBytes k (snd (readMB0 q))))) \<le> length (unread q)" for k
      by (rule le_trans [OF readBytes_length readMB0_le])
    have page: "length (unread (snd (readByte q)\<lparr>tagPage := k\<rparr>)) \<le> length (unread q)" for k
      using readByte_le [of q] by simp
    obtain res s where el: "parseElement n r = Some (res, s)" using E [of r] f by auto
    have child: "\<exists>y. parseContent n cs tx s = Some y" if "\<not> isl res" for cs tx
      using element_length(2) [OF el that] q by (intro go) linarith
    have p: "parseContent (Suc n) cs tx r =
      (if b = 0x01 then Some (cs, tx, q)
       else if b = 0x03 then (case readStrI q of (s, r) \<Rightarrow> parseContent n cs (tx @ s) r)
       else if b = 0x83 then
         (case readMB0 q of (off, r) \<Rightarrow> parseContent n cs (tx @ readStrT off r) r)
       else if b = 0xC3 then
         (case readMB0 q of (k, r) \<Rightarrow> parseContent n cs tx (snd (readBytes (unat k) r)))
       else if b = 0x00 then
         (case readByte q of
            (Inl e, r) \<Rightarrow> parseContent n cs tx (r\<lparr>tagPage := 0\<rparr>)
          | (Inr page, r) \<Rightarrow> parseContent n cs tx (r\<lparr>tagPage := unat page\<rparr>))
       else case res of
              Inl e \<Rightarrow> Some (cs, tx, s)
            | Inr None \<Rightarrow> parseContent n cs tx s
            | Inr (Some c) \<Rightarrow> parseContent n (cs @ [c]) tx s)"
      unfolding parseContent.simps Cons list.case q_def [symmetric] el option.case prod.case by simp
    show ?thesis
      unfolding p using go [OF readStrI_length] go [OF readMB0_le] go [OF page] go [OF bytes] child
      by (auto simp: split_beta split: sum.split option.split)
  qed
  ultimately show ?case by blast
qed

text \<open>More fuel changes nothing.\<close>

lemma parse_more:
  "(\<forall>r x. parseElement n r = Some x \<longrightarrow> parseElement (Suc n) r = Some x) \<and>
   (\<forall>cs tx r x. parseContent n cs tx r = Some x \<longrightarrow> parseContent (Suc n) cs tx r = Some x)"
proof (induction n)
  case 0
  show ?case by simp
next
  case (Suc n)
  have E: "parseElement n r = Some x \<Longrightarrow> parseElement (Suc n) r = Some x"
    and C: "parseContent n cs tx r = Some y \<Longrightarrow> parseContent (Suc n) cs tx r = Some y" for cs tx r x y
    using Suc by blast+
  have "parseElement (Suc (Suc n)) r = Some x" if p: "parseElement (Suc n) r = Some x" for r x
  proof (cases "unread r")
    case Nil
    then show ?thesis using p by (simp add: readByte_def)
  next
    case (Cons b bs)
    define q where "q = r\<lparr>unread := bs\<rparr>"
    define as where "as = (if b AND 0x80 \<noteq> 0 then parseAttributes q else ([], q))"
    have r: "readByte r = (Inr b, q)" using Cons by (simp add: readByte_def q_def)
    have eq: "parseElement (Suc k) r =
      (if b = 0x00 then
         (case fst (readByte q) of
            Inl e \<Rightarrow> Some (Inl e, snd (readByte q))
          | Inr p \<Rightarrow> parseElement k (snd (readByte q)\<lparr>tagPage := unat p\<rparr>))
       else if b = 0x01 then Some (Inl WbxmlEnd, q)
       else if b AND 0x40 \<noteq> 0 then
         (case parseContent k [] [] (snd as) of
            None \<Rightarrow> None
          | Some (ch, tx, s) \<Rightarrow>
              Some (Inr (build_element (resolveTagName (tagPage q) (b AND 0x3F)) (fst as) ch tx), s))
       else Some (Inr (build_element (resolveTagName (tagPage q) (b AND 0x3F)) (fst as) [] []), snd as))" for k
      by (simp add: r split_beta Let_def as_def split: sum.split option.split)
    show ?thesis
      using p unfolding eq
      by (auto simp: E simp del: parseElement.simps parseContent.simps
          split: if_splits sum.splits option.splits dest: C)
  qed
  moreover have "parseContent (Suc (Suc n)) cs tx r = Some x" if p: "parseContent (Suc n) cs tx r = Some x" for cs tx r x
  proof (cases "unread r")
    case Nil
    then show ?thesis using p by simp
  next
    case (Cons b bs)
    have eq: "parseContent (Suc k) cs tx r =
      (if b = 0x01 then Some (cs, tx, q)
       else if b = 0x03 then parseContent k cs (tx @ fst (readStrI q)) (snd (readStrI q))
       else if b = 0x83 then
         parseContent k cs (tx @ readStrT (fst (readMB0 q)) (snd (readMB0 q))) (snd (readMB0 q))
       else if b = 0xC3 then
         parseContent k cs tx (snd (readBytes (unat (fst (readMB0 q))) (snd (readMB0 q))))
       else if b = 0x00 then
         parseContent k cs tx (snd (readByte q)\<lparr>tagPage := (case fst (readByte q) of Inl e \<Rightarrow> 0 | Inr p \<Rightarrow> unat p)\<rparr>)
       else case parseElement k r of
              None \<Rightarrow> None
            | Some (Inl e, r) \<Rightarrow> Some (cs, tx, r)
            | Some (Inr None, r) \<Rightarrow> parseContent k cs tx r
            | Some (Inr (Some c), r) \<Rightarrow> parseContent k (cs @ [c]) tx r)"
      if "q = r\<lparr>unread := bs\<rparr>" for k q
      unfolding parseContent.simps Cons list.case that [symmetric] split_beta
      by (simp split: sum.split)
    show ?thesis
    proof (cases "parseElement n r")
      case None
      then show ?thesis
        using p unfolding eq [OF refl]
        by (simp add: C del: parseElement.simps parseContent.simps split: if_splits)
    next
      case (Some y)
      then obtain res s where el: "parseElement n r = Some (res, s)" by (cases y) auto
      show ?thesis
        using p unfolding eq [OF refl] el E [OF el] option.case prod.case
        by (cases res) (auto simp: C simp del: parseElement.simps parseContent.simps split: if_splits option.splits)
    qed
  qed
  ultimately show ?case by blast
qed

lemma parseElement_mono: "parseElement n r = Some x \<Longrightarrow> n \<le> m \<Longrightarrow> parseElement m r = Some x"
proof (induction m)
  case (Suc m)
  show ?case
  proof (cases "n = Suc m")
    case True
    then show ?thesis using Suc.prems by blast
  next
    case False
    then have "parseElement m r = Some x" using Suc by simp
    then show ?thesis using parse_more [of m] by blast
  qed
qed simp

lemma decode_elements_returns: "2 * length (unread r) + 2 \<le> n \<Longrightarrow> \<exists>cs'. decode_elements n cs r = Some cs'"
proof (induction n arbitrary: cs r)
  case (Suc n)
  obtain res s where el: "parseElement n r = Some (res, s)"
    using parse_enough [of n] Suc.prems by fastforce
  show ?case
  proof (cases res)
    case (Inr c)
    have "2 * length (unread s) + 2 \<le> n"
      using element_length(2) [OF el] Inr Suc.prems by simp
    then show ?thesis using el Inr Suc.IH by (simp split: option.split)
  qed (simp add: el)
qed simp

lemma decode_elements_more: "decode_elements n cs r = Some x \<Longrightarrow> n \<le> m \<Longrightarrow> decode_elements m cs r = Some x"
proof (induction n arbitrary: cs r m)
  case (Suc n)
  then obtain k where m: "m = Suc k" "n \<le> k" by (cases m) auto
  show ?case
    using Suc.prems(1) Suc.IH [of _ _ k] m(2) parseElement_mono [OF _ m(2)]
    by (auto simp: m(1) split: if_splits option.splits sum.splits prod.splits)
qed simp

lemma decode_elements_enough:
  assumes "body_fuel r \<le> n"
  shows "decode_elements n cs r = decode_elements (body_fuel r) cs r"
proof -
  obtain x where "decode_elements (body_fuel r) cs r = Some x"
    using decode_elements_returns [of r "body_fuel r" cs] by (auto simp: body_fuel_def)
  then show ?thesis using decode_elements_more [OF _ assms] by simp
qed

text \<open>Property C35: Parsing a provisioning document always returns: for every reader, every nesting and
  every damage to the octets, the body's loop ends, with the same result for every amount of fuel from
  the one the model takes on.\<close>

theorem provisioning_body_returns:
  assumes "body_fuel r \<le> n"
  shows "decode_elements n cs r \<noteq> None \<and> decode_elements n cs r = decode_elements (body_fuel r) cs r"
  using decode_elements_enough [OF assms, of cs] decode_elements_returns [of r "body_fuel r" cs]
  by (auto simp: body_fuel_def)

theorem provisioning_body_returns_witness:
  "decode_elements 9 [] \<lparr>unread = [0x45, 0xC6, 0x00], strTable = [], tagPage = 0, attrPage = 0\<rparr> \<noteq> None"
  using provisioning_body_returns
    [of "\<lparr>unread = [0x45, 0xC6, 0x00], strTable = [], tagPage = 0, attrPage = 0\<rparr>" 9 "[]"]
  by (simp add: body_fuel_def)

section \<open>Located documents\<close>

text \<open>The look-ahead that locates a document and the reader that decodes it read the same numbers.\<close>

lemma mb_at_bound: "mb_at n acc bs pos = Some (v, i) \<Longrightarrow> pos \<le> i \<and> i \<le> length bs"
proof (induction n acc bs pos rule: mb_at.induct)
  case (2 n acc bs pos)
  show ?case
  proof (cases "bs ! pos AND 0x80 = 0")
    case True
    then show ?thesis using 2(2) by (auto simp: Let_def split: if_splits)
  next
    case False
    then show ?thesis using 2 by (force simp: Let_def split: if_splits)
  qed
qed simp

lemma mb_at_read:
  "mb_at n acc bs pos = Some (v, i) \<Longrightarrow> unread r = drop pos bs \<Longrightarrow>
     mb_read n acc r = (Inr v, r\<lparr>unread := drop i bs\<rparr>)"
proof (induction n arbitrary: acc pos r)
  case (Suc n)
  have pos: "pos < length bs" using Suc.prems(1) by (auto split: if_splits)
  then have "unread r = bs ! pos # drop (Suc pos) bs" using Suc.prems(2) by (simp add: Cons_nth_drop_Suc)
  then have "readByte r = (Inr (bs ! pos), r\<lparr>unread := drop (Suc pos) bs\<rparr>)" by (simp add: readByte_def)
  then show ?case
    using Suc.prems(1) pos Suc.IH [of "mb_step acc (bs ! pos)" "Suc pos" "r\<lparr>unread := drop (Suc pos) bs\<rparr>"]
    by (auto simp: Let_def split: if_splits)
qed simp

lemma parseMB_read:
  assumes "parseMBUint32At bs pos = Some (v, i)" and "unread r = drop pos bs"
  shows "readMBUint32 r = (Inr v, r\<lparr>unread := drop i bs\<rparr>)"
  using assms mb_at_read [of 5 0 bs pos v i r] by (auto simp: parseMBUint32At_def readMBUint32_def split: if_splits)

text \<open>The header test that locates a document implies that the decoder reads its header:
  version, public identifier, character set and the whole string table.  A located document fails only
  for the lack of a configuration item.\<close>

theorem located_header_is_read:
  assumes "findWBXMLStart bs = Inr doc"
  shows "isWBXMLHeader doc \<and> (\<exists>r. read_header doc = Inr (hd doc, r)) \<and>
    (decodeWBXML doc = Inl WbxmlNoConfig \<or> (\<exists>cfg. decodeWBXML doc = Inr cfg))"
proof -
  have suffix: "header_suffix xs = Some doc \<Longrightarrow> isWBXMLHeader doc" for xs
    by (induction xs) (auto split: if_splits)
  have h: "isWBXMLHeader doc"
    using assms suffix by (auto simp: findWBXMLStart_def split: if_splits option.splits)
  let ?r = "\<lambda>i. \<lparr>unread = drop i doc, strTable = [], tagPage = 0, attrPage = 0\<rparr>"
  have len: "4 \<le> length doc" using h by (simp add: isWBXMLHeader_def split: if_splits)
  from h obtain i where i: "parseMBUint32At doc 1 = Some (0x0B, i)"
    by (cases "parseMBUint32At doc 1") (auto simp: isWBXMLHeader_def split: if_splits)
  from h i obtain v j where j: "parseMBUint32At doc i = Some (v, j)"
    by (cases "parseMBUint32At doc i") (auto simp: isWBXMLHeader_def split: if_splits)
  from h i j obtain n k where k: "parseMBUint32At doc j = Some (n, k)" "k + unat n \<le> length doc"
    by (cases "parseMBUint32At doc j") (auto simp: isWBXMLHeader_def split: if_splits)
  note hdr = i j k
  have first: "readByte (?r 0) = (Inr (hd doc), ?r 1)"
    using len by (cases doc) (auto simp: readByte_def)
  have nums: "readMBUint32 (?r 1) = (Inr 0x0B, ?r i)" "readMBUint32 (?r i) = (Inr v, ?r j)"
      "readMBUint32 (?r j) = (Inr n, ?r k)"
    using parseMB_read [OF hdr(1), of "?r 1"] parseMB_read [OF hdr(2), of "?r i"]
      parseMB_read [OF hdr(3), of "?r j"] by simp_all
  have "\<exists>r. read_header doc = Inr (hd doc, r)"
    using first nums hdr(4) by (auto simp: read_header_def readBytes_def)
  then show ?thesis using h by (auto simp: decodeWBXML_def split: option.split)
qed

section \<open>Documents are read back\<close>

text \<open>What a provisioning server sends: page 0 tokens, parameter names as tokens where the table has them
  and inline otherwise, values inline.\<close>

definition encode_name :: "string \<Rightarrow> byte list" where
  "encode_name k =
     (case find (\<lambda>(t, n, v). n = ''name'' \<and> v = k \<and> v \<noteq> []) omaCPAttrStartPage0_entries of
        Some (t, _) \<Rightarrow> [t]
      | None \<Rightarrow> [0x05, 0x03] @ bytes_of k @ [0])"

definition encode_param :: "string \<times> string \<Rightarrow> byte list" where
  "encode_param p = 0x87 # encode_name (fst p) @ [0x06, 0x03] @ bytes_of (snd p) @ [0, 0x01]"

definition type_names :: "(byte \<times> string) list" where
  "type_names = filter (\<lambda>(t, v). 0xA0 \<le> t \<and> t \<le> 0xAA) omaCPAttrValuePage0"

definition type_token :: "string \<Rightarrow> byte" where
  "type_token ty = (case find (\<lambda>(t, v). v = ty) type_names of Some (t, _) \<Rightarrow> t | None \<Rightarrow> 0)"

fun encode_char :: "characteristic \<Rightarrow> byte list" where
  "encode_char (Characteristic ty ps cs) =
     [0xC6, type_token ty, 0x01] @ List.concat (map encode_param ps) @ List.concat (map encode_char cs) @ [0x01]"

definition encode_document :: "characteristic list \<Rightarrow> byte list" where
  "encode_document cs = [0x03, 0x0B, 0x6A, 0x00, 0x45] @ List.concat (map encode_char cs) @ [0x01]"

definition sendable_text :: "string \<Rightarrow> bool" where
  "sendable_text s \<longleftrightarrow> CHR 0x00 \<notin> set s \<and> TrimSpace s = s"

fun sendable :: "characteristic \<Rightarrow> bool" where
  "sendable (Characteristic ty ps cs) \<longleftrightarrow>
     ty \<in> snd ` set type_names \<and> distinct (map fst ps) \<and>
     list_all (\<lambda>(k, v). k \<noteq> [] \<and> sendable_text k \<and> sendable_text v) ps \<and> list_all sendable cs"

definition page0 :: "wbxml_reader \<Rightarrow> bool" where
  "page0 r \<longleftrightarrow> tagPage r = 0 \<and> attrPage r = 0"

definition plain_token :: "byte \<Rightarrow> bool" where
  "plain_token b \<longleftrightarrow> b \<noteq> 0x00 \<and> b \<noteq> 0x01 \<and> b \<noteq> 0x03 \<and> b \<noteq> 0x83 \<and> b \<noteq> 0xC3"

lemma byte_char_of_byte [simp]: "byte_char (unat (of_nat (char_code c) :: byte)) = c"
  by (simp add: byte_char_def)

lemma text_of_bytes [simp]: "text_of (bytes_of s) = s"
  by (induction s) (simp_all add: text_of_def bytes_of_def byte_char_def)

lemma zero_byte_char:
  assumes "of_nat (char_code c) = (0 :: byte)"
  shows "c = CHR 0x00"
  using byte_char_of_byte [of c] unfolding assms by (simp add: byte_char_def char_of_def)

lemma sendable_bytes: "sendable_text s \<Longrightarrow> 0 \<notin> set (bytes_of s)"
  unfolding sendable_text_def bytes_of_def using zero_byte_char by fastforce

lemma start_entries:
  "distinct (map fst omaCPAttrStartPage0_entries)"
  "list_all (\<lambda>(t, n, v). plain_token t \<and> t < 0x40) omaCPAttrStartPage0_entries"
  by (simp_all add: omaCPAttrStartPage0_entries_def plain_token_def)

lemma start_token:
  assumes "(t, n, v) \<in> set omaCPAttrStartPage0_entries"
  shows "resolveAttrStart 0 t = (n, v)" and "plain_token t"
proof -
  have "map_of omaCPAttrStartPage0_entries t = Some (n, v)"
    using map_of_is_SomeI [OF start_entries(1)] assms by simp
  then show "resolveAttrStart 0 t = (n, v)"
    by (simp add: resolveAttrStart_def omaCPAttrStartPage0_def map_add_def split: option.split)
  show "plain_token t" using assms start_entries(2) by (auto simp: list_all_iff)
qed

lemma type_names_eq: "type_names =
    [(0xA0, ''PXLOGICAL''), (0xA1, ''PXPHYSICAL''), (0xA2, ''PORT''), (0xA3, ''VALIDITY''), (0xA4, ''NAPDEF''),
     (0xA5, ''BOOTSTRAP''), (0xA6, ''VENDORCONFIG''), (0xA7, ''CLIENTIDENTITY''), (0xA8, ''PXAUTHINFO''),
     (0xA9, ''NAPAUTHINFO''), (0xAA, ''ACCESS'')]"
  by (simp add: type_names_def omaCPAttrValuePage0_def)

lemma page0_starts:
  "omaCPAttrStartPage0 = omaCPAttrStartPage0_entries @ map (\<lambda>(t, v). (t, ''type'', v)) type_names"
  by (simp add: omaCPAttrStartPage0_def type_names_def)

lemma type_token:
  assumes "(t, v) \<in> set type_names"
  shows "resolveAttrStart 0 t = (''type'', v)" and "plain_token t" and "v \<noteq> parm_type"
    and "TrimSpace v = v"
proof -
  have "\<not> t < 0x40" using assms by (auto simp: type_names_eq)
  then have "t \<notin> fst ` set omaCPAttrStartPage0_entries"
    using start_entries(2) unfolding list_all_iff by (metis (no_types, lifting) case_prodE imageE fst_conv)
  then have "map_of omaCPAttrStartPage0_entries t = None" by (simp add: map_of_eq_None_iff)
  moreover have "map_of (map (\<lambda>(t, v). (t, ''type'', v)) type_names) t = Some (''type'', v)"
  proof (rule map_of_is_SomeI)
    have "distinct (map fst type_names)" by (simp add: type_names_eq)
    then show "distinct (map fst (map (\<lambda>(t, v). (t, ''type'', v)) type_names))"
      by (simp add: comp_def split_beta)
    show "(t, ''type'', v) \<in> set (map (\<lambda>(t, v). (t, ''type'', v)) type_names)" using assms by force
  qed
  ultimately show "resolveAttrStart 0 t = (''type'', v)"
    by (simp add: resolveAttrStart_def page0_starts map_add_def)
  show "plain_token t" "v \<noteq> parm_type" using assms by (auto simp: type_names_eq plain_token_def)
  show "TrimSpace v = v"
    by (rule TrimSpace_printable) (use assms in \<open>auto simp: type_names_eq printable_def\<close>)
qed

lemma value_token: "\<not> known_value 0 0x06" "resolveAttrStart 0 0x06 = (''value'', [])"
    "resolveAttrStart 0 0x05 = (''name'', [])"
  by (code_simp; fail)+

lemma known_starts:
  "resolveAttrStart p b = (''name'', v) \<Longrightarrow> known_start p b"
  "resolveAttrStart p b = (''value'', v) \<Longrightarrow> known_start p b"
  "resolveAttrStart p b = (''type'', v) \<Longrightarrow> known_start p b"
  by (simp_all add: known_start_def)

lemma attr_start:
  assumes "unread r = b # bs" and "plain_token b" and "name = [] \<or> \<not> known_value (attrPage r) b"
    and "known_start (attrPage r) b" and "resolveAttrStart (attrPage r) b = (name', val')"
  shows "attr_loop attrs name val r = attr_loop (flushAttr attrs name val) name' val' (r\<lparr>unread := bs\<rparr>)"
  using assms unfolding attr_loop.simps [of attrs name val r]
  by (auto simp: readByte_def plain_token_def)

lemma takeWhile_zero: "0 \<notin> set xs \<Longrightarrow> takeWhile (\<lambda>b. b \<noteq> 0) (xs @ 0 # ys) = xs"
  and dropWhile_zero: "0 \<notin> set xs \<Longrightarrow> dropWhile (\<lambda>b. b \<noteq> 0) (xs @ 0 # ys) = 0 # ys" for xs :: "byte list"
  by (induction xs) auto

lemma attr_inline:
  assumes "unread r = 0x03 # bytes_of s @ 0 # bs" and "sendable_text s"
  shows "attr_loop attrs name val r = attr_loop attrs name (val @ s) (r\<lparr>unread := bs\<rparr>)"
  unfolding attr_loop.simps [of attrs name val r] using assms sendable_bytes [OF assms(2)]
  by (simp add: readByte_def readStrI_def takeWhile_zero dropWhile_zero)

lemma attr_end:
  assumes "unread r = 0x01 # bs"
  shows "attr_loop attrs name val r = (flushAttr attrs name val, r\<lparr>unread := bs\<rparr>)"
  unfolding attr_loop.simps [of attrs name val r] using assms by (simp add: readByte_def)

lemma find_mem: "find P xs = Some x \<Longrightarrow> x \<in> set xs \<and> P x"
  by (induction xs) (auto split: if_splits)

lemma encoded_name:
  assumes "unread r = encode_name k @ bs" and "page0 r" and "sendable_text k"
  shows "attr_loop [] [] [] r = attr_loop [] ''name'' k (r\<lparr>unread := bs\<rparr>)"
proof (cases "find (\<lambda>(t, n, v). n = ''name'' \<and> v = k \<and> v \<noteq> []) omaCPAttrStartPage0_entries")
  case None
  then have u: "unread r = 0x05 # 0x03 # bytes_of k @ 0 # bs" using assms(1) by (simp add: encode_name_def)
  have "attr_loop [] [] [] r = attr_loop [] ''name'' [] (r\<lparr>unread := 0x03 # bytes_of k @ 0 # bs\<rparr>)"
    using attr_start [OF u, of "[]" "''name''" "[]" "[]" "[]"] assms(2) value_token known_starts
    by (simp add: page0_def plain_token_def flushAttr_def)
  also have "\<dots> = attr_loop [] ''name'' k (r\<lparr>unread := bs\<rparr>)"
    using attr_inline [of "r\<lparr>unread := 0x03 # bytes_of k @ 0 # bs\<rparr>" k bs] assms(3) by simp
  finally show ?thesis .
next
  case (Some e)
  obtain t n v where e: "e = (t, n, v)" by (cases e)
  have found: "(t, ''name'', k) \<in> set omaCPAttrStartPage0_entries"
    using find_mem [OF Some] by (auto simp: e)
  note tok = start_token [OF found] known_starts(1) [OF start_token(1) [OF found]]
  have "unread r = t # bs" using Some assms(1) e by (simp add: encode_name_def)
  then show ?thesis
    using attr_start [of r t bs "[]" "''name''" k "[]" "[]"] tok assms(2) by (simp add: page0_def flushAttr_def)
qed

lemma encoded_param_attributes:
  assumes "unread r = encode_name k @ [0x06, 0x03] @ bytes_of v @ [0, 0x01] @ bs" and "page0 r"
    and "sendable_text k" and "sendable_text v"
  shows "parseAttributes r = ([(''name'', k), (''value'', v)], r\<lparr>unread := bs\<rparr>)"
proof -
  let ?r = "\<lambda>xs. r\<lparr>unread := xs\<rparr>"
  have "parseAttributes r = attr_loop [] ''name'' k (?r (0x06 # 0x03 # bytes_of v @ 0 # 0x01 # bs))"
    unfolding parseAttributes_def using assms by (intro encoded_name) simp_all
  also have "\<dots> = attr_loop [(''name'', k)] ''value'' [] (?r (0x03 # bytes_of v @ 0 # 0x01 # bs))"
    using assms(2,3) value_token known_starts(2) [OF value_token(2)]
    by (subst attr_start) (simp_all add: page0_def plain_token_def flushAttr_def sendable_text_def)
  also have "\<dots> = attr_loop [(''name'', k)] ''value'' v (?r (0x01 # bs))"
    using assms(4) by (subst attr_inline) simp_all
  also have "\<dots> = ([(''name'', k), (''value'', v)], ?r bs)"
    using assms(4) by (subst attr_end) (simp_all add: flushAttr_def sendable_text_def)
  finally show ?thesis .
qed

text \<open>An encoding \<open>bs\<close> of an element is read as \<open>c\<close> whatever follows it.\<close>

definition read_as :: "byte list \<Rightarrow> characteristic \<Rightarrow> bool" where
  "read_as bs c \<longleftrightarrow> bs \<noteq> [] \<and> plain_token (hd bs) \<and>
     (\<forall>r rest. page0 r \<and> unread r = bs @ rest \<longrightarrow>
        (\<exists>n. parseElement n r = Some (Inr (Some c), r\<lparr>unread := rest\<rparr>)))"

lemma page0_unread [simp]: "page0 (r\<lparr>unread := bs\<rparr>) \<longleftrightarrow> page0 r"
  by (simp add: page0_def)

lemma parseContent_mono: "parseContent n cs tx r = Some x \<Longrightarrow> n \<le> m \<Longrightarrow> parseContent m cs tx r = Some x"
proof (induction m)
  case (Suc m)
  show ?case
  proof (cases "n = Suc m")
    case True
    then show ?thesis using Suc.prems by blast
  next
    case False
    then have "parseContent m cs tx r = Some x" using Suc by simp
    then show ?thesis using parse_more [of m] by blast
  qed
qed simp

lemma content_element:
  assumes "read_as bs c" and "page0 r" and "unread r = bs @ rest"
    and "parseContent n (cs @ [c]) tx (r\<lparr>unread := rest\<rparr>) = Some x"
  shows "\<exists>n. parseContent n cs tx r = Some x"
proof -
  obtain b bs' where b: "bs = b # bs'" "plain_token b"
    using assms(1) by (cases bs) (auto simp: read_as_def)
  obtain k where k: "parseElement k r = Some (Inr (Some c), r\<lparr>unread := rest\<rparr>)"
    using assms(1-3) by (auto simp: read_as_def)
  have "parseElement (max n k) r = Some (Inr (Some c), r\<lparr>unread := rest\<rparr>)"
    by (rule parseElement_mono [OF k]) simp
  moreover have "parseContent (max n k) (cs @ [c]) tx (r\<lparr>unread := rest\<rparr>) = Some x"
    by (rule parseContent_mono [OF assms(4)]) simp
  ultimately have "parseContent (Suc (max n k)) cs tx r = Some x"
    using b assms(3) by (simp add: plain_token_def)
  then show ?thesis by blast
qed

lemma content_elements:
  assumes "list_all2 read_as bss cs" and "page0 r" and "unread r = List.concat bss @ 0x01 # rest"
  shows "\<exists>n. parseContent n ds tx r = Some (ds @ cs, tx, r\<lparr>unread := rest\<rparr>)"
  using assms
proof (induction bss cs arbitrary: r ds rule: list_all2_induct)
  case Nil
  then have "parseContent 1 ds tx r = Some (ds @ [], tx, r\<lparr>unread := rest\<rparr>)" by simp
  then show ?case by blast
next
  case (Cons bs bss c cs)
  let ?r = "r\<lparr>unread := List.concat bss @ 0x01 # rest\<rparr>"
  obtain n where "parseContent n (ds @ [c]) tx ?r = Some ((ds @ [c]) @ cs, tx, ?r\<lparr>unread := rest\<rparr>)"
    using Cons.IH [of ?r "ds @ [c]"] Cons.prems by auto
  then show ?case
    using content_element [OF Cons.hyps(1) Cons.prems(1), of "List.concat bss @ 0x01 # rest" n ds tx]
      Cons.prems(2) by simp
qed

lemma parm_read_as:
  assumes "k \<noteq> []" and "sendable_text k" and "sendable_text v"
  shows "read_as (encode_param (k, v)) (Characteristic parm_type [(k, v)] [])"
  unfolding read_as_def
proof (intro conjI allI impI)
  fix r rest
  assume r: "page0 r \<and> unread r = encode_param (k, v) @ rest"
  let ?r = "r\<lparr>unread := encode_name k @ [0x06, 0x03] @ bytes_of v @ [0, 0x01] @ rest\<rparr>"
  have "readByte r = (Inr 0x87, ?r)" using r by (simp add: readByte_def encode_param_def)
  moreover have "parseAttributes ?r = ([(''name'', k), (''value'', v)], r\<lparr>unread := rest\<rparr>)"
    using encoded_param_attributes [of ?r k v rest] r assms(2,3) by simp
  moreover have "tagPage ?r = 0" using r by (simp add: page0_def)
  moreover have "resolveTagName 0 0x07 = ''parm''" by (simp add: resolveTagName_def)
  moreover have "TrimSpace k \<noteq> []" using assms by (simp add: sendable_text_def)
  ultimately have "parseElement 1 r = Some (Inr (Some (Characteristic parm_type [(k, v)] [])), r\<lparr>unread := rest\<rparr>)"
    using assms(1) by (simp add: build_element_def attr_value_def)
  then show "\<exists>n. parseElement n r = Some (Inr (Some (Characteristic parm_type [(k, v)] [])), r\<lparr>unread := rest\<rparr>)"
    by blast
qed (simp_all add: encode_param_def plain_token_def)

lemma update_fresh: "k \<notin> fst ` set al \<Longrightarrow> AList.update k v al = al @ [(k, v)]"
  by (induction al) auto

lemma merge_fresh:
  "distinct (map fst (acc @ ps)) \<Longrightarrow>
   foldl (\<lambda>ps c. if CharType c = parm_type then foldl (\<lambda>ps (k, v). AList.update k v ps) ps (Params c) else ps)
     acc (map (\<lambda>(k, v). Characteristic parm_type [(k, v)] []) ps) = acc @ ps"
proof (induction ps arbitrary: acc)
  case (Cons p ps)
  obtain k v where p: "p = (k, v)" by (cases p)
  have "AList.update k v acc = acc @ [(k, v)]" using Cons.prems by (intro update_fresh) (auto simp: p)
  then show ?case using Cons.IH [of "acc @ [(k, v)]"] Cons.prems by (simp add: p)
qed simp

lemma merge_other:
  "list_all (\<lambda>c. CharType c \<noteq> parm_type) cs \<Longrightarrow>
   foldl (\<lambda>ps c. if CharType c = parm_type then foldl (\<lambda>ps (k, v). AList.update k v ps) ps (Params c) else ps)
     acc cs = acc"
  by (induction cs arbitrary: acc) simp_all

lemma merge_children:
  assumes "distinct (map fst ps)" and "list_all (\<lambda>c. CharType c \<noteq> parm_type) cs"
  shows "merge_params (map (\<lambda>(k, v). Characteristic parm_type [(k, v)] []) ps @ cs) = ps"
  using merge_fresh [of "[]" ps] merge_other [OF assms(2)] assms(1) by (simp add: merge_params_def)

lemma type_token_mem: "ty \<in> snd ` set type_names \<Longrightarrow> (type_token ty, ty) \<in> set type_names"
proof -
  assume ty: "ty \<in> snd ` set type_names"
  have "find (\<lambda>(t, v). v = ty) type_names \<noteq> None" using ty by (auto simp: find_None_iff)
  then obtain e where e: "find (\<lambda>(t, v). v = ty) type_names = Some e" by blast
  then show ?thesis using find_mem [OF e] by (cases e) (auto simp: type_token_def)
qed

lemma sendable_type: "sendable c \<Longrightarrow> CharType c \<noteq> parm_type"
  using type_token(3) by (cases c) auto

lemma type_attributes:
  assumes "unread r = type_token ty # 0x01 # rest" and "page0 r" and "ty \<in> snd ` set type_names"
  shows "parseAttributes r = ([(''type'', ty)], r\<lparr>unread := rest\<rparr>)"
proof -
  note tok = type_token [OF type_token_mem [OF assms(3)]]
  have "parseAttributes r = attr_loop [] ''type'' ty (r\<lparr>unread := 0x01 # rest\<rparr>)"
    unfolding parseAttributes_def using assms(1,2) tok known_starts(3) [OF tok(1)]
    by (subst attr_start) (simp_all add: page0_def flushAttr_def)
  also have "\<dots> = ([(''type'', ty)], r\<lparr>unread := rest\<rparr>)"
    using tok(4) by (subst attr_end) (simp_all add: flushAttr_def)
  finally show ?thesis .
qed

lemma parms_read_as:
  "list_all (\<lambda>(k, v). k \<noteq> [] \<and> sendable_text k \<and> sendable_text v) ps \<Longrightarrow>
   list_all2 read_as (map encode_param ps) (map (\<lambda>(k, v). Characteristic parm_type [(k, v)] []) ps)"
  by (induction ps) (auto simp: parm_read_as)

lemma char_read_as: "sendable c \<Longrightarrow> read_as (encode_char c) c"
proof (induction c)
  case (Characteristic ty ps cs)
  have ok: "ty \<in> snd ` set type_names" "distinct (map fst ps)" "list_all sendable cs"
      "list_all (\<lambda>(k, v). k \<noteq> [] \<and> sendable_text k \<and> sendable_text v) ps"
    using Characteristic.prems by simp_all
  have "list_all2 read_as (map encode_char cs) cs"
    using Characteristic.IH ok(3) by (auto simp: list_all2_conv_all_nth list_all_iff)
  then have kids: "list_all2 read_as (map encode_param ps @ map encode_char cs)
      (map (\<lambda>(k, v). Characteristic parm_type [(k, v)] []) ps @ cs)"
    using parms_read_as [OF ok(4)] by (rule list_all2_appendI [rotated])
  have types: "list_all (\<lambda>c. CharType c \<noteq> parm_type) cs"
    using ok(3) sendable_type by (auto simp: list_all_iff)
  then have keep: "filter (\<lambda>c. CharType c \<noteq> parm_type)
      (map (\<lambda>(k, v). Characteristic parm_type [(k, v)] []) ps @ cs) = cs"
    by (simp add: list_all_iff filter_empty_conv split_beta)
  have built: "build_element ''characteristic'' [(''type'', ty)]
      (map (\<lambda>(k, v). Characteristic parm_type [(k, v)] []) ps @ cs) [] = Some (Characteristic ty ps cs)"
    using merge_children [OF ok(2) types] keep by (simp add: build_element_def attr_value_def)
  have "\<exists>n. parseElement n r = Some (Inr (Some (Characteristic ty ps cs)), r\<lparr>unread := rest\<rparr>)"
    if r: "page0 r" "unread r = encode_char (Characteristic ty ps cs) @ rest" for r rest
  proof -
    let ?body = "List.concat (map encode_param ps @ map encode_char cs) @ 0x01 # rest"
    let ?q = "r\<lparr>unread := type_token ty # 0x01 # ?body\<rparr>" and ?s = "r\<lparr>unread := ?body\<rparr>"
    have first: "readByte r = (Inr 0xC6, ?q)" using r(2) by (simp add: readByte_def)
    have attrs: "parseAttributes ?q = ([(''type'', ty)], ?s)"
      using type_attributes [of ?q ty ?body] r(1) ok(1) by simp
    obtain n where "parseContent n [] [] ?s =
        Some (map (\<lambda>(k, v). Characteristic parm_type [(k, v)] []) ps @ cs, [], r\<lparr>unread := rest\<rparr>)"
      using content_elements [OF kids, of ?s rest "[]" "[]"] r(1) by auto
    then have "parseElement (Suc n) r = Some (Inr (Some (Characteristic ty ps cs)), r\<lparr>unread := rest\<rparr>)"
      using first attrs built r(1) by (simp add: resolveTagName_def page0_def)
    then show ?thesis by blast
  qed
  then show ?case by (auto simp: read_as_def plain_token_def)
qed

lemma single_mb:
  "pos < length bs \<Longrightarrow> bs ! pos AND 0x80 = 0 \<Longrightarrow>
     parseMBUint32At bs pos = Some (mb_step 0 (bs ! pos), pos + 1)"
  using mb_at.simps(2) [of 4 0 bs pos] by (simp add: parseMBUint32At_def)

lemma single_mb_read:
  "unread r = b # bs \<Longrightarrow> b AND 0x80 = 0 \<Longrightarrow> readMBUint32 r = (Inr (mb_step 0 b), r\<lparr>unread := bs\<rparr>)"
  using mb_read.simps(2) [of 4 0 r] by (simp add: readMBUint32_def readByte_def)

lemma mb_values: "mb_step 0 0x0B = 0x0B" "mb_step 0 0x6A = 0x6A" "mb_step 0 0 = 0"
  by (simp_all add: mb_step_def)

text \<open>Property C34: A provisioning document that a server sends is read back: every characteristic with
  its type, its parameters and its nested characteristics, whatever the parameter names (from the token
  table or inline) and values, at every depth of nesting.\<close>

theorem provisioning_round_trip:
  assumes "list_all sendable cs" and "cs \<noteq> []"
  shows "DecodeOmaCPFromTPDU (encode_document cs) =
    Inr \<lparr>Version = ''1.3'', Characteristics = [Characteristic ''wap-provisioningdoc'' [] cs]\<rparr>"
proof -
  let ?body = "List.concat (map encode_char cs) @ [0x01]"
  let ?r = "\<lambda>bs. \<lparr>unread = bs, strTable = [], tagPage = 0, attrPage = 0\<rparr>"
  let ?doc = "Characteristic ''wap-provisioningdoc'' [] cs"
  have elems: "list_all2 read_as (map encode_char cs) cs"
    using assms(1) char_read_as by (auto simp: list_all2_conv_all_nth list_all_length)
  obtain n where "parseContent n [] [] (?r ?body) = Some (cs, [], ?r [])"
    using content_elements [OF elems, of "?r ?body" "[]" "[]" "[]"] by (auto simp: page0_def)
  then have "parseElement (Suc n) (?r (0x45 # ?body)) = Some (Inr (Some ?doc), ?r [])"
    using assms(2) by (simp add: readByte_def resolveTagName_def build_element_def)
  then have "decode_elements (Suc (Suc n)) [] (?r (0x45 # ?body)) = Some [?doc]" by simp
  then have "decode_elements (max (Suc (Suc n)) (body_fuel (?r (0x45 # ?body)))) [] (?r (0x45 # ?body)) = Some [?doc]"
    by (rule decode_elements_more) simp
  then have body: "decode_elements (body_fuel (?r (0x45 # ?body))) [] (?r (0x45 # ?body)) = Some [?doc]"
    by (rule trans [OF decode_elements_enough [OF max.cobounded2, symmetric]])
  have header: "isWBXMLHeader (encode_document cs)"
    by (simp add: isWBXMLHeader_def encode_document_def single_mb mb_values)
  have "read_header (encode_document cs) = Inr (0x03, ?r (0x45 # ?body))"
    by (simp add: read_header_def encode_document_def readByte_def single_mb_read mb_values)
  then have "decodeWBXML (encode_document cs) = Inr \<lparr>Version = version_text 0x03, Characteristics = [?doc]\<rparr>"
    using body by (simp add: decodeWBXML_def)
  moreover have "version_text 0x03 = ''1.3''" by code_simp
  ultimately show ?thesis
    using header by (simp add: DecodeOmaCPFromTPDU_def findWBXMLStart_def) (simp add: encode_document_def)
qed

theorem provisioning_round_trip_witness:
  "DecodeOmaCPFromTPDU (encode_document
     [Characteristic ''NAPDEF'' [(''NAPID'', ''n1''), (''X-MTU'', ''1400'')]
        [Characteristic ''NAPAUTHINFO'' [(''AUTHNAME'', ''u'')] []]]) =
   Inr \<lparr>Version = ''1.3'', Characteristics = [Characteristic ''wap-provisioningdoc'' []
     [Characteristic ''NAPDEF'' [(''NAPID'', ''n1''), (''X-MTU'', ''1400'')]
        [Characteristic ''NAPAUTHINFO'' [(''AUTHNAME'', ''u'')] []]]]\<rparr>"
  by (rule provisioning_round_trip)
    (simp_all add: sendable_text_def type_names_eq TrimSpace_printable printable_def)

end
