(* ===== verification/SmsReassembly.thy ===== *)
theory SmsReassembly
  imports GoNumbers SmsCodec "HOL-Library.Multiset"
begin

unbundle bit_operations_syntax

section \<open>Reassembly of long messages and trimming of PDUs\<close>

text \<open>
  \<^verbatim>\<open>pkg/smscodec/reassembler.go\<close> and \<^verbatim>\<open>pkg/smscodec/pdu_trim.go\<close>.  The reassembler's cache is a
  map from the key \<open>sender_ref\<close> to the fragments in the order of their arrival; the clock is an
  argument (nanoseconds since Go's zero time, which is \<open>0\<close>).  The mutex of the source makes every
  operation one step, so a run is a list of operations.
\<close>

subsection \<open>The reassembler\<close>

record concat_info =
  IsConcat :: bool
  CRef :: int
  CRefBits :: int
  CTotal :: int
  CSeq :: int

record fragment =
  Ref :: int
  Total :: int
  Seq :: int
  Content :: string
  Time :: int

record reassembler =
  cache :: "string \<rightharpoonup> fragment list"

definition NewReassembler :: reassembler where
  "NewReassembler = \<lparr>cache = Map.empty\<rparr>"

definition fragment_key :: "string \<Rightarrow> int \<Rightarrow> string" where
  "fragment_key sender ref = sender @ CHR 0x5F # show_int ref"

definition cached :: "reassembler \<Rightarrow> string \<Rightarrow> fragment list" where
  "cached r key = (case cache r key of None \<Rightarrow> [] | Some fs \<Rightarrow> fs)"

definition Reassembler_Add ::
  "int \<Rightarrow> string \<Rightarrow> concat_info \<Rightarrow> string \<Rightarrow> reassembler \<Rightarrow> reassembler \<times> bool \<times> string" where
  "Reassembler_Add now sender c content r =
     (if \<not> IsConcat c then (r, True, content)
      else
        let key = fragment_key sender (CRef c);
            fragments = cached r key
        in if list_ex (\<lambda>f. Seq f = CSeq c) fragments then (r, False, [])
           else
             let fragments = fragments @
                   [\<lparr>Ref = CRef c, Total = CTotal c, Seq = CSeq c, Content = content, Time = now\<rparr>];
                 r = r\<lparr>cache := (cache r)(key \<mapsto> fragments)\<rparr>
             in if int (length fragments) \<noteq> CTotal c then (r, False, [])
                else (r\<lparr>cache := (cache r)(key := None)\<rparr>, True,
                      List.concat (map Content (sort_key Seq fragments))))"

definition latest :: "fragment list \<Rightarrow> int" where
  "latest fs = foldl (\<lambda>l f. if l < Time f then Time f else l) 0 fs"

definition Cleanup :: "int \<Rightarrow> int \<Rightarrow> reassembler \<Rightarrow> reassembler" where
  "Cleanup now ttl r =
     (let cutoff = now - ttl
      in r\<lparr>cache := (\<lambda>key. case cache r key of
              None \<Rightarrow> None
            | Some fs \<Rightarrow> if latest fs = 0 \<or> \<not> cutoff < latest fs then None else Some fs)\<rparr>)"

subsection \<open>Keys\<close>

text \<open>The key separates senders and references: a decimal number has no underscore.\<close>

lemma show_int_no_underscore: "CHR 0x5F \<notin> set (show_int i)"
  using show_int_chars [of "CHR 0x5F" i] by auto

lemma sep_append_inject:
  "x \<notin> set bs \<Longrightarrow> x \<notin> set ds \<Longrightarrow> bs @ x # as = ds @ x # cs \<longleftrightarrow> bs = ds \<and> as = cs"
proof (induction bs arbitrary: ds)
  case Nil
  then show ?case by (cases ds) auto
next
  case (Cons b bs)
  then show ?case by (cases ds) auto
qed

lemma append_sep_inject:
  assumes "x \<notin> set bs" and "x \<notin> set ds" and "as @ x # bs = cs @ x # ds"
  shows "as = cs \<and> bs = ds"
proof -
  have "rev bs @ x # rev as = rev ds @ x # rev cs"
    using arg_cong [OF assms(3), of rev] by simp
  then show ?thesis
    using sep_append_inject [of x "rev bs" "rev ds" "rev as" "rev cs"] assms(1,2) by simp
qed

lemma decimal_value: "decimal m = decimal n \<Longrightarrow> m = n"
  by (metis parse_decimal option.inject)

lemma decimal_not_signed: "decimal n \<noteq> CHR 0x2D # s"
  using hd_decimal(1) [of n] by (metis list.sel(1))

lemma show_int_inject: "show_int i = show_int j \<Longrightarrow> i = j"
  using decimal_value [of "nat i" "nat j"] decimal_value [of "nat (- i)" "nat (- j)"]
    decimal_not_signed [of "nat i"] decimal_not_signed [of "nat j"]
  unfolding show_int_def by (smt (verit) list.inject nat_eq_iff2 nat_0_le)

lemma fragment_key_eq: "fragment_key s i = fragment_key t j \<longleftrightarrow> s = t \<and> i = j"
  using append_sep_inject [OF show_int_no_underscore show_int_no_underscore, of s i t j] show_int_inject
  by (auto simp: fragment_key_def)

subsection \<open>The invariant of the cache\<close>

text \<open>A cached group is never empty and holds every sequence number once.\<close>

definition group_ok :: "fragment list \<Rightarrow> bool" where
  "group_ok fs \<longleftrightarrow> fs \<noteq> [] \<and> distinct (map Seq fs)"

definition reassembler_inv :: "reassembler \<Rightarrow> bool" where
  "reassembler_inv r \<longleftrightarrow> (\<forall>key fs. cache r key = Some fs \<longrightarrow> group_ok fs)"

lemma cached_distinct: "reassembler_inv r \<Longrightarrow> distinct (map Seq (cached r key))"
  by (auto simp: reassembler_inv_def cached_def group_ok_def split: option.split)

lemma reassembler_inv_New: "reassembler_inv NewReassembler"
  by (simp add: reassembler_inv_def NewReassembler_def)

lemma reassembler_inv_Add:
  assumes "reassembler_inv r"
  shows "reassembler_inv (fst (Reassembler_Add now sender c content r))"
  using assms cached_distinct [OF assms, of "fragment_key sender (CRef c)"]
  by (auto simp: Reassembler_Add_def Let_def reassembler_inv_def group_ok_def list_ex_iff image_iff)

lemma reassembler_inv_Cleanup: "reassembler_inv r \<Longrightarrow> reassembler_inv (Cleanup now ttl r)"
  by (auto simp: reassembler_inv_def Cleanup_def Let_def split: option.splits if_splits)

text \<open>The order in which \<^verbatim>\<open>sort.Slice\<close> leaves equal elements is unspecified, and does not matter:
  every sorted rearrangement of a group is the one the model takes.\<close>

lemma any_sort_agrees:
  assumes "distinct (map Seq fs)" and "mset gs = mset fs" and "sorted (map Seq gs)"
  shows "gs = sort_key Seq fs"
proof -
  have sets: "set gs = set fs" using assms(2) by (metis set_mset_mset)
  have inj: "inj_on Seq (set fs)" using assms(1) by (simp add: distinct_map)
  have "distinct (map Seq gs)"
    using assms(1,2) by (metis mset_map mset_eq_imp_distinct_iff)
  then have "map Seq gs = map Seq (sort_key Seq fs)"
    using sorted_distinct_set_unique [of "map Seq gs" "map Seq (sort_key Seq fs)"] assms sets
    by (simp add: distinct_map)
  then show ?thesis using inj sets by (auto dest: map_inj_on)
qed

subsection \<open>Runs\<close>

datatype sms_op =
    Arrive int string concat_info string
  | Expire int int

fun op_step :: "sms_op \<Rightarrow> reassembler \<Rightarrow> reassembler" where
  "op_step (Arrive now s c x) r = fst (Reassembler_Add now s c x r)"
| "op_step (Expire now ttl) r = Cleanup now ttl r"

fun op_output :: "sms_op \<Rightarrow> reassembler \<Rightarrow> bool \<times> string" where
  "op_output (Arrive now s c x) r = snd (Reassembler_Add now s c x r)"
| "op_output (Expire now ttl) r = (False, [])"

fun run_sms_ops :: "sms_op list \<Rightarrow> reassembler \<Rightarrow> reassembler" where
  "run_sms_ops [] r = r"
| "run_sms_ops (e # es) r = run_sms_ops es (op_step e r)"

lemma run_sms_ops_append: "run_sms_ops (es @ fs) r = run_sms_ops fs (run_sms_ops es r)"
  by (induction es arbitrary: r) auto

lemma reassembler_inv_step: "reassembler_inv r \<Longrightarrow> reassembler_inv (op_step e r)"
  by (cases e) (simp_all add: reassembler_inv_Add reassembler_inv_Cleanup)

lemma reassembler_inv_run: "reassembler_inv r \<Longrightarrow> reassembler_inv (run_sms_ops es r)"
  by (induction es arbitrary: r) (simp_all add: reassembler_inv_step)

text \<open>What the sender of a long message does: fragment \<open>q\<close> carries part \<open>q\<close> and the number of
  parts.  \<open>for_group\<close> are the arrivals that the key selects, \<open>genuine\<close> those among them that belong
  to the message.\<close>

fun for_group :: "string \<Rightarrow> int \<Rightarrow> sms_op \<Rightarrow> bool" where
  "for_group s ref (Arrive now s' c x) \<longleftrightarrow> IsConcat c \<and> s' = s \<and> CRef c = ref"
| "for_group s ref (Expire now ttl) \<longleftrightarrow> False"

fun genuine :: "string list \<Rightarrow> sms_op \<Rightarrow> bool" where
  "genuine parts (Arrive now s c x) \<longleftrightarrow>
     CTotal c = int (length parts) \<and> 1 \<le> CSeq c \<and> CSeq c \<le> int (length parts) \<and>
     x = parts ! nat (CSeq c - 1)"
| "genuine parts (Expire now ttl) \<longleftrightarrow> True"

fun op_seq :: "sms_op \<Rightarrow> int" where
  "op_seq (Arrive now s c x) = CSeq c"
| "op_seq (Expire now ttl) = 0"

fun is_arrival :: "sms_op \<Rightarrow> bool" where
  "is_arrival (Arrive now s c x) \<longleftrightarrow> True"
| "is_arrival (Expire now ttl) \<longleftrightarrow> False"

definition seqs_seen :: "string \<Rightarrow> int \<Rightarrow> sms_op list \<Rightarrow> int set" where
  "seqs_seen s ref es = set (map op_seq (filter (for_group s ref) es))"

definition holds_parts :: "string list \<Rightarrow> int set \<Rightarrow> fragment list \<Rightarrow> bool" where
  "holds_parts parts S fs \<longleftrightarrow> distinct (map Seq fs) \<and> set (map Seq fs) = S \<and>
     list_all (\<lambda>f. Content f = parts ! nat (Seq f - 1)) fs"

lemma holds_parts_card: "holds_parts parts S fs \<Longrightarrow> length fs = card S"
  unfolding holds_parts_def by (metis distinct_card length_map)

lemma holds_parts_snoc:
  assumes "holds_parts parts S fs" and "Seq f \<notin> S" and "Content f = parts ! nat (Seq f - 1)"
  shows "holds_parts parts (insert (Seq f) S) (fs @ [f])"
  using assms by (auto simp: holds_parts_def)

lemma upto_contents: "map (\<lambda>q. parts ! nat (q - 1)) [1..int (length parts)] = parts"
  by (rule nth_equalityI) (simp_all add: nth_upto)

text \<open>A complete group, sorted, is the message.\<close>

lemma complete_group_contents:
  assumes "holds_parts parts {1..int (length parts)} fs"
  shows "List.concat (map Content (sort_key Seq fs)) = List.concat parts"
proof -
  let ?n = "int (length parts)"
  have facts: "distinct (map Seq fs)" "set (map Seq fs) = {1..?n}"
      "\<forall>f\<in>set fs. Content f = parts ! nat (Seq f - 1)"
    using assms by (simp_all add: holds_parts_def list_all_iff)
  have "map Seq (sort_key Seq fs) = [1..?n]"
    using facts by (intro sorted_distinct_set_unique) (simp_all add: distinct_map)
  then have "map (\<lambda>q. parts ! nat (q - 1)) (map Seq (sort_key Seq fs)) = parts"
    by (simp only: upto_contents)
  moreover have "map Content (sort_key Seq fs) =
      map (\<lambda>q. parts ! nat (q - 1)) (map Seq (sort_key Seq fs))"
    using facts(3) by simp
  ultimately show ?thesis by simp
qed

lemma list_ex_seq: "set (map Seq fs) = S \<Longrightarrow> list_ex (\<lambda>f. Seq f = q) fs \<longleftrightarrow> q \<in> S"
  by (auto simp: list_ex_iff)

lemma step_duplicate:
  assumes "holds_parts parts S (cached r (fragment_key s (CRef c)))" and "IsConcat c" and "CSeq c \<in> S"
  shows "Reassembler_Add now s c x r = (r, False, [])"
  using assms list_ex_seq [of "cached r (fragment_key s (CRef c))" S "CSeq c"]
  by (simp add: Reassembler_Add_def Let_def holds_parts_def)

lemma step_new:
  assumes "holds_parts parts S (cached r key)" and "key = fragment_key s (CRef c)"
    and "IsConcat c" and "CSeq c \<notin> S" and "genuine parts (Arrive now s c x)"
  obtains fs where "holds_parts parts (insert (CSeq c) S) fs" and
    "Reassembler_Add now s c x r =
       (if card (insert (CSeq c) S) \<noteq> length parts
        then (r\<lparr>cache := (cache r)(key \<mapsto> fs)\<rparr>, False, [])
        else (r\<lparr>cache := (cache r)(key := None)\<rparr>, True, List.concat (map Content (sort_key Seq fs))))"
proof -
  let ?f = "\<lparr>Ref = CRef c, Total = CTotal c, Seq = CSeq c, Content = x, Time = now\<rparr>"
  let ?fs = "cached r key @ [?f]"
  have held: "holds_parts parts (insert (CSeq c) S) ?fs"
    using holds_parts_snoc [OF assms(1), of ?f] assms(4,5) by simp
  have "\<not> list_ex (\<lambda>f. Seq f = CSeq c) (cached r key)"
    using assms(1,4) list_ex_seq [of "cached r key" S "CSeq c"] by (simp add: holds_parts_def)
  then have "Reassembler_Add now s c x r =
       (if card (insert (CSeq c) S) \<noteq> length parts
        then (r\<lparr>cache := (cache r)(key \<mapsto> ?fs)\<rparr>, False, [])
        else (r\<lparr>cache := (cache r)(key := None)\<rparr>, True, List.concat (map Content (sort_key Seq ?fs))))"
    using assms(2,3,5) holds_parts_card [OF held]
    by (simp add: Reassembler_Add_def Let_def)
  with held show thesis by (rule that)
qed

lemma interval_full: "S \<subseteq> {1..int n} \<Longrightarrow> card S = n \<longleftrightarrow> S = {1..int n}"
  using card_subset_eq [of "{1..int n}" S] by auto

lemma step_other_group:
  assumes "\<not> for_group s ref e" and "is_arrival e"
  shows "cache (op_step e r) (fragment_key s ref) = cache r (fragment_key s ref)"
  using assms by (cases e) (auto simp: Reassembler_Add_def Let_def fragment_key_eq)

text \<open>While the message is incomplete the cache holds exactly the parts seen, and nothing is
  delivered for it.\<close>

lemma incomplete_step:
  assumes "holds_parts parts S (cached r (fragment_key s ref))" and "S \<subseteq> {1..int (length parts)}"
    and "is_arrival e" and "for_group s ref e \<longrightarrow> genuine parts e"
    and "(if for_group s ref e then insert (op_seq e) S else S) \<noteq> {1..int (length parts)}"
  shows "holds_parts parts (if for_group s ref e then insert (op_seq e) S else S)
      (cached (op_step e r) (fragment_key s ref))"
    and "for_group s ref e \<longrightarrow> op_output e r = (False, [])"
proof -
  let ?S = "if for_group s ref e then insert (op_seq e) S else S"
  have "holds_parts parts ?S (cached (op_step e r) (fragment_key s ref)) \<and>
     (for_group s ref e \<longrightarrow> op_output e r = (False, []))"
  proof (cases "for_group s ref e")
    case False
    then show ?thesis using step_other_group [OF False assms(3), of r] assms(1) by (simp add: cached_def)
  next
    case True
    then obtain now c x where e: "e = Arrive now s c x" "IsConcat c" "CRef c = ref" by (cases e) auto
    have gen: "genuine parts (Arrive now s c x)" using assms(4) True e by simp
    show ?thesis
    proof (cases "CSeq c \<in> S")
      case True
      then show ?thesis
        using step_duplicate [of parts S r s c now x] assms(1) e by (simp add: insert_absorb)
    next
      case new: False
      have "insert (CSeq c) S \<subseteq> {1..int (length parts)}" using assms(2) gen by auto
      then have "card (insert (CSeq c) S) \<noteq> length parts"
        using interval_full [of "insert (CSeq c) S" "length parts"] assms(5) True e by auto
      then show ?thesis
        using step_new [OF _ _ e(2) new gen, of r "fragment_key s ref"] assms(1) e
        by (smt (verit) cached_def fst_conv snd_conv fun_upd_same for_group.simps(1) op_output.simps(1)
          op_seq.simps(1) op_step.simps(1) option.simps(5) reassembler.select_convs(1)
          reassembler.surjective reassembler.update_convs(1))
    qed
  qed
  then show "holds_parts parts ?S (cached (op_step e r) (fragment_key s ref))"
    and "for_group s ref e \<longrightarrow> op_output e r = (False, [])" by simp_all
qed

fun run_outputs :: "sms_op list \<Rightarrow> reassembler \<Rightarrow> (bool \<times> string) list" where
  "run_outputs [] r = []"
| "run_outputs (e # es) r = op_output e r # run_outputs es (op_step e r)"

lemma seqs_seen_simps [simp]:
  "seqs_seen s ref [] = {}"
  "seqs_seen s ref (e # es) =
     (if for_group s ref e then insert (op_seq e) (seqs_seen s ref es) else seqs_seen s ref es)"
  by (simp_all add: seqs_seen_def)

lemma seqs_seen_bounds:
  assumes "list_all (\<lambda>e. for_group s ref e \<longrightarrow> genuine parts e) es"
  shows "seqs_seen s ref es \<subseteq> {1..int (length parts)}"
  using assms
proof (induction es)
  case (Cons e es)
  then show ?case by (cases e) auto
qed simp

lemma incomplete_run:
  assumes "holds_parts parts S (cached r (fragment_key s ref))"
    and "list_all is_arrival es" and "list_all (\<lambda>e. for_group s ref e \<longrightarrow> genuine parts e) es"
    and "S \<union> seqs_seen s ref es \<subset> {1..int (length parts)}"
  shows "holds_parts parts (S \<union> seqs_seen s ref es) (cached (run_sms_ops es r) (fragment_key s ref)) \<and>
    list_all (\<lambda>(e, out). for_group s ref e \<longrightarrow> out = (False, [])) (zip es (run_outputs es r))"
  using assms
proof (induction es arbitrary: r S)
  case Nil
  then show ?case by simp
next
  case (Cons e es)
  let ?S = "if for_group s ref e then insert (op_seq e) S else S"
  have eq: "?S \<union> seqs_seen s ref es = S \<union> seqs_seen s ref (e # es)" by simp
  then have sub: "?S \<subset> {1..int (length parts)}" "S \<subseteq> {1..int (length parts)}"
    using Cons.prems(4) by (auto split: if_splits)
  have step: "holds_parts parts ?S (cached (op_step e r) (fragment_key s ref))"
      "for_group s ref e \<longrightarrow> op_output e r = (False, [])"
    using incomplete_step [OF Cons.prems(1) sub(2), of e] Cons.prems(2,3) sub(1) by auto
  have "holds_parts parts (?S \<union> seqs_seen s ref es)
      (cached (run_sms_ops es (op_step e r)) (fragment_key s ref)) \<and>
    list_all (\<lambda>(e, out). for_group s ref e \<longrightarrow> out = (False, []))
      (zip es (run_outputs es (op_step e r)))"
    using Cons.IH [OF step(1)] Cons.prems(2-4) by (simp only: eq list.pred_inject)
  with step(2) eq show ?case by simp
qed

text \<open>Property C32: The fragments of a long message complete it whatever their order, with any
  number of retransmissions before the last one and with the traffic of other senders and other
  references in between: every arrival of the message before its last missing part delivers nothing,
  the last missing part delivers the parts joined in the order of their sequence numbers, and the
  cache then holds nothing under the message's key.\<close>

theorem message_reassembled:
  assumes "cache r (fragment_key s ref) = None" and "list_all is_arrival es"
    and "list_all (\<lambda>a. for_group s ref a \<longrightarrow> genuine parts a) (e # es)"
    and "for_group s ref e" and "op_seq e \<notin> seqs_seen s ref es"
    and "insert (op_seq e) (seqs_seen s ref es) = {1..int (length parts)}"
  shows "list_all (\<lambda>(a, out). for_group s ref a \<longrightarrow> out = (False, [])) (zip es (run_outputs es r)) \<and>
    op_output e (run_sms_ops es r) = (True, List.concat parts) \<and>
    cache (op_step e (run_sms_ops es r)) (fragment_key s ref) = None"
proof -
  let ?S = "seqs_seen s ref es" and ?r = "run_sms_ops es r" and ?key = "fragment_key s ref"
  have "holds_parts parts {} (cached r ?key)" using assms(1) by (simp add: cached_def holds_parts_def)
  moreover have "?S \<subset> {1..int (length parts)}" using assms(5,6) by auto
  ultimately have run: "holds_parts parts ?S (cached ?r ?key)"
      "list_all (\<lambda>(a, out). for_group s ref a \<longrightarrow> out = (False, [])) (zip es (run_outputs es r))"
    using incomplete_run [of parts "{}" r s ref es] assms(2,3) by simp_all
  from assms(4) obtain now c x where e: "e = Arrive now s c x" "IsConcat c" "CRef c = ref" by (cases e) auto
  from run(1) obtain fs where fs: "holds_parts parts (insert (CSeq c) ?S) fs"
      "Reassembler_Add now s c x ?r =
         (if card (insert (CSeq c) ?S) \<noteq> length parts
          then (?r\<lparr>cache := (cache ?r)(?key \<mapsto> fs)\<rparr>, False, [])
          else (?r\<lparr>cache := (cache ?r)(?key := None)\<rparr>, True, List.concat (map Content (sort_key Seq fs))))"
    using step_new [OF run(1), of s c now x] assms(3,4,5) e by auto
  have full: "insert (CSeq c) ?S = {1..int (length parts)}" using assms(6) e by simp
  with fs complete_group_contents have "Reassembler_Add now s c x ?r =
      (?r\<lparr>cache := (cache ?r)(?key := None)\<rparr>, True, List.concat parts)" by simp
  with run(2) e show ?thesis by simp
qed

definition fragment_op :: "string \<Rightarrow> int \<Rightarrow> int \<Rightarrow> int \<Rightarrow> string \<Rightarrow> sms_op" where
  "fragment_op s ref n q x =
     Arrive 1 s \<lparr>IsConcat = True, CRef = ref, CRefBits = 8, CTotal = n, CSeq = q\<rparr> x"

theorem message_reassembled_witness:
  "op_output (fragment_op ''10086'' 7 2 1 ''hello '')
     (run_sms_ops [fragment_op ''10086'' 7 2 2 ''world'', fragment_op ''10010'' 7 2 1 ''x'',
       fragment_op ''10086'' 7 2 2 ''world''] NewReassembler) = (True, ''hello world'')"
  using message_reassembled [of NewReassembler "''10086''" 7
      "[fragment_op ''10086'' 7 2 2 ''world'', fragment_op ''10010'' 7 2 1 ''x'',
        fragment_op ''10086'' 7 2 2 ''world'']" "[''hello '', ''world'']"
      "fragment_op ''10086'' 7 2 1 ''hello ''"]
  by (simp add: NewReassembler_def fragment_op_def atLeastAtMost_insertL insert_commute simp_from_to)


subsection \<open>Expiry\<close>

lemma foldl_latest:
  "x < foldl (\<lambda>l f. if l < Time f then Time f else l) l fs \<longleftrightarrow> x < l \<or> list_ex (\<lambda>f. x < Time f) fs"
proof (induction fs arbitrary: l)
  case (Cons f fs)
  have "x < (if l < Time f then Time f else l) \<longleftrightarrow> x < l \<or> x < Time f" by (cases "l < Time f") auto
  then show ?case using Cons.IH [of "if l < Time f then Time f else l"] by (simp only: foldl.simps) simp
qed simp

lemma latest_greater: "x < latest fs \<longleftrightarrow> x < 0 \<or> list_ex (\<lambda>f. x < Time f) fs"
  by (simp add: latest_def foldl_latest)

lemma latest_nonneg: "0 \<le> latest fs"
  using latest_greater [of "-1" fs] by simp

lemma Cleanup_keeps:
  "cache (Cleanup now ttl r) key = Some fs \<longleftrightarrow>
     cache r key = Some fs \<and> list_ex (\<lambda>f. max 0 (now - ttl) < Time f) fs"
proof -
  have keep: "(latest fs = 0 \<or> \<not> now - ttl < latest fs) \<longleftrightarrow>
      \<not> list_ex (\<lambda>f. max 0 (now - ttl) < Time f) fs" for fs
    using latest_nonneg [of fs] latest_greater [of "max 0 (now - ttl)" fs] by auto
  show ?thesis unfolding Cleanup_def Let_def keep by (simp split: option.split) blast
qed

subsection \<open>The length in a modem's header line\<close>

text \<open>\<^verbatim>\<open>strings.LastIndex(header, ",")\<close>: the text behind the last comma.\<close>

definition after_last_comma :: "string \<Rightarrow> string option" where
  "after_last_comma h =
     (if CHR 0x2C \<in> set h then Some (rev (takeWhile (\<lambda>c. c \<noteq> CHR 0x2C) (rev h))) else None)"

definition ParseATSMSHeaderTPDULength :: "string \<Rightarrow> int option" where
  "ParseATSMSHeaderTPDULength header =
     (case after_last_comma header of
        None \<Rightarrow> None
      | Some rest \<Rightarrow>
          if rest = [] then None
          else case Atoi (TrimSpace rest) of
                 None \<Rightarrow> None
               | Some n \<Rightarrow> if n < 0 then None else Some n)"

subsection \<open>Lengths declared inside a deliver TPDU\<close>

text \<open>The alphabet of a data coding scheme is the business of the \<^verbatim>\<open>warthog618/sms\<close> package:
  \<open>alph\<close> is its \<^verbatim>\<open>DCS.Alphabet\<close> (\<open>None\<close> the error), \<open>a7\<close> its constant \<^verbatim>\<open>Alpha7Bit\<close>.  The layout
  is (DCS, user data length, offset and octets of the user data, alphabet).\<close>

definition deliverTPDULayout ::
  "(byte \<Rightarrow> 'a option) \<Rightarrow> 'a \<Rightarrow> byte list \<Rightarrow> (byte \<times> nat \<times> nat \<times> nat \<times> 'a) option" where
  "deliverTPDULayout alph a7 bs =
     (if length bs < 1 \<or> bs ! 0 AND 0x03 \<noteq> 0 then None
      else if length bs < 3 then None
      else let i = 3 + (unat (bs ! 1) + 1) div 2
           in if length bs < i then None
              else if length bs < i + 10 then None
              else let dcs = bs ! (i + 1); udl = unat (bs ! (i + 9)); i = i + 10
                   in case alph dcs of
                        None \<Rightarrow> None
                      | Some a \<Rightarrow>
                          let octets = (if a = a7 then (udl * 7 + 7) div 8 else udl)
                          in if length bs < i + octets then None else Some (dcs, udl, i, octets, a))"

definition DeliverTPDUDeclaredLength :: "(byte \<Rightarrow> 'a option) \<Rightarrow> 'a \<Rightarrow> byte list \<Rightarrow> nat option" where
  "DeliverTPDUDeclaredLength alph a7 bs =
     (case deliverTPDULayout alph a7 bs of
        None \<Rightarrow> None
      | Some (_, _, off, octets, _) \<Rightarrow> if length bs < off + octets then None else Some (off + octets))"

definition TrimDeliverTPDUToDeclaredLength ::
  "(byte \<Rightarrow> 'a option) \<Rightarrow> 'a \<Rightarrow> byte list \<Rightarrow> byte list \<times> bool" where
  "TrimDeliverTPDUToDeclaredLength alph a7 bs =
     (case DeliverTPDUDeclaredLength alph a7 bs of
        None \<Rightarrow> (bs, False)
      | Some want \<Rightarrow> if length bs \<le> want then (bs, False) else (take want bs, True))"

definition normalizeDeliverTPDUGSM7SpareBits ::
  "(byte \<Rightarrow> 'a option) \<Rightarrow> 'a \<Rightarrow> byte list \<Rightarrow> byte list \<times> bool" where
  "normalizeDeliverTPDUGSM7SpareBits alph a7 bs =
     (case deliverTPDULayout alph a7 bs of
        None \<Rightarrow> (bs, False)
      | Some (_, udl, off, octets, a) \<Rightarrow>
          if a \<noteq> a7 \<or> udl = 0 \<or> octets = 0 then (bs, False)
          else if length bs < off + octets then (bs, False)
          else let used = udl * 7 mod 8
               in if used = 0 then (bs, False)
                  else let m = (push_bit used 1 - 1 :: byte); l = off + octets - 1
                       in if bs ! l AND NOT m = 0 then (bs, False)
                          else (bs[l := bs ! l AND m], True))"

text \<open>Go's \<^verbatim>\<open>int\<close> has 64 bits; the sum of the three lengths wraps.\<close>

definition wrap_int :: "int \<Rightarrow> int" where
  "wrap_int x = (x + 2 ^ 63) mod 2 ^ 64 - 2 ^ 63"

definition TrimFullPDUHexByTPDULength ::
  "(byte \<Rightarrow> 'a option) \<Rightarrow> 'a \<Rightarrow> string \<Rightarrow> int \<Rightarrow> string \<times> bool" where
  "TrimFullPDUHexByTPDULength alph a7 pduHex tpduLen =
     (let raw = TrimSpace pduHex
      in if raw = [] \<or> tpduLen < 0 then (raw, False)
         else case hex_decode raw of
                None \<Rightarrow> (raw, False)
              | Some b \<Rightarrow>
                  if b = [] then (raw, False)
                  else
                    let smscLen = unat (b ! 0);
                        want = wrap_int (1 + int smscLen + tpduLen)
                    in if want \<le> 0 \<or> int (length b) < want then (ToUpper raw, False)
                       else
                         let full = take (nat want) b;
                             off = 1 + smscLen
                         in case TrimDeliverTPDUToDeclaredLength alph a7 (drop off full) of
                              (tpdu, True) \<Rightarrow> (ToUpper (hex_encode (take off full @ tpdu)), True)
                            | (tpdu, False) \<Rightarrow> (ToUpper (hex_encode full), nat want < length b))"

definition TrimFullPDUHexByATHeader ::
  "(byte \<Rightarrow> 'a option) \<Rightarrow> 'a \<Rightarrow> string \<Rightarrow> string \<Rightarrow> string \<times> bool" where
  "TrimFullPDUHexByATHeader alph a7 pduHex header =
     (case ParseATSMSHeaderTPDULength header of
        None \<Rightarrow> (TrimSpace pduHex, False)
      | Some n \<Rightarrow> TrimFullPDUHexByTPDULength alph a7 pduHex n)"

subsection \<open>The declared length\<close>

lemma layout_bounds:
  assumes "deliverTPDULayout alph a7 bs = Some (dcs, udl, off, octets, a)"
  shows "13 \<le> off" and "off + octets \<le> length bs"
    and "octets = (if a = a7 then (udl * 7 + 7) div 8 else udl)"
  using assms by (auto simp: deliverTPDULayout_def Let_def split: if_splits option.splits)

text \<open>The layout depends on the declared octets only.\<close>

lemma layout_take:
  assumes "deliverTPDULayout alph a7 bs = Some (dcs, udl, off, octets, a)"
    and "off + octets \<le> k" and "k \<le> length bs"
  shows "deliverTPDULayout alph a7 (take k bs) = Some (dcs, udl, off, octets, a)"
proof -
  have "length (take k bs) = k" using assms(3) by simp
  moreover have "take k bs ! j = bs ! j" if "j < off + octets" for j using that assms(2) by simp
  moreover have "off = 13 + (unat (bs ! 1) + 1) div 2"
    using assms(1) by (auto simp: deliverTPDULayout_def Let_def split: if_splits option.splits)
  ultimately show ?thesis
    using assms by (auto simp: deliverTPDULayout_def Let_def split: if_splits option.splits)
qed

lemma layout_append:
  assumes "deliverTPDULayout alph a7 bs = Some l"
  shows "deliverTPDULayout alph a7 (bs @ pad) = Some l"
proof -
  have len: "1 \<le> length bs" "3 \<le> length bs" "13 + (unat (bs ! 1) + 1) div 2 \<le> length bs"
    using assms by (auto simp: deliverTPDULayout_def Let_def split: if_splits option.splits)
  then have "(bs @ pad) ! j = bs ! j" if "j < 13 + (unat (bs ! 1) + 1) div 2" for j
    using that by (simp add: nth_append)
  with assms len show ?thesis
    by (auto simp: deliverTPDULayout_def Let_def split: if_splits option.splits)
qed

lemma declared_length_le: "DeliverTPDUDeclaredLength alph a7 bs = Some n \<Longrightarrow> n \<le> length bs"
  by (auto simp: DeliverTPDUDeclaredLength_def split: option.splits if_splits)

lemma declared_length_take:
  assumes "DeliverTPDUDeclaredLength alph a7 bs = Some n" and "n \<le> k" and "k \<le> length bs"
  shows "DeliverTPDUDeclaredLength alph a7 (take k bs) = Some n"
  using assms layout_take [of alph a7 bs _ _ _ _ _ k]
  by (auto simp: DeliverTPDUDeclaredLength_def split: option.splits if_splits)

lemma declared_length_append:
  "DeliverTPDUDeclaredLength alph a7 bs = Some n \<Longrightarrow> DeliverTPDUDeclaredLength alph a7 (bs @ pad) = Some n"
  by (auto simp: DeliverTPDUDeclaredLength_def layout_append split: option.splits if_splits)

lemma trim_deliver_idem:
  "TrimDeliverTPDUToDeclaredLength alph a7 (fst (TrimDeliverTPDUToDeclaredLength alph a7 bs)) =
     (fst (TrimDeliverTPDUToDeclaredLength alph a7 bs), False)"
  using declared_length_take [of alph a7 bs]
  by (auto simp: TrimDeliverTPDUToDeclaredLength_def split: option.splits)

text \<open>Octets that a modem appends behind a complete TPDU are dropped.\<close>

lemma trim_deliver_padding:
  assumes "DeliverTPDUDeclaredLength alph a7 bs = Some (length bs)"
  shows "fst (TrimDeliverTPDUToDeclaredLength alph a7 (bs @ pad)) = bs"
  using declared_length_append [OF assms, of pad] by (simp add: TrimDeliverTPDUToDeclaredLength_def)

subsection \<open>Spare bits\<close>

lemma spare_mask: "push_bit n 1 - 1 = (mask n :: byte)"
  by (simp add: mask_eq_exp_minus_1 push_bit_eq_mult)

lemma and_not_zero:
  assumes "x AND NOT m = 0"
  shows "x AND m = (x :: byte)"
proof (rule bit_word_eqI)
  fix k assume "k < LENGTH(8)"
  moreover have "\<not> bit (x AND NOT m) k" using assms by simp
  ultimately show "bit (x AND m) k = bit x k" by (auto simp: bit_and_iff bit_not_iff)
qed

lemma last_octet:
  assumes "n mod 8 \<noteq> 0" and "i < n" and "i div 8 = (n + 7) div 8 - 1"
  shows "i mod 8 < n mod (8 :: nat)"
proof -
  have "n = n div 8 * 8 + n mod 8" "n mod 8 < 8" by simp_all
  then have "(n + 7) div 8 = n div 8 + 1" using assms(1) by linarith
  then have "i div 8 = n div 8" using assms(3) by simp
  moreover have "i = i div 8 * 8 + i mod 8" by simp
  ultimately show ?thesis using assms(2) \<open>n = n div 8 * 8 + n mod 8\<close> by linarith
qed

lemma normalize_value:
  assumes "deliverTPDULayout alph a7 bs = Some (dcs, udl, off, octets, a7)" and "udl * 7 mod 8 \<noteq> 0"
  shows "fst (normalizeDeliverTPDUGSM7SpareBits alph a7 bs) =
    bs[off + octets - 1 := bs ! (off + octets - 1) AND mask (udl * 7 mod 8)]"
proof -
  have oct: "octets = (udl * 7 + 7) div 8" using layout_bounds(3) [OF assms(1)] by simp
  have "udl \<noteq> 0" using assms(2) by (cases udl) simp_all
  moreover from this have "octets \<noteq> 0" using oct by simp
  moreover have "\<not> length bs < off + octets" using layout_bounds(2) [OF assms(1)] by simp
  ultimately show ?thesis
    using assms by (simp add: normalizeDeliverTPDUGSM7SpareBits_def Let_def mask_eq_exp_minus_1 [symmetric] and_not_zero)
qed

lemma normalize_id:
  assumes "deliverTPDULayout alph a7 bs = Some (dcs, udl, off, octets, a)" and "a \<noteq> a7 \<or> udl * 7 mod 8 = 0"
  shows "fst (normalizeDeliverTPDUGSM7SpareBits alph a7 bs) = bs"
  using assms by (auto simp: normalizeDeliverTPDUGSM7SpareBits_def Let_def)

text \<open>Clearing the spare bits changes no septet: the \<open>7 * udl\<close> bits of the user data stay.\<close>

lemma spare_bits_keep_septets:
  assumes lay: "deliverTPDULayout alph a7 bs = Some (dcs, udl, off, octets, a)" and "i < udl * 7"
  shows "bit (fst (normalizeDeliverTPDUGSM7SpareBits alph a7 bs) ! (off + i div 8)) (i mod 8) =
    bit (bs ! (off + i div 8)) (i mod 8)"
proof (cases "a = a7 \<and> udl * 7 mod 8 \<noteq> 0")
  case False
  then show ?thesis using normalize_id [OF lay] by auto
next
  case True
  have oct: "octets = (udl * 7 + 7) div 8" using layout_bounds(3) [OF lay] True by simp
  have "i div 8 < octets" using oct assms(2) by linarith
  then have len: "off + i div 8 < length bs" using layout_bounds(2) [OF lay] by linarith
  show ?thesis
  proof (cases "off + i div 8 = off + octets - 1")
    case False
    then show ?thesis using normalize_value [of alph a7 bs dcs udl off octets] lay True by simp
  next
    case last: True
    have "i mod 8 < udl * 7 mod 8" using last True oct assms(2) by (intro last_octet) simp_all
    moreover have "i mod 8 < 8" by simp
    ultimately have "bit (mask (udl * 7 mod 8) :: byte) (i mod 8)" by (simp only: bit_mask_iff) simp
    then show ?thesis
      using normalize_value [of alph a7 bs dcs udl off octets] lay True len last
      by (simp add: bit_and_iff)
  qed
qed

lemma spare_bits_length:
  "length (fst (normalizeDeliverTPDUGSM7SpareBits alph a7 bs)) = length bs"
  by (simp add: normalizeDeliverTPDUGSM7SpareBits_def Let_def split: option.split)

text \<open>Afterwards the bits behind the last septet are zero.\<close>

lemma spare_bits_cleared:
  assumes lay: "deliverTPDULayout alph a7 bs = Some (dcs, udl, off, octets, a7)"
    and "udl * 7 mod 8 \<le> j" and "udl * 7 mod 8 \<noteq> 0"
  shows "\<not> bit (fst (normalizeDeliverTPDUGSM7SpareBits alph a7 bs) ! (off + octets - 1)) j"
  using layout_bounds(1,2) [OF lay] normalize_value [OF lay assms(3)] assms(2)
  by (simp add: bit_and_iff bit_mask_iff)

subsection \<open>Trimming a PDU\<close>

lemma trim_prefixes_free:
  "p \<in> set ps \<Longrightarrow> p \<noteq> [] \<Longrightarrow> \<not> prefix p (trim_prefixes ps s)"
proof (induction ps s rule: trim_prefixes.induct)
  case (1 ps s)
  show ?case
  proof (cases "find (\<lambda>p. p \<noteq> [] \<and> prefix p s) ps")
    case None
    then have "trim_prefixes ps s = s" by (subst trim_prefixes.simps) simp
    then show ?thesis using None 1(2,3) by (auto simp: find_None_iff)
  next
    case (Some q)
    then have "trim_prefixes ps s = trim_prefixes ps (drop (length q) s)"
      by (subst trim_prefixes.simps) simp
    then show ?thesis using Some 1 by simp
  qed
qed

lemma trim_prefixes_suffix: "suffix (trim_prefixes ps s) s"
proof (induction ps s rule: trim_prefixes.induct)
  case (1 ps s)
  then show ?case
    by (subst trim_prefixes.simps)
      (auto split: option.split intro: suffix_order.trans [OF _ suffix_drop])
qed

lemma TrimSpace_idem [simp]: "TrimSpace (TrimSpace s) = TrimSpace s"
proof -
  let ?t = "trim_prefixes go_spaces s"
  let ?u = "trim_prefixes (map rev go_spaces) (rev ?t)"
  have sub: "prefix (rev ?u) ?t"
    using trim_prefixes_suffix [of "map rev go_spaces" "rev ?t"] by (simp add: suffix_to_prefix)
  have "trim_prefixes go_spaces (rev ?u) = rev ?u"
    using trim_prefixes_free [of _ go_spaces s] prefix_order.trans [OF _ sub]
    by (intro trim_prefixes_none) blast
  moreover have "trim_prefixes (map rev go_spaces) ?u = ?u"
    using trim_prefixes_free [of _ "map rev go_spaces" "rev ?t"] by (intro trim_prefixes_none) blast
  ultimately show ?thesis by (simp add: TrimSpace_def)
qed

lemma wrap_int_id: "- (2 ^ 63) \<le> x \<Longrightarrow> x < 2 ^ 63 \<Longrightarrow> wrap_int x = x"
  by (simp add: wrap_int_def)

text \<open>A declared length that the sum does not represent wraps to a negative number, so the slice
  bounds hold: a PDU is cut inside its octets, behind the service-centre address.\<close>

lemma wanted_length:
  assumes "0 \<le> n" and "n < 2 ^ 63" and "\<not> wrap_int (1 + int m + n) \<le> 0" and "m < 256"
  shows "wrap_int (1 + int m + n) = 1 + int m + n"
proof (cases "1 + int m + n < 2 ^ 63")
  case True
  then show ?thesis using assms(1) by (intro wrap_int_id) simp_all
next
  case False
  have "(1 + int m + n + 2 ^ 63) mod 2 ^ 64 = 1 + int m + n + 2 ^ 63 - 2 ^ 64"
    using False assms(1,2,4) by (subst mod_pos_geq) (simp_all add: mod_pos_pos_trivial)
  then have "wrap_int (1 + int m + n) \<le> 0" using assms(2,4) by (simp add: wrap_int_def)
  with assms(3) show ?thesis by simp
qed

text \<open>What is kept of a decoded PDU \<open>b\<close>.\<close>

definition kept_octets :: "(byte \<Rightarrow> 'a option) \<Rightarrow> 'a \<Rightarrow> byte list \<Rightarrow> nat \<Rightarrow> nat" where
  "kept_octets alph a7 b want =
     (let off = 1 + unat (b ! 0)
      in off + length (fst (TrimDeliverTPDUToDeclaredLength alph a7 (drop off (take want b)))))"

lemma trim_deliver_take: "fst (TrimDeliverTPDUToDeclaredLength alph a7 bs) =
    take (length (fst (TrimDeliverTPDUToDeclaredLength alph a7 bs))) bs"
  by (auto simp: TrimDeliverTPDUToDeclaredLength_def split: option.splits)

lemma trim_deliver_flag: "snd (TrimDeliverTPDUToDeclaredLength alph a7 bs) \<longleftrightarrow>
    length (fst (TrimDeliverTPDUToDeclaredLength alph a7 bs)) < length bs"
  by (auto simp: TrimDeliverTPDUToDeclaredLength_def split: option.splits)

lemma trim_deliver_le: "length (fst (TrimDeliverTPDUToDeclaredLength alph a7 bs)) \<le> length bs"
  by (auto simp: TrimDeliverTPDUToDeclaredLength_def split: option.splits)

lemma kept_le:
  assumes "1 + unat (b ! 0) \<le> want" and "want \<le> length b"
  shows "kept_octets alph a7 b want \<le> want"
  using assms trim_deliver_le [of alph a7 "drop (1 + unat (b ! 0)) (take want b)"]
  by (simp add: kept_octets_def Let_def)

lemma kept_take:
  assumes "1 + unat (b ! 0) \<le> want" and "want \<le> length b"
  shows "take (1 + unat (b ! 0)) (take want b) @
      fst (TrimDeliverTPDUToDeclaredLength alph a7 (drop (1 + unat (b ! 0)) (take want b))) =
    take (kept_octets alph a7 b want) b"
proof -
  let ?off = "1 + unat (b ! 0)"
  let ?t = "fst (TrimDeliverTPDUToDeclaredLength alph a7 (drop ?off (take want b)))"
  have "length ?t \<le> want - ?off"
    using trim_deliver_le [of alph a7 "drop ?off (take want b)"] assms(2) by simp
  then have "?t = take (length ?t) (drop ?off b)"
    using trim_deliver_take [of alph a7 "drop ?off (take want b)"]
    by (simp add: drop_take min_absorb1)
  then have "take ?off b @ ?t = take (?off + length ?t) b"
    by (metis take_add)
  then show ?thesis using assms(1) by (simp add: kept_octets_def Let_def min_absorb1)
qed

text \<open>The four outcomes of a call.\<close>

lemma trim_full_value:
  assumes "hex_decode (TrimSpace p) = Some b" and "b \<noteq> []" and "0 \<le> n"
    and "want = 1 + unat (b ! 0) + nat n" and "want \<le> length b"
    and w: "wrap_int (1 + int (unat (b ! 0)) + n) = int want"
  shows "TrimFullPDUHexByTPDULength alph a7 p n =
    (ToUpper (hex_encode (take (kept_octets alph a7 b want) b)), kept_octets alph a7 b want < length b)"
proof -
  let ?rest = "drop (1 + unat (b ! 0)) (take want b)"
  obtain t c where tc: "TrimDeliverTPDUToDeclaredLength alph a7 ?rest = (t, c)" by fastforce
  have flag: "c \<longleftrightarrow> kept_octets alph a7 b want < want"
    using trim_deliver_flag [of alph a7 ?rest] tc assms(4,5) by (simp add: kept_octets_def Let_def)
  have raw: "TrimSpace p \<noteq> []" using assms(1,2) by auto
  have cut: "c \<Longrightarrow> kept_octets alph a7 b want < length b" using flag assms(5) by simp
  have pos: "0 < want" using assms(4) by simp
  have "TrimFullPDUHexByTPDULength alph a7 p n =
    (case TrimDeliverTPDUToDeclaredLength alph a7 ?rest of
       (tpdu, True) \<Rightarrow> (ToUpper (hex_encode (take (1 + unat (b ! 0)) (take want b) @ tpdu)), True)
     | (tpdu, False) \<Rightarrow> (ToUpper (hex_encode (take want b)), want < length b))"
    using assms(1-3,5) w raw pos
    by (simp add: TrimFullPDUHexByTPDULength_def Let_def split: prod.split bool.split)
  also have "\<dots> = (ToUpper (hex_encode (take (kept_octets alph a7 b want) b)),
      kept_octets alph a7 b want < length b)"
  proof (cases c)
    case True
    then show ?thesis using tc cut kept_take [of b want alph a7] assms(4,5) by simp
  next
    case False
    then have "kept_octets alph a7 b want = want"
      using flag kept_le [of b want alph a7] assms(4,5) by simp
    then show ?thesis using tc False by simp
  qed
  finally show ?thesis .
qed

lemma trim_full_upper:
  assumes "hex_decode (TrimSpace p) = Some b"
  shows "TrimSpace (ToUpper (TrimSpace p)) = ToUpper (TrimSpace p)"
    and "hex_decode (ToUpper (TrimSpace p)) = Some b"
  by (rule TrimSpace_printable [OF hex_decode_printable [OF assms]]) (rule hex_decode_upper [OF assms])

lemma trim_full_again:
  "TrimSpace (ToUpper (hex_encode b)) = ToUpper (hex_encode b)"
  "hex_decode (ToUpper (hex_encode b)) = Some b"
  by (rule TrimSpace_printable [OF upper_hex_printable]) (rule hex_decode_upper [OF hex_decode_encode])

text \<open>Cutting what is already cut changes nothing.\<close>

lemma kept_again:
  assumes "1 + unat (b ! 0) \<le> want" and "want \<le> length b" and "kept_octets alph a7 b want = want"
  shows "kept_octets alph a7 (take want b) want = want"
  using assms by (simp add: kept_octets_def Let_def)

text \<open>Trimming a PDU to the length its header line declares is idempotent: a second call
  with the same length returns the same text, whatever the PDU text, for every length an \<^verbatim>\<open>int\<close> can
  hold: blank and undecodable text, a length beyond the octets, the sum of lengths that wraps, and the
  cut to the TPDU's own length.\<close>

theorem trim_full_idempotent:
  assumes "n < 2 ^ 63"
  shows "fst (TrimFullPDUHexByTPDULength alph a7 (fst (TrimFullPDUHexByTPDULength alph a7 p n)) n) =
    fst (TrimFullPDUHexByTPDULength alph a7 p n)"
proof (cases "hex_decode (TrimSpace p)")
  case None
  then show ?thesis by (simp add: TrimFullPDUHexByTPDULength_def Let_def)
next
  case dec: (Some b)
  show ?thesis
  proof (cases "TrimSpace p = [] \<or> n < 0 \<or> b = []")
    case True
    then show ?thesis using dec by (auto simp: TrimFullPDUHexByTPDULength_def Let_def)
  next
    case False
    let ?w = "wrap_int (1 + int (unat (b ! 0)) + n)"
    show ?thesis
    proof (cases "?w \<le> 0 \<or> int (length b) < ?w")
      case True
      then have "fst (TrimFullPDUHexByTPDULength alph a7 p n) = ToUpper (TrimSpace p)"
        using dec False by (simp add: TrimFullPDUHexByTPDULength_def Let_def)
      then show ?thesis
        using True dec False trim_full_upper [OF dec]
        by (simp add: TrimFullPDUHexByTPDULength_def Let_def)
    next
      case inside: False
      let ?want = "1 + unat (b ! 0) + nat n" and ?m = "unat (b ! 0)"
      have n: "0 \<le> n" "b \<noteq> []" using False by simp_all
      have w: "?w = int ?want"
        using wanted_length [of n ?m] n(1) assms inside by simp
      have "int ?want \<le> int (length b)" using inside unfolding w by linarith
      then have le: "?want \<le> length b" by (simp only: of_nat_le_iff)
      let ?k = "kept_octets alph a7 b ?want"
      have first: "fst (TrimFullPDUHexByTPDULength alph a7 p n) = ToUpper (hex_encode (take ?k b))"
        unfolding trim_full_value [OF dec n(2,1) refl le w] by (rule fst_conv)
      have k: "1 + ?m \<le> ?k" "?k \<le> ?want"
        using kept_le [of b ?want alph a7] le by (simp_all add: kept_octets_def Let_def)
      let ?b = "take ?k b" and ?s = "ToUpper (hex_encode (take ?k b))"
      have b: "?b \<noteq> []" "?b ! 0 = b ! 0" "length ?b = ?k" using k le n(2) by (simp_all add: min_absorb2)
      have dec': "hex_decode (TrimSpace ?s) = Some ?b" by (simp add: trim_full_again)
      show ?thesis
      proof (cases "?k = ?want")
        case True
        have "kept_octets alph a7 ?b ?want = ?want"
          using kept_again [of b ?want alph a7] le True by simp
        then have "fst (TrimFullPDUHexByTPDULength alph a7 ?s n) = ?s"
          using trim_full_value [OF dec' b(1) n(1), of ?want alph a7] b(2,3) w True by simp
        then show ?thesis by (simp only: first)
      next
        case shorter: False
        then have "?k < ?want" using k(2) by linarith
        then have "int (length ?b) < wrap_int (1 + int (unat (?b ! 0)) + n)"
          unfolding b(2) w b(3) by (simp only: of_nat_less_iff)
        then have "fst (TrimFullPDUHexByTPDULength alph a7 ?s n) = ToUpper (TrimSpace ?s)"
          using dec' b(1) n(1) by (auto simp: TrimFullPDUHexByTPDULength_def Let_def)
        then show ?thesis by (simp only: first trim_full_again ToUpper_idem)
      qed
    qed
  qed
qed

text \<open>A delivery from +12345 with four septets of text, two octets behind it, and a fictitious
  alphabet that is seven-bit for data coding scheme 0 only.\<close>

definition sample_alphabet :: "byte \<Rightarrow> nat option" where
  "sample_alphabet dcs = Some (if dcs = 0 then 0 else 1)"

lemma sample_pdu_trimmed:
  "TrimFullPDUHexByTPDULength sample_alphabet 0 '' 000405812143f500009930925161958004d4f29c0eff'' 21 =
     (''000405812143F500009930925161958004D4F29C0E'', True)"
  by code_simp

theorem trim_full_idempotent_witness:
  "fst (TrimFullPDUHexByTPDULength sample_alphabet 0 ''000405812143F500009930925161958004D4F29C0E'' 21) =
     ''000405812143F500009930925161958004D4F29C0E''"
  using trim_full_idempotent [of 21 sample_alphabet 0 "'' 000405812143f500009930925161958004d4f29c0eff''"]
  unfolding sample_pdu_trimmed by simp

end
