(* ===== verification/BinarySms.thy ===== *)
theory BinarySms
  imports Wbxml SmsReassembly GoRunes
begin

unbundle bit_operations_syntax

section \<open>Binary messages and the decoding of deliveries\<close>

text \<open>
  \<^verbatim>\<open>pkg/smscodec/binary_classifier.go\<close>, the summary of a provisioning document
  (\<^verbatim>\<open>wbxml_omacp.go\<close>) and \<^verbatim>\<open>DecodeDeliverTPDU\<close> (\<^verbatim>\<open>pdu.go\<close>).  The TPDU decoder of the
  \<^verbatim>\<open>warthog618/sms\<close> package is a record of functions.  Text that is not ASCII is given by its runes.
\<close>

subsection \<open>Summary of a provisioning document\<close>

definition appIDNames :: "(string \<times> string) list" where
  "appIDNames =
     [(''w2'', string_of_runes [0x57, 0x41, 0x50, 0x20, 0x6D4F, 0x89C8, 0x5668]),
      (''w4'', string_of_runes [0x6D4F, 0x89C8, 0x5668, 0x4E66, 0x7B7E]),
      (''w5'', string_of_runes [0x4D, 0x4D, 0x53, 0x20, 0x5F69, 0x4FE1]),
      (''w7'', ''SyncML DM''),
      (''25'', string_of_runes [0x53, 0x4D, 0x54, 0x50, 0x20, 0x90AE, 0x4EF6]),
      (''110'', string_of_runes [0x50, 0x4F, 0x50, 0x33, 0x20, 0x90AE, 0x4EF6]),
      (''143'', string_of_runes [0x49, 0x4D, 0x41, 0x50, 0x34, 0x20, 0x90AE, 0x4EF6]),
      (''ap0004'', ''MMS''),
      (''ap0005'', ''SyncML DM''),
      (''APSERVICE'', string_of_runes [0x901A, 0x7528, 0x5E94, 0x7528, 0x670D, 0x52A1]),
      (''OTA-HTTP-TO'', ''OTA HTTP''),
      (''OTA-HTTP-TLS-TO'', ''OTA HTTPS'')]"

text \<open>The iteration order of a Go map is unspecified: \<open>ord\<close> is the order in which the parameters come.\<close>

definition app_hint :: "string \<Rightarrow> (string \<times> string) list \<Rightarrow> string" where
  "app_hint ty ps =
     (if ty = ''APPLICATION'' then
        (case map_of ps ''APPID'' of
           None \<Rightarrow> []
         | Some app \<Rightarrow>
             (case map_of appIDNames app of None \<Rightarrow> [] | Some name \<Rightarrow> '' ('' @ name @ '')''))
      else [])"

definition indent_text :: "nat \<Rightarrow> string" where
  "indent_text n = List.concat (replicate n ''  '')"

definition newline :: string where "newline = [byte_char 10]"

fun formatCharacteristic ::
  "((string \<times> string) list \<Rightarrow> (string \<times> string) list) \<Rightarrow> nat \<Rightarrow> characteristic \<Rightarrow> string" where
  "formatCharacteristic ord n (Characteristic ty ps cs) =
     (if ty = ''wap-provisioningdoc'' then join newline (map (formatCharacteristic ord n) cs)
      else indent_text n @ string_of_runes [0x1F4CB, 0x20] @ ty @ app_hint ty ps @ newline @
        List.concat (map (\<lambda>(k, v). indent_text n @ ''  '' @ k @ '': '' @ v @ newline) (ord ps)) @
        List.concat (map (formatCharacteristic ord (n + 1)) cs))"

definition FormatOmaCPSummary ::
  "((string \<times> string) list \<Rightarrow> (string \<times> string) list) \<Rightarrow> omacp_config \<Rightarrow> string" where
  "FormatOmaCPSummary ord cfg =
     (if Characteristics cfg = [] then string_of_runes [0x28, 0x7A7A, 0x914D, 0x7F6E, 0x29]
      else join newline (map (formatCharacteristic ord 0) (Characteristics cfg)))"

subsection \<open>Ports\<close>

text \<open>An information element of a user data header is its identifier and its octets.\<close>

type_synonym udh = "(byte \<times> byte list) list"

record udh_ports =
  Port16 :: "(u16 \<times> u16) option"
  Port8 :: "(byte \<times> byte) option"

definition port_element :: "udh_ports \<Rightarrow> byte \<times> byte list \<Rightarrow> udh_ports" where
  "port_element p ie =
     (case ie of (i, d) \<Rightarrow>
        if i = 0x05 then
          (if 4 \<le> length d then p\<lparr>Port16 := Some (get16 (take 2 d), get16 (take 2 (drop 2 d)))\<rparr> else p)
        else if i = 0x04 then
          (if 2 \<le> length d then p\<lparr>Port8 := Some (d ! 0, d ! 1)\<rparr> else p)
        else p)"

definition parseUDHPorts :: "udh \<Rightarrow> udh_ports" where
  "parseUDHPorts u = foldl port_element \<lparr>Port16 = None, Port8 = None\<rparr> u"

definition preferredDestPort :: "udh_ports \<Rightarrow> u16 option" where
  "preferredDestPort p =
     (case Port16 p of
        Some (dst, _) \<Rightarrow> Some dst
      | None \<Rightarrow> (case Port8 p of Some (dst, _) \<Rightarrow> Some (ucast dst) | None \<Rightarrow> None))"

fun extractUDHDestPort16 :: "udh \<Rightarrow> u16 option" where
  "extractUDHDestPort16 [] = None"
| "extractUDHDestPort16 ((i, d) # u) =
     (if i = 0x05 \<and> 4 \<le> length d then Some (get16 (take 2 d)) else extractUDHDestPort16 u)"

definition IsOmaCPMessage :: "udh \<Rightarrow> bool" where
  "IsOmaCPMessage u \<longleftrightarrow> preferredDestPort (parseUDHPorts u) = Some 2948"

subsection \<open>WSP push\<close>

record wsp_push =
  TransactionID :: byte
  PDUType :: byte
  ContentType :: string
  Body :: "byte list"

definition mapWSPContentTypeToken :: "byte \<Rightarrow> string" where
  "mapWSPContentTypeToken tok =
     (if tok = 0x2e then ''application/vnd.wap.sic''
      else if tok = 0x30 then ''application/vnd.wap.connectivity-wbxml''
      else if tok = 0x31 then ''application/vnd.wap.slc''
      else if tok = 0x3e then ''application/vnd.wap.mms-message''
      else ''token:0x'' @ hex_encode [tok])"

definition readCString :: "byte list \<Rightarrow> string" where
  "readCString bs = text_of (takeWhile (\<lambda>b. b \<noteq> 0) bs)"

definition normalizeContentType :: "string \<Rightarrow> string" where
  "normalizeContentType s = ToLower (TrimSpace s)"

definition isLikelyASCII :: "byte \<Rightarrow> bool" where
  "isLikelyASCII b \<longleftrightarrow> 0x20 \<le> b \<and> b \<le> 0x7e"

definition parseWSPContentType :: "byte list \<Rightarrow> string" where
  "parseWSPContentType h =
     (if h = [] then []
      else if h ! 0 AND 0x80 \<noteq> 0 then mapWSPContentTypeToken (h ! 0 AND 0x7F)
      else if isLikelyASCII (h ! 0) then normalizeContentType (readCString h)
      else
        let n = unat (h ! 0)
        in if 0 < n \<and> 1 + n \<le> length h then
             let v = take n (drop 1 h)
             in if v \<noteq> [] \<and> v ! 0 AND 0x80 \<noteq> 0 then mapWSPContentTypeToken (v ! 0 AND 0x7F)
                else normalizeContentType (readCString v)
           else [])"

text \<open>\<open>None\<close> is the result with \<^verbatim>\<open>Ok\<close> false.\<close>

definition parseWSPPush :: "byte list \<Rightarrow> wsp_push option" where
  "parseWSPPush bs =
     (if length bs < 4 then None
      else if bs ! 1 \<noteq> 0x06 \<and> bs ! 1 \<noteq> 0x07 then None
      else let n = unat (bs ! 2)
           in if length bs < 3 + n then None
              else Some \<lparr>TransactionID = bs ! 0, PDUType = bs ! 1,
                ContentType = parseWSPContentType (take n (drop 3 bs)), Body = drop (3 + n) bs\<rparr>)"

subsection \<open>Signatures of the kinds\<close>

definition isLikelyOMAContentType :: "string \<Rightarrow> bool" where
  "isLikelyOMAContentType ct \<longleftrightarrow> ct = ''application/vnd.wap.connectivity-wbxml''"

definition isLikelySIContentType :: "string \<Rightarrow> bool" where
  "isLikelySIContentType ct \<longleftrightarrow> ct = ''application/vnd.wap.sic'' \<or> ct = ''application/vnd.wap.si''"

definition isLikelySLContentType :: "string \<Rightarrow> bool" where
  "isLikelySLContentType ct \<longleftrightarrow> ct = ''application/vnd.wap.slc'' \<or> ct = ''application/vnd.wap.sl''"

definition isLikelyMMSContentType :: "string \<Rightarrow> bool" where
  "isLikelyMMSContentType ct \<longleftrightarrow> ct = ''application/vnd.wap.mms-message''"

definition wbxmlPublicID :: "byte list \<Rightarrow> u32 option" where
  "wbxmlPublicID bs =
     (if length bs < 3 then None
      else if bs ! 0 < 0x01 \<or> 0x03 < bs ! 0 then None
      else map_option fst (parseMBUint32At bs 1))"

definition isLikelySIWBXML :: "byte list \<Rightarrow> bool" where
  "isLikelySIWBXML bs \<longleftrightarrow> wbxmlPublicID bs = Some 0x05 \<or> wbxmlPublicID bs = Some 0x06"

definition isLikelySLWBXML :: "byte list \<Rightarrow> bool" where
  "isLikelySLWBXML bs \<longleftrightarrow> wbxmlPublicID bs = Some 0x06 \<or> wbxmlPublicID bs = Some 0x07"

fun isLikelyMMSNotification :: "byte list \<Rightarrow> bool" where
  "isLikelyMMSNotification (a # b # bs) \<longleftrightarrow> (a = 0x8C \<and> b = 0x82) \<or> isLikelyMMSNotification (b # bs)"
| "isLikelyMMSNotification bs \<longleftrightarrow> False"

definition isLikelyClass2 :: "byte \<Rightarrow> bool" where
  "isLikelyClass2 dcs \<longleftrightarrow> (if dcs AND 0x10 = 0 then False else dcs AND 0x03 = 0x02)"

definition tryParseSIMOTAHeader :: "byte list \<Rightarrow> (u16 \<times> byte \<times> byte) option" where
  "tryParseSIMOTAHeader bs =
     (if length bs < 6 then None
      else let chl = unat (bs ! 1)
           in if chl < 5 \<or> length bs < 2 + chl then None
              else Some (u16_at bs 2, bs ! 4, bs ! 5))"

subsection \<open>Hints\<close>

definition url_stop :: "char \<Rightarrow> bool" where
  "url_stop c \<longleftrightarrow> char_code c \<in> {0, 32, 13, 10, 34, 39, 60, 62}"

definition url_at :: "string \<Rightarrow> string \<Rightarrow> string option" where
  "url_at pat s = map_option (\<lambda>i. takeWhile (\<lambda>c. \<not> url_stop c) (drop i s)) (index_of pat s)"

definition extractURL :: "byte list \<Rightarrow> string" where
  "extractURL bs =
     (let s = text_of bs
      in case url_at ''https://'' s of
           Some u \<Rightarrow> u
         | None \<Rightarrow> (case url_at ''http://'' s of Some u \<Rightarrow> u | None \<Rightarrow> []))"

fun hint_loop :: "nat \<Rightarrow> byte list \<Rightarrow> byte list \<Rightarrow> byte list" where
  "hint_loop m acc [] = acc"
| "hint_loop m acc (b # bs) =
     (let acc = (if (0x20 \<le> b \<and> b \<le> 0x7e) \<or> b = 10 \<or> b = 13 \<or> b = 9 then acc @ [b] else acc)
      in if m \<le> length acc then acc else hint_loop m acc bs)"

definition extractPrintableHint :: "byte list \<Rightarrow> nat \<Rightarrow> string" where
  "extractPrintableHint bs m = TrimSpace (text_of (hint_loop m [] bs))"

definition extractTaggedCString :: "byte list \<Rightarrow> byte \<Rightarrow> string" where
  "extractTaggedCString bs tag =
     (case find (\<lambda>i. bs ! i = tag \<and> readCString (drop (i + 1) bs) \<noteq> []) [0..<length bs - 1] of
        None \<Rightarrow> []
      | Some i \<Rightarrow> readCString (drop (i + 1) bs))"

definition extractTaggedUint :: "byte list \<Rightarrow> byte \<Rightarrow> u32 option" where
  "extractTaggedUint bs tag =
     (case find (\<lambda>i. bs ! i = tag \<and> parseMBUint32At bs (i + 1) \<noteq> None) [0..<length bs - 1] of
        None \<Rightarrow> None
      | Some i \<Rightarrow> map_option fst (parseMBUint32At bs (i + 1)))"

definition hint_line :: "string \<Rightarrow> string \<Rightarrow> string list" where
  "hint_line label s = (if s \<noteq> [] then [label @ s] else [])"

definition sisl_hints :: "byte list \<Rightarrow> string list" where
  "sisl_hints p = hint_line ''url='' (extractURL p) @ hint_line ''hint='' (extractPrintableHint p 80)"

definition mms_hints :: "byte list \<Rightarrow> string list" where
  "mms_hints p =
     hint_line ''x_mms_transaction_id='' (extractTaggedCString p 0x98) @
     hint_line ''content_location='' (extractTaggedCString p 0x83) @
     (case extractTaggedUint p 0x8e of None \<Rightarrow> [] | Some n \<Rightarrow> [''message_size='' @ decimal (unat n)]) @
     hint_line ''url='' (extractURL p)"

subsection \<open>Classification\<close>

datatype binary_kind =
    binaryKindUnknown | binaryKindOmaCP | binaryKindWAPSI | binaryKindWAPSL
  | binaryKindMMSNotification | binaryKindSIMOTA

record binary_sms =
  BKind :: binary_kind
  BLabel :: string
  SummaryLines :: "string list"
  RawHex :: string
  BPayload :: "byte list"
  BContentType :: string
  BDestPort :: "u16 option"
  IsPossEncrypted :: bool

text \<open>What the classification reads of the library's TPDU.\<close>

record tpdu_view =
  TUdh :: "udh option"
  TPid :: byte
  TDcs :: byte

definition tpdu_udh :: "tpdu_view \<Rightarrow> udh" where
  "tpdu_udh t = (case TUdh t of None \<Rightarrow> [] | Some u \<Rightarrow> u)"

definition isLikelySIMOTA :: "tpdu_view \<Rightarrow> byte list \<Rightarrow> string \<Rightarrow> u16 option \<Rightarrow> bool" where
  "isLikelySIMOTA t payload ct port \<longleftrightarrow>
     (if ct \<noteq> [] \<and> (isLikelyOMAContentType ct \<or> isLikelySIContentType ct \<or> isLikelySLContentType ct \<or>
          isLikelyMMSContentType ct) then False
      else if port = Some 2948 then False
      else if TPid t = 0x7f then True
      else isLikelyClass2 (TDcs t) \<and> tryParseSIMOTAHeader payload \<noteq> None)"

definition classify_start :: "tpdu_view \<Rightarrow> byte list \<Rightarrow> binary_sms" where
  "classify_start t msg =
     (let c = \<lparr>BKind = binaryKindUnknown, BLabel = string_of_runes [0x4E8C, 0x8FDB, 0x5236, 0x6570, 0x636E],
            SummaryLines = [], RawHex = hex_encode msg, BPayload = msg, BContentType = [],
            BDestPort = preferredDestPort (parseUDHPorts (tpdu_udh t)), IsPossEncrypted = False\<rparr>
      in case parseWSPPush msg of
           None \<Rightarrow> c
         | Some w \<Rightarrow> c\<lparr>BPayload := Body w, BContentType := ContentType w,
             SummaryLines := hint_line ''content_type='' (ContentType w) @
               [''wsp_tid=0x'' @ hex_encode [TransactionID w] @ '' pdu=0x'' @ hex_encode [PDUType w]]\<rparr>)"

definition classifyBinarySMS ::
  "((string \<times> string) list \<Rightarrow> (string \<times> string) list) \<Rightarrow> tpdu_view \<Rightarrow> byte list \<Rightarrow> binary_sms" where
  "classifyBinarySMS ord t msg =
     (let c = classify_start t msg; ct = BContentType c; p = BPayload c; ls = SummaryLines c
      in if BDestPort c = Some 2948 \<or> isLikelyOMAContentType ct then
           (let c = c\<lparr>BKind := binaryKindOmaCP,
                  BLabel := string_of_runes [0x4F, 0x4D, 0x41, 0x20, 0x43, 0x50, 0x20, 0x8FD0, 0x8425, 0x5546, 0x914D, 0x7F6E, 0x77ED, 0x4FE1]\<rparr>
            in case DecodeOmaCPFromTPDU p of
                 Inr cfg \<Rightarrow> c\<lparr>SummaryLines := ls @ split_on newline (TrimSpace (FormatOmaCPSummary ord cfg))\<rparr>
               | Inl e \<Rightarrow> c\<lparr>IsPossEncrypted := True,
                   SummaryLines := ls @ [''wbxml_decode=failed ('' @
                     string_of_runes [0x53EF, 0x80FD, 0x52A0, 0x5BC6, 0x2F, 0x975E, 0x660E, 0x6587] @ '')'']\<rparr>)
         else if isLikelySIContentType ct \<or> isLikelySIWBXML p then
           c\<lparr>BKind := binaryKindWAPSI, BLabel := ''WAP SI Push'', SummaryLines := ls @ sisl_hints p\<rparr>
         else if isLikelySLContentType ct \<or> isLikelySLWBXML p then
           c\<lparr>BKind := binaryKindWAPSL, BLabel := ''WAP SL Push'', SummaryLines := ls @ sisl_hints p\<rparr>
         else if isLikelyMMSContentType ct \<or> isLikelyMMSNotification p then
           c\<lparr>BKind := binaryKindMMSNotification, BLabel := ''MMS Notification'',
             SummaryLines := ls @ mms_hints p\<rparr>
         else if isLikelySIMOTA t p ct (BDestPort c) then
           c\<lparr>BKind := binaryKindSIMOTA, BLabel := ''SIM OTA 23.048'', IsPossEncrypted := True,
             SummaryLines := ls @
               (case tryParseSIMOTAHeader p of
                  None \<Rightarrow> []
                | Some (spi, kic, kid) \<Rightarrow>
                    [''spi=0x'' @ hex_encode (put16 spi) @ '' kic=0x'' @ hex_encode [kic] @
                     '' kid=0x'' @ hex_encode [kid]]) @
               [''decrypt=not_attempted'']\<rparr>
         else c)"

definition formatBinaryClassification :: "binary_sms \<Rightarrow> string" where
  "formatBinaryClassification c =
     ''['' @ BLabel c @ '']'' @ newline @
     (case BDestPort c of None \<Rightarrow> [] | Some p \<Rightarrow> ''dest_port='' @ decimal (unat p) @ newline) @
     List.concat (map (\<lambda>l. let l = TrimSpace l in if l = [] then [] else l @ newline) (SummaryLines c)) @
     (if IsPossEncrypted c then ''security='' @ string_of_runes [0x53EF, 0x80FD, 0x52A0, 0x5BC6] @ newline else []) @
     ''raw='' @ RawHex c"

subsection \<open>Deliveries\<close>

text \<open>The library: \<^verbatim>\<open>Unmarshal\<close>, \<^verbatim>\<open>Decode\<close>, the concatenation elements of a header (segments,
  sequence number, reference), the alphabet of a data coding scheme, and what a delivery tells of itself.\<close>

record ('t, 'a, 'e) sms_lib =
  Unmarshal :: "byte list \<Rightarrow> 'e + 't"
  Decode :: "'t \<Rightarrow> 'e + byte list"
  View :: "'t \<Rightarrow> tpdu_view"
  ConcatInfo8 :: "udh \<Rightarrow> (int \<times> int \<times> int) option"
  ConcatInfo16 :: "udh \<Rightarrow> (int \<times> int \<times> int) option"
  Alphabet :: "byte \<Rightarrow> 'a option"
  Alpha7Bit :: 'a
  Alpha8Bit :: 'a
  IsDeliver :: "'t \<Rightarrow> bool"
  OANumber :: "'t \<Rightarrow> string"
  SCTSTime :: "'t \<Rightarrow> int"

definition no_concat :: concat_info where
  "no_concat = \<lparr>IsConcat = False, CRef = 0, CRefBits = 0, CTotal = 0, CSeq = 0\<rparr>"

definition concat_of :: "('t, 'a, 'e) sms_lib \<Rightarrow> udh option \<Rightarrow> concat_info" where
  "concat_of lib u =
     (case u of
        None \<Rightarrow> no_concat
      | Some u \<Rightarrow>
          let wide = (case ConcatInfo16 lib u of
                Some (segments, seqno, mref) \<Rightarrow>
                  if 1 < segments then
                    \<lparr>IsConcat = True, CRef = mref, CRefBits = 16, CTotal = segments, CSeq = seqno\<rparr>
                  else no_concat
              | None \<Rightarrow> no_concat)
          in case ConcatInfo8 lib u of
               Some (segments, seqno, mref) \<Rightarrow>
                 if 1 < segments then
                   \<lparr>IsConcat = True, CRef = mref, CRefBits = 8, CTotal = segments, CSeq = seqno\<rparr>
                 else wide
             | None \<Rightarrow> wide)"

text \<open>\<^verbatim>\<open>strings.ToValidUTF8(s, "")\<close>: bytes that do not decode are dropped.\<close>

function ToValidUTF8 :: "string \<Rightarrow> string" where
  "ToValidUTF8 [] = []"
| "ToValidUTF8 (c # s) =
     (case decode_rune (c # s) of
        (r, w) \<Rightarrow>
          if r = replacement_rune \<and> w = 1 then ToValidUTF8 s
          else take w (c # s) @ ToValidUTF8 (drop w (c # s)))"
  by pat_completeness auto
termination
  by (relation "measure length") (simp, simp, simp only: measure_def inv_image_def,
    auto dest: decode_rune_shrinks simp del: length_drop)

definition DecodeDeliverTPDU ::
  "((string \<times> string) list \<Rightarrow> (string \<times> string) list) \<Rightarrow> ('t, 'a, 'e) sms_lib \<Rightarrow> byte list \<Rightarrow>
     'e + (string \<times> string \<times> int \<times> concat_info)" where
  "DecodeDeliverTPDU ord lib tpdu =
     (let tpdu = fst (TrimDeliverTPDUToDeclaredLength (Alphabet lib) (Alpha7Bit lib) tpdu);
          tpdu = fst (normalizeDeliverTPDUGSM7SpareBits (Alphabet lib) (Alpha7Bit lib) tpdu)
      in res_bind (Unmarshal lib tpdu) (\<lambda>t.
         res_bind (Decode lib t) (\<lambda>msg.
           let v = View lib t;
               concat = concat_of lib (TUdh v);
               txt = (if Alphabet lib (TDcs v) = Some (Alpha8Bit lib)
                      then formatBinaryClassification (classifyBinarySMS ord v msg)
                      else text_of msg);
               txt = ToValidUTF8 txt
           in if IsDeliver lib t then Inr (OANumber lib t, txt, SCTSTime lib t, concat)
              else Inr ([], txt, 0, concat))))"

section \<open>The text of a delivery is valid UTF-8\<close>













text \<open>Octets behind the declared length of a delivery do not reach the library.\<close>

lemma delivery_padding:
  assumes "DeliverTPDUDeclaredLength (Alphabet lib) (Alpha7Bit lib) bs = Some (length bs)"
  shows "DecodeDeliverTPDU ord lib (bs @ pad) = DecodeDeliverTPDU ord lib bs"
proof -
  have "fst (TrimDeliverTPDUToDeclaredLength (Alphabet lib) (Alpha7Bit lib) bs) = bs"
    using assms by (simp add: TrimDeliverTPDUToDeclaredLength_def)
  then show ?thesis
    by (simp add: DecodeDeliverTPDU_def trim_deliver_padding [OF assms])
qed

section \<open>Kinds that hide each other\<close>

lemma classified_kind:
  "BKind (classifyBinarySMS ord t msg) =
     (let c = classify_start t msg; ct = BContentType c; p = BPayload c
      in if BDestPort c = Some 2948 \<or> isLikelyOMAContentType ct then binaryKindOmaCP
         else if isLikelySIContentType ct \<or> isLikelySIWBXML p then binaryKindWAPSI
         else if isLikelySLContentType ct \<or> isLikelySLWBXML p then binaryKindWAPSL
         else if isLikelyMMSContentType ct \<or> isLikelyMMSNotification p then binaryKindMMSNotification
         else if isLikelySIMOTA t p ct (BDestPort c) then binaryKindSIMOTA
         else binaryKindUnknown)"
proof -
  have "BKind (classify_start t msg) = binaryKindUnknown"
    by (simp add: classify_start_def Let_def split: option.split)
  then show ?thesis by (simp add: classifyBinarySMS_def Let_def split: sum.split)
qed

lemma start_port: "BDestPort (classify_start t msg) = preferredDestPort (parseUDHPorts (tpdu_udh t))"
  by (simp add: classify_start_def Let_def split: option.split)




text \<open>A service loading is labelled a service indication: a document with public identifier 6
  passes the test for indications, which accepts 5 and 6 and comes first, even when its content type is
  the one of service loadings.\<close>

theorem service_loading_labelled_indication:
  assumes "preferredDestPort (parseUDHPorts (tpdu_udh t)) \<noteq> Some 2948"
    and "parseWSPPush msg = Some w" and "ContentType w = ''application/vnd.wap.slc''"
    and "wbxmlPublicID (Body w) = Some 0x06"
  shows "BKind (classifyBinarySMS ord t msg) = binaryKindWAPSI"
  using assms start_port [of t msg]
  by (simp add: classified_kind Let_def classify_start_def isLikelyOMAContentType_def isLikelySIWBXML_def)

theorem service_loading_labelled_indication_witness:
  "BKind (classifyBinarySMS id \<lparr>TUdh = None, TPid = 0, TDcs = 4\<rparr> [0x21, 0x06, 0x01, 0xB1, 0x02, 0x06, 0x6A, 0x00]) =
     binaryKindWAPSI"
proof (rule service_loading_labelled_indication)
  show "preferredDestPort (parseUDHPorts (tpdu_udh \<lparr>TUdh = None, TPid = 0, TDcs = 4\<rparr>)) \<noteq> Some 2948"
    by code_simp
  show "parseWSPPush [0x21, 0x06, 0x01, 0xB1, 0x02, 0x06, 0x6A, 0x00] =
      Some \<lparr>TransactionID = 0x21, PDUType = 0x06, ContentType = ''application/vnd.wap.slc'',
        Body = [0x02, 0x06, 0x6A, 0x00]\<rparr>"
    by (simp add: parseWSPPush_def parseWSPContentType_def mapWSPContentTypeToken_def)
  show "wbxmlPublicID (Body \<lparr>TransactionID = 0x21, PDUType = 0x06, ContentType = ''application/vnd.wap.slc'',
      Body = [0x02, 0x06, 0x6A, 0x00]\<rparr>) = Some 0x06"
    by code_simp
qed simp

end
