(* ===== verification/AtParse.thy ===== *)
theory AtParse
  imports SmsReassembly GoRunes
begin

section \<open>Answers of an AT modem\<close>

text \<open>
  \<^verbatim>\<open>internal/modem/at_parse.go\<close>, \<^verbatim>\<open>operator_name.go\<close> and \<^verbatim>\<open>operator_selection.go\<close>: the functions
  that read one AT response, a text of several lines.  A pair of a value and an \<^verbatim>\<open>ok\<close> that is false
  is \<open>None\<close>, except where the code returns values beside the false.  \<^verbatim>\<open>fmt.Sscanf(s, "%d", &v)\<close>
  skips spaces, reads an optional sign and the digits that follow, and ignores the rest of the text;
  the sources call it on trimmed texts.  The index expressions of the sources are all guarded, and the
  guards are those of the definitions.
\<close>

subsection \<open>Numbers, prefixes and quotes\<close>

definition scan_int :: "string \<Rightarrow> int option" where
  "scan_int s =
     (case s of
        [] \<Rightarrow> None
      | c # cs \<Rightarrow>
          if c = CHR 0x2D \<or> c = CHR 0x2B then Atoi (c # takeWhile is_digit cs)
          else Atoi (takeWhile is_digit (c # cs)))"

definition TrimPrefix :: "string \<Rightarrow> string \<Rightarrow> string" where
  "TrimPrefix s p = (if prefix p s then drop (length p) s else s)"

definition TrimSuffix :: "string \<Rightarrow> string \<Rightarrow> string" where
  "TrimSuffix s p = (if suffix p s then take (length s - length p) s else s)"

definition after_char :: "char \<Rightarrow> string \<Rightarrow> string option" where
  "after_char c s = map_option snd (cut_at [c] s)"

definition splitLines :: "string \<Rightarrow> string list" where
  "splitLines resp =
     map TrimSpace (split_on [byte_char 10] (filter (\<lambda>c. c \<noteq> byte_char 13) resp))"

definition findLineWithPrefix :: "string \<Rightarrow> string \<Rightarrow> string option" where
  "findLineWithPrefix resp p = find (prefix p) (splitLines resp)"

definition extractFirstQuoted :: "string \<Rightarrow> string option" where
  "extractFirstQuoted resp =
     (case cut_at [CHR 0x22] resp of
        None \<Rightarrow> None
      | Some (_, s) \<Rightarrow> map_option fst (cut_at [CHR 0x22] s))"

lemma cut_at_shrinks: "cut_at sep s = Some (a, b) \<Longrightarrow> sep \<noteq> [] \<Longrightarrow> length b < length s"
  by (cases sep) (auto simp: cut_at_def dest!: index_of_Some)

function extractQuotedFields :: "string \<Rightarrow> string list" where
  "extractQuotedFields s =
     (case cut_at [CHR 0x22] s of
        None \<Rightarrow> []
      | Some (_, t) \<Rightarrow>
          (case cut_at [CHR 0x22] t of
             None \<Rightarrow> []
           | Some (field, rest) \<Rightarrow> field # extractQuotedFields rest))"
  by auto
termination
proof (relation "measure length")
  fix s a t field and rest :: string and p q
  assume a: "cut_at [CHR 0x22] s = Some p" "(a, t) = p"
    and b: "cut_at [CHR 0x22] t = Some q" "(field, rest) = q"
  have "length rest < length t" using b by (auto intro: cut_at_shrinks)
  also have "length t < length s" using a by (auto intro: cut_at_shrinks)
  finally show "(rest, s) \<in> measure length" by simp
qed simp

declare extractQuotedFields.simps [simp del]

definition comma_parts :: "string \<Rightarrow> string list" where
  "comma_parts = split_on [CHR 0x2C]"

subsection \<open>Identity and SIM\<close>

definition parseIMEI :: "string \<Rightarrow> string" where
  "parseIMEI resp =
     (case find (\<lambda>l. length l = 15 \<and> list_all is_digit l) (splitLines resp) of
        None \<Rightarrow> [] | Some l \<Rightarrow> l)"

definition parseFirmware :: "string \<Rightarrow> string" where
  "parseFirmware resp =
     (case find (\<lambda>l. l \<noteq> [] \<and> l \<noteq> ''OK'' \<and> \<not> prefix ''+'' l) (splitLines resp) of
        None \<Rightarrow> [] | Some l \<Rightarrow> l)"

definition parseQSIMSTATInserted :: "string \<Rightarrow> bool option" where
  "parseQSIMSTATInserted resp =
     (case findLineWithPrefix resp ''+QSIMSTAT:'' of
        None \<Rightarrow> None
      | Some line \<Rightarrow>
          let parts = comma_parts line
          in if length parts < 2 then None
             else map_option (\<lambda>v. v = 1) (scan_int (TrimSpace (parts ! 1))))"

definition parseCPINInserted :: "string \<Rightarrow> bool option" where
  "parseCPINInserted resp =
     (let s = ToUpper resp
      in if contains_sub s ''READY'' then Some True
         else if contains_sub s ''NOT INSERTED'' then Some False
         else None)"

definition imsi_of_line :: "string \<Rightarrow> string" where
  "imsi_of_line line =
     (let s = TrimSpace line
      in if prefix ''+CIMI:'' s then TrimSpace (TrimPrefix s ''+CIMI:'') else s)"

definition parseIMSI :: "string \<Rightarrow> string" where
  "parseIMSI resp =
     (case find (\<lambda>s. 14 \<le> length s \<and> length s \<le> 15 \<and> list_all is_digit s)
             (map imsi_of_line (splitLines resp)) of
        None \<Rightarrow> [] | Some s \<Rightarrow> s)"

definition parseQCCID :: "string \<Rightarrow> string" where
  "parseQCCID resp =
     (case findLineWithPrefix resp ''+QCCID:'' of
        None \<Rightarrow> []
      | Some line \<Rightarrow>
          (case after_char (CHR 0x3A) line of
             None \<Rightarrow> []
           | Some v \<Rightarrow>
               rev (dropWhile (\<lambda>c. c = CHR 0x46 \<or> c = CHR 0x66) (rev (TrimQuotes (TrimSpace v))))))"

subsection \<open>Names of the serving operator\<close>

text \<open>The names in Chinese are given by their code points.\<close>

definition servingOperatorNameByPLMN :: "(string \<times> string) list" where
  "servingOperatorNameByPLMN =
    [(''46000'', string_of_runes [20013, 22269, 31227, 21160]),
     (''46002'', string_of_runes [20013, 22269, 31227, 21160]),
     (''46004'', string_of_runes [20013, 22269, 31227, 21160]),
     (''46007'', string_of_runes [20013, 22269, 31227, 21160]),
     (''46008'', string_of_runes [20013, 22269, 31227, 21160]),
     (''46013'', string_of_runes [20013, 22269, 31227, 21160]),
     (''46001'', string_of_runes [20013, 22269, 32852, 36890]),
     (''46006'', string_of_runes [20013, 22269, 32852, 36890]),
     (''46009'', string_of_runes [20013, 22269, 32852, 36890]),
     (''46003'', string_of_runes [20013, 22269, 30005, 20449]),
     (''46005'', string_of_runes [20013, 22269, 30005, 20449]),
     (''46011'', string_of_runes [20013, 22269, 30005, 20449]),
     (''46015'', string_of_runes [20013, 22269, 24191, 30005]),
     (''45400'', ''CSL''),
     (''45402'', ''CSL''),
     (''45410'', ''CSL''),
     (''45418'', ''CSL''),
     (''45403'', string_of_runes [30005, 35759, 30408, 31185]),
     (''45416'', string_of_runes [30005, 35759, 30408, 31185]),
     (''45419'', string_of_runes [30005, 35759, 30408, 31185]),
     (''45404'', ''3 HK''),
     (''45406'', string_of_runes [25968, 30721, 36890]),
     (''45415'', string_of_runes [25968, 30721, 36890]),
     (''45407'', string_of_runes [20013, 22269, 31227, 21160, 39321, 28207]),
     (''45412'', string_of_runes [20013, 22269, 32852, 36890, 39321, 28207]),
     (''46601'', string_of_runes [36828, 20256, 30005, 20449]),
     (''46602'', string_of_runes [36828, 20256, 30005, 20449]),
     (''46605'', string_of_runes [20122, 22826, 30005, 20449]),
     (''46689'', string_of_runes [21488, 28286, 20043, 26143]),
     (''46692'', string_of_runes [20013, 21326, 30005, 20449]),
     (''46693'', string_of_runes [21488, 28286, 22823, 21733, 22823]),
     (''46697'', string_of_runes [21488, 28286, 22823, 21733, 22823]),
     (''46699'', string_of_runes [21488, 28286, 22823, 21733, 22823])]"

definition normalizeOperatorCode :: "string \<Rightarrow> string" where
  "normalizeOperatorCode code = TrimQuotes (TrimSpace code)"

definition LookupServingOperatorNameFromPLMN :: "string \<Rightarrow> string option" where
  "LookupServingOperatorNameFromPLMN plmn =
     (let p = normalizeOperatorCode plmn
      in if p = [] then None else map_of servingOperatorNameByPLMN p)"

definition ResolveServingOperatorNameFromPLMN :: "string \<Rightarrow> string" where
  "ResolveServingOperatorNameFromPLMN plmn =
     (let p = normalizeOperatorCode plmn
      in if p = [] then []
         else case LookupServingOperatorNameFromPLMN p of None \<Rightarrow> p | Some name \<Rightarrow> name)"

subsection \<open>Registration, signal and radio\<close>

definition parseCOPSOperator :: "string \<Rightarrow> string" where
  "parseCOPSOperator resp =
     (case findLineWithPrefix resp ''+COPS:'' of
        None \<Rightarrow> []
      | Some line \<Rightarrow>
          (case extractQuotedFields line of
             [] \<Rightarrow> []
           | f # _ \<Rightarrow> ResolveServingOperatorNameFromPLMN f))"

definition act_name :: "int \<Rightarrow> string option" where
  "act_name act =
     (if act = 0 then Some ''GSM''
      else if act = 2 then Some ''WCDMA''
      else if act = 7 then Some ''LTE''
      else if act = 10 then Some ''NR''
      else None)"

definition parseCOPSAct :: "string \<Rightarrow> string option" where
  "parseCOPSAct resp =
     (let line = (case findLineWithPrefix resp ''+COPS:'' of None \<Rightarrow> TrimSpace resp | Some l \<Rightarrow> l)
      in case after_last_comma line of
           None \<Rightarrow> None
         | Some rest \<Rightarrow>
             (case scan_int (TrimSpace rest) of None \<Rightarrow> None | Some act \<Rightarrow> act_name act))"

definition parseCREG :: "string \<Rightarrow> (int \<times> string \<times> string) option" where
  "parseCREG resp =
     (case findLineWithPrefix resp ''+CREG:'' of
        None \<Rightarrow> None
      | Some line \<Rightarrow>
          let parts = comma_parts line
          in if length parts < 2 then None
             else case scan_int (TrimSpace (parts ! 1)) of
                    None \<Rightarrow> None
                  | Some v \<Rightarrow>
                      Some (v, if 4 \<le> length parts
                               then (TrimQuotes (TrimSpace (parts ! 2)), TrimQuotes (TrimSpace (parts ! 3)))
                               else ([], [])))"

text \<open>RSSI and power in dBm; when the \<^verbatim>\<open>ok\<close> is false they are 0 and -999.\<close>

definition parseCSQ :: "string \<Rightarrow> (int \<times> int) option" where
  "parseCSQ resp =
     (case findLineWithPrefix resp ''+CSQ:'' of
        None \<Rightarrow> None
      | Some line \<Rightarrow>
          (case scan_int (TrimSpace (hd (comma_parts (TrimSpace (TrimPrefix line ''+CSQ:''))))) of
             None \<Rightarrow> None
           | Some rssi \<Rightarrow> Some (rssi, if 0 \<le> rssi \<and> rssi \<le> 31 then - 113 + rssi * 2 else - 999)))"

record ServingCellLTEInfo =
  RSRP :: int
  RSRQ :: int
  SINR :: int
  cell_duplex :: string
  cell_band :: string
  cell_channel :: u32

fun scan_all :: "string list \<Rightarrow> int list option" where
  "scan_all [] = Some []"
| "scan_all (p # ps) =
     (case scan_int (TrimSpace p) of
        None \<Rightarrow> None
      | Some v \<Rightarrow> map_option (Cons v) (scan_all ps))"

definition channel_of :: "string \<Rightarrow> u32" where
  "channel_of s = (case ParseUint (TrimSpace s) 10 32 of None \<Rightarrow> 0 | Some n \<Rightarrow> of_nat n)"

definition parseServingCellLTEInfo :: "string \<Rightarrow> ServingCellLTEInfo option" where
  "parseServingCellLTEInfo resp =
     (case findLineWithPrefix resp ''+QENG:'' of
        None \<Rightarrow> None
      | Some line \<Rightarrow>
          if \<not> contains_sub line ''LTE'' then None
          else let parts = comma_parts line
               in if length parts < 10 then None
                  else case scan_all (drop (length parts - 5) parts) of
                    None \<Rightarrow> None
                  | Some v \<Rightarrow>
                      if v ! 0 < - 140 \<or> v ! 0 > - 40 then None
                      else if v ! 1 < - 30 \<or> v ! 1 > 0 then None
                      else Some \<lparr> RSRP = v ! 0, RSRQ = v ! 1, SINR = v ! 3,
                                  cell_duplex = TrimQuotes (TrimSpace (parts ! 3)),
                                  cell_band = (let band = TrimSpace (parts ! 9)
                                               in if band \<noteq> [] then ''LTE BAND '' @ TrimQuotes band else []),
                                  cell_channel = channel_of (parts ! 8) \<rparr>)"

definition parseServingCellLTE :: "string \<Rightarrow> (int \<times> int) option" where
  "parseServingCellLTE resp = map_option (\<lambda>i. (RSRP i, RSRQ i)) (parseServingCellLTEInfo resp)"

definition parseAPN :: "string \<Rightarrow> string" where
  "parseAPN resp =
     (case find (\<lambda>fs. 2 \<le> length fs)
             (map extractQuotedFields (filter (prefix ''+CGDCONT:'') (splitLines resp))) of
        None \<Rightarrow> [] | Some fs \<Rightarrow> fs ! 1)"

definition parseQIMS :: "string \<Rightarrow> int option" where
  "parseQIMS resp =
     (case findLineWithPrefix resp ''+QIMS:'' of
        None \<Rightarrow> None
      | Some line \<Rightarrow>
          (case after_char (CHR 0x3A) line of None \<Rightarrow> None | Some v \<Rightarrow> scan_int (TrimSpace v)))"

definition parseQNWInfoRadio :: "string \<Rightarrow> string \<times> string \<times> string \<times> u32" where
  "parseQNWInfoRadio resp =
     (case findLineWithPrefix resp ''+QNWINFO:'' of
        None \<Rightarrow> ([], [], [], 0)
      | Some line \<Rightarrow>
          let fields = extractQuotedFields line
          in if fields = [] then ([], [], [], 0)
             else let m = TrimSpace (hd fields);
                      (mode, duplex) = (if m = ''FDD LTE'' then (''LTE'', ''FDD'')
                                        else if m = ''TDD LTE'' then (''LTE'', ''TDD'')
                                        else (m, []));
                      band = (if 3 \<le> length fields then TrimSpace (fields ! 2) else []);
                      channel = (case after_last_comma line of
                                   None \<Rightarrow> 0
                                 | Some rest \<Rightarrow> if rest = [] then 0 else channel_of rest)
                  in (mode, duplex, band, channel))"

definition parseQNWInfoModeAndDuplex :: "string \<Rightarrow> string \<times> string" where
  "parseQNWInfoModeAndDuplex resp = (case parseQNWInfoRadio resp of (mode, duplex, _) \<Rightarrow> (mode, duplex))"

definition parseQNWINFO :: "string \<Rightarrow> string" where
  "parseQNWINFO resp =
     (case parseQNWInfoModeAndDuplex resp of
        (mode, duplex) \<Rightarrow>
          if mode = [] then [] else if duplex \<noteq> [] then duplex @ '' '' @ mode else mode)"

subsection \<open>The line after a header\<close>

definition body_line :: "string \<Rightarrow> bool" where
  "body_line l \<longleftrightarrow> TrimSpace l \<noteq> [] \<and> TrimSpace l \<noteq> ''OK''"

text \<open>The header line and the line that follows it, of the first header.\<close>

fun first_after :: "string \<Rightarrow> string list \<Rightarrow> (string \<times> string) option" where
  "first_after p [] = None"
| "first_after p [l] = None"
| "first_after p (l # n # ls) =
     (if prefix p l then (if body_line n then Some (l, TrimSpace n) else None)
      else first_after p (n # ls))"

text \<open>Every header takes the next line with it, whatever that is.\<close>

fun all_after :: "string \<Rightarrow> string list \<Rightarrow> (string \<times> string) list" where
  "all_after p [] = []"
| "all_after p [l] = []"
| "all_after p (l # n # ls) =
     (if prefix p l then (if body_line n then [(l, TrimSpace n)] else []) @ all_after p ls
      else all_after p (n # ls))"

definition extractNextLineAfterPrefix :: "string \<Rightarrow> string \<Rightarrow> string option" where
  "extractNextLineAfterPrefix resp p = map_option snd (first_after p (splitLines resp))"

definition extractAllNextLinesAfterPrefix :: "string \<Rightarrow> string \<Rightarrow> string list" where
  "extractAllNextLinesAfterPrefix resp p = map snd (all_after p (splitLines resp))"

definition extractSMSPDUAfterPrefix ::
  "(byte \<Rightarrow> 'a option) \<Rightarrow> 'a \<Rightarrow> string \<Rightarrow> string \<Rightarrow> string option" where
  "extractSMSPDUAfterPrefix alph a7 resp p =
     map_option (\<lambda>(h, n). fst (TrimFullPDUHexByATHeader alph a7 n h)) (first_after p (splitLines resp))"

definition extractAllSMSPDUsAfterPrefix ::
  "(byte \<Rightarrow> 'a option) \<Rightarrow> 'a \<Rightarrow> string \<Rightarrow> string \<Rightarrow> string list" where
  "extractAllSMSPDUsAfterPrefix alph a7 resp p =
     map (\<lambda>(h, n). fst (TrimFullPDUHexByATHeader alph a7 n h)) (all_after p (splitLines resp))"

subsection \<open>Numbers of subscribers and service centres\<close>

definition parseCSCA :: "string \<Rightarrow> string" where
  "parseCSCA resp =
     (case findLineWithPrefix resp ''+CSCA:'' of
        None \<Rightarrow> []
      | Some line \<Rightarrow> (case extractFirstQuoted line of None \<Rightarrow> [] | Some v \<Rightarrow> TrimSpace v))"

definition phone_noise :: "char \<Rightarrow> bool" where
  "phone_noise c \<longleftrightarrow> c = CHR 0x20 \<or> c = CHR 0x2D \<or> c = CHR 0x28 \<or> c = CHR 0x29"

definition canonicalPhoneCandidate :: "string \<Rightarrow> string" where
  "canonicalPhoneCandidate v =
     (let s = TrimSpace v
      in if s = [] then []
         else if ToUpper s = ''FFFFFFFF'' \<or> ToUpper s = ''00000000000'' then []
         else if EqualFold s ''Own Number'' then []
         else let s1 = (if prefix ''tel:'' (ToLower v) then TrimSpace (drop 4 v)
                        else TrimSpace (TrimPrefix (ToLower s) ''tel:''));
                  s2 = filter (\<lambda>c. \<not> phone_noise c) s1;
                  digits = (if prefix ''+'' s2 then drop 1 s2 else s2)
              in if s2 = [] then []
                 else if length digits < 6 then []
                 else if list_all is_digit digits then s2 else [])"

definition parseCNUM :: "string \<Rightarrow> string" where
  "parseCNUM resp =
     (case find (\<lambda>c. c \<noteq> [])
             (map canonicalPhoneCandidate
               (concat (map extractQuotedFields (filter (prefix ''+CNUM:'') (splitLines resp))))) of
        None \<Rightarrow> [] | Some c \<Rightarrow> c)"

subsection \<open>Modes, channels and card answers\<close>

definition parseUSBNet :: "string \<Rightarrow> int option" where
  "parseUSBNet resp =
     (case findLineWithPrefix resp ''+QCFG:'' of
        None \<Rightarrow> None
      | Some line \<Rightarrow>
          if \<not> contains_sub line (CHR 0x22 # ''usbnet'' @ [CHR 0x22]) then None
          else let parts = comma_parts line
               in if length parts < 2 then None else scan_int (TrimSpace (parts ! 1)))"

definition parseCCHO :: "string \<Rightarrow> int option" where
  "parseCCHO resp =
     (case findLineWithPrefix resp ''+CCHO:'' of
        None \<Rightarrow> None
      | Some line \<Rightarrow>
          let parts = split_on [CHR 0x3A] line
          in if length parts < 2 then None else scan_int (TrimSpace (parts ! 1)))"

definition quoted_answer :: "string \<Rightarrow> string \<Rightarrow> string option" where
  "quoted_answer p resp =
     (case findLineWithPrefix resp p of None \<Rightarrow> None | Some line \<Rightarrow> extractFirstQuoted line)"

definition parseCGLA :: "string \<Rightarrow> string option" where
  "parseCGLA = quoted_answer ''+CGLA:''"

definition parseCSIM :: "string \<Rightarrow> string option" where
  "parseCSIM = quoted_answer ''+CSIM:''"

text \<open>\<^verbatim>\<open>strings.SplitN(s, ",", 3)\<close>.  A status word that is no number stays 0.\<close>

definition split_three :: "string \<Rightarrow> string list" where
  "split_three s =
     (case cut_at [CHR 0x2C] s of
        None \<Rightarrow> [s]
      | Some (a, r) \<Rightarrow>
          (case cut_at [CHR 0x2C] r of
             None \<Rightarrow> [a, r]
           | Some (b, c) \<Rightarrow> [a, b, c]))"

definition scan_or_zero :: "string \<Rightarrow> int" where
  "scan_or_zero s = (case scan_int (TrimSpace s) of None \<Rightarrow> 0 | Some v \<Rightarrow> v)"

definition ParseCRSM :: "string \<Rightarrow> (int \<times> int \<times> string) option" where
  "ParseCRSM resp =
     (case findLineWithPrefix resp ''+CRSM:'' of
        None \<Rightarrow> None
      | Some line \<Rightarrow>
          let parts = split_three (TrimSpace (TrimPrefix line ''+CRSM:''))
          in if length parts < 2 then None
             else Some (scan_or_zero (parts ! 0), scan_or_zero (parts ! 1),
                        if length parts = 3 then TrimQuotes (TrimSpace (parts ! 2)) else []))"

definition bcd_digit :: "byte \<Rightarrow> string" where
  "bcd_digit n = (if n \<le> 9 then [byte_char (48 + unat n)] else [])"

definition DecodeSwappedBCD :: "byte list \<Rightarrow> string" where
  "DecodeSwappedBCD data =
     concat (map (\<lambda>b. bcd_digit (b AND 0x0F) @ bcd_digit (drop_bit 4 b AND 0x0F)) data)"

subsection \<open>Lists of operators and the selected one\<close>

record OperatorScanEntry =
  oe_status :: int
  oe_long :: string
  oe_short :: string
  oe_plmn :: string
  oe_act :: int

definition atoi_or_zero :: "string \<Rightarrow> int" where
  "atoi_or_zero s = (case Atoi s of None \<Rightarrow> 0 | Some v \<Rightarrow> v)"

text \<open>The value of \<^verbatim>\<open>strconv.Atoi\<close> whose error is ignored: 0 when the text is no number, the nearest
  integer of 64 bits when the number is too large.\<close>

fun clamped_digits :: "string \<Rightarrow> nat \<Rightarrow> nat option" where
  "clamped_digits [] n = Some n"
| "clamped_digits (c # s) n =
     (case digit_value c of
        None \<Rightarrow> None
      | Some d \<Rightarrow>
          if 10 \<le> d then None
          else if 2 ^ 64 \<le> n * 10 + d then Some (2 ^ 64 - 1)
          else clamped_digits s (n * 10 + d))"

definition atoi_value :: "string \<Rightarrow> int" where
  "atoi_value s =
     (let neg = (s \<noteq> [] \<and> hd s = CHR 0x2D);
          t = (if s \<noteq> [] \<and> (hd s = CHR 0x2D \<or> hd s = CHR 0x2B) then tl s else s)
      in if t = [] then 0
         else case clamped_digits t 0 of
           None \<Rightarrow> 0
         | Some n \<Rightarrow> if neg then - int (min n (2 ^ 63)) else int (min n (2 ^ 63 - 1)))"

definition scan_entry :: "string \<Rightarrow> OperatorScanEntry option" where
  "scan_entry part =
     (let fields = comma_parts (TrimSuffix (TrimPrefix part ''('') '')'')
      in if length fields < 4 then None
         else case Atoi (fields ! 0) of
           None \<Rightarrow> None
         | Some st \<Rightarrow>
             let plmn = TrimQuotes (fields ! 3)
             in if plmn = [] then None
                else Some \<lparr> oe_status = st, oe_long = TrimQuotes (fields ! 1),
                            oe_short = TrimQuotes (fields ! 2), oe_plmn = plmn,
                            oe_act = (if 5 \<le> length fields then atoi_value (fields ! 4) else 0) \<rparr>)"

definition parseCOPSScan :: "string \<Rightarrow> OperatorScanEntry list" where
  "parseCOPSScan resp =
     (case findLineWithPrefix resp ''+COPS: '' of
        None \<Rightarrow> []
      | Some line \<Rightarrow> List.map_filter scan_entry (split_on ''),('' (drop 7 line)))"

record OperatorSelectionState =
  os_mode :: int
  os_format :: int
  os_plmn :: string
  os_act :: int
  os_has_act :: bool

definition parseCOPSSelection :: "string \<Rightarrow> OperatorSelectionState option" where
  "parseCOPSSelection resp =
     (case findLineWithPrefix resp ''+COPS: '' of
        None \<Rightarrow> None
      | Some line \<Rightarrow>
          let fields = comma_parts (drop 7 line)
          in case Atoi (fields ! 0) of
               None \<Rightarrow> None
             | Some mode \<Rightarrow>
                 let act = (if 4 \<le> length fields then Atoi (fields ! 3) else None)
                 in Some \<lparr> os_mode = mode,
                           os_format = (if 3 \<le> length fields then atoi_or_zero (fields ! 1) else 0),
                           os_plmn = (if 3 \<le> length fields then TrimQuotes (fields ! 2) else []),
                           os_act = (case act of None \<Rightarrow> 0 | Some a \<Rightarrow> a),
                           os_has_act = (act \<noteq> None) \<rparr>)"

text \<open>The commands that select an operator.\<close>

definition manual_selection :: "string \<Rightarrow> int \<Rightarrow> bool \<Rightarrow> string" where
  "manual_selection plmn act hasAct =
     ''AT+COPS=1,2,'' @ [CHR 0x22] @ plmn @ [CHR 0x22] @ (if hasAct then '','' @ show_int act else [])"

subsection \<open>Lines of a response\<close>

text \<open>Text that begins and ends with a printable character has nothing to trim.\<close>

definition tight :: "string \<Rightarrow> bool" where
  "tight s \<longleftrightarrow> s = [] \<or> printable (hd s) \<and> printable (last s)"

lemma TrimSpace_tight: "tight s \<Longrightarrow> TrimSpace s = s"
proof -
  assume t: "tight s"
  have l: "trim_prefixes go_spaces s = s"
  proof (rule trim_prefixes_none, intro ballI)
    fix p assume p: "p \<in> set go_spaces"
    show "p = [] \<or> \<not> prefix p s"
    proof (cases p)
      case (Cons c cs)
      then show ?thesis using go_spaces_ends [OF p] t by (cases s) (auto simp: tight_def)
    qed simp
  qed
  have r: "trim_prefixes (map rev go_spaces) (rev s) = rev s"
  proof (rule trim_prefixes_none, intro ballI)
    fix p assume "p \<in> set (map rev go_spaces)"
    then obtain q where q: "p = rev q" "q \<in> set go_spaces" by auto
    show "p = [] \<or> \<not> prefix p (rev s)"
    proof (cases q rule: rev_cases)
      case (snoc cs c)
      then show ?thesis using go_spaces_ends [OF q(2)] t q(1)
        by (cases s rule: rev_cases) (auto simp: tight_def)
    qed (simp add: q)
  qed
  show ?thesis by (simp add: TrimSpace_def l r)
qed

lemma tight_simps [simp]:
  "tight []"
  "tight [c] \<longleftrightarrow> printable c"
  "tight (c # s) \<longleftrightarrow> printable c \<and> (s \<noteq> [] \<longrightarrow> printable (last s))"
  by (auto simp: tight_def)

lemma is_digit_printable: "is_digit c \<Longrightarrow> printable c"
  by (simp add: is_digit_def printable_def)

lemma tight_digits: "list_all is_digit s \<Longrightarrow> tight s"
  by (auto simp: tight_def list_all_iff is_digit_printable)

definition one_line :: "string \<Rightarrow> bool" where
  "one_line s \<longleftrightarrow> byte_char 10 \<notin> set s \<and> byte_char 13 \<notin> set s"

lemma one_line_append [simp]: "one_line (s @ t) \<longleftrightarrow> one_line s \<and> one_line t"
  by (auto simp: one_line_def)

lemma one_line_Cons [simp]: "one_line (c # t) \<longleftrightarrow> c \<noteq> byte_char 10 \<and> c \<noteq> byte_char 13 \<and> one_line t"
  by (auto simp: one_line_def)

lemma one_line_Nil [simp]: "one_line []"
  by (simp add: one_line_def)

text \<open>A response of one information line, as the modem frames it.\<close>

definition at_answer :: "string \<Rightarrow> string" where
  "at_answer line = CRLF @ line @ CRLF @ CRLF @ ''OK'' @ CRLF"

lemma splitLines_answer:
  assumes "one_line line"
  shows "splitLines (at_answer line) = [[], TrimSpace line, [], ''OK'', []]"
proof -
  let ?nl = "byte_char 10"
  have cr: "byte_char 13 \<noteq> ?nl" by (simp add: byte_char_def)
  have ok: "?nl \<notin> set ''OK''" "byte_char 13 \<notin> set ''OK''" by (simp_all add: byte_char_def char_of_def)
  have f: "filter (\<lambda>c. c \<noteq> byte_char 13) line = line"
    using assms by (auto simp: one_line_def filter_id_conv)
  have "filter (\<lambda>c. c \<noteq> byte_char 13) (at_answer line) = [] @ ?nl # line @ ?nl # [] @ ?nl # ''OK'' @ ?nl # []"
    using ok cr by (auto simp: at_answer_def CRLF_def f)
  then have "splitLines (at_answer line) = map TrimSpace [[], line, [], ''OK'', []]"
    using assms ok unfolding splitLines_def
    by (simp only: split_on_char split_on_no_char one_line_def list.set empty_iff not_False_eq_True)
  moreover have "TrimSpace [] = []" by (rule TrimSpace_tight) simp
  moreover have "TrimSpace ''OK'' = ''OK''" by (rule TrimSpace_tight) (simp add: printable_def)
  ultimately show ?thesis by simp
qed

lemma find_answer:
  assumes "one_line line" and "tight line" and "prefix p line" and "p \<noteq> []"
  shows "findLineWithPrefix (at_answer line) p = Some line"
  using assms by (simp add: findLineWithPrefix_def splitLines_answer TrimSpace_tight)

text \<open>A line without the frame, which is what the command loop returns.\<close>

lemma find_line:
  assumes "one_line line" and "tight line" and "prefix p line"
  shows "findLineWithPrefix line p = Some line"
proof -
  have "filter (\<lambda>c. c \<noteq> byte_char 13) line = line" using assms(1) by (auto simp: one_line_def filter_id_conv)
  then have "splitLines line = [line]"
    using assms(1,2) by (simp add: splitLines_def split_on_no_char one_line_def TrimSpace_tight)
  then show ?thesis using assms(3) by (simp add: findLineWithPrefix_def)
qed

subsection \<open>Fields\<close>

definition quoted :: "string \<Rightarrow> string" where
  "quoted s = CHR 0x22 # s @ [CHR 0x22]"

lemma dropWhile_hd: "s \<noteq> [] \<Longrightarrow> \<not> P (hd s) \<Longrightarrow> dropWhile P (s @ t) = s @ t"
  by (cases s) auto

lemma TrimQuotes_quoted [simp]:
  assumes "CHR 0x22 \<notin> set s"
  shows "TrimQuotes (quoted s) = s"
proof (cases "s = []")
  case False
  have "hd s \<noteq> CHR 0x22" and "hd (rev s) \<noteq> CHR 0x22"
    using assms False by (metis hd_in_set, metis hd_in_set rev_is_Nil_conv set_rev)
  then have "dropWhile (\<lambda>c. c = CHR 0x22) (s @ [CHR 0x22]) = s @ [CHR 0x22]"
    and "dropWhile (\<lambda>c. c = CHR 0x22) (rev s @ []) = rev s @ []"
    using False by (auto intro!: dropWhile_hd simp del: append_Nil2)
  then show ?thesis by (simp add: TrimQuotes_def quoted_def)
qed (simp add: TrimQuotes_def quoted_def)

lemma extractFirstQuoted_quoted:
  "CHR 0x22 \<notin> set a \<Longrightarrow> CHR 0x22 \<notin> set s \<Longrightarrow> extractFirstQuoted (a @ quoted s @ r) = Some s"
  by (simp add: extractFirstQuoted_def quoted_def cut_at_char)

lemma extractQuotedFields_quoted:
  "CHR 0x22 \<notin> set a \<Longrightarrow> CHR 0x22 \<notin> set s \<Longrightarrow>
   extractQuotedFields (a @ quoted s @ r) = s # extractQuotedFields r"
  by (subst extractQuotedFields.simps) (simp add: quoted_def cut_at_char)

lemma extractQuotedFields_none: "CHR 0x22 \<notin> set a \<Longrightarrow> extractQuotedFields a = []"
  by (subst extractQuotedFields.simps) (simp add: cut_at_def index_of_no_char)

lemma decimal_digits: "list_all is_digit (decimal n)"
  using decimal_chars by (auto simp: list_all_iff is_digit_def)

lemma scan_int_show:
  assumes "- (2 ^ 63) \<le> i" and "i < 2 ^ 63" and "r = [] \<or> \<not> is_digit (hd r)"
  shows "scan_int (show_int i @ r) = Some i"
proof -
  have tw: "takeWhile is_digit (decimal n @ r) = decimal n" for n
    using decimal_digits [of n] assms(3) by (cases r) (auto simp: list_all_iff takeWhile_append)
  show ?thesis
  proof (cases "i < 0")
    case True
    then show ?thesis using Atoi_show_int [OF assms(1,2)] by (simp add: scan_int_def show_int_def tw)
  next
    case False
    obtain c cs where d: "decimal (nat i) = c # cs" by (cases "decimal (nat i)") auto
    have "is_digit c" using decimal_digits [of "nat i"] d by simp
    then have "c \<noteq> CHR 0x2D" "c \<noteq> CHR 0x2B" by (auto simp: is_digit_def)
    then show ?thesis
      using Atoi_show_int [OF assms(1,2)] tw [of "nat i"] d False by (simp add: scan_int_def show_int_def)
  qed
qed

lemma scan_int_show_all: "- (2 ^ 63) \<le> i \<Longrightarrow> i < 2 ^ 63 \<Longrightarrow> scan_int (show_int i) = Some i"
  using scan_int_show [of i "[]"] by simp

lemma show_int_printable: "c \<in> set (show_int i) \<Longrightarrow> printable c"
  using show_int_chars by (fastforce simp: printable_def)

lemma show_int_nonempty [simp]: "show_int i \<noteq> []"
  by (simp add: show_int_def)

lemma tight_show_int: "tight (show_int i)"
  using show_int_printable [of "hd (show_int i)" i] show_int_printable [of "last (show_int i)" i]
  by (simp add: tight_def)

lemma show_int_plain:
  "c \<in> {CHR 0x22, CHR 0x2C, CHR 0x28, CHR 0x29, CHR 0x3A, byte_char 10, byte_char 13} \<Longrightarrow> c \<notin> set (show_int i)"
  using show_int_chars [of c i] by (auto simp: byte_char_def)

lemma one_line_show_int [simp]: "one_line (show_int i)"
  by (simp add: one_line_def show_int_plain)

subsection \<open>The operators a scan finds\<close>

text \<open>An operator, and a scan, as TS 27.007 prints them: the operators, and then the lists of the
  modes and the formats that the modem supports.\<close>

definition scan_fields :: "OperatorScanEntry \<Rightarrow> string list" where
  "scan_fields e =
     [show_int (oe_status e), quoted (oe_long e), quoted (oe_short e), quoted (oe_plmn e), show_int (oe_act e)]"

definition print_entry :: "OperatorScanEntry \<Rightarrow> string" where
  "print_entry e = join [CHR 0x2C] (scan_fields e)"

definition scan_line :: "OperatorScanEntry list \<Rightarrow> string \<Rightarrow> string" where
  "scan_line es supported = ''+COPS: ('' @ join ''),('' (map print_entry es) @ '')'' @ supported"

definition scan_answer :: "OperatorScanEntry list \<Rightarrow> string \<Rightarrow> string" where
  "scan_answer es supported = at_answer (scan_line es supported)"

definition int_fits :: "int \<Rightarrow> bool" where
  "int_fits i \<longleftrightarrow> - (2 ^ 63) \<le> i \<and> i < 2 ^ 63"

definition name_fits :: "string \<Rightarrow> bool" where
  "name_fits s \<longleftrightarrow> one_line s \<and> set s \<inter> {CHR 0x22, CHR 0x2C, CHR 0x28, CHR 0x29} = {}"

definition entry_fits :: "OperatorScanEntry \<Rightarrow> bool" where
  "entry_fits e \<longleftrightarrow>
     int_fits (oe_status e) \<and> int_fits (oe_act e) \<and> name_fits (oe_long e) \<and>
     name_fits (oe_short e) \<and> name_fits (oe_plmn e) \<and> oe_plmn e \<noteq> []"

lemma parse_digits_mono: "parse_digits 10 s n = Some m \<Longrightarrow> n \<le> m"
  by (induction "10::nat" s n rule: parse_digits.induct) (force split: option.splits if_splits)+

lemma clamped_digits_append:
  "parse_digits 10 s n = Some m \<Longrightarrow> m < 2 ^ 64 \<Longrightarrow> clamped_digits (s @ t) n = clamped_digits t m"
proof (induction "10::nat" s n rule: parse_digits.induct)
  case (2 c s n)
  obtain d where d: "digit_value c = Some d" "d < 10" "parse_digits 10 s (n * 10 + d) = Some m"
    using 2(2) by (auto split: option.splits if_splits)
  have "n * 10 + d < 2 ^ 64" using parse_digits_mono [OF d(3)] 2(3) by linarith
  then show ?case using d 2 by simp
qed simp

lemma clamped_digits_parse: "parse_digits 10 s n = Some m \<Longrightarrow> m < 2 ^ 64 \<Longrightarrow> clamped_digits s n = Some m"
  using clamped_digits_append [of s n m "[]"] by simp

text \<open>An integer followed by something that is no digit is no number for \<^verbatim>\<open>Atoi\<close>.\<close>

lemma atoi_value_junk:
  assumes "int_fits i" and "digit_value c = None"
  shows "atoi_value (show_int i @ c # t) = 0"
proof -
  have "n < 2 ^ 64 \<Longrightarrow> clamped_digits (decimal n @ c # t) 0 = None" for n
    using clamped_digits_append [OF parse_decimal, of n "c # t"] assms(2) by simp
  moreover have "nat i < 2 ^ 64" "nat (- i) < 2 ^ 64" using assms(1) by (auto simp: int_fits_def)
  ultimately show ?thesis
    using hd_decimal [of "nat i"] by (simp add: atoi_value_def show_int_def)
qed

lemma atoi_value_Atoi: "Atoi s = Some i \<Longrightarrow> atoi_value s = i"
  by (auto simp: Atoi_def atoi_value_def ParseUint_def Let_def clamped_digits_parse
      split: if_splits option.splits)

definition framing_chars :: "char set" where
  "framing_chars = {CHR 0x2C, CHR 0x28, CHR 0x29, byte_char 10, byte_char 13}"

lemma eol_chars: "byte_char 10 = CHR 0x0A" "byte_char 13 = CHR 0x0D"
  by code_simp+

lemma quoted_chars: "name_fits s \<Longrightarrow> c \<in> framing_chars \<Longrightarrow> c \<notin> set (quoted s)"
  by (auto simp: quoted_def name_fits_def framing_chars_def one_line_def eol_chars)

lemma show_int_chars_free: "c \<in> framing_chars \<Longrightarrow> c \<notin> set (show_int i)"
  by (rule show_int_plain) (auto simp: framing_chars_def)

lemma fields_free:
  assumes "entry_fits e" and "f \<in> set (scan_fields e)" and "c \<in> framing_chars"
  shows "c \<notin> set f"
proof -
  have "f = show_int (oe_status e) \<or> f = show_int (oe_act e) \<or> (\<exists>s. f = quoted s \<and> name_fits s)"
    using assms(1,2) unfolding scan_fields_def entry_fits_def by auto
  then show ?thesis using assms(3) quoted_chars show_int_chars_free by blast
qed

lemma set_join: "c \<in> set (join sep xs) \<Longrightarrow> c \<in> set sep \<or> (\<exists>x \<in> set xs. c \<in> set x)"
  by (induction sep xs rule: join.induct) auto

lemma entry_chars:
  assumes "entry_fits e" and "c \<in> framing_chars" and "c \<noteq> CHR 0x2C"
  shows "c \<notin> set (print_entry e)"
  using set_join [of c "[CHR 0x2C]" "scan_fields e"] fields_free [OF assms(1) _ assms(2)] assms(3)
  by (auto simp: print_entry_def)

lemma entry_no_parentheses:
  assumes "entry_fits e"
  shows "CHR 0x28 \<notin> set (print_entry e)" and "CHR 0x29 \<notin> set (print_entry e)"
  by (rule entry_chars [OF assms]; simp add: framing_chars_def)+

lemma fields_no_comma: "entry_fits e \<Longrightarrow> f \<in> set (scan_fields e) \<Longrightarrow> CHR 0x2C \<notin> set f"
  by (rule fields_free) (auto simp: framing_chars_def)

lemma entry_parts: "entry_fits e \<Longrightarrow> comma_parts (print_entry e) = scan_fields e"
  unfolding comma_parts_def print_entry_def
  by (rule split_join) (simp_all add: fields_no_comma scan_fields_def)

lemma TrimPrefix_none: "s = [] \<or> hd s \<noteq> c \<Longrightarrow> TrimPrefix s [c] = s"
  by (cases s) (auto simp: TrimPrefix_def)

lemma TrimSuffix_none: "c \<notin> set s \<Longrightarrow> TrimSuffix s [c] = s"
  by (auto simp: TrimSuffix_def suffix_def)

lemma TrimSuffix_last: "s \<noteq> [] \<Longrightarrow> last s \<noteq> c \<Longrightarrow> TrimSuffix s [c] = s"
  by (auto simp: TrimSuffix_def suffix_def)

lemma TrimSuffix_one [simp]: "TrimSuffix (s @ [c]) [c] = s"
  by (simp add: TrimSuffix_def)

lemma quoted_none: "name_fits s \<Longrightarrow> CHR 0x22 \<notin> set s"
  by (auto simp: name_fits_def)

lemma scan_entry_print:
  assumes e: "entry_fits e" and p: "p \<in> {[], ''(''}" and q: "q \<in> {[], '')''}"
  shows "scan_entry (p @ print_entry e @ q) = Some e"
proof -
  note c = entry_no_parentheses [OF e]
  have ne: "print_entry e \<noteq> []" by (simp add: print_entry_def scan_fields_def)
  have "hd (print_entry e @ q) \<noteq> CHR 0x28" using c ne by (metis hd_append2 hd_in_set)
  then have "TrimPrefix (p @ print_entry e @ q) ''('' = print_entry e @ q"
    using p by (auto simp: TrimPrefix_none) (simp add: TrimPrefix_def)
  moreover have "TrimSuffix (print_entry e @ q) '')'' = print_entry e"
    using q c by (auto simp: TrimSuffix_none)
  ultimately show ?thesis
    using e by (simp add: scan_entry_def Let_def entry_parts scan_fields_def entry_fits_def int_fits_def
        Atoi_show_int quoted_none atoi_value_Atoi)
qed

lemma index_of_sep: "c \<notin> set xs \<Longrightarrow> index_of (c # sep) (xs @ (c # sep) @ ys) = Some (length xs)"
  by (induction xs) auto

lemma index_of_skip:
  "c \<notin> set xs \<Longrightarrow> index_of (c # sep) (xs @ ys) = map_option ((+) (length xs)) (index_of (c # sep) ys)"
  by (induction xs) (cases "index_of (c # sep) ys"; auto)+

lemma split_on_at:
  assumes "index_of sep (xs @ sep @ ys) = Some (length xs)" and "sep \<noteq> []"
  shows "split_on sep (xs @ sep @ ys) = xs # split_on sep ys"
  using assms(2) unfolding split_on.simps [of sep "xs @ sep @ ys"] assms(1) by simp

lemma split_on_sep: "c \<notin> set xs \<Longrightarrow> split_on (c # sep) (xs @ (c # sep) @ ys) = xs # split_on (c # sep) ys"
  by (rule split_on_at [OF index_of_sep]) simp_all

lemma split_on_join:
  "xs \<noteq> [] \<Longrightarrow> \<forall>x \<in> set (butlast xs). c \<notin> set x \<Longrightarrow>
   split_on (c # sep) (join (c # sep) xs @ t) = butlast xs @ split_on (c # sep) (last xs @ t)"
proof (induction "c # sep" xs rule: join.induct)
  case (3 x y xs)
  then show ?case using split_on_sep [of c x sep "join (c # sep) (y # xs) @ t"] by simp
qed simp_all

lemma split_on_short: "c \<notin> set s \<Longrightarrow> sep \<noteq> [] \<Longrightarrow> split_on (c # sep) (s @ [c]) = [s @ [c]]"
proof -
  assume "c \<notin> set s" and "sep \<noteq> []"
  then have "index_of (c # sep) (s @ [c]) = None" by (induction s) (auto simp: neq_Nil_conv)
  then show ?thesis by (subst split_on.simps) simp
qed

text \<open>The texts of the parts, with the parenthesis that stays before the first one.\<close>

definition open_first :: "string list \<Rightarrow> string list" where
  "open_first ps = (case ps of [] \<Rightarrow> [] | p # ps \<Rightarrow> (CHR 0x28 # p) # ps)"

lemma open_first_simps [simp]:
  "open_first (p # ps) = (CHR 0x28 # p) # ps" "open_first ps = [] \<longleftrightarrow> ps = []"
  "length (open_first ps) = length ps"
  by (auto simp: open_first_def split: list.split)

lemma join_open_first: "ps \<noteq> [] \<Longrightarrow> join sep (open_first ps) = CHR 0x28 # join sep ps"
  by (cases ps; cases "tl ps") auto

lemma drop_scan_line:
  "es \<noteq> [] \<Longrightarrow> drop 7 (scan_line es supported) =
     join ''),('' (open_first (map print_entry es)) @ CHR 0x29 # supported"
  by (simp add: scan_line_def join_open_first)

lemma parts_free:
  assumes "list_all entry_fits es" and "x \<in> set (butlast (open_first (map print_entry es)))"
  shows "CHR 0x29 \<notin> set x"
proof -
  obtain e es' where es: "es = e # es'" using assms(2) by (cases es) (auto simp: open_first_def)
  have "x \<in> set (open_first (map print_entry es))" using assms(2) by (rule in_set_butlastD)
  then show ?thesis using assms(1) entry_no_parentheses(2) by (auto simp: es list_all_iff)
qed

text \<open>The parts before the last one are read as they were printed, whatever follows the last.\<close>

lemma scan_parts:
  assumes "list_all entry_fits es" and "es \<noteq> []"
  shows "List.map_filter scan_entry (split_on ''),('' (drop 7 (scan_line es supported))) =
    butlast es @ List.map_filter scan_entry
      (split_on ''),('' (last (open_first (map print_entry es)) @ CHR 0x29 # supported))"
proof -
  let ?ps = "open_first (map print_entry es)"
  have "split_on ''),('' (drop 7 (scan_line es supported)) =
      butlast ?ps @ split_on ''),('' (last ?ps @ CHR 0x29 # supported)"
    unfolding drop_scan_line [OF assms(2)]
    by (rule split_on_join) (use assms parts_free in auto)
  moreover have "List.map_filter scan_entry (butlast ?ps) = butlast es"
  proof -
    have one: "scan_entry (print_entry e) = Some e" "scan_entry (CHR 0x28 # print_entry e) = Some e"
      if "entry_fits e" for e
      using scan_entry_print [OF that, of "[]" "[]"] scan_entry_print [OF that, of "''(''" "[]"] by simp_all
    have all: "list_all entry_fits xs \<Longrightarrow> List.map_filter scan_entry (map print_entry xs) = xs" for xs
      by (induction xs) (simp_all add: map_filter_simps one)
    obtain e es' where es: "es = e # es'" using assms(2) by (cases es) auto
    show ?thesis
    proof (cases es')
      case (Cons e' es'')
      have "list_all entry_fits (butlast es')" using assms(1) es by (auto simp: list_all_iff dest: in_set_butlastD)
      then have rest: "List.map_filter scan_entry (butlast (map print_entry es')) = butlast es'"
        using all [of "butlast es'"] by (simp add: map_butlast)
      have "butlast ?ps = (CHR 0x28 # print_entry e) # butlast (map print_entry es')"
        using Cons by (simp add: es)
      moreover have "butlast es = e # butlast es'" using Cons by (simp add: es)
      moreover have "entry_fits e" using assms(1) by (simp add: es)
      ultimately show ?thesis by (simp only: map_filter_simps one option.case rest)
    qed (simp add: es map_filter_simps)
  qed
  ultimately show ?thesis by (simp add: map_filter_def)
qed

lemma last_part:
  "es \<noteq> [] \<Longrightarrow> \<exists>p \<in> {[], ''(''}. last (open_first (map print_entry es)) = p @ print_entry (last es)"
  by (cases es) (auto simp: last_map)

lemma scan_line_shape:
  assumes "list_all entry_fits es" and "one_line supported" and "supported \<noteq> [] \<longrightarrow> printable (last supported)"
  shows "one_line (scan_line es supported)" and "tight (scan_line es supported)"
    and "prefix ''+COPS: '' (scan_line es supported)"
proof -
  have "\<forall>e \<in> set es. one_line (print_entry e)"
    using assms(1) entry_chars by (auto simp: list_all_iff one_line_def framing_chars_def eol_chars)
  then have "one_line (join ''),('' (map print_entry es))"
    using set_join [of _ "''),(''" "map print_entry es"] by (fastforce simp: one_line_def eol_chars)
  then show "one_line (scan_line es supported)" using assms(2) by (simp add: scan_line_def eol_chars)
  show "tight (scan_line es supported)" using assms(3) by (auto simp: scan_line_def tight_def printable_def)
  show "prefix ''+COPS: '' (scan_line es supported)" by (simp add: scan_line_def)
qed

lemma scan_of_answer:
  assumes "list_all entry_fits es" and "one_line supported" and "supported \<noteq> [] \<longrightarrow> printable (last supported)"
  shows "parseCOPSScan (scan_answer es supported) =
    List.map_filter scan_entry (split_on ''),('' (drop 7 (scan_line es supported)))"
  using find_answer [OF scan_line_shape [OF assms]] by (simp add: parseCOPSScan_def scan_answer_def)

text \<open>Without the lists of what the modem supports every operator comes back.\<close>

theorem operators_round_trip:
  assumes "list_all entry_fits es" and "es \<noteq> []"
  shows "parseCOPSScan (scan_answer es []) = es"
proof -
  obtain p where p: "p \<in> {[], ''(''}" "last (open_first (map print_entry es)) = p @ print_entry (last es)"
    using last_part [OF assms(2)] by blast
  have e: "entry_fits (last es)" using assms by (simp add: list_all_iff)
  have "CHR 0x29 \<notin> set (p @ print_entry (last es))"
    using p(1) entry_no_parentheses(2) [OF e] by auto
  then have "split_on ''),('' ((p @ print_entry (last es)) @ [CHR 0x29]) = [(p @ print_entry (last es)) @ [CHR 0x29]]"
    by (rule split_on_short) simp
  then have s: "split_on ''),('' ((p @ print_entry (last es)) @ CHR 0x29 # []) = [p @ print_entry (last es) @ '')'']"
    by simp
  have "parseCOPSScan (scan_answer es []) = butlast es @ List.map_filter scan_entry [p @ print_entry (last es) @ '')'']"
    unfolding scan_of_answer [OF assms(1) one_line_Nil, simplified] scan_parts [OF assms] p(2) s ..
  also have "\<dots> = butlast es @ [last es]"
    using scan_entry_print [OF e p(1), of "'')''"] by (simp add: map_filter_simps)
  finally show ?thesis using assms(2) by simp
qed

text \<open>With the lists the last operator loses its technology.\<close>

definition supported_lists :: "string \<Rightarrow> string" where
  "supported_lists modes = '',,('' @ modes @ ''),(0,1,2)''"

lemma last_with_lists:
  assumes e: "entry_fits e" and p: "p \<in> {[], ''(''}" and m: "CHR 0x29 \<notin> set modes"
  shows "scan_entry (p @ print_entry e @ ''),,('' @ modes) = Some (e \<lparr> oe_act := 0 \<rparr>)"
proof -
  let ?r = "''),,('' @ modes"
  note c = entry_no_parentheses(1) [OF e]
  have ne: "print_entry e \<noteq> []" by (simp add: print_entry_def scan_fields_def)
  have "hd (print_entry e @ ?r) \<noteq> CHR 0x28" using c ne by (metis hd_append2 hd_in_set)
  then have 1: "TrimPrefix (p @ print_entry e @ ?r) ''('' = print_entry e @ ?r"
    using p by (auto simp: TrimPrefix_none) (simp add: TrimPrefix_def)
  have "modes \<noteq> [] \<Longrightarrow> last modes \<noteq> CHR 0x29" using m by (metis last_in_set)
  then have "last (print_entry e @ ?r) \<noteq> CHR 0x29" by (cases "modes = []") auto
  then have 2: "TrimSuffix (print_entry e @ ?r) '')'' = print_entry e @ ?r"
    by (rule TrimSuffix_last [rotated]) simp
  have "comma_parts (print_entry e @ ?r) =
      show_int (oe_status e) # quoted (oe_long e) # quoted (oe_short e) # quoted (oe_plmn e) #
      (show_int (oe_act e) @ '')'') # [] # comma_parts (CHR 0x28 # modes)"
    using fields_no_comma [OF e] split_on_char [of "CHR 0x2C" "[]"]
      split_on_char [of "CHR 0x2C" "show_int (oe_act e) @ '')''" "'',('' @ modes"]
    by (simp add: comma_parts_def print_entry_def scan_fields_def split_on_char)
  then show ?thesis
    using e atoi_value_junk [of "oe_act e" "CHR 0x29" "[]"]
    unfolding scan_entry_def 1 2
    by (simp add: Let_def entry_fits_def int_fits_def Atoi_show_int quoted_none digit_value_def)
qed

lemma formats_no_entry: "scan_entry ''0,1,2)'' = None"
  by code_simp

text \<open>Property C39: The answer to \<^verbatim>\<open>AT+COPS=?\<close>, as TS 27.007 prints it, lists the operators and then the
  modes and formats that the modem supports.  For every non-empty list of operators and every list of
  modes, \<^verbatim>\<open>parseCOPSScan\<close> returns the operators, but the last one with access technology 0 (GSM)
  whatever technology it has: the text is cut at the separator of operators, and the closing
  parenthesis of the last one stays with its last number.\<close>

theorem last_operator_loses_technology:
  assumes "list_all entry_fits es" and "es \<noteq> []" and "set modes \<subseteq> set ''0123456789,''"
  shows "parseCOPSScan (scan_answer es (supported_lists modes)) = butlast es @ [(last es) \<lparr> oe_act := 0 \<rparr>]"
proof -
  let ?l = "supported_lists modes"
  have m: "CHR 0x29 \<notin> set modes" "one_line modes"
    using assms(3) by (auto simp: one_line_def eol_chars)
  have l: "one_line ?l" "?l \<noteq> [] \<longrightarrow> printable (last ?l)"
    using m(2) by (simp_all add: supported_lists_def eol_chars printable_def)
  obtain p where p: "p \<in> {[], ''(''}" "last (open_first (map print_entry es)) = p @ print_entry (last es)"
    using last_part [OF assms(2)] by blast
  have e: "entry_fits (last es)" using assms by (simp add: list_all_iff)
  let ?x = "p @ print_entry (last es)"
  have free: "CHR 0x29 \<notin> set ?x" using p(1) entry_no_parentheses(2) [OF e] by auto
  let ?y = "?x @ ''),,('' @ modes"
  have "index_of ''),('' (?y @ ''),(0,1,2)'') = Some (length ?y)"
    using free m(1) by (simp add: index_of_skip)
  then have s: "split_on ''),('' (?x @ CHR 0x29 # ?l) = ?y # split_on ''),('' ''0,1,2)''"
    using split_on_at [of "''),(''" ?y "''0,1,2)''"] by (simp add: supported_lists_def)
  have f: "split_on ''),('' ''0,1,2)'' = [''0,1,2)'']" using split_on_short [of "CHR 0x29" "''0,1,2''" "'',(''"] by simp
  have "parseCOPSScan (scan_answer es ?l) = butlast es @ List.map_filter scan_entry [?y, ''0,1,2)'']"
    unfolding scan_of_answer [OF assms(1) l] scan_parts [OF assms(1,2)] p(2) s f ..
  then show ?thesis using last_with_lists [OF e p(1) m(1)] formats_no_entry by (simp add: map_filter_simps)
qed

definition demo_scan :: "OperatorScanEntry list" where
  "demo_scan =
     [\<lparr> oe_status = 2, oe_long = ''CHN-UNICOM'', oe_short = ''UNICOM'', oe_plmn = ''46001'', oe_act = 7 \<rparr>,
      \<lparr> oe_status = 3, oe_long = ''CHINA MOBILE'', oe_short = ''CMCC'', oe_plmn = ''46000'', oe_act = 7 \<rparr>]"

theorem last_operator_loses_technology_witness:
  "map oe_act (parseCOPSScan (scan_answer demo_scan (supported_lists ''0,1,2,3,4''))) = [7, 0]"
proof -
  have "list_all entry_fits demo_scan" by code_simp
  then have "parseCOPSScan (scan_answer demo_scan (supported_lists ''0,1,2,3,4'')) =
      butlast demo_scan @ [(last demo_scan) \<lparr> oe_act := 0 \<rparr>]"
    by (rule last_operator_loses_technology) (simp_all add: demo_scan_def)
  then show ?thesis by (simp add: demo_scan_def)
qed

subsection \<open>Files of the card, by \<^verbatim>\<open>AT+CRSM\<close>\<close>

lemma TrimSpace_space:
  assumes "tight s"
  shows "TrimSpace (CHR 0x20 # s) = s"
proof -
  have f: "find (\<lambda>p. p \<noteq> [] \<and> prefix p (CHR 0x20 # s)) go_spaces = Some [CHR 0x20]"
  proof -
    have a: "ascii_spaces = [[CHR 0x09], [CHR 0x0A], [CHR 0x0B], [CHR 0x0C], [CHR 0x0D], [CHR 0x20]]" by code_simp
    show ?thesis unfolding go_spaces_def a by simp
  qed
  have "trim_prefixes go_spaces (CHR 0x20 # s) = trim_prefixes go_spaces s"
    by (subst trim_prefixes.simps) (simp add: f)
  then have "TrimSpace (CHR 0x20 # s) = TrimSpace s" by (simp add: TrimSpace_def)
  then show ?thesis using assms by (simp add: TrimSpace_tight)
qed

definition crsm_line :: "int \<Rightarrow> int \<Rightarrow> string \<Rightarrow> string" where
  "crsm_line sw1 sw2 data = ''+CRSM: '' @ show_int sw1 @ '','' @ show_int sw2 @ '','' @ quoted data"

lemma crsm_round_trip:
  assumes "int_fits sw1" and "int_fits sw2" and "one_line data" and "CHR 0x22 \<notin> set data"
  shows "ParseCRSM (crsm_line sw1 sw2 data) = Some (sw1, sw2, data)"
proof -
  let ?rest = "show_int sw1 @ '','' @ show_int sw2 @ '','' @ quoted data"
  have q: "printable (last (quoted data))" "one_line (quoted data)" "quoted data \<noteq> []" "tight (quoted data)"
    using assms(3) by (simp_all add: quoted_def printable_def eol_chars tight_def)
  have t: "tight ?rest"
    using tight_show_int [of sw1] q(1,3) by (auto simp: tight_def hd_append)
  have f: "findLineWithPrefix (''+CRSM: '' @ ?rest) ''+CRSM:'' = Some (''+CRSM: '' @ ?rest)"
    by (rule find_line) (use q in \<open>auto simp: eol_chars printable_def\<close>)
  have p: "split_three ?rest = [show_int sw1, show_int sw2, quoted data]"
    using cut_at_char [of "CHR 0x2C" "show_int sw1"] cut_at_char [of "CHR 0x2C" "show_int sw2"]
    by (simp add: split_three_def show_int_plain)
  have s: "scan_or_zero (show_int i) = i" if "int_fits i" for i
    using that scan_int_show_all [of i] by (simp add: scan_or_zero_def int_fits_def TrimSpace_tight tight_show_int)
  have "TrimPrefix (''+CRSM: '' @ ?rest) ''+CRSM:'' = CHR 0x20 # ?rest" by (simp add: TrimPrefix_def)
  then have "TrimSpace (TrimPrefix (''+CRSM: '' @ ?rest) ''+CRSM:'') = ?rest" using t by (simp only: TrimSpace_space)
  then have "ParseCRSM (crsm_line sw1 sw2 data) =
      (let parts = [show_int sw1, show_int sw2, quoted data]
       in if length parts < 2 then None
          else Some (scan_or_zero (parts ! 0), scan_or_zero (parts ! 1),
                     if length parts = 3 then TrimQuotes (TrimSpace (parts ! 2)) else []))"
    unfolding ParseCRSM_def crsm_line_def f option.case p [symmetric] by (simp only:)
  then show ?thesis using assms by (simp add: s TrimSpace_tight q)
qed

subsection \<open>Swapped decimal digits\<close>

fun swapped_digits :: "nat list \<Rightarrow> byte list" where
  "swapped_digits [] = []"
| "swapped_digits [d] = [of_nat (d + 16 * 15)]"
| "swapped_digits (d # e # ds) = of_nat (d + 16 * e) # swapped_digits ds"

definition digit_text :: "nat list \<Rightarrow> string" where
  "digit_text = map (\<lambda>d. byte_char (48 + d))"

lemma nibbles:
  assumes "d < 16" and "e < 16"
  shows "unat ((of_nat (d + 16 * e) :: byte) AND 0x0F) = d"
    and "unat (drop_bit 4 (of_nat (d + 16 * e) :: byte) AND 0x0F) = e"
proof -
  have "d + 16 * e < 256" using assms by linarith
  then have u: "unat (of_nat (d + 16 * e) :: byte) = d + 16 * e"
    by (simp only: unat_of_nat_byte mod_less)
  show "unat ((of_nat (d + 16 * e) :: byte) AND 0x0F) = d"
    unfolding low_nibble u using assms(1) by simp
  show "unat (drop_bit 4 (of_nat (d + 16 * e) :: byte) AND 0x0F) = e"
    unfolding high_nibble u using assms(1) by simp
qed

lemma bcd_digit_value: "bcd_digit n = (if unat n \<le> 9 then [byte_char (48 + unat n)] else [])"
  by (simp add: bcd_digit_def word_le_nat_alt)

lemma bcd_round_trip: "list_all (\<lambda>d. d < 10) ds \<Longrightarrow> DecodeSwappedBCD (swapped_digits ds) = digit_text ds"
proof (induction ds rule: swapped_digits.induct)
  case (2 d)
  then show ?case
    using nibbles [of d 15] by (simp add: DecodeSwappedBCD_def bcd_digit_value digit_text_def del: of_nat_add)
next
  case (3 d e ds)
  then show ?case by (simp add: DecodeSwappedBCD_def bcd_digit_value nibbles digit_text_def del: of_nat_add of_nat_mult)
qed (simp add: DecodeSwappedBCD_def digit_text_def)

subsection \<open>Telephone numbers\<close>

lemma canonical_shape:
  assumes "canonicalPhoneCandidate v = s" and "s \<noteq> []"
  shows "\<exists>p ds. p \<in> {[], ''+''} \<and> s = p @ ds \<and> list_all is_digit ds \<and> 6 \<le> length ds"
proof -
  let ?d = "if prefix ''+'' s then drop 1 s else s"
  have "list_all is_digit ?d" "6 \<le> length ?d"
    using assms by (auto simp: canonicalPhoneCandidate_def Let_def not_less split: if_splits)
  moreover have "s = (if prefix ''+'' s then ''+'' else []) @ ?d" by (auto simp: prefix_def)
  ultimately show ?thesis by (intro exI [of _ "if prefix ''+'' s then ''+'' else []"] exI [of _ ?d]) auto
qed

theorem subscriber_number_shape:
  "parseCNUM resp = [] \<or>
   (\<exists>p ds. p \<in> {[], ''+''} \<and> parseCNUM resp = p @ ds \<and> list_all is_digit ds \<and> 6 \<le> length ds)"
  using canonical_shape
  by (auto simp: parseCNUM_def find_Some_iff in_set_conv_nth split: option.split)

subsection \<open>The selected operator\<close>

text \<open>The answer to \<^verbatim>\<open>AT+COPS?\<close> in the three forms of TS 27.007: the mode alone, with the operator, and
  with the operator and the technology.\<close>

definition selection_fields :: "OperatorSelectionState \<Rightarrow> string list" where
  "selection_fields st =
     show_int (os_mode st) #
     (if os_plmn st = [] then []
      else [show_int (os_format st), quoted (os_plmn st)] @
           (if os_has_act st then [show_int (os_act st)] else []))"

definition selection_answer :: "OperatorSelectionState \<Rightarrow> string" where
  "selection_answer st = at_answer (''+COPS: '' @ join [CHR 0x2C] (selection_fields st))"

definition selection_fits :: "OperatorSelectionState \<Rightarrow> bool" where
  "selection_fits st \<longleftrightarrow>
     int_fits (os_mode st) \<and> int_fits (os_format st) \<and> int_fits (os_act st) \<and> name_fits (os_plmn st) \<and>
     (os_plmn st = [] \<longrightarrow> os_format st = 0 \<and> \<not> os_has_act st) \<and>
     (\<not> os_has_act st \<longrightarrow> os_act st = 0)"

lemma selection_fields_free:
  assumes "selection_fits st" and "f \<in> set (selection_fields st)" and "c \<in> framing_chars"
  shows "c \<notin> set f" and "f \<noteq> [] \<and> printable (hd f) \<and> printable (last f)"
proof -
  have f: "(\<exists>i. f = show_int i) \<or> f = quoted (os_plmn st) \<and> name_fits (os_plmn st)"
    using assms(1,2) unfolding selection_fields_def selection_fits_def by (auto split: if_splits)
  then show "c \<notin> set f" using assms(3) quoted_chars show_int_chars_free by blast
  show "f \<noteq> [] \<and> printable (hd f) \<and> printable (last f)"
    using f tight_show_int by (auto simp: tight_def quoted_def printable_def)
qed

lemma join_nonempty: "xs \<noteq> [] \<Longrightarrow> last xs \<noteq> [] \<Longrightarrow> join sep xs \<noteq> []"
  by (induction sep xs rule: join.induct) auto

lemma last_join: "xs \<noteq> [] \<Longrightarrow> last xs \<noteq> [] \<Longrightarrow> last (join sep xs) = last (last xs)"
  by (induction sep xs rule: join.induct) (simp_all add: join_nonempty)

theorem selection_round_trip:
  assumes "selection_fits st"
  shows "parseCOPSSelection (selection_answer st) = Some st"
proof -
  let ?fs = "selection_fields st" and ?t = "join [CHR 0x2C] (selection_fields st)"
  have ne: "?fs \<noteq> []" by (simp add: selection_fields_def)
  have free: "c \<notin> set ?t" if "c \<in> framing_chars" "c \<noteq> CHR 0x2C" for c
    using set_join [of c "[CHR 0x2C]" ?fs] selection_fields_free(1) [OF assms _ that(1)] that(2) by auto
  have "CHR 0x2C \<in> framing_chars" by (simp add: framing_chars_def)
  then have last: "last ?fs \<noteq> [] \<and> printable (last (last ?fs))"
    using selection_fields_free(2) [OF assms last_in_set [OF ne]] by blast
  then have "printable (last ?t)" using ne by (simp add: last_join)
  moreover have "?t \<noteq> []" using ne last by (simp add: join_nonempty)
  moreover have "one_line ?t" using free by (simp add: one_line_def framing_chars_def eol_chars)
  ultimately have "findLineWithPrefix (selection_answer st) ''+COPS: '' = Some (''+COPS: '' @ ?t)"
    unfolding selection_answer_def by (intro find_answer) (simp_all add: eol_chars printable_def)
  moreover have "comma_parts (drop 7 (''+COPS: '' @ ?t)) = ?fs"
    using split_join [OF ne, of "CHR 0x2C"] selection_fields_free(1) [OF assms]
    by (simp add: comma_parts_def framing_chars_def)
  ultimately have "parseCOPSSelection (selection_answer st) =
      (case Atoi (?fs ! 0) of None \<Rightarrow> None
       | Some mode \<Rightarrow> let act = (if 4 \<le> length ?fs then Atoi (?fs ! 3) else None)
          in Some \<lparr> os_mode = mode,
                    os_format = (if 3 \<le> length ?fs then atoi_or_zero (?fs ! 1) else 0),
                    os_plmn = (if 3 \<le> length ?fs then TrimQuotes (?fs ! 2) else []),
                    os_act = (case act of None \<Rightarrow> 0 | Some a \<Rightarrow> a), os_has_act = (act \<noteq> None) \<rparr>)"
    unfolding parseCOPSSelection_def by (simp only: option.case Let_def)
  also have "\<dots> = Some st"
    using assms quoted_none [of "os_plmn st"]
    by (cases st) (auto simp: selection_fields_def selection_fits_def int_fits_def Atoi_show_int
        atoi_or_zero_def Let_def)
  finally show ?thesis .
qed

text \<open>The answer to \<^verbatim>\<open>AT+CPIN?\<close> of a card that is not ready counts as a card that is inserted.\<close>

lemma not_ready_is_inserted: "parseCPINInserted (at_answer ''+CPIN: NOT READY'') = Some True"
  by code_simp

end
