(* ===== verification/AtChannel.thy ===== *)
theory AtChannel
  imports AtParse
begin

section \<open>The AT channel of a modem\<close>

text \<open>
  \<^verbatim>\<open>internal/modem/at_stream_parser.go\<close> (the bytes of the serial port as lines) and
  \<^verbatim>\<open>urc_format.go\<close> (what an unsolicited line says), with \<^verbatim>\<open>isURC\<close> and \<^verbatim>\<open>getRegStatusText\<close> of
  \<^verbatim>\<open>manager.go\<close>.
\<close>

subsection \<open>Lines\<close>

datatype at_limit = ATLineTooLong | ATResponseTooLarge

abbreviation defaultATMaxLineBytes :: nat where "defaultATMaxLineBytes \<equiv> 65536"
abbreviation defaultATMaxResponseBytes :: nat where "defaultATMaxResponseBytes \<equiv> 1048576"

abbreviation LF :: string where "LF \<equiv> [CHR 0x0A]"

record atStreamParser =
  maxLineBytes :: nat
  at_line :: string
  overflowed :: bool
  skipPromptSpace :: bool

definition newATStreamParser :: "int \<Rightarrow> atStreamParser" where
  "newATStreamParser n =
     \<lparr> maxLineBytes = (if n \<le> 0 then 1 else nat n), at_line = [], overflowed = False, skipPromptSpace = False \<rparr>"

definition lineContainsOnlySpace :: "string \<Rightarrow> bool" where
  "lineContainsOnlySpace l \<longleftrightarrow> list_all (\<lambda>b. b = CHR 0x20 \<or> b = CHR 0x09 \<or> b = CHR 0x0D) l"

fun feed_loop :: "atStreamParser \<Rightarrow> string \<Rightarrow> string list \<Rightarrow> atStreamParser \<times> (at_limit + string list)" where
  "feed_loop p [] ls = (p, Inr ls)"
| "feed_loop p (b # bs) ls =
     (let q = p\<lparr>skipPromptSpace := False\<rparr>
      in if skipPromptSpace p \<and> b = CHR 0x20 then feed_loop q bs ls
         else if b = CHR 0x0A then
           (let l = TrimSpace (at_line q)
            in feed_loop (q\<lparr>at_line := []\<rparr>) bs (if l \<noteq> [] then ls @ [l] else ls))
         else if b = CHR 0x3E \<and> lineContainsOnlySpace (at_line q) then
           feed_loop (q\<lparr>at_line := [], skipPromptSpace := True\<rparr>) bs (ls @ [''> ''])
         else if maxLineBytes q \<le> length (at_line q) then
           (q\<lparr>at_line := [], overflowed := True\<rparr>, Inl ATLineTooLong)
         else feed_loop (q\<lparr>at_line := at_line q @ [b]\<rparr>) bs ls)"

definition Feed :: "atStreamParser \<Rightarrow> string \<Rightarrow> atStreamParser \<times> (at_limit + string list)" where
  "Feed p bs = (if overflowed p then (p, Inl ATLineTooLong) else feed_loop p bs [])"

text \<open>The lines of a response with their total size.\<close>

definition appendATResponseLine :: "string list \<times> nat \<Rightarrow> string \<Rightarrow> at_limit + string list \<times> nat" where
  "appendATResponseLine r line =
     (case r of (ls, n) \<Rightarrow>
        if length line > defaultATMaxLineBytes then Inl ATLineTooLong
        else let additional = length line + (if ls \<noteq> [] then 1 else 0)
             in if additional > defaultATMaxResponseBytes \<or> n > defaultATMaxResponseBytes - additional
                then Inl ATResponseTooLarge
                else Inr (ls @ [line], n + additional))"

subsection \<open>Unsolicited lines\<close>

datatype urcLogLevel = urcLogDebug | urcLogInfo | urcLogWarn

datatype urc_value = UText string | UInt int

record urcFormatResult =
  urc_level :: urcLogLevel
  urc_key :: string
  urc_msg :: string
  urc_fields :: "(string \<times> urc_value) list"
  CMTIIndex :: string
  CMTIStorage :: string

definition urcKey :: "string \<Rightarrow> string" where
  "urcKey line =
     (let s = TrimSpace line
      in if s = [] then []
         else if prefix ''+'' s \<or> prefix ''^'' s \<or> prefix ''$'' s then
           (if CHR 0x3A \<in> set s then takeWhile (\<lambda>c. c \<noteq> CHR 0x3A) s
            else takeWhile (\<lambda>c. c \<noteq> CHR 0x20 \<and> c \<noteq> CHR 0x2C) s)
         else if s \<in> set [''NO CARRIER'', ''NO ANSWER'', ''SMS Ready'', ''Call Ready'', ''NORMAL POWER DOWN''] then s
         else takeWhile (\<lambda>c. c \<noteq> CHR 0x20) s)"

definition parseCMTI :: "string \<Rightarrow> (string \<times> string) option" where
  "parseCMTI line =
     (let s = TrimSpace line
      in if \<not> prefix ''+CMTI:'' s then None
         else let parts = comma_parts (TrimSpace (TrimPrefix s ''+CMTI:''))
              in if length parts < 2 then None
                 else let storage = TrimQuotes (TrimSpace (parts ! 0)); index = TrimSpace (parts ! 1)
                      in if storage = [] \<or> index = [] then None else Some (storage, index))"

definition parseURCAfterColon :: "string \<Rightarrow> string" where
  "parseURCAfterColon line = (case after_char (CHR 0x3A) line of None \<Rightarrow> [] | Some r \<Rightarrow> TrimSpace r)"

definition parseCommaFields :: "string \<Rightarrow> string list" where
  "parseCommaFields s = (if s = [] then [] else map (\<lambda>p. TrimQuotes (TrimSpace p)) (comma_parts s))"

definition parseInt :: "string \<Rightarrow> int option" where
  "parseInt s = scan_int (TrimSpace s)"

definition getRegStatusText :: "int \<Rightarrow> string" where
  "getRegStatusText st =
     (if st = 0 then string_of_runes [26410, 27880, 20876]
      else if st = 1 then string_of_runes [24050, 27880, 20876, 40, 26412, 22320, 41]
      else if st = 2 then string_of_runes [25628, 32034, 20013]
      else if st = 3 then string_of_runes [27880, 20876, 34987, 25298]
      else if st = 5 then string_of_runes [24050, 27880, 20876, 40, 28459, 28216, 41]
      else string_of_runes [26410, 30693])"

definition urc_text :: "nat list \<Rightarrow> string" where
  "urc_text rs = ''URC: '' @ string_of_runes rs"

definition urc_result :: "urcLogLevel \<Rightarrow> string \<Rightarrow> string \<Rightarrow> (string \<times> urc_value) list \<Rightarrow> urcFormatResult" where
  "urc_result level key m fs =
     \<lparr> urc_level = level, urc_key = key, urc_msg = m, urc_fields = (''type'', UText key) # fs,
       CMTIIndex = [], CMTIStorage = [] \<rparr>"

definition int_or :: "int \<Rightarrow> int option \<Rightarrow> int" where
  "int_or d v = (case v of None \<Rightarrow> d | Some i \<Rightarrow> i)"

definition urc_events :: "string list" where
  "urc_events = [''RING'', ''RDY'', ''SMS Ready'', ''Call Ready'', ''NORMAL POWER DOWN'', ''NO CARRIER'', ''BUSY'', ''NO ANSWER'']"

definition format_cmti :: "string \<Rightarrow> string \<Rightarrow> urcFormatResult" where
  "format_cmti key s =
     (case parseCMTI s of
        Some (st, idx) \<Rightarrow>
          (urc_result urcLogInfo key (urc_text [26032, 30701, 20449, 36890, 30693]) [(''storage'', UText st), (''index'', UText idx)])
            \<lparr>CMTIIndex := idx, CMTIStorage := st\<rparr>
      | None \<Rightarrow> urc_result urcLogInfo key (urc_text [26032, 30701, 20449, 36890, 30693]) [(''raw'', UText s)])"

definition format_registration :: "string \<Rightarrow> string \<Rightarrow> urcFormatResult" where
  "format_registration key s =
     (let fields = parseCommaFields (parseURCAfterColon s);
          stat = (if 2 \<le> length fields then int_or (- 1) (parseInt (fields ! 1)) else - 1)
      in urc_result urcLogInfo key (urc_text [27880, 20876, 29366, 24577, 21464, 26356])
           ([(''domain'', UText (TrimPrefix key ''+'')), (''stat'', UInt stat)] @
            (if 0 \<le> stat \<and> key = ''+CREG'' then [(''stat_text'', UText (getRegStatusText stat))] else []) @
            (if 4 \<le> length fields then [(''lac'', UText (fields ! 2)), (''cell_id'', UText (fields ! 3))] else []) @
            (if 5 \<le> length fields then [(''act'', UText (fields ! 4))] else [])))"

definition format_qsimstat :: "string \<Rightarrow> string \<Rightarrow> urcFormatResult" where
  "format_qsimstat key s =
     (let fields = parseCommaFields (parseURCAfterColon s)
      in urc_result urcLogInfo key (urc_text [83, 73, 77, 32, 25554, 25300])
           [(''inserted'', UInt (if 2 \<le> length fields then int_or (- 1) (parseInt (fields ! 1)) else - 1))])"

definition format_cusd :: "string \<Rightarrow> string \<Rightarrow> urcFormatResult" where
  "format_cusd key s =
     (let fields = parseCommaFields (parseURCAfterColon s)
      in urc_result urcLogInfo key (urc_text (map char_code ''USSD''))
           [(''n'', UInt (if 1 \<le> length fields then int_or 0 (parseInt (fields ! 0)) else - 1)),
            (''dcs'', UInt (if 3 \<le> length fields then int_or 0 (parseInt (fields ! 2)) else - 1)),
            (''text'', UText (if 2 \<le> length fields then fields ! 1 else []))])"

definition format_named :: "string \<Rightarrow> string \<Rightarrow> string \<Rightarrow> string \<Rightarrow> urcFormatResult" where
  "format_named key s m label =
     (let name = (case extractQuotedFields (parseURCAfterColon s) of [] \<Rightarrow> [] | f # _ \<Rightarrow> f)
      in urc_result urcLogInfo key m
           ((if name \<noteq> [] then [(label, UText name)] else []) @ [(''raw'', UText s)]))"

definition formatURC :: "string \<Rightarrow> urcFormatResult" where
  "formatURC line =
     (let s = TrimSpace line; key = urcKey s
      in if s = [] then
           \<lparr> urc_level = urcLogDebug, urc_key = [], urc_msg = ''URC'', urc_fields = [], CMTIIndex = [], CMTIStorage = [] \<rparr>
         else if key = ''+CMTI'' then format_cmti key s
         else if key = ''+CREG'' \<or> key = ''+CGREG'' \<or> key = ''+CEREG'' then format_registration key s
         else if key = ''+CPIN'' then
           urc_result urcLogInfo key (urc_text [83, 73, 77, 32, 29366, 24577]) [(''state'', UText (TrimQuotes (TrimSpace (parseURCAfterColon s))))]
         else if key = ''+QSIMSTAT'' then format_qsimstat key s
         else if key = ''+QIURC'' \<or> key = ''+QIND'' then format_named key s (urc_text [81, 117, 101, 99, 116, 101, 108, 32, 20107, 20214]) ''event''
         else if key = ''+CUSD'' then format_cusd key s
         else if key = ''+CLIP'' then format_named key s (urc_text [26469, 30005, 26174, 31034]) ''number''
         else if key = ''+QPCMV'' then
           urc_result urcLogInfo key (urc_text [80, 67, 77, 32, 27969, 25511]) [(''state'', UText (TrimSpace (parseURCAfterColon s)))]
         else if s \<in> set urc_events then urc_result urcLogInfo key (urc_text [20107, 20214]) [(''raw'', UText s)]
         else urc_result urcLogDebug key (urc_text [26410, 20998, 31867]) [(''raw'', UText s)])"

definition isURC :: "string \<Rightarrow> bool" where
  "isURC line \<longleftrightarrow>
     (let s = TrimSpace line
      in s \<noteq> [] \<and>
         \<not> list_ex (\<lambda>p. prefix p s) [''+CSIM:'', ''+CGLA:'', ''+CCHO:'', ''+CMGR:'', ''+CMGS:'', ''+QENG:''] \<and>
         (prefix ''+'' s \<or> prefix ''^'' s \<or> prefix ''$'' s \<or> s \<in> set urc_events))"

subsection \<open>Lines do not depend on how the bytes arrive\<close>







lemma feed_loop_max: "feed_loop p bs ls = (q, r) \<Longrightarrow> maxLineBytes q = maxLineBytes p"
  by (induction p bs ls rule: feed_loop.induct) (auto simp: Let_def split: if_splits)

lemma feed_loop_bound:
  "length (at_line p) \<le> maxLineBytes p \<Longrightarrow> feed_loop p bs ls = (q, r) \<Longrightarrow> length (at_line q) \<le> maxLineBytes p"
proof (induction bs arbitrary: p ls)
  case (Cons b bs)
  from Cons.prems show ?case
    by (auto simp: Let_def split: if_splits dest!: Cons.IH [rotated])
qed auto

text \<open>Text without prompts gives the lines that splitting it gives.\<close>

definition fits_line :: "nat \<Rightarrow> string \<Rightarrow> bool" where
  "fits_line n l \<longleftrightarrow> length l \<le> n \<and> CHR 0x0A \<notin> set l \<and> CHR 0x3E \<notin> set l"

lemma feed_part:
  "CHR 0x0A \<notin> set l \<Longrightarrow> CHR 0x3E \<notin> set l \<Longrightarrow> length (at_line p) + length l \<le> maxLineBytes p \<Longrightarrow>
   \<not> skipPromptSpace p \<Longrightarrow>
   feed_loop p (l @ bs) ls = feed_loop (p\<lparr>at_line := at_line p @ l\<rparr>) bs ls"
proof (induction l arbitrary: p)
  case (Cons c l)
  have "c \<noteq> CHR 0x0A" "c \<noteq> CHR 0x3E" using Cons.prems by auto
  then show ?case using Cons by (cases p) (simp add: Let_def)
qed simp

lemma feed_parts:
  assumes "parts \<noteq> []" and "list_all (fits_line n) parts"
  shows "feed_loop \<lparr> maxLineBytes = n, at_line = [], overflowed = False, skipPromptSpace = False \<rparr>
      (join LF parts) ls =
    (\<lparr> maxLineBytes = n, at_line = last parts, overflowed = False, skipPromptSpace = False \<rparr>,
     Inr (ls @ filter (\<lambda>l. l \<noteq> []) (map TrimSpace (butlast parts))))"
  using assms
proof (induction "LF" parts arbitrary: ls rule: join.induct)
  case (2 x)
  then show ?case using feed_part [of x _ "[]"] by (simp add: fits_line_def)
next
  case (3 x y xs)
  then show ?case by (simp add: feed_part fits_line_def Let_def)
qed simp

theorem stream_lines_are_split_lines:
  assumes "parts \<noteq> []" and "list_all (fits_line n) parts" and "0 < n"
  shows "Feed (newATStreamParser (int n)) (join LF parts) =
    ((newATStreamParser (int n))\<lparr>at_line := last parts\<rparr>,
     Inr (filter (\<lambda>l. l \<noteq> []) (map TrimSpace (butlast (split_on LF (join LF parts))))))"
proof -
  have "split_on LF (join LF parts) = parts"
    by (rule split_join) (use assms in \<open>auto simp: fits_line_def list_all_iff\<close>)
  then show ?thesis using feed_parts [OF assms(1,2), of "[]"] assms(3) by (simp add: Feed_def newATStreamParser_def)
qed

subsection \<open>The size of a response\<close>

definition response_size_ok :: "string list \<times> nat \<Rightarrow> bool" where
  "response_size_ok r \<longleftrightarrow>
     snd r = length (join LF (fst r)) \<and> snd r \<le> defaultATMaxResponseBytes"

lemma length_join_snoc: "length (join sep (xs @ [x])) = length (join sep xs) + (if xs = [] then 0 else length sep) + length x"
  by (induction sep xs rule: join.induct) (auto split: list.split)

lemma response_size_kept: "response_size_ok r \<Longrightarrow> appendATResponseLine r l = Inr r' \<Longrightarrow> response_size_ok r'"
  by (auto simp: response_size_ok_def appendATResponseLine_def length_join_snoc Let_def split: prod.splits if_splits)

end
