(* ===== verification/AtManager.thy ===== *)
theory AtManager
  imports AtChannel
begin

section \<open>The command loop of the modem manager\<close>

text \<open>
  The command loop of \<^verbatim>\<open>internal/modem/manager.go\<close>: \<^verbatim>\<open>readLoop\<close>, \<^verbatim>\<open>runLoop\<close>, \<^verbatim>\<open>handleCommand\<close>,
  \<^verbatim>\<open>handleURC\<close> and the quarantine of the response stream.  The serial port is a parameter: a function
  that writes a text in the state of the port and may fail with the text of an error.  Log output is not
  part of the model, nor are the durations: a timer may fire at any time.
\<close>

subsection \<open>The state of the manager\<close>

text \<open>What \<^verbatim>\<open>handleURC\<close> and \<^verbatim>\<open>notifyDisconnect\<close> start as goroutines is a list of calls; the callbacks
  that are set are flags.\<close>

record ussd_result =
  ur_status :: int
  ur_text :: string
  ur_raw :: string
  ur_dcs :: int

datatype at_call =
    CallSIMStatus "bool option" string
  | CallNewSMS string
  | ReadSMS string string
  | CallRing
  | CallHangup
  | CallConnect
  | CallClip string
  | CallDisconnectReason string
  | CallDisconnect

record at_callbacks =
  cb_sim :: bool
  cb_new_sms :: bool
  cb_disable_read :: bool
  cb_ring :: bool
  cb_hangup :: bool
  cb_connect :: bool
  cb_clip :: bool
  cb_disconnect_reason :: bool
  cb_disconnect :: bool

record apduSessionInfo =
  as_channel :: int
  as_owner :: string
  as_class :: string
  as_opened :: int

record at_manager =
  am_quarantined :: bool
  am_healthy :: bool
  am_running :: bool
  am_stopped :: bool
  am_streak :: nat
  am_sessions :: "int \<Rightarrow> apduSessionInfo option"
  am_rdy_subs :: "nat list"
  am_rdy_closed :: "nat list"
  am_rdy_next :: nat
  am_ussd :: "ussd_result option"
  am_qpcmv :: "int list option"
  am_callbacks :: at_callbacks
  am_calls :: "at_call list"

definition quarantineATResponseStream :: "at_manager \<Rightarrow> at_manager" where
  "quarantineATResponseStream m = m\<lparr>am_quarantined := True, am_healthy := False\<rparr>"

definition markATResponseStreamReady :: "at_manager \<Rightarrow> at_manager" where
  "markATResponseStreamReady m = m\<lparr>am_quarantined := False, am_healthy := True\<rparr>"

definition IsHealthy :: "at_manager \<Rightarrow> bool" where
  "IsHealthy m \<longleftrightarrow> am_healthy m \<and> am_running m"

definition resetATTimeoutWatchdog :: "at_manager \<Rightarrow> at_manager" where
  "resetATTimeoutWatchdog m = m\<lparr>am_streak := 0\<rparr>"

abbreviation atTimeoutWatchdogThreshold :: nat where "atTimeoutWatchdogThreshold \<equiv> 5"

definition start_call :: "at_call \<Rightarrow> at_manager \<Rightarrow> at_manager" where
  "start_call c m = m\<lparr>am_calls := am_calls m @ [c]\<rparr>"

definition notifyDisconnect :: "string \<Rightarrow> at_manager \<Rightarrow> at_manager" where
  "notifyDisconnect reason m =
     (let r = (if TrimSpace reason = [] then ''modem_disconnect'' else TrimSpace reason);
          m1 = (if cb_disconnect_reason (am_callbacks m) then start_call (CallDisconnectReason r) m else m)
      in if cb_disconnect (am_callbacks m) then start_call CallDisconnect m1 else m1)"

definition releaseAllAPDULeases :: "at_manager \<Rightarrow> at_manager" where
  "releaseAllAPDULeases m = m\<lparr>am_sessions := Map.empty\<rparr>"

definition StopManager :: "at_manager \<Rightarrow> at_manager" where
  "StopManager m =
     (if am_stopped m then m
      else (releaseAllAPDULeases (m\<lparr>am_running := False\<rparr>))\<lparr>am_stopped := True\<rparr>)"

definition fail_and_notify :: "string \<Rightarrow> at_manager \<Rightarrow> at_manager" where
  "fail_and_notify reason m = notifyDisconnect reason (StopManager (m\<lparr>am_healthy := False\<rparr>))"

definition tripATTimeoutWatchdog :: "at_manager \<Rightarrow> at_manager" where
  "tripATTimeoutWatchdog m = (if am_running m then fail_and_notify ''at_timeout_threshold'' m else m)"

definition recordATTimeout :: "bool \<Rightarrow> at_manager \<Rightarrow> at_manager \<times> bool" where
  "recordATTimeout high m =
     (if high then (m, False)
      else (m\<lparr>am_streak := am_streak m + 1\<rparr>, atTimeoutWatchdogThreshold \<le> am_streak m + 1))"

definition isFatalSerialRuntimeErr :: "string \<Rightarrow> bool" where
  "isFatalSerialRuntimeErr e \<longleftrightarrow>
     (let s = ToLower (TrimSpace e)
      in contains_sub s ''input/output error'' \<or> contains_sub s ''no such device'' \<or>
         contains_sub s ''bad file descriptor'' \<or> contains_sub s ''device disconnected'')"

definition isRetryableSerialOpenErr :: "string \<Rightarrow> bool" where
  "isRetryableSerialOpenErr e \<longleftrightarrow>
     (let s = ToLower (TrimSpace e)
      in contains_sub s ''resource busy'' \<or> contains_sub s ''device or resource busy'' \<or>
         contains_sub s ''temporarily unavailable'')"

definition handleFatalSerialRuntimeErr :: "string \<Rightarrow> at_manager \<Rightarrow> at_manager" where
  "handleFatalSerialRuntimeErr e m =
     (if isFatalSerialRuntimeErr e \<and> am_running m then fail_and_notify ''serial_runtime_error'' m else m)"

text \<open>The registry of logical channels; the class falls back to that of eUICC writes.\<close>

definition bindAPDUSession :: "int \<Rightarrow> string \<Rightarrow> string \<Rightarrow> int \<Rightarrow> at_manager \<Rightarrow> at_manager" where
  "bindAPDUSession channel owner cls now m =
     m\<lparr>am_sessions := (am_sessions m)(channel \<mapsto>
        \<lparr> as_channel = channel, as_owner = TrimSpace owner,
          as_class = (if cls \<noteq> [] then cls else ''EUICCWrite''), as_opened = now \<rparr>)\<rparr>"

definition takeAPDUSession :: "int \<Rightarrow> at_manager \<Rightarrow> at_manager \<times> apduSessionInfo option" where
  "takeAPDUSession channel m =
     (m\<lparr>am_sessions := (am_sessions m)(channel := None)\<rparr>, am_sessions m channel)"

subsection \<open>What an unsolicited line sets off\<close>

definition SubscribeRDY :: "at_manager \<Rightarrow> at_manager \<times> nat" where
  "SubscribeRDY m =
     (m\<lparr>am_rdy_subs := am_rdy_subs m @ [am_rdy_next m], am_rdy_next := am_rdy_next m + 1\<rparr>, am_rdy_next m)"

definition dispatchRDY :: "at_manager \<Rightarrow> at_manager" where
  "dispatchRDY m = m\<lparr>am_rdy_subs := [], am_rdy_closed := am_rdy_closed m @ am_rdy_subs m\<rparr>"

definition dispatchSIMStatusURC :: "bool option \<Rightarrow> string \<Rightarrow> at_manager \<Rightarrow> at_manager" where
  "dispatchSIMStatusURC inserted st m =
     (if cb_sim (am_callbacks m) then start_call (CallSIMStatus inserted st) m else m)"

text \<open>The text of a USSD answer.  \<open>gsm7\<close> stands for the unpacking and the decoding of the SMS library.\<close>

definition ussd_ucs2 :: "int \<Rightarrow> bool" where
  "ussd_ucs2 dcs \<longleftrightarrow>
     (let codingGroup = dcs div 16 mod 16; alphabet = dcs div 4 mod 4
      in if codingGroup = 0 \<or> codingGroup = 1 then alphabet = 2
         else if dcs = 72 then True
         else 0x40 \<le> dcs \<and> dcs \<le> 0x7F \<and> alphabet = 2)"

fun byte_pairs :: "byte list \<Rightarrow> nat list" where
  "byte_pairs (a # b # bs) = (unat a * 256 + unat b) # byte_pairs bs"
| "byte_pairs bs = []"

definition decodeUSSDText :: "(byte list \<Rightarrow> string option) \<Rightarrow> string \<Rightarrow> int \<Rightarrow> string" where
  "decodeUSSDText gsm7 raw dcs =
     (if raw = [] then []
      else if \<not> IsHexString raw then raw
      else case hex_decode raw of
        None \<Rightarrow> raw
      | Some b \<Rightarrow>
          if ussd_ucs2 dcs then
            (if odd (length b) then raw else string_of_runes (utf16_decode (byte_pairs b)))
          else (case gsm7 b of None \<Rightarrow> raw | Some s \<Rightarrow> s))"

definition text_field :: "string \<Rightarrow> (string \<times> urc_value) list \<Rightarrow> string" where
  "text_field k fs = (case map_of fs k of Some (UText s) \<Rightarrow> s | _ \<Rightarrow> [])"

definition int_field :: "string \<Rightarrow> (string \<times> urc_value) list \<Rightarrow> int" where
  "int_field k fs = (case map_of fs k of Some (UInt i) \<Rightarrow> i | _ \<Rightarrow> 0)"

definition inserted_field :: "(string \<times> urc_value) list \<Rightarrow> bool option" where
  "inserted_field fs =
     (case map_of fs ''inserted'' of Some (UInt i) \<Rightarrow> if 0 \<le> i then Some (i = 1) else None | _ \<Rightarrow> None)"

definition dispatch_cusd :: "(byte list \<Rightarrow> string option) \<Rightarrow> (string \<times> urc_value) list \<Rightarrow> at_manager \<Rightarrow> at_manager" where
  "dispatch_cusd gsm7 fs m =
     (let n = int_field ''n'' fs; dcs = int_field ''dcs'' fs; raw = text_field ''text'' fs
      in case am_ussd m of
           Some _ \<Rightarrow> m
         | None \<Rightarrow> m\<lparr>am_ussd := Some \<lparr> ur_status = n, ur_text = decodeUSSDText gsm7 raw dcs,
                                        ur_raw = raw, ur_dcs = dcs \<rparr>\<rparr>)"

definition dispatch_cmti :: "urcFormatResult \<Rightarrow> at_manager \<Rightarrow> at_manager" where
  "dispatch_cmti fr m =
     (if cb_new_sms (am_callbacks m) then start_call (CallNewSMS (CMTIIndex fr)) m
      else if \<not> cb_disable_read (am_callbacks m) then start_call (ReadSMS (CMTIStorage fr) (CMTIIndex fr)) m
      else m)"

definition dispatch_qpcmv :: "string \<Rightarrow> at_manager \<Rightarrow> at_manager" where
  "dispatch_qpcmv s m =
     (case (parseInt (TrimSpace (parseURCAfterColon s)), am_qpcmv m) of
        (Some v, Some q) \<Rightarrow> if length q < 4 then m\<lparr>am_qpcmv := Some (q @ [v])\<rparr> else m
      | _ \<Rightarrow> m)"

definition handleURC :: "(byte list \<Rightarrow> string option) \<Rightarrow> at_manager \<Rightarrow> string \<Rightarrow> at_manager" where
  "handleURC gsm7 m line =
     (let s = TrimSpace line; fr = formatURC s; key = urc_key fr; fs = urc_fields fr
      in if s = [] then m
         else if key = ''RDY'' then dispatchRDY m
         else if key = ''+CPIN'' then
           (let st = text_field ''state'' fs
            in dispatchSIMStatusURC None st (if st = ''READY'' then dispatchRDY m else m))
         else if key = ''+QSIMSTAT'' then dispatchSIMStatusURC (inserted_field fs) [] m
         else if key = ''+CUSD'' then dispatch_cusd gsm7 fs m
         else if key = ''+CMTI'' \<and> CMTIIndex fr \<noteq> [] then dispatch_cmti fr m
         else if key = ''RING'' then (if cb_ring (am_callbacks m) then start_call CallRing m else m)
         else if key = ''NO CARRIER'' then (if cb_hangup (am_callbacks m) then start_call CallHangup m else m)
         else if key = ''CONNECT'' \<or> key = ''MO CONNECTED'' then
           (if cb_connect (am_callbacks m) then start_call CallConnect m else m)
         else if key = ''+CLIP'' then
           (let number = text_field ''number'' fs
            in if number \<noteq> [] \<and> cb_clip (am_callbacks m) then start_call (CallClip number) m else m)
         else if key = ''+QPCMV'' then dispatch_qpcmv s m
         else m)"

subsection \<open>One command\<close>

datatype at_input = Line string | ReadError string | TimerFired

datatype at_failure =
    StreamQuarantined
  | WriteFailed string
  | LimitExceeded at_limit
  | CommandTimeout
  | ReadFailed string
  | DeviceError string

record commandRequest =
  requestID :: nat
  cr_cmd :: string
  highPriority :: bool
  interactive :: bool
  waitPrompt :: bool
  followUp :: string
  cancelSequence :: string

type_synonym 'p port_write = "'p \<Rightarrow> string \<Rightarrow> 'p \<times> string option"

datatype at_outcome =
    Answered "at_failure + string"
  | Waiting commandRequest "string list \<times> nat"

definition pure_async :: "string \<Rightarrow> bool" where
  "pure_async line \<longleftrightarrow>
     urcKey line \<in> set [''+CUSD'', ''+CMTI'', ''RING'', ''+CLIP'', ''+QSIMSTAT'', ''+QSTKURC'', ''+QPCMV'']"

text \<open>Sending the command: either it is answered at once or the loop waits.\<close>

definition begin_at_command ::
  "'p port_write \<Rightarrow> at_manager \<Rightarrow> 'p \<Rightarrow> commandRequest \<Rightarrow> at_manager \<times> 'p \<times> at_outcome" where
  "begin_at_command wr m p req =
     (if am_quarantined m then (m, p, Answered (Inl StreamQuarantined))
      else case wr p (cr_cmd req @ CRLF) of
        (p', Some e) \<Rightarrow> (handleFatalSerialRuntimeErr e m, p', Answered (Inl (WriteFailed e)))
      | (p', None) \<Rightarrow> (m, p', Waiting req ([], 0)))"

definition on_timeout ::
  "'p port_write \<Rightarrow> at_manager \<Rightarrow> 'p \<Rightarrow> commandRequest \<Rightarrow> at_manager \<times> 'p \<times> at_outcome" where
  "on_timeout wr m p req =
     (let p1 = (if interactive req \<and> cancelSequence req \<noteq> [] then fst (wr p (cancelSequence req)) else p);
          (m1, tripped) = recordATTimeout (highPriority req) (quarantineATResponseStream m)
      in (if tripped then tripATTimeoutWatchdog m1 else m1, p1, Answered (Inl CommandTimeout)))"

definition collect_line ::
  "at_manager \<Rightarrow> 'p \<Rightarrow> string list \<times> nat \<Rightarrow> string \<Rightarrow>
   (string list \<times> nat \<Rightarrow> at_manager \<times> 'p \<times> at_outcome) \<Rightarrow> at_manager \<times> 'p \<times> at_outcome" where
  "collect_line m p r line k =
     (case appendATResponseLine r line of
        Inl e \<Rightarrow> (quarantineATResponseStream m, p, Answered (Inl (LimitExceeded e)))
      | Inr r' \<Rightarrow> k r')"

definition on_line ::
  "(byte list \<Rightarrow> string option) \<Rightarrow> 'p port_write \<Rightarrow> at_manager \<Rightarrow> 'p \<Rightarrow> commandRequest \<Rightarrow>
   string list \<times> nat \<Rightarrow> string \<Rightarrow> at_manager \<times> 'p \<times> at_outcome" where
  "on_line gsm7 wr m p req r line =
     (if line = ''OK'' then (resetATTimeoutWatchdog m, p, Answered (Inr (join LF (fst r))))
      else if contains_sub line ''ERROR'' then
        collect_line (resetATTimeoutWatchdog m) p r line
          (\<lambda>r'. (resetATTimeoutWatchdog m, p, Answered (Inl (DeviceError (join LF (fst r'))))))
      else if contains_sub line ''>'' then
        collect_line (resetATTimeoutWatchdog m) p r line
          (\<lambda>r'. if interactive req \<and> waitPrompt req \<and> followUp req \<noteq> []
                then (resetATTimeoutWatchdog m, fst (wr p (followUp req)), Waiting (req\<lparr>waitPrompt := False\<rparr>) r')
                else (resetATTimeoutWatchdog m, p, Answered (Inr ''> '')))
      else if isURC line then
        (let m1 = handleURC gsm7 m line
         in if pure_async line then (m1, p, Waiting req r)
            else collect_line m1 p r line (\<lambda>r'. (m1, p, Waiting req r')))
      else collect_line m p r line (\<lambda>r'. (m, p, Waiting req r')))"

fun on_input ::
  "(byte list \<Rightarrow> string option) \<Rightarrow> 'p port_write \<Rightarrow> at_manager \<Rightarrow> 'p \<Rightarrow> commandRequest \<Rightarrow>
   string list \<times> nat \<Rightarrow> at_input \<Rightarrow> at_manager \<times> 'p \<times> at_outcome" where
  "on_input gsm7 wr m p req r (Line line) = on_line gsm7 wr m p req r line"
| "on_input gsm7 wr m p req r (ReadError e) = (handleFatalSerialRuntimeErr e m, p, Answered (Inl (ReadFailed e)))"
| "on_input gsm7 wr m p req r TimerFired = on_timeout wr m p req"

text \<open>\<^verbatim>\<open>handleCommand\<close> on the inputs that arrive while it runs: the answer and the inputs that are left, or
  \<open>None\<close> while it still waits.\<close>

fun await ::
  "(byte list \<Rightarrow> string option) \<Rightarrow> 'p port_write \<Rightarrow> at_manager \<times> 'p \<times> at_outcome \<Rightarrow> at_input list \<Rightarrow>
   (at_manager \<times> 'p \<times> (at_failure + string) \<times> at_input list) option" where
  "await gsm7 wr (m, p, Answered a) ins = Some (m, p, a, ins)"
| "await gsm7 wr (m, p, Waiting req r) [] = None"
| "await gsm7 wr (m, p, Waiting req r) (i # ins) = await gsm7 wr (on_input gsm7 wr m p req r i) ins"

definition handleCommand ::
  "(byte list \<Rightarrow> string option) \<Rightarrow> 'p port_write \<Rightarrow> at_manager \<Rightarrow> 'p \<Rightarrow> commandRequest \<Rightarrow> at_input list \<Rightarrow>
   (at_manager \<times> 'p \<times> (at_failure + string) \<times> at_input list) option" where
  "handleCommand gsm7 wr m p req ins = await gsm7 wr (begin_at_command wr m p req) ins"

subsection \<open>The reader and the loop\<close>

text \<open>One call of \<^verbatim>\<open>Read\<close> of the port: bytes, the end of the file, or another error with its text.\<close>

datatype port_read = ReadBytes string | ReadEOF | ReadFault string

record at_reader =
  rd_parser :: atStreamParser
  rd_eof :: nat
  rd_alive :: bool

definition eof_text :: "nat \<Rightarrow> string" where
  "eof_text n = string_of_runes [36830, 32493, 32] @ decimal n @ string_of_runes [32, 27425, 32, 69, 79, 70, 65292, 21028, 23450, 35774, 22791, 24050, 26029, 24320]"

definition limit_text :: string where
  "limit_text = ''AT response line exceeds limit''"

definition read_step ::
  "at_manager \<Rightarrow> at_reader \<Rightarrow> port_read \<Rightarrow> at_manager \<times> at_reader \<times> at_input list" where
  "read_step m rd x =
     (case x of
        ReadFault e \<Rightarrow>
          if contains_sub e ''timeout'' \<or> contains_sub e ''multiple Read calls return no data'' then (m, rd, [])
          else (m, rd\<lparr>rd_eof := 0, rd_alive := False\<rparr>, [ReadError e])
      | ReadEOF \<Rightarrow>
          let n = rd_eof rd + 1
          in if 30 \<le> n then (m, rd\<lparr>rd_eof := n, rd_alive := False\<rparr>, [ReadError (eof_text n)])
             else (m, rd\<lparr>rd_eof := n\<rparr>, [])
      | ReadBytes bs \<Rightarrow>
          if bs = [] then (m, rd, [])
          else case Feed (rd_parser rd) bs of
            (q, Inl _) \<Rightarrow>
              (quarantineATResponseStream m, rd\<lparr>rd_parser := q, rd_eof := 0, rd_alive := False\<rparr>, [ReadError limit_text])
          | (q, Inr ls) \<Rightarrow> (m, rd\<lparr>rd_parser := q, rd_eof := 0\<rparr>, map Line ls))"

text \<open>What the loop does with an input while no command runs; the flag says whether it goes on.\<close>

definition idle_input ::
  "(byte list \<Rightarrow> string option) \<Rightarrow> at_manager \<Rightarrow> at_input \<Rightarrow> at_manager \<times> bool" where
  "idle_input gsm7 m x =
     (case x of
        Line l \<Rightarrow> (if isURC l then handleURC gsm7 m l else m, True)
      | ReadError e \<Rightarrow> (notifyDisconnect ''serial_read_error'' (StopManager m), False)
      | TimerFired \<Rightarrow> (m, True))"

record 'p at_world =
  aw_m :: at_manager
  aw_port :: 'p
  aw_reader :: at_reader
  aw_rx :: "at_input list"
  aw_high :: "commandRequest list"
  aw_normal :: "commandRequest list"
  aw_busy :: "(commandRequest \<times> string list \<times> nat) option"
  aw_loop :: bool
  aw_started :: "nat list"
  aw_answers :: "(nat \<times> (at_failure + string)) list"

definition settle :: "'p at_world \<Rightarrow> nat \<Rightarrow> at_manager \<times> 'p \<times> at_outcome \<Rightarrow> 'p at_world" where
  "settle w i x =
     (case x of
        (m, p, Answered a) \<Rightarrow> w\<lparr>aw_m := m, aw_port := p, aw_busy := None, aw_answers := aw_answers w @ [(i, a)]\<rparr>
      | (m, p, Waiting req r) \<Rightarrow> w\<lparr>aw_m := m, aw_port := p, aw_busy := Some (req, r)\<rparr>)"

definition start_command :: "'p port_write \<Rightarrow> 'p at_world \<Rightarrow> commandRequest \<Rightarrow> 'p at_world" where
  "start_command wr w req =
     settle (w\<lparr>aw_started := aw_started w @ [requestID req]\<rparr>) (requestID req)
       (begin_at_command wr (aw_m w) (aw_port w) req)"

definition known_ids :: "'p at_world \<Rightarrow> nat set" where
  "known_ids w = requestID ` (set (aw_high w) \<union> set (aw_normal w)) \<union> set (aw_started w)"

text \<open>The steps of the goroutines.  A request enters its queue when there is room (5 of high priority, 10
  others); the loop prefers the high queue; otherwise Go's \<^verbatim>\<open>select\<close> takes any case that is ready.
  The timer of a command may fire at any time.\<close>

inductive at_step ::
  "(byte list \<Rightarrow> string option) \<Rightarrow> 'p port_write \<Rightarrow> 'p at_world \<Rightarrow> 'p at_world \<Rightarrow> bool"
  for gsm7 :: "byte list \<Rightarrow> string option" and wr :: "'p port_write"
where
  submit_high: "\<lbrakk> highPriority req; length (aw_high w) < 5; requestID req \<notin> known_ids w \<rbrakk> \<Longrightarrow>
     at_step gsm7 wr w (w\<lparr>aw_high := aw_high w @ [req]\<rparr>)"
| submit_normal: "\<lbrakk> \<not> highPriority req; length (aw_normal w) < 10; requestID req \<notin> known_ids w \<rbrakk> \<Longrightarrow>
     at_step gsm7 wr w (w\<lparr>aw_normal := aw_normal w @ [req]\<rparr>)"
| start_high: "\<lbrakk> aw_loop w; aw_busy w = None; aw_high w = req # hs \<rbrakk> \<Longrightarrow>
     at_step gsm7 wr w (start_command wr (w\<lparr>aw_high := hs\<rparr>) req)"
| start_normal: "\<lbrakk> aw_loop w; aw_busy w = None; aw_high w = []; aw_normal w = req # ns \<rbrakk> \<Longrightarrow>
     at_step gsm7 wr w (start_command wr (w\<lparr>aw_normal := ns\<rparr>) req)"
| idle: "\<lbrakk> aw_loop w; aw_busy w = None; aw_high w = []; aw_rx w = x # xs; idle_input gsm7 (aw_m w) x = (m, on) \<rbrakk> \<Longrightarrow>
     at_step gsm7 wr w (w\<lparr>aw_rx := xs, aw_m := m, aw_loop := on\<rparr>)"
| busy: "\<lbrakk> aw_busy w = Some (req, r); aw_rx w = x # xs \<rbrakk> \<Longrightarrow>
     at_step gsm7 wr w (settle (w\<lparr>aw_rx := xs\<rparr>) (requestID req) (on_input gsm7 wr (aw_m w) (aw_port w) req r x))"
| timer: "aw_busy w = Some (req, r) \<Longrightarrow>
     at_step gsm7 wr w (settle w (requestID req) (on_input gsm7 wr (aw_m w) (aw_port w) req r TimerFired))"
| read: "\<lbrakk> rd_alive (aw_reader w); read_step (aw_m w) (aw_reader w) x = (m, rd, ins) \<rbrakk> \<Longrightarrow>
     at_step gsm7 wr w (w\<lparr>aw_m := m, aw_reader := rd, aw_rx := aw_rx w @ ins\<rparr>)"
| read_cut: "\<lbrakk> rd_alive (aw_reader w); am_stopped (aw_m w); read_step (aw_m w) (aw_reader w) x = (m, rd, ins) \<rbrakk> \<Longrightarrow>
     at_step gsm7 wr w (w\<lparr>aw_m := m, aw_reader := rd\<lparr>rd_alive := False\<rparr>, aw_rx := aw_rx w @ take k ins\<rparr>)"
| reader_ends: "am_stopped (aw_m w) \<Longrightarrow>
     at_step gsm7 wr w (w\<lparr>aw_reader := (aw_reader w)\<lparr>rd_alive := False\<rparr>\<rparr>)"
| loop_ends: "\<lbrakk> am_stopped (aw_m w); aw_busy w = None \<rbrakk> \<Longrightarrow> at_step gsm7 wr w (w\<lparr>aw_loop := False\<rparr>)"
| stop: "at_step gsm7 wr w (w\<lparr>aw_m := StopManager (aw_m w)\<rparr>)"
| session_bound: "at_step gsm7 wr w (w\<lparr>aw_m := bindAPDUSession ch ow cl now (aw_m w)\<rparr>)"
| session_taken: "at_step gsm7 wr w (w\<lparr>aw_m := fst (takeAPDUSession ch (aw_m w))\<rparr>)"
| subscribe: "at_step gsm7 wr w (w\<lparr>aw_m := fst (SubscribeRDY (aw_m w))\<rparr>)"
| ussd_taken: "at_step gsm7 wr w (w\<lparr>aw_m := (aw_m w)\<lparr>am_ussd := None\<rparr>\<rparr>)"
| flow_opened: "am_qpcmv (aw_m w) = None \<Longrightarrow> at_step gsm7 wr w (w\<lparr>aw_m := (aw_m w)\<lparr>am_qpcmv := Some []\<rparr>\<rparr>)"
| flow_taken: "am_qpcmv (aw_m w) = Some (v # vs) \<Longrightarrow> at_step gsm7 wr w (w\<lparr>aw_m := (aw_m w)\<lparr>am_qpcmv := Some vs\<rparr>\<rparr>)"
| callbacks_set: "at_step gsm7 wr w (w\<lparr>aw_m := (aw_m w)\<lparr>am_callbacks := cb\<rparr>\<rparr>)"

text \<open>A manager that \<^verbatim>\<open>Start\<close> has just opened.\<close>

definition fresh_manager :: "at_callbacks \<Rightarrow> at_manager" where
  "fresh_manager cb =
     \<lparr> am_quarantined = False, am_healthy = True, am_running = True, am_stopped = False, am_streak = 0,
       am_sessions = Map.empty, am_rdy_subs = [], am_rdy_closed = [], am_rdy_next = 0, am_ussd = None,
       am_qpcmv = None, am_callbacks = cb, am_calls = [] \<rparr>"

definition started_world :: "at_callbacks \<Rightarrow> 'p \<Rightarrow> 'p at_world" where
  "started_world cb p =
     \<lparr> aw_m = markATResponseStreamReady (fresh_manager cb), aw_port = p,
       aw_reader = \<lparr> rd_parser = newATStreamParser (int defaultATMaxLineBytes), rd_eof = 0, rd_alive = True \<rparr>,
       aw_rx = [], aw_high = [], aw_normal = [], aw_busy = None, aw_loop = True, aw_started = [], aw_answers = [] \<rparr>"

inductive at_reachable ::
  "(byte list \<Rightarrow> string option) \<Rightarrow> 'p port_write \<Rightarrow> 'p at_world \<Rightarrow> bool"
  for gsm7 :: "byte list \<Rightarrow> string option" and wr :: "'p port_write"
where
  started: "at_reachable gsm7 wr (started_world cb p)"
| next_state: "\<lbrakk> at_reachable gsm7 wr w; at_step gsm7 wr w w' \<rbrakk> \<Longrightarrow> at_reachable gsm7 wr w'"

subsection \<open>What the operations keep\<close>

text \<open>The part of the state that unsolicited lines cannot touch.\<close>

definition at_mode :: "at_manager \<Rightarrow> bool \<times> bool \<times> bool \<times> bool \<times> nat" where
  "at_mode m = (am_quarantined m, am_healthy m, am_running m, am_stopped m, am_streak m)"

named_theorems at_mode_simps

lemma start_call_mode [at_mode_simps]: "at_mode (start_call c m) = at_mode m"
  by (simp add: start_call_def at_mode_def)

lemma dispatch_modes [at_mode_simps]:
  "at_mode (dispatchRDY m) = at_mode m"
  "at_mode (dispatchSIMStatusURC i st m) = at_mode m"
  "at_mode (dispatch_cusd g fs m) = at_mode m"
  "at_mode (dispatch_cmti fr m) = at_mode m"
  "at_mode (dispatch_qpcmv l m) = at_mode m"
  by (simp_all add: dispatchRDY_def dispatchSIMStatusURC_def dispatch_cusd_def dispatch_cmti_def dispatch_qpcmv_def
      start_call_def at_mode_def Let_def split: option.split)

lemma handleURC_mode [at_mode_simps]: "at_mode (handleURC g m l) = at_mode m"
  by (simp add: handleURC_def Let_def at_mode_simps)

lemma notifyDisconnect_mode [at_mode_simps]: "at_mode (notifyDisconnect r m) = at_mode m"
  by (simp add: notifyDisconnect_def Let_def at_mode_simps)

lemma session_modes [at_mode_simps]:
  "at_mode (bindAPDUSession ch ow cl now m) = at_mode m"
  "at_mode (fst (takeAPDUSession ch m)) = at_mode m"
  "at_mode (fst (SubscribeRDY m)) = at_mode m"
  by (simp_all add: bindAPDUSession_def takeAPDUSession_def SubscribeRDY_def at_mode_def)

text \<open>A quarantined stream stays so, and at most one timeout counts: it quarantines the stream.\<close>

definition mode_ok :: "at_manager \<Rightarrow> bool" where
  "mode_ok m \<longleftrightarrow> am_streak m \<le> 1 \<and> (am_streak m = 1 \<longrightarrow> am_quarantined m) \<and> (am_quarantined m \<longrightarrow> \<not> am_healthy m)"

lemma mode_ok_eq: "at_mode m = at_mode m' \<Longrightarrow> mode_ok m = mode_ok m'"
  by (simp add: at_mode_def mode_ok_def)

lemma quarantined_eq: "at_mode m = at_mode m' \<Longrightarrow> am_quarantined m = am_quarantined m'"
  by (simp add: at_mode_def)

lemmas mode_ok_urc [simp] =
  handleURC_mode [THEN mode_ok_eq] notifyDisconnect_mode [THEN mode_ok_eq]
  session_modes [THEN mode_ok_eq]

lemmas quarantined_urc [simp] =
  handleURC_mode [THEN quarantined_eq] notifyDisconnect_mode [THEN quarantined_eq]
  session_modes [THEN quarantined_eq]

lemma StopManager_mode [simp]:
  "mode_ok (StopManager m) = mode_ok m" "am_quarantined (StopManager m) = am_quarantined m"
  by (simp_all add: StopManager_def releaseAllAPDULeases_def mode_ok_def)

lemma fail_and_notify_mode [simp]:
  "mode_ok m \<Longrightarrow> mode_ok (fail_and_notify r m)" "am_quarantined (fail_and_notify r m) = am_quarantined m"
  by (simp_all add: fail_and_notify_def) (simp add: mode_ok_def)

lemma handleFatal_mode [simp]:
  "mode_ok m \<Longrightarrow> mode_ok (handleFatalSerialRuntimeErr e m)"
  "am_quarantined (handleFatalSerialRuntimeErr e m) = am_quarantined m"
  by (simp_all add: handleFatalSerialRuntimeErr_def)

lemma reset_mode [simp]:
  "mode_ok m \<Longrightarrow> mode_ok (resetATTimeoutWatchdog m)"
  "am_quarantined (resetATTimeoutWatchdog m) = am_quarantined m"
  by (simp_all add: resetATTimeoutWatchdog_def mode_ok_def)

lemma quarantine_mode [simp]:
  "mode_ok m \<Longrightarrow> mode_ok (quarantineATResponseStream m)" "am_quarantined (quarantineATResponseStream m)"
  by (simp_all add: quarantineATResponseStream_def mode_ok_def)

subsection \<open>Ordinary answers\<close>









text \<open>Property C38: A line of an answer that contains \<open>>\<close>, anywhere, ends the command with the answer
  \<open>> \<close>.  The stream is not quarantined, so the \<open>OK\<close> of that command answers the next one: it succeeds with
  an empty answer before the modem has said anything about it.\<close>

theorem prompt_in_answer_shifts_answers:
  assumes "\<not> am_quarantined m" and "wr p (cr_cmd a @ CRLF) = (p1, None)" and "wr p1 (cr_cmd b @ CRLF) = (p2, None)"
    and "\<not> interactive a" and "l \<noteq> ''OK''" and "\<not> contains_sub l ''ERROR''" and "contains_sub l ''>''"
    and "length l \<le> defaultATMaxLineBytes"
  shows "\<exists>m1. handleCommand g wr m p a [Line l, Line ''OK''] = Some (m1, p1, Inr ''> '', [Line ''OK'']) \<and>
    (\<exists>m2. handleCommand g wr m1 p1 b [Line ''OK''] = Some (m2, p2, Inr [], []))"
proof -
  have "appendATResponseLine ([], 0) l = Inr ([l], length l)"
    using assms(8) by (simp add: appendATResponseLine_def)
  then show ?thesis
    using assms by (simp add: handleCommand_def begin_at_command_def on_line_def collect_line_def)
qed

subsection \<open>Every reachable state\<close>

lemma streak_eq: "at_mode m = at_mode m' \<Longrightarrow> am_streak m = am_streak m'"
  by (simp add: at_mode_def)

lemmas streak_urc [simp] =
  handleURC_mode [THEN streak_eq] notifyDisconnect_mode [THEN streak_eq] session_modes [THEN streak_eq]

lemma streak_stop [simp]: "am_streak (StopManager m) = am_streak m"
  by (simp add: StopManager_def releaseAllAPDULeases_def)

lemma streak_others [simp]:
  "am_streak (resetATTimeoutWatchdog m) = 0" "am_streak (quarantineATResponseStream m) = am_streak m"
  "am_streak (handleFatalSerialRuntimeErr e m) = am_streak m"
  by (simp_all add: resetATTimeoutWatchdog_def quarantineATResponseStream_def handleFatalSerialRuntimeErr_def
      fail_and_notify_def)

text \<open>While a command runs no timeout is counted; a timeout ends the command and quarantines the stream.\<close>

definition streak_ok :: "'p at_world \<Rightarrow> bool" where
  "streak_ok w \<longleftrightarrow> mode_ok (aw_m w) \<and> (aw_busy w \<noteq> None \<longrightarrow> am_streak (aw_m w) = 0)"

definition outcome_ok :: "at_manager \<times> 'p \<times> at_outcome \<Rightarrow> bool" where
  "outcome_ok x \<longleftrightarrow> (case x of (m, p, Answered a) \<Rightarrow> mode_ok m | (m, p, Waiting req r) \<Rightarrow> mode_ok m \<and> am_streak m = 0)"

lemma settle_ok: "outcome_ok x \<Longrightarrow> streak_ok (settle w i x)"
  by (auto simp: outcome_ok_def settle_def streak_ok_def split: at_outcome.splits)

lemma begin_ok: "mode_ok m \<Longrightarrow> outcome_ok (begin_at_command wr m p req)"
  by (auto simp: begin_at_command_def outcome_ok_def mode_ok_def le_Suc_eq split: prod.splits option.splits)

lemma line_ok: "mode_ok m \<Longrightarrow> am_streak m = 0 \<Longrightarrow> outcome_ok (on_line g wr m p req r l)"
  by (simp add: on_line_def collect_line_def outcome_ok_def Let_def split: sum.split)

lemma timeout_ok:
  assumes "mode_ok m" and "am_streak m = 0"
  shows "outcome_ok (on_timeout wr m p req)"
  using assms
  by (simp add: on_timeout_def recordATTimeout_def quarantineATResponseStream_def outcome_ok_def mode_ok_def)

lemma input_ok: "mode_ok m \<Longrightarrow> am_streak m = 0 \<Longrightarrow> outcome_ok (on_input g wr m p req r x)"
  by (cases x) (simp_all add: line_ok timeout_ok, simp add: outcome_ok_def)

lemma idle_ok: "mode_ok m \<Longrightarrow> idle_input g m x = (m', on) \<Longrightarrow> mode_ok m' \<and> am_streak m' = am_streak m"
  by (auto simp: idle_input_def split: at_input.splits)

lemma read_ok: "mode_ok m \<Longrightarrow> read_step m rd x = (m', rd', ins) \<Longrightarrow> mode_ok m' \<and> am_streak m' = am_streak m"
  by (auto simp: read_step_def Let_def split: port_read.splits if_splits prod.splits sum.splits)

lemma mode_ok_updates [simp]:
  "mode_ok (m\<lparr>am_ussd := u\<rparr>) = mode_ok m" "mode_ok (m\<lparr>am_qpcmv := q\<rparr>) = mode_ok m"
  "mode_ok (m\<lparr>am_callbacks := cb\<rparr>) = mode_ok m"
  by (simp_all add: mode_ok_def)

lemma start_ok: "mode_ok (aw_m w) \<Longrightarrow> streak_ok (start_command wr w req)"
  unfolding start_command_def by (rule settle_ok, rule begin_ok) simp

lemma step_streak_ok: "at_step g wr w w' \<Longrightarrow> streak_ok w \<Longrightarrow> streak_ok w'"
proof (induction rule: at_step.induct)
  case (start_high w req hs)
  then show ?case by (intro start_ok) (simp add: streak_ok_def)
next
  case (start_normal w req ns)
  then show ?case by (intro start_ok) (simp add: streak_ok_def)
next
  case (busy w req r x xs)
  then show ?case by (intro settle_ok input_ok) (simp_all add: streak_ok_def)
next
  case (timer w req r)
  then show ?case by (intro settle_ok input_ok) (simp_all add: streak_ok_def)
next
  case (idle w x xs m on)
  then show ?case using idle_ok [OF _ idle(5)] by (simp add: streak_ok_def)
next
  case (read w x m rd ins)
  then show ?case using read_ok [OF _ read(2)] by (simp add: streak_ok_def)
next
  case (read_cut w x m rd ins k)
  then show ?case using read_ok [OF _ read_cut(3)] by (simp add: streak_ok_def)
qed (simp_all add: streak_ok_def)

lemma reachable_streak_ok: "at_reachable g wr w \<Longrightarrow> streak_ok w"
proof (induction rule: at_reachable.induct)
  case (started cb p)
  show ?case by (simp add: streak_ok_def started_world_def markATResponseStreamReady_def fresh_manager_def mode_ok_def)
qed (rule step_streak_ok)

theorem timeout_watchdog_never_trips:
  "at_reachable g wr w \<Longrightarrow>
   am_streak (aw_m w) < atTimeoutWatchdogThreshold \<and> (am_quarantined (aw_m w) \<longrightarrow> \<not> IsHealthy (aw_m w))"
  using reachable_streak_ok [of g wr w] by (auto simp: streak_ok_def mode_ok_def IsHealthy_def)
















text \<open>The text of a lost port is none of those that stop the manager: when the port goes away while a
  command runs, the command fails and nothing else happens, and the reader is gone.\<close>

lemma eof_not_fatal: "\<not> isFatalSerialRuntimeErr (eof_text 30)"
  by code_simp

theorem lost_port_unnoticed_by_a_command:
  assumes "rd_eof rd = 29" and "read_step m rd ReadEOF = (m', rd', ins)"
  shows "\<not> rd_alive rd' \<and> ins = [ReadError (eof_text 30)] \<and>
    on_input g wr m' p req r (hd ins) = (m, p, Answered (Inl (ReadFailed (eof_text 30))))"
  using assms eof_not_fatal by (auto simp: read_step_def Let_def handleFatalSerialRuntimeErr_def)

text \<open>In the idle loop the same error stops the manager and reports the disconnection.\<close>

lemma lost_port_noticed_when_idle:
  "idle_input g m (ReadError e) = (notifyDisconnect ''serial_read_error'' (StopManager m), False)"
  by (simp add: idle_input_def)

text \<open>The callback for an answered outgoing call is behind keys that no line accepted as unsolicited
  has.\<close>

lemma key_of_urc: "isURC l \<Longrightarrow> urcKey l \<noteq> ''CONNECT'' \<and> urcKey l \<noteq> ''MO CONNECTED''"
proof -
  assume "isURC l"
  then have "prefix ''+'' (TrimSpace l) \<or> prefix ''^'' (TrimSpace l) \<or> prefix ''$'' (TrimSpace l) \<or>
      TrimSpace l \<in> set urc_events"
    by (simp add: isURC_def Let_def)
  then show ?thesis
    by (elim disjE) (auto simp: urcKey_def urc_events_def Let_def prefix_def)
qed

subsection \<open>Answers that look unsolicited\<close>



text \<open>An unsolicited registration line has the status first; the code takes the second field.\<close>

lemma unsolicited_registration_misread:
  "map_of (urc_fields (formatURC ''+CREG: 5'')) ''stat'' = Some (UInt (- 1))"
  "map_of (urc_fields (formatURC (''+CREG: 5,'' @ quoted ''1A2B'' @ '','' @ quoted ''00C3D4E5''))) ''stat'' = Some (UInt 1)"
  by code_simp+

subsection \<open>Examples\<close>

definition ok_port :: "unit port_write" where
  "ok_port p t = (p, None)"

definition no_callbacks :: at_callbacks where
  "no_callbacks =
     \<lparr> cb_sim = False, cb_new_sms = False, cb_disable_read = False, cb_ring = False, cb_hangup = False,
       cb_connect = False, cb_clip = False, cb_disconnect_reason = False, cb_disconnect = False \<rparr>"

definition demo_request :: "nat \<Rightarrow> string \<Rightarrow> commandRequest" where
  "demo_request i c =
     \<lparr> requestID = i, cr_cmd = c, highPriority = False, interactive = False, waitPrompt = False,
       followUp = [], cancelSequence = [] \<rparr>"


theorem prompt_in_answer_shifts_answers_witness:
  "\<exists>m1. handleCommand (\<lambda>_. None) ok_port (fresh_manager no_callbacks) () (demo_request 0 ''AT+COPS?'')
      [Line ''+COPS: 0,0,A>B,7'', Line ''OK''] = Some (m1, (), Inr ''> '', [Line ''OK'']) \<and>
    (\<exists>m2. handleCommand (\<lambda>_. None) ok_port m1 () (demo_request 1 ''AT+CSQ'') [Line ''OK''] = Some (m2, (), Inr [], []))"
proof (rule prompt_in_answer_shifts_answers)
  show "\<not> am_quarantined (fresh_manager no_callbacks)" by (simp add: fresh_manager_def)
  show "\<not> contains_sub ''+COPS: 0,0,A>B,7'' ''ERROR''" "contains_sub ''+COPS: 0,0,A>B,7'' ''>''" by code_simp+
qed (simp_all add: ok_port_def demo_request_def)




end
