(* ===== verification/SimMetadata.thy ===== *)
theory SimMetadata
  imports AtParse
begin

section \<open>Files of the SIM that name the operator\<close>

text \<open>
  \<^verbatim>\<open>internal/modem/spn.go\<close> and \<^verbatim>\<open>internal/modem/sim_metadata.go\<close>: the contents of EF_SPN, EF_PNN,
  EF_OPL, EF_UST, EF_GID1 and EF_AD.  The GSM 7-bit alphabet is the business of the
  \<^verbatim>\<open>warthog618/sms\<close> package: \<open>gsm7\<close> is its \<^verbatim>\<open>gsm7.Decode\<close> (\<open>None\<close> an error), one septet in each
  byte.  An error is \<open>None\<close> where the callers only ask whether there was one.
\<close>

subsection \<open>Names\<close>

text \<open>\<^verbatim>\<open>trimSPNPadding\<close> and \<^verbatim>\<open>trimSIMPadding\<close> are the same function.\<close>

definition padding_byte :: "byte \<Rightarrow> bool" where
  "padding_byte b \<longleftrightarrow> b = 0xFF \<or> b = 0x00"

definition trimSIMPadding :: "byte list \<Rightarrow> byte list" where
  "trimSIMPadding data = rev (dropWhile padding_byte (rev data))"

fun big_endian_units :: "byte list \<Rightarrow> nat list" where
  "big_endian_units (a # b # bs) = (unat a * 256 + unat b) # big_endian_units bs"
| "big_endian_units bs = []"

definition decodeSPNUCS2 :: "byte list \<Rightarrow> string option" where
  "decodeSPNUCS2 bs =
     (let data = trimSIMPadding bs
      in if data = [] then None
         else if length data mod 2 \<noteq> 0 then None
         else Some (string_of_runes (utf16_decode (big_endian_units data))))"

definition utf8_valid :: "string \<Rightarrow> bool" where
  "utf8_valid s \<longleftrightarrow> string_of_runes (runes s) = s"

definition decodeSPNGSM :: "(byte list \<Rightarrow> string option) \<Rightarrow> byte list \<Rightarrow> string option" where
  "decodeSPNGSM gsm7 data =
     (case gsm7 data of None \<Rightarrow> None | Some s \<Rightarrow> if utf8_valid s then Some s else None)"

text \<open>The characters of a compressed name; a pointer into the upper half is added to the base as a
  16-bit number.\<close>

fun compressed_text :: "(byte list \<Rightarrow> string option) \<Rightarrow> u16 \<Rightarrow> byte list \<Rightarrow> string option" where
  "compressed_text gsm7 base [] = Some []"
| "compressed_text gsm7 base (c # cs) =
     (case (if c < 0x80 then decodeSPNGSM gsm7 [c]
            else Some (encode_rune (unat (base + of_nat (unat (c AND 0x7F)))))) of
        None \<Rightarrow> None
      | Some s \<Rightarrow> map_option ((@) s) (compressed_text gsm7 base cs))"

definition decodeSPNCompressedUCS2 :: "(byte list \<Rightarrow> string option) \<Rightarrow> byte list \<Rightarrow> nat \<Rightarrow> string option" where
  "decodeSPNCompressedUCS2 gsm7 data baseBytes =
     (if length data < 2 + baseBytes then None
      else let payload = take (unat (data ! 1)) (drop (2 + baseBytes) data);
               base = (if baseBytes = 1 then push_bit 7 (of_nat (unat (data ! 2))) else get16 [data ! 2, data ! 3])
           in compressed_text gsm7 base payload)"

definition isPrintableASCII :: "byte list \<Rightarrow> bool" where
  "isPrintableASCII data \<longleftrightarrow> data \<noteq> [] \<and> list_all (\<lambda>b. 0x20 \<le> b \<and> b \<le> 0x7E) data"

definition ascii_text :: "byte list \<Rightarrow> string" where
  "ascii_text data = map (\<lambda>b. byte_char (unat b)) data"

text \<open>A name by its first byte; the ASCII text is passed through \<open>f\<close>.\<close>

definition decode_alpha ::
  "(byte list \<Rightarrow> string option) \<Rightarrow> (string \<Rightarrow> string) \<Rightarrow> byte list \<Rightarrow> string option" where
  "decode_alpha gsm7 f name =
     (if name ! 0 = 0x80 then decodeSPNUCS2 (drop 1 name)
      else if name ! 0 = 0x81 then decodeSPNCompressedUCS2 gsm7 name 1
      else if name ! 0 = 0x82 then decodeSPNCompressedUCS2 gsm7 name 2
      else if isPrintableASCII name then Some (f (ascii_text name))
      else decodeSPNGSM gsm7 name)"

definition without_nul :: "string \<Rightarrow> string" where
  "without_nul s = TrimSpace (filter (\<lambda>c. c \<noteq> byte_char 0) s)"

definition DecodeEFSPN :: "(byte list \<Rightarrow> string option) \<Rightarrow> byte list \<Rightarrow> string option" where
  "DecodeEFSPN gsm7 data =
     (if data = [] then None
      else let name = trimSIMPadding (if 1 < length data then drop 1 data else data)
           in if name = [] then None
              else case decode_alpha gsm7 (\<lambda>s. s) name of
                None \<Rightarrow> None
              | Some s \<Rightarrow> if without_nul s = [] then None else Some (without_nul s))"


subsection \<open>Network names\<close>

text \<open>The septets that are complete in the bits collected so far.\<close>

fun take_septets :: "nat \<Rightarrow> nat \<Rightarrow> nat \<Rightarrow> nat \<times> nat \<times> nat list" where
  "take_septets 0 bits buf = (bits, buf, [])"
| "take_septets (Suc n) bits buf =
     (if bits < 7 then (bits, buf, [])
      else case take_septets n (bits - 7) (buf div 128) of
        (bits', buf', ss) \<Rightarrow> (bits', buf', buf mod 128 # ss))"

fun unpack_septets :: "nat \<Rightarrow> nat \<Rightarrow> nat \<Rightarrow> byte list \<Rightarrow> nat list" where
  "unpack_septets n bits buf [] = []"
| "unpack_septets n bits buf (b # bs) =
     (case take_septets n (bits + 8) (buf + unat b * 2 ^ bits) of
        (bits', buf', ss) \<Rightarrow> ss @ unpack_septets (n - length ss) bits' buf' bs)"



subsection \<open>Records\<close>

definition simRawHex :: "byte list \<Rightarrow> string" where
  "simRawHex data = ToUpper (hex_encode (trimSIMPadding data))"


record OPLRecord =
  opl_record :: int
  opl_plmn :: string
  LACStart :: u16
  LACEnd :: u16
  opl_pnn :: int
  opl_raw :: string

record SIMServiceTable =
  st_kind :: string
  st_raw :: string
  EnabledServices :: "nat list"







fun plmn_digits :: "byte list \<Rightarrow> string option" where
  "plmn_digits [] = Some []"
| "plmn_digits (n # ns) =
     (if n = 0x0F then map_option ((#) CHR ''x'') (plmn_digits ns)
      else if 9 < n then None
      else map_option ((#) (byte_char (48 + unat n))) (plmn_digits ns))"

definition decodeOPLPLMN :: "byte list \<Rightarrow> string" where
  "decodeOPLPLMN data =
     (if length data < 3 then []
      else case plmn_digits [data ! 0 AND 0x0F, drop_bit 4 (data ! 0), data ! 1 AND 0x0F,
                             data ! 2 AND 0x0F, drop_bit 4 (data ! 2), drop_bit 4 (data ! 1)] of
        None \<Rightarrow> []
      | Some s \<Rightarrow> rev (dropWhile (\<lambda>c. c = CHR ''x'') (rev s)))"

definition DecodeOPLRecord :: "int \<Rightarrow> byte list \<Rightarrow> OPLRecord option" where
  "DecodeOPLRecord n bs =
     (let raw = simRawHex bs; data = trimSIMPadding bs
      in if length data < 8 then None
         else let out = \<lparr> opl_record = n, opl_plmn = decodeOPLPLMN (take 3 data),
                          LACStart = get16 [data ! 3, data ! 4], LACEnd = get16 [data ! 5, data ! 6],
                          opl_pnn = int (unat (data ! 7)), opl_raw = raw \<rparr>
              in if opl_plmn out \<noteq> [] \<or> opl_raw out \<noteq> [] then Some out else None)"

definition NativeMCCMNCFromOPLRecords :: "OPLRecord list \<Rightarrow> (string \<times> string) option" where
  "NativeMCCMNCFromOPLRecords rs =
     map_option (\<lambda>p. (take 3 p, drop 3 p))
       (find (\<lambda>p. (length p = 5 \<or> length p = 6) \<and> list_all is_digit p) (map (\<lambda>r. TrimSpace (opl_plmn r)) rs))"

definition enabled_bits :: "nat \<times> byte \<Rightarrow> nat list" where
  "enabled_bits x = (case x of (i, b) \<Rightarrow> map (\<lambda>k. i * 8 + k + 1) (filter (\<lambda>k. b AND push_bit k 1 \<noteq> 0) [0 ..< 8]))"

definition DecodeSIMServiceTable :: "string \<Rightarrow> byte list \<Rightarrow> SIMServiceTable option" where
  "DecodeSIMServiceTable kind bs =
     (let data = trimSIMPadding bs
      in if data = [] then None
         else Some \<lparr> st_kind = kind, st_raw = simRawHex bs,
                     EnabledServices = concat (map enabled_bits (enumerate 0 data)) \<rparr>)"

subsection \<open>The home network\<close>

definition MNCLengthFromEFAD :: "byte list \<Rightarrow> nat option" where
  "MNCLengthFromEFAD efAD =
     (if length efAD < 4 then None
      else if efAD ! 3 = 2 \<or> efAD ! 3 = 3 then Some (unat (efAD ! 3)) else None)"

definition three_digit_mcc :: "string list" where
  "three_digit_mcc =
     [''302'', ''308'',
      ''310'', ''311'', ''312'', ''313'', ''314'', ''315'', ''316'', ''332'', ''318'', ''319'', ''334'', ''350'',
      ''338'', ''348'', ''342'', ''344'', ''346'', ''354'', ''356'', ''358'', ''360'', ''362'', ''364'', ''365'',
      ''366'', ''368'', ''370'', ''372'', ''374'', ''376'',
      ''405'', ''406'',
      ''716'', ''722'', ''730'', ''732'', ''736'', ''740'', ''744'', ''746'', ''748'', ''750'']"

definition parseMCCMNCFromIMSI :: "string \<Rightarrow> string \<times> string" where
  "parseMCCMNCFromIMSI s =
     (let imsi = TrimSpace s
      in if length imsi < 5 then ([], [])
         else let mcc = take 3 imsi; n = (if mcc \<in> set three_digit_mcc then 3 else 2)
              in (mcc, take n (drop 3 imsi)))"

datatype plmn_source = IMSI_EFAD | IMSIHeuristic

datatype plmn_error = IMSITooShort | MNCLengthMismatch | NoMCCMNC

definition HomeMCCMNCFromIMSIAndEFAD ::
  "string \<Rightarrow> byte list \<Rightarrow> plmn_error + string \<times> string \<times> nat \<times> plmn_source" where
  "HomeMCCMNCFromIMSIAndEFAD s efAD =
     (let imsi = TrimSpace s
      in if length imsi < 5 then Inl IMSITooShort
         else case MNCLengthFromEFAD efAD of
           Some n \<Rightarrow>
             if length imsi < 3 + n then Inl MNCLengthMismatch
             else Inr (take 3 imsi, take n (drop 3 imsi), n, IMSI_EFAD)
         | None \<Rightarrow>
             (case parseMCCMNCFromIMSI imsi of
                (mcc, mnc) \<Rightarrow>
                  if mcc = [] \<or> mnc = [] then Inl NoMCCMNC
                  else Inr (mcc, mnc, length mnc, IMSIHeuristic)))"

subsection \<open>Padding\<close>

lemma trim_padding [simp]: "trimSIMPadding (xs @ replicate k 0xFF) = trimSIMPadding xs"
  by (simp add: trimSIMPadding_def dropWhile_append padding_byte_def)

lemma trim_snoc: "trimSIMPadding (xs @ [b]) = (if padding_byte b then trimSIMPadding xs else xs @ [b])"
  by (simp add: trimSIMPadding_def)

lemma trim_last: "xs = [] \<or> \<not> padding_byte (last xs) \<Longrightarrow> trimSIMPadding xs = xs"
  by (cases xs rule: rev_cases) (auto simp: trim_snoc trimSIMPadding_def)

subsection \<open>Names in UCS2\<close>

definition ucs2_bytes :: "nat list \<Rightarrow> byte list" where
  "ucs2_bytes us = concat (map (be_bytes 2) us)"

lemma ucs2_bytes_simps [simp]:
  "ucs2_bytes [] = []" "ucs2_bytes (u # us) = of_nat (u div 256) # of_nat u # ucs2_bytes us"
  "ucs2_bytes (us @ vs) = ucs2_bytes us @ ucs2_bytes vs"
  by (simp_all add: ucs2_bytes_def be_bytes_2)

lemma length_ucs2 [simp]: "length (ucs2_bytes us) = 2 * length us"
  by (induction us) simp_all

lemma ucs2_bytes_Nil [simp]: "ucs2_bytes us = [] \<longleftrightarrow> us = []"
  by (cases us) simp_all

lemma units_of_bytes: "\<forall>u \<in> set us. u < 65536 \<Longrightarrow> big_endian_units (ucs2_bytes us) = us"
proof (induction us)
  case (Cons u us)
  then have "u div 256 < 256" by auto
  moreover have "(u div 256) * 256 + u mod 256 = u" by (rule div_mult_mod_eq)
  ultimately show ?case using Cons by simp
qed simp

definition padding_low :: "nat \<Rightarrow> bool" where
  "padding_low u \<longleftrightarrow> u mod 256 = 0 \<or> u mod 256 = 255"

lemma padding_of_nat: "padding_byte (of_nat n) \<longleftrightarrow> padding_low n"
proof -
  have "(of_nat n :: byte) = 0xFF \<longleftrightarrow> n mod 256 = 255" and "(of_nat n :: byte) = 0 \<longleftrightarrow> n mod 256 = 0"
    by (simp_all only: word_unat_eq_iff unat_of_nat_byte) simp_all
  then show ?thesis by (auto simp: padding_byte_def padding_low_def)
qed

theorem ucs2_name_round_trip:
  assumes "list_all valid_rune rs" and "rs \<noteq> []" and "\<not> padding_low (last (utf16_encode rs))"
  shows "decodeSPNUCS2 (ucs2_bytes (utf16_encode rs) @ replicate k 0xFF) = Some (string_of_runes rs)"
proof -
  let ?us = "utf16_encode rs"
  have ne: "?us \<noteq> []" using assms(2) by (cases rs) (auto simp: utf16_units_def Let_def)
  then obtain us u where snoc: "?us = us @ [u]" by (cases ?us rule: rev_cases) auto
  have "last (ucs2_bytes ?us) = of_nat u" unfolding snoc by simp
  moreover have "\<not> padding_low u" using assms(3) unfolding snoc by simp
  ultimately have "\<not> padding_byte (last (ucs2_bytes ?us))" by (simp only: padding_of_nat not_False_eq_True)
  then have t: "trimSIMPadding (ucs2_bytes ?us @ replicate k 0xFF) = ucs2_bytes ?us"
    unfolding trim_padding by (intro trim_last disjI2)
  have "ucs2_bytes ?us \<noteq> []" using ne by simp
  moreover have "big_endian_units (ucs2_bytes ?us) = ?us" by (rule units_of_bytes) (auto dest: utf16_encode_small)
  ultimately show ?thesis using utf16_round_trip [OF assms(1)] unfolding decodeSPNUCS2_def t by (simp add: Let_def)
qed

text \<open>A name whose last character has a code unit of the form \<open>xx00\<close> or \<open>xxFF\<close> loses half of it to the
  trimming, and then it is no name at all.\<close>

theorem ucs2_name_lost:
  assumes "u < 65536" and "padding_low u" and "u div 256 \<noteq> 0" and "u div 256 \<noteq> 255"
  shows "DecodeEFSPN gsm7 (d # 0x80 # ucs2_bytes (us @ [u]) @ replicate k 0xFF) = None"
proof -
  have "u div 256 < 256" using assms(1) by auto
  then have h: "\<not> padding_byte (of_nat (u div 256))" using assms(3,4) by (simp add: padding_of_nat padding_low_def)
  have l: "padding_byte (of_nat u)" using assms(2) by (simp add: padding_of_nat)
  let ?n = "0x80 # ucs2_bytes us @ [of_nat (u div 256)]"
  have "trimSIMPadding ((?n @ [of_nat u]) @ replicate k 0xFF) = ?n"
    unfolding trim_padding by (simp only: trim_snoc l if_True) (use h in \<open>simp add: trim_last\<close>)
  moreover have "decodeSPNUCS2 (drop 1 ?n) = None"
    using h by (simp add: decodeSPNUCS2_def trim_last Let_def) 
  ultimately show ?thesis by (simp add: DecodeEFSPN_def decode_alpha_def Let_def)
qed

subsection \<open>Packed septets\<close>

text \<open>The bytes as one little-endian number, whose digits to the base 128 are the septets.\<close>

fun le_value :: "byte list \<Rightarrow> nat" where
  "le_value [] = 0"
| "le_value (b # bs) = unat b + 256 * le_value bs"

definition septet_at :: "nat \<Rightarrow> nat \<Rightarrow> nat" where
  "septet_at v k = v div 128 ^ k mod 128"

lemma septet_at_0: "septet_at v 0 = v mod 128"
  by (simp add: septet_at_def)

lemma septet_at_Suc: "septet_at v (Suc k) = septet_at (v div 128) k"
  by (simp add: septet_at_def div_mult2_eq)

lemma take_septets_value:
  "take_septets n bits buf =
     (let m = min n (bits div 7) in (bits - 7 * m, buf div 128 ^ m, map (septet_at buf) [0 ..< m]))"
proof (induction n arbitrary: bits buf)
  case (Suc n)
  show ?case
  proof (cases "bits < 7")
    case False
    let ?m = "min n ((bits - 7) div 7)"
    have m: "min (Suc n) (bits div 7) = Suc ?m" using False by (simp add: le_div_geq)
    have "map (septet_at buf) [0 ..< Suc ?m] = buf mod 128 # map (septet_at (buf div 128)) [0 ..< ?m]"
      by (simp only: map_upt_Suc septet_at_0 septet_at_Suc)
    then show ?thesis
      unfolding take_septets.simps(2) Suc.IH Let_def m
      using False by (simp add: div_mult2_eq del: upt_Suc)
  qed simp
qed simp

text \<open>High bits do not matter below them, and dropping septets drops them from the number.\<close>

lemma septet_at_low:
  assumes "7 * Suc k \<le> j"
  shows "septet_at (v + 2 ^ j * w) k = septet_at v k"
proof -
  obtain i where j: "j = 7 * k + (7 + i)" using assms by (auto simp: le_iff_add algebra_simps)
  have "(2::nat) ^ j = 128 ^ k * (128 * 2 ^ i)" by (simp add: j power_add power_mult)
  then have "v + 2 ^ j * w = 128 ^ k * (128 * (2 ^ i * w)) + v" by (simp add: mult.assoc)
  then have "(v + 2 ^ j * w) div 128 ^ k = 128 * (2 ^ i * w) + v div 128 ^ k"
    by (simp only: div_mult_self4 power_not_zero zero_neq_numeral not_False_eq_True)
  then show ?thesis by (simp add: septet_at_def)
qed

lemma drop_septets:
  assumes "7 * m \<le> j"
  shows "((v::nat) + 2 ^ j * w) div 128 ^ m = v div 128 ^ m + 2 ^ (j - 7 * m) * w"
proof -
  obtain i where j: "j = 7 * m + i" using assms by (auto simp: le_iff_add)
  have "(2::nat) ^ j = 128 ^ m * 2 ^ i" by (simp add: j power_add power_mult)
  then have "v + 2 ^ j * w = 128 ^ m * (2 ^ i * w) + v" by (simp add: mult.assoc)
  then have "(v + 2 ^ j * w) div 128 ^ m = 2 ^ i * w + v div 128 ^ m"
    by (simp only: div_mult_self4 power_not_zero zero_neq_numeral not_False_eq_True)
  then show ?thesis by (simp add: j)
qed

lemma septet_at_add: "septet_at v (m + k) = septet_at (v div 128 ^ m) k"
  by (simp add: septet_at_def power_add div_mult2_eq)

lemma unpack_value:
  assumes "7 * n \<le> bits + 8 * length data" and "n = 0 \<or> bits < 7"
  shows "unpack_septets n bits buf data = map (septet_at (buf + 2 ^ bits * le_value data)) [0 ..< n]"
  using assms
proof (induction data arbitrary: n bits buf)
  case (Cons b bs)
  let ?b = "bits + 8" and ?f = "buf + unat b * 2 ^ bits"
  define m where "m = min n (?b div 7)"
  let ?v = "buf + 2 ^ bits * le_value (b # bs)"
  have v: "?v = ?f + 2 ^ ?b * le_value bs" by (simp add: power_add algebra_simps)
  have mb: "7 * m \<le> ?b" and mn: "m \<le> n" unfolding m_def by linarith+
  have t: "take_septets n ?b ?f = (?b - 7 * m, ?f div 128 ^ m, map (septet_at ?f) [0 ..< m])"
    by (simp only: take_septets_value Let_def m_def)
  have low: "map (septet_at ?f) [0 ..< m] = map (septet_at ?v) [0 ..< m]"
    unfolding v by (intro map_cong refl septet_at_low [symmetric]) (use mb in auto)
  have high: "?f div 128 ^ m + 2 ^ (?b - 7 * m) * le_value bs = ?v div 128 ^ m"
    unfolding v by (rule drop_septets [OF mb, symmetric])
  have rest: "7 * (n - m) \<le> (?b - 7 * m) + 8 * length bs" using Cons.prems(1) mb mn by simp
  have small: "n - m = 0 \<or> ?b - 7 * m < 7" unfolding m_def by linarith
  have "unpack_septets n bits buf (b # bs) =
      map (septet_at ?v) [0 ..< m] @ map (septet_at (?v div 128 ^ m)) [0 ..< n - m]"
    unfolding unpack_septets.simps t prod.case low length_map length_upt
    using Cons.IH [OF rest small, of "?f div 128 ^ m"] unfolding high by simp
  also have "map (septet_at (?v div 128 ^ m)) [0 ..< n - m] = map (septet_at ?v) [m ..< n]"
    using mn by (intro nth_equalityI) (simp_all add: septet_at_add)
  also have "map (septet_at ?v) [0 ..< m] @ map (septet_at ?v) [m ..< n] = map (septet_at ?v) [0 ..< n]"
    using mn upt_add_eq_append [of 0 m "n - m"] by (simp flip: map_append)
  finally show ?case .
qed auto

text \<open>Septets packed as TS 23.038 packs them.\<close>

fun septet_value :: "nat list \<Rightarrow> nat" where
  "septet_value [] = 0"
| "septet_value (s # ss) = s + 128 * septet_value ss"

fun le_bytes :: "nat \<Rightarrow> nat \<Rightarrow> byte list" where
  "le_bytes 0 v = []"
| "le_bytes (Suc n) v = of_nat v # le_bytes n (v div 256)"

definition pack_septets :: "nat list \<Rightarrow> byte list" where
  "pack_septets ss = le_bytes ((7 * length ss + 7) div 8) (septet_value ss)"

lemma length_le_bytes [simp]: "length (le_bytes n v) = n"
  by (induction n arbitrary: v) simp_all

lemma le_value_bytes: "v < 256 ^ n \<Longrightarrow> le_value (le_bytes n v) = v"
proof (induction n arbitrary: v)
  case (Suc n)
  have "v div 256 < 256 ^ n" using Suc.prems by (simp add: less_mult_imp_div_less mult.commute)
  then show ?case by (simp add: Suc.IH)
qed simp

lemma septet_value_less: "list_all (\<lambda>s. s < 128) ss \<Longrightarrow> septet_value ss < 128 ^ length ss"
  by (induction ss) auto

lemma septet_value_at:
  "list_all (\<lambda>s. s < 128) ss \<Longrightarrow> map (septet_at (septet_value ss)) [0 ..< length ss] = ss"
proof (induction ss)
  case (Cons s ss)
  then have "septet_value (s # ss) div 128 = septet_value ss" "septet_value (s # ss) mod 128 = s" by simp_all
  then show ?case
    using Cons unfolding length_Cons map_upt_Suc septet_at_0 septet_at_Suc by simp
qed simp

theorem septets_round_trip:
  assumes "list_all (\<lambda>s. s < 128) ss"
  shows "unpack_septets (length ss) 0 0 (pack_septets ss) = ss"
proof -
  let ?l = "(7 * length ss + 7) div 8"
  have l: "7 * length ss \<le> 8 * ?l" by linarith
  have "septet_value ss < 2 ^ (7 * length ss)" using septet_value_less [OF assms] by (simp add: power_mult)
  also have "\<dots> \<le> 2 ^ (8 * ?l)" using l by (rule power_increasing) simp
  finally have "le_value (pack_septets ss) = septet_value ss"
    by (simp add: pack_septets_def le_value_bytes power_mult)
  then show ?thesis
    using unpack_value [of "length ss" 0 "pack_septets ss" 0] l septet_value_at [OF assms]
    by (simp add: pack_septets_def)
qed

subsection \<open>Operator records\<close>

text \<open>A record of EF_OPL as TS 31.102 lays it out; \<open>mnc\<close> has two or three digits.\<close>

definition plmn_bytes :: "nat list \<Rightarrow> nat list \<Rightarrow> byte list" where
  "plmn_bytes mcc mnc =
     [of_nat (mcc ! 0 + 16 * mcc ! 1),
      of_nat (mcc ! 2 + 16 * (if length mnc = 3 then mnc ! 2 else 15)),
      of_nat (mnc ! 0 + 16 * mnc ! 1)]"

definition plmn_fits :: "nat list \<Rightarrow> nat list \<Rightarrow> bool" where
  "plmn_fits mcc mnc \<longleftrightarrow>
     length mcc = 3 \<and> (length mnc = 2 \<or> length mnc = 3) \<and> list_all (\<lambda>d. d < 10) mcc \<and> list_all (\<lambda>d. d < 10) mnc"

lemma high_nibble_value:
  assumes "d < 16" and "e < 16"
  shows "unat (drop_bit 4 (of_nat (d + 16 * e) :: byte)) = e"
proof -
  have "d + 16 * e < 256" using assms by linarith
  then have u: "unat (of_nat (d + 16 * e) :: byte) = d + 16 * e" by (simp only: unat_of_nat_byte mod_less)
  show ?thesis unfolding unat_drop_bit_eq u using assms(1) by (simp add: drop_bit_eq_div)
qed

lemma plmn_digits_nibbles:
  "unat n < 10 \<Longrightarrow> plmn_digits (n # ns) = map_option ((#) (byte_char (48 + unat n))) (plmn_digits ns)"
  "unat n = 15 \<Longrightarrow> plmn_digits (n # ns) = map_option ((#) CHR ''x'') (plmn_digits ns)"
  by (auto simp: word_unat_eq_iff word_less_nat_alt)

lemma digit_not_x: "d < 10 \<Longrightarrow> byte_char (48 + d) \<noteq> CHR ''x''"
  using char_code_byte_char [of "48 + d"] by auto

lemma plmn_round_trip:
  assumes "plmn_fits mcc mnc"
  shows "decodeOPLPLMN (plmn_bytes mcc mnc @ rest) = digit_text (mcc @ mnc)"
proof -
  obtain a b c where m: "mcc = [a, b, c]" using assms
    by (auto simp: plmn_fits_def length_Suc_conv numeral_3_eq_3)
  have d: "a < 10" "b < 10" "c < 10" using assms by (simp_all add: plmn_fits_def m)
  consider (two) e f where "mnc = [e, f]" | (three) e f g where "mnc = [e, f, g]"
    using assms by (auto simp: plmn_fits_def length_Suc_conv numeral_3_eq_3 numeral_2_eq_2)
  then show ?thesis
  proof cases
    case two
    then have e: "e < 10" "f < 10" using assms by (simp_all add: plmn_fits_def)
    note n = nibbles [of a b] nibbles [of c 15] nibbles [of e f]
      high_nibble_value [of a b] high_nibble_value [of c 15] high_nibble_value [of e f]
    show ?thesis using d e n two
      by (simp add: decodeOPLPLMN_def plmn_bytes_def m plmn_digits_nibbles digit_text_def digit_not_x
          del: plmn_digits.simps(2) of_nat_add of_nat_mult)
  next
    case three
    then have e: "e < 10" "f < 10" "g < 10" using assms by (simp_all add: plmn_fits_def)
    note n = nibbles [of a b] nibbles [of c g] nibbles [of e f]
      high_nibble_value [of a b] high_nibble_value [of c g] high_nibble_value [of e f]
    show ?thesis using d e n three
      by (simp add: decodeOPLPLMN_def plmn_bytes_def m plmn_digits_nibbles digit_text_def digit_not_x
          del: plmn_digits.simps(2) of_nat_add of_nat_mult)
  qed
qed

definition opl_bytes :: "nat list \<Rightarrow> nat list \<Rightarrow> u16 \<Rightarrow> u16 \<Rightarrow> byte \<Rightarrow> byte list" where
  "opl_bytes mcc mnc first last_lac pnn = plmn_bytes mcc mnc @ put16 first @ put16 last_lac @ [pnn]"

theorem opl_round_trip:
  assumes "plmn_fits mcc mnc" and "\<not> padding_byte pnn"
  shows "DecodeOPLRecord n (opl_bytes mcc mnc a z pnn @ replicate k 0xFF) =
    Some \<lparr> opl_record = n, opl_plmn = digit_text (mcc @ mnc), LACStart = a, LACEnd = z,
           opl_pnn = int (unat pnn), opl_raw = ToUpper (hex_encode (opl_bytes mcc mnc a z pnn)) \<rparr>"
proof -
  let ?d = "opl_bytes mcc mnc a z pnn"
  have t: "trimSIMPadding (?d @ replicate k 0xFF) = ?d"
    unfolding trim_padding by (rule trim_last) (simp add: opl_bytes_def assms(2))
  have len: "length ?d = 8" by (simp add: opl_bytes_def plmn_bytes_def)
  have "take 3 ?d = plmn_bytes mcc mnc @ []" by (simp add: opl_bytes_def plmn_bytes_def)
  then have p: "decodeOPLPLMN (take 3 ?d) = digit_text (mcc @ mnc)" by (simp only: plmn_round_trip [OF assms(1)])
  have "[?d ! 3, ?d ! 4] = put16 a" "[?d ! 5, ?d ! 6] = put16 z" "?d ! 7 = pnn"
    by (simp_all add: opl_bytes_def plmn_bytes_def be_bytes_2 nth_append)
  then have w: "get16 [?d ! 3, ?d ! 4] = a" "get16 [?d ! 5, ?d ! 6] = z" "?d ! 7 = pnn" by simp_all
  have "digit_text (mcc @ mnc) \<noteq> []" using assms(1) by (auto simp: digit_text_def plmn_fits_def)
  then show ?thesis
    unfolding DecodeOPLRecord_def Let_def simRawHex_def t len p w by simp
qed

text \<open>PNN identifier 0 means that the name comes from elsewhere (TS 31.102, EF_OPL); such a record is
  cut short and dropped.\<close>

theorem opl_without_name_dropped:
  assumes "length mcc = 3"
  shows "DecodeOPLRecord n (opl_bytes mcc mnc a z 0 @ replicate k 0xFF) = None"
proof -
  let ?d = "plmn_bytes mcc mnc @ put16 a @ put16 z"
  have shorter: "length (trimSIMPadding xs) \<le> length xs" for xs
    by (simp add: trimSIMPadding_def length_dropWhile_le [of _ "rev xs", simplified])
  have "trimSIMPadding (opl_bytes mcc mnc a z 0 @ replicate k 0xFF) = trimSIMPadding ((?d) @ [0])"
    unfolding trim_padding by (simp add: opl_bytes_def)
  also have "\<dots> = trimSIMPadding ?d" by (simp only: trim_snoc) (simp add: padding_byte_def)
  finally have "length (trimSIMPadding (opl_bytes mcc mnc a z 0 @ replicate k 0xFF)) \<le> 7"
    using shorter [of ?d] by (simp add: plmn_bytes_def)
  then show ?thesis by (simp add: DecodeOPLRecord_def Let_def)
qed

subsection \<open>Records of names\<close>












subsection \<open>The home network\<close>

theorem home_network_of_imsi:
  assumes "HomeMCCMNCFromIMSIAndEFAD imsi ad = Inr (mcc, mnc, n, src)"
  shows "prefix (mcc @ mnc) (TrimSpace imsi) \<and> length mcc = 3 \<and> length mnc = n \<and> (n = 2 \<or> n = 3) \<and>
    (src = IMSI_EFAD \<longleftrightarrow> MNCLengthFromEFAD ad = Some n)"
proof -
  let ?i = "TrimSpace imsi"
  have p: "prefix (take 3 ?i @ take k (drop 3 ?i)) ?i" for k
    by (metis append_take_drop_id prefix_def append.assoc)
  have l: "5 \<le> length ?i" using assms by (auto simp: HomeMCCMNCFromIMSIAndEFAD_def Let_def split: if_splits)
  show ?thesis
  proof (cases "MNCLengthFromEFAD ad")
    case None
    let ?k = "if take 3 ?i \<in> set three_digit_mcc then 3 else 2"
    have "mcc = take 3 ?i" "mnc = take ?k (drop 3 ?i)" "n = length mnc" "src = IMSIHeuristic"
      using assms l None
      by (auto simp: HomeMCCMNCFromIMSIAndEFAD_def parseMCCMNCFromIMSI_def Let_def split: if_splits)
    then show ?thesis using p l None by auto
  next
    case (Some j)
    then have "j = 2 \<or> j = 3" by (auto simp: MNCLengthFromEFAD_def split: if_splits)
    then show ?thesis using assms p l Some
      by (auto simp: HomeMCCMNCFromIMSIAndEFAD_def Let_def split: if_splits)
  qed
qed

subsection \<open>Examples\<close>



end
