(* ===== verification/Spec2Isabelle.thy ===== *)
theory Spec2Isabelle
  imports EspLink ProtectedMss SecMechanism SipFramer SmsCodec MbimUicc MbimMonitor ApduArbiter VoWifiStore IkeProposal SimFiles BinarySms AtManager SimMetadata
begin

section \<open>Shannon IMS: the verified core\<close>

text \<open>
  Shannon IMS manages cellular modules (over MBIM, QMI and AT commands) and runs a Wi-Fi Calling
  stack: an IKEv2 tunnel to the operator, an IMS registration protected by IPsec as 3GPP TS 33.203
  asks for, and SMS, USSD and voice on top.  This development models, in Isabelle/HOL, the parts
  of the Go program that carry protocol logic of their own, as executable definitions, and proves
  what makes them correct.

  \<^bold>\<open>Layers.\<close>  A SIP message of the IMS core leaves through the transport of \<^verbatim>\<open>ipsec3gpp\<close>,
  which turns TCP and UDP packets into ESP packets under the policy that the security agreement
  negotiated; bytes that come back are checked, stripped and cut into SIP messages.  An SMS is an RP
  message inside such a SIP message.  On the other side, the modem is spoken to in MBIM messages:
  a transport frames them, a device matches responses to transactions, a monitor folds indications
  into a snapshot, and the services above build requests and parse information buffers, some of
  which tunnel QMI messages to the card.

  \<^bold>\<open>Prelude.\<close>
  \<^item> \<open>GoPrelude\<close>: machine integers, results with an error value (\<open>res_bind\<close>), big-endian codecs,
    slices, and the locale \<open>wire_codec\<close>.
  \<^item> \<open>GoText\<close>, \<open>GoNumbers\<close>, \<open>GoRunes\<close>: what the program uses of Go's \<^verbatim>\<open>strings\<close>,
    \<^verbatim>\<open>bytes\<close>, \<^verbatim>\<open>strconv\<close>, \<^verbatim>\<open>unicode/utf8\<close> and \<^verbatim>\<open>unicode/utf16\<close>.

  \<^bold>\<open>IPsec for IMS\<close>, \<^verbatim>\<open>src/vowifi-go/internal/vowifi/ipsec3gpp\<close>.
  \<^item> \<open>ReplayWindow\<close> (\<^verbatim>\<open>replay.go\<close>): the 64-bit anti-replay bitmap.  It refines the window that
    remembers every accepted number; nothing is accepted twice.
  \<^item> \<open>IpPacket\<close> (\<^verbatim>\<open>transport.go\<close>): parsing and rebuilding of IPv4 and IPv6 packets with extension
    header chains and the IPv4 checksum.  Rebuilding and parsing are inverse; checksums verify.
  \<^item> \<open>EspCrypto\<close> (\<^verbatim>\<open>keys.go\<close>, \<^verbatim>\<open>algorithms.go\<close>, encapsulation of \<^verbatim>\<open>transport.go\<close>, the
    association of \<^verbatim>\<open>swu-go\<close>): the block ciphers and digests of Go's library are the parameter
    \<open>crypto_prims\<close> with the law that decryption inverts encryption.  Encapsulation and
    decapsulation are inverse, only authentic packets decapsulate, derived keys fit.
  \<^item> \<open>EspTransport\<close>, \<open>EspLink\<close> (\<^verbatim>\<open>policy.go\<close>, \<^verbatim>\<open>transport.go\<close>): policies, flows and both
    transforms with their statistics.  No packet is delivered twice, only authenticated packets move
    a window, every packet is counted once, and two ends built from one negotiation exchange packets.
  \<^item> \<open>SecMechanism\<close> (\<^verbatim>\<open>mechanism.go\<close>): the headers that carry the negotiation.  Formatting and
    parsing are inverse up to canonical names, and a mechanism that went through a header gives the
    same policy.
  \<^item> \<open>ProtectedMss\<close> (\<^verbatim>\<open>protected_mss.go\<close>): the segment size that keeps an ESP packet within the
    tunnel is the largest one; the predicted length is the length that \<open>encapsulateTransport\<close>
    makes; clamping a handshake changes the MSS and the checksum only.

  \<^bold>\<open>IMS messages.\<close>
  \<^item> \<open>SipFramer\<close> (\<^verbatim>\<open>imscore/sip_stream_framer.go\<close>): cutting the byte stream into messages does
    not depend on how reads cut it, is exact on streams of valid messages, and keeps its bounds.
  \<^item> \<open>SmsCodec\<close> (\<^verbatim>\<open>pkg/smscodec/pdu.go\<close>): RP messages and BCD addresses and their round trips.
  \<^item> \<open>SmsReassembly\<close> (\<^verbatim>\<open>reassembler.go\<close>, \<^verbatim>\<open>pdu_trim.go\<close>): a long message is complete with its last
    missing part whatever the order of arrival; a late retransmission gets into the next message, which is
    a defect.  Trimming a PDU is idempotent, clearing spare bits changes no septet.
  \<^item> \<open>Wbxml\<close> (\<^verbatim>\<open>wbxml_omacp.go\<close>): OMA provisioning documents.  Parsing returns for every input, a located
    document has a readable header, documents are read back.
  \<^item> \<open>BinarySms\<close> (\<^verbatim>\<open>binary_classifier.go\<close>, \<^verbatim>\<open>DecodeDeliverTPDU\<close>): the third-party TPDU decoder is a
    record of functions.  The text of a delivery is valid UTF-8; WAP pushes on their standard port are
    taken for provisioning, and service loadings for service indications, which are defects.

  \<^bold>\<open>IKEv2\<close>, \<^verbatim>\<open>src/vowifi-go/runtimehost/ikev2\<close>.
  \<^item> \<open>IkeCodec\<close> (\<^verbatim>\<open>header.go\<close>, \<^verbatim>\<open>packet.go\<close>, \<^verbatim>\<open>payload*.go\<close>): messages and their payloads.
    Decoding inverts encoding; a payload length below 4 makes the decoder panic, and nothing else does.
  \<^item> \<open>IkeProposal\<close> (\<^verbatim>\<open>proposal_match.go\<close>, \<^verbatim>\<open>nat_detection.go\<close>): the choice of a proposal is the
    first acceptable one with the last supported algorithm of each type, which is not the priority the
    comments promise; a cipher without integrity is accepted; own offers are read back and chosen.

  \<^bold>\<open>MBIM\<close>, \<^verbatim>\<open>src/pkg/mbim\<close>.
  \<^item> \<open>MbimWire\<close> (\<^verbatim>\<open>message.go\<close>, \<^verbatim>\<open>fragment.go\<close>, \<^verbatim>\<open>transport.go\<close>): headers, fragmentation
    and reassembly, framing.  A command of any size is reassembled from its fragments, each within
    the negotiated size; framing does not depend on the reads.
  \<^item> \<open>MbimInfo\<close> (\<^verbatim>\<open>databuffer.go\<close>), \<open>MbimServices\<close> (Basic Connect, SMS, USSD, device services),
    \<open>MbimUicc\<close> (channels, files, authentication, QMI through MBIM): a slice or index out of range
    is the error \<open>SlicePanic\<close>, and no parser can return it; what requests carry is read back from
    the places their own references name; the client of a QMI service is always released.
    The device is a function from requests to responses, for QMI with a state.
  \<^item> \<open>MbimDevice\<close> (\<^verbatim>\<open>device.go\<close>): the goroutines as a step relation whose steps are the critical
    sections, so that an interleaving is a sequence of steps.  In every reachable state each channel
    was answered at most once and for its own transaction; a response is not disturbed by other
    messages; an indication that is interrupted blocks those after it, which is a defect.
  \<^item> \<open>MbimMonitor\<close> (\<^verbatim>\<open>snapshot.go\<close>): snapshot and callbacks, driven by messages of the transport.

  \<^bold>\<open>AT modems\<close>, \<^verbatim>\<open>src/internal/modem\<close>.
  \<^item> \<open>AtParse\<close> (\<^verbatim>\<open>at_parse.go\<close>, \<^verbatim>\<open>operator_name.go\<close>, \<^verbatim>\<open>operator_selection.go\<close>): every parser of a
    response.  Selected operators, files of the card and decimal digits are read back; the last operator
    of a scan loses its technology and a card that is not ready counts as inserted, which are defects.
  \<^item> \<open>AtChannel\<close> (\<^verbatim>\<open>at_stream_parser.go\<close>, \<^verbatim>\<open>urc_format.go\<close>): lines do not depend on the reads and
    are those that splitting the text gives; lines and responses keep their bounds.
  \<^item> \<open>AtManager\<close> (\<^verbatim>\<open>manager.go\<close>: \<^verbatim>\<open>readLoop\<close>, \<^verbatim>\<open>runLoop\<close>, \<^verbatim>\<open>handleCommand\<close>, \<^verbatim>\<open>handleURC\<close>): the
    goroutines as a step relation.  Requests are answered once, unsolicited lines do not get into
    answers, and nothing is sent on a stream that was quarantined; so the watchdog for repeated timeouts
    never trips.  A line with \<open>>\<close> in it shifts the answers, a query of the card releases those who wait
    for a restart, and the loss of the port during a command goes unnoticed: defects.
  \<^item> \<open>SimMetadata\<close> (\<^verbatim>\<open>spn.go\<close>, \<^verbatim>\<open>sim_metadata.go\<close>): names and records of the SIM.  UCS2 names,
    packed septets, operator and name records are read back, except names that end in a byte that looks
    like padding and operator records without a name, which are dropped: defects.

  \<^bold>\<open>The card.\<close>  The modem is an arbitrary function of its state, with a recording one for the theorems.
  \<^item> \<open>SimAka\<close> (\<^verbatim>\<open>internal/sim\<close>, \<^verbatim>\<open>engine/swu/akabridge\<close>): an AKA challenge goes over a logical channel
    to the USIM or the ISIM, or to the authentication service of an MBIM modem, and the answer to the IKE
    daemon.  Channels are closed and few commands sent whatever the modem answers; responses are read
    back; the token of a synchronisation failure is lost on MBIM modems, which is a defect.
  \<^item> \<open>SimFiles\<close> (\<^verbatim>\<open>internal/simaid\<close>, \<^verbatim>\<open>internal/sim/efdir.go\<close>, parts of
    \<^verbatim>\<open>internal/modem/commands.go\<close>): TLV objects, both readers of EF_DIR, file control parameters.
    Trees of objects are read back; the readers agree; reading is bounded for every card.  A long length
    makes one reader panic, and a corrected command loses a byte of its data: defects.

  \<^bold>\<open>Sharing the card.\<close>
  \<^item> \<open>ApduArbiter\<close> (\<^verbatim>\<open>internal/apduarbiter/arbiter.go\<close>): leases of a card, barriers, priorities,
    watchdogs and recovery; goroutines wait on a channel that each change closes, which is the number
    of signals.  Access is exclusive in every reachable state; a free card has a goroutine awake for
    it, except after aging, where a wake-up is lost; a lease released during a recovery that fails
    locks the card for ever.  The last two are defects.

  \<^bold>\<open>Runtimes.\<close>
  \<^item> \<open>VoWifiStore\<close> (\<^verbatim>\<open>internal/vowifihost\<close>: \<^verbatim>\<open>store.go\<close>, \<^verbatim>\<open>recover_state.go\<close>, the store's part of the
    other files): which start owns a device, which life-cycle command runs, which recovery is
    planned.  In every interleaving a start gets its device iff it was not invalidated meanwhile;
    a forgotten recovery has no effect any more.  A teardown can lose the cancel function of the
    command that runs, which is a defect.

  \<^bold>\<open>Conventions.\<close>  Names are those of the source.  A Go slice is a list; a method is a function that
  returns the new state; an error is \<open>Inl\<close>; a loop is a recursive function whose measure Isabelle
  checks.  Only the element parser of \<open>Wbxml\<close>, whose recursion is nested, has fuel: twice the unread
  octets and three, which \<open>decode_elements_enough\<close> shows to be enough.  Integers are words of their width where the source relies on
  it, otherwise \<open>nat\<close> or \<open>int\<close> below the bounds that hypotheses such as \<open>request_fits\<close> name (every
  one of them has a witness).  Ghost fields record what was accepted or answered.

  \<^bold>\<open>Not modelled.\<close>  Sockets, files, timers, logging and contexts; the sizes of allocations; a nil
  receiver.  Of the packages above: the user-space TCP stack and the link pump of
  \<^verbatim>\<open>ipsec3gpp\<close> (gVisor and goroutines), the registration dialogue of \<^verbatim>\<open>imscore\<close> (the SIP library),
  the TPDU codec (a third-party library), opening of MBIM devices.  The packages that orchestrate
  the modems, the eSIM manager, the HTTP interface, the database and the front end are left out.
  Of \<^verbatim>\<open>internal/modem\<close>: opening of the port, collection of device information, USB audio.
\<close>

end
